(* ===== verification/Prelude.thy ===== *)
theory Prelude
  imports Main "HOL-Library.Word"
begin

text \<open>
  The shared vocabulary of the development: the machine integer types of
  \<^verbatim>\<open>libdevcore/Common.h\<close>, results with an error (an exception of the C++ code is the left
  summand), the big-endian reading of a byte string as a natural number, and the generic
  lemmas on lists and words the components share.
\<close>

section \<open>Types\<close>

type_synonym byte = "8 word"
type_synonym bytes = "byte list"
type_synonym u32 = "32 word"
type_synonym u64 = "64 word"
type_synonym u160 = "160 word"
type_synonym u256 = "256 word"
type_synonym u512 = "512 word"
type_synonym h256 = "256 word"
type_synonym address = "160 word"

named_theorems rlp_simps "unfolding rules of the RLP reader and writer"
named_theorems vm_simps "unfolding rules of the interpreter"

section \<open>Sequencing of fallible computations\<close>

fun sum_bind :: "'e + 'a \<Rightarrow> ('a \<Rightarrow> 'e + 'b) \<Rightarrow> 'e + 'b" where
  "sum_bind (Inl e) f = Inl e"
| "sum_bind (Inr x) f = f x"

lemma sum_bind_eq_Inr [simp]:
  "sum_bind m f = Inr y \<longleftrightarrow> (\<exists>x. m = Inr x \<and> f x = Inr y)"
  by (cases m) auto

lemma sum_bind_eq_Inl [simp]:
  "sum_bind m f = Inl e \<longleftrightarrow> m = Inl e \<or> (\<exists>x. m = Inr x \<and> f x = Inl e)"
  by (cases m) auto

lemma sum_bind_assoc [simp]:
  "sum_bind (sum_bind m f) g = sum_bind m (\<lambda>x. sum_bind (f x) g)"
  by (cases m) auto

lemma sum_bind_Inr [simp]: "sum_bind m Inr = m"
  by (cases m) auto

lemma sum_bind_cong [fundef_cong]:
  "m = m' \<Longrightarrow> (\<And>x. m' = Inr x \<Longrightarrow> f x = f' x) \<Longrightarrow> sum_bind m f = sum_bind m' f'"
  by (cases m') auto

section \<open>Byte strings as numbers\<close>

text \<open>The value of a byte string read most significant byte first.\<close>

definition be_nat :: "bytes \<Rightarrow> nat" where
  "be_nat bs = foldl (\<lambda>n b. n * 256 + unat b) 0 bs"

lemma be_nat_Nil [simp]: "be_nat [] = 0"
  by (simp add: be_nat_def)

lemma foldl_be_shift:
  "foldl (\<lambda>n b. n * 256 + unat (b :: byte)) a bs = a * 256 ^ length bs + be_nat bs"
proof (induction bs arbitrary: a rule: rev_induct)
  case Nil
  then show ?case by simp
next
  case (snoc b bs)
  have "foldl (\<lambda>n b. n * 256 + unat (b :: byte)) a (bs @ [b]) =
      (a * 256 ^ length bs + be_nat bs) * 256 + unat b"
    using snoc.IH [of a] by simp
  also have "be_nat (bs @ [b]) = be_nat bs * 256 + unat b"
    by (simp add: be_nat_def)
  ultimately show ?case by (simp add: algebra_simps)
qed

lemma be_nat_snoc [simp]: "be_nat (bs @ [b]) = be_nat bs * 256 + unat b"
  by (simp add: be_nat_def)

lemma be_nat_append: "be_nat (as @ bs) = be_nat as * 256 ^ length bs + be_nat bs"
  using foldl_be_shift [of "be_nat as" bs] by (simp add: be_nat_def)

lemma be_nat_Cons: "be_nat (b # bs) = unat b * 256 ^ length bs + be_nat bs"
  using be_nat_append [of "[b]" bs] by (simp add: be_nat_def)

lemma unat_byte_less [simp]: "unat (b :: byte) < 256"
  using unsigned_less [of b] by simp

lemma be_nat_bound: "be_nat bs < 256 ^ length bs"
proof (induction bs rule: rev_induct)
  case Nil
  then show ?case by simp
next
  case (snoc b bs)
  have "unat b \<le> 255"
    using unat_byte_less [of b] by linarith
  moreover have "be_nat bs + 1 \<le> 256 ^ length bs"
    using snoc.IH by simp
  then have "be_nat bs * 256 + 256 \<le> 256 ^ length bs * 256"
    by simp
  ultimately show ?case by simp
qed

lemma be_nat_pos: "bs \<noteq> [] \<Longrightarrow> hd bs \<noteq> 0 \<Longrightarrow> 256 ^ (length bs - 1) \<le> be_nat bs"
proof (cases bs)
  case (Cons b cs)
  assume "hd bs \<noteq> 0"
  with Cons have "1 \<le> unat b"
    by (simp add: Suc_le_eq unat_gt_0)
  then have "1 * 256 ^ length cs \<le> unat b * 256 ^ length cs"
    by (rule mult_le_mono1)
  then have "256 ^ length cs \<le> unat b * 256 ^ length cs + be_nat cs"
    by linarith
  with Cons show ?thesis by (simp add: be_nat_Cons)
qed simp

lemma be_nat_inj:
  "length as = length bs \<Longrightarrow> be_nat as = be_nat bs \<Longrightarrow> as = bs"
proof (induction as arbitrary: bs rule: rev_induct)
  case Nil
  then show ?case by simp
next
  case (snoc a as)
  then obtain bs' b where bs: "bs = bs' @ [b]"
    by (cases bs rule: rev_cases) auto
  from snoc.prems(2) have eq: "be_nat as * 256 + unat a = be_nat bs' * 256 + unat b"
    by (simp add: bs)
  have "unat a = (be_nat as * 256 + unat a) mod 256"
    by simp
  also have "\<dots> = unat b"
    by (simp add: eq)
  finally have b: "a = b"
    by (simp add: word_unat_eq_iff)
  with eq have "be_nat as = be_nat bs'"
    by simp
  with snoc bs b show ?case by simp
qed

section \<open>Lists\<close>

lemma nth_drop_hd: "i < length xs \<Longrightarrow> xs ! i = hd (drop i xs)"
  by (simp add: hd_drop_conv_nth)

lemma take_drop_split: "i + n \<le> length xs \<Longrightarrow>
    xs = take i xs @ take n (drop i xs) @ drop (i + n) xs"
  by (metis add.commute append_take_drop_id drop_drop)

lemma list_update_append_middle:
  "i = length xs \<Longrightarrow> (xs @ y # ys)[i := z] = xs @ z # ys"
  by simp

end
