(* ===== verification/CommonData.thy ===== *)
theory CommonData
  imports Prelude
begin

text \<open>
  \<^verbatim>\<open>libdevcore/CommonData.h\<close> and \<^verbatim>\<open>libdevcore/CommonData.cpp\<close>: the hex conversions, the
  big-endian conversions and the byte counting used by the RLP writer, and the byte-slice
  operations of \<^verbatim>\<open>libdevcore/vector_ref.h\<close>. The templates over an integer type are modelled on
  \<open>nat\<close> where the source only shifts right or masks (nothing can wrap) and on \<open>'a word\<close>
  where it shifts left.
\<close>

unbundle bit_operations_syntax

section \<open>Hex strings\<close>

datatype WhenError = DontThrow | Throw

datatype hex_error = BadHexCharacter

definition hexdigits :: string where
  "hexdigits = ''0123456789abcdef''"

text \<open>\<^verbatim>\<open>toHex(_it, _end, _prefix)\<close>.\<close>

fun toHexBytes :: "bytes \<Rightarrow> string" where
  "toHexBytes [] = []"
| "toHexBytes (b # bs) =
     hexdigits ! (unat (drop_bit 4 b AND 0x0f)) # hexdigits ! (unat (b AND 0x0f)) # toHexBytes bs"

definition toHex :: "bytes \<Rightarrow> string \<Rightarrow> string" where
  "toHex bs prefix = prefix @ toHexBytes bs"

text \<open>Character codes stand for C++ \<^verbatim>\<open>char\<close> comparisons: the ranges tested are ASCII.\<close>

definition fromHexChar :: "char \<Rightarrow> int" where
  "fromHexChar c = (let i = int (of_char c) in
     if 48 \<le> i \<and> i \<le> 57 then i - 48
     else if 97 \<le> i \<and> i \<le> 102 then i - 97 + 10
     else if 65 \<le> i \<and> i \<le> 70 then i - 65 + 10
     else - 1)"

definition isHex :: "string \<Rightarrow> bool" where
  "isHex s = list_all (\<lambda>c. fromHexChar c \<noteq> - 1)
     (if take 2 s = ''0x'' then drop 2 s else s)"

text \<open>
  The pair loop of \<^verbatim>\<open>fromHex\<close>. A single trailing character would be paired with the string's
  terminating NUL, which is no hex digit.
\<close>

fun fromHexPairs :: "string \<Rightarrow> WhenError \<Rightarrow> bytes \<Rightarrow> hex_error + bytes" where
  "fromHexPairs [] w ret = Inr ret"
| "fromHexPairs [c] w ret = (case w of Throw \<Rightarrow> Inl BadHexCharacter | DontThrow \<Rightarrow> Inr [])"
| "fromHexPairs (c # d # cs) w ret =
     (let h = fromHexChar c; l = fromHexChar d in
      if h \<noteq> - 1 \<and> l \<noteq> - 1 then fromHexPairs cs w (ret @ [word_of_int (h * 16 + l)])
      else case w of Throw \<Rightarrow> Inl BadHexCharacter | DontThrow \<Rightarrow> Inr [])"

definition fromHex :: "string \<Rightarrow> WhenError \<Rightarrow> hex_error + bytes" where
  "fromHex str w =
     (let s = (if 2 \<le> length str \<and> str ! 0 = CHR ''0'' \<and> str ! 1 = CHR ''x'' then 2 else 0);
          body = drop s str
      in if odd (length str)
         then (let h = fromHexChar (hd body) in
               if h \<noteq> - 1 then fromHexPairs (tl body) w [word_of_int h]
               else case w of Throw \<Rightarrow> Inl BadHexCharacter | DontThrow \<Rightarrow> Inr [])
         else fromHexPairs body w [])"

section \<open>Nibbles and big-endian integers\<close>

fun asNibbles :: "bytes \<Rightarrow> bytes" where
  "asNibbles [] = []"
| "asNibbles (b # bs) = b div 16 # b mod 16 # asNibbles bs"

text \<open>\<^verbatim>\<open>toBigEndian(_val, o_out)\<close> for an \<^verbatim>\<open>o_out\<close> of the given size, filled from its back.\<close>

fun toBigEndian :: "nat \<Rightarrow> nat \<Rightarrow> bytes" where
  "toBigEndian 0 v = []"
| "toBigEndian (Suc n) v = toBigEndian n (v div 256) @ [word_of_nat (v mod 256)]"

definition fromBigEndian :: "bytes \<Rightarrow> 'a::len word" where
  "fromBigEndian bs = foldl (\<lambda>ret i. push_bit 8 ret OR ucast i) 0 bs"

fun bytesRequired :: "nat \<Rightarrow> nat" where
  "bytesRequired i = (if i \<noteq> 0 then Suc (bytesRequired (i div 256)) else 0)"

declare bytesRequired.simps [simp del]

definition toCompactBigEndian :: "nat \<Rightarrow> nat \<Rightarrow> bytes" where
  "toCompactBigEndian v mn = toBigEndian (max mn (bytesRequired v)) v"

text \<open>\<^verbatim>\<open>commonPrefix(_t, _u)\<close>: the loop over \<open>i\<close> with its exit test.\<close>

fun commonPrefix :: "'a list \<Rightarrow> 'a list \<Rightarrow> nat" where
  "commonPrefix (t # ts) (u # us) = (if t \<noteq> u then 0 else Suc (commonPrefix ts us))"
| "commonPrefix _ _ = 0"

section \<open>Slices (vector_ref)\<close>

text \<open>
  A \<^verbatim>\<open>vector_ref\<close> is a pointer and a count. The pointer is modelled by its offset into the
  buffer it was made from, \<open>None\<close> is the null pointer. \<^verbatim>\<open>operator==\<close> compares pointer and
  count, so it is equality of this type for slices of one buffer.
\<close>

type_synonym vref = "(nat \<times> nat) option"

definition vref_size :: "vref \<Rightarrow> nat" where
  "vref_size r = (case r of None \<Rightarrow> 0 | Some (off, cnt) \<Rightarrow> cnt)"

definition cropped :: "vref \<Rightarrow> nat \<Rightarrow> nat \<Rightarrow> vref" where
  "cropped r b c = (case r of None \<Rightarrow> None
     | Some (off, cnt) \<Rightarrow>
        if b \<le> cnt \<and> c \<le> cnt \<and> b + c \<le> cnt then Some (off + b, c) else None)"

definition cropped_from :: "vref \<Rightarrow> nat \<Rightarrow> vref" where
  "cropped_from r b = (case r of None \<Rightarrow> None
     | Some (off, cnt) \<Rightarrow> if b \<le> cnt then Some (off + b, cnt - b) else None)"

definition vref_next :: "vref \<Rightarrow> vref" where
  "vref_next r = (case r of None \<Rightarrow> None | Some (off, cnt) \<Rightarrow> Some (off + cnt, cnt))"

text \<open>The bytes a slice shows.\<close>

definition view :: "bytes \<Rightarrow> vref \<Rightarrow> bytes" where
  "view buf r = (case r of None \<Rightarrow> [] | Some (off, cnt) \<Rightarrow> take cnt (drop off buf))"

section \<open>Lemmas: slices\<close>

lemma vref_size_simps [simp]:
  "vref_size None = 0" "vref_size (Some (off, cnt)) = cnt"
  by (simp_all add: vref_size_def)

lemma view_simps [simp]:
  "view buf None = []" "view buf (Some (off, cnt)) = take cnt (drop off buf)"
  by (simp_all add: view_def)

lemma cropped_Some:
  "cropped (Some (off, cnt)) b c = (if b + c \<le> cnt then Some (off + b, c) else None)"
  by (auto simp: cropped_def)

section \<open>Lemmas: big-endian conversions\<close>

lemma length_toBigEndian [simp]: "length (toBigEndian n v) = n"
  by (induction n arbitrary: v) auto

lemma be_nat_toBigEndian: "be_nat (toBigEndian n v) = v mod 256 ^ n"
proof (induction n arbitrary: v)
  case 0
  then show ?case by simp
next
  case (Suc n)
  have "be_nat (toBigEndian (Suc n) v) = v div 256 mod 256 ^ n * 256 + v mod 256"
    by (simp add: Suc.IH unat_of_nat)
  also have "\<dots> = v mod 256 ^ Suc n"
    by (simp add: mod_mult2_eq)
  finally show ?case .
qed

lemma toBigEndian_be_nat: "toBigEndian (length bs) (be_nat bs) = bs"
  by (rule be_nat_inj) (simp_all add: be_nat_toBigEndian be_nat_bound)

lemma bytesRequired_bound: "v < 256 ^ bytesRequired v"
proof (induction v rule: bytesRequired.induct)
  case (1 v)
  show ?case
  proof (cases "v = 0")
    case False
    with 1 have "v div 256 < 256 ^ bytesRequired (v div 256)" by simp
    then have "v < 256 * 256 ^ bytesRequired (v div 256)"
      by (simp add: less_mult_imp_div_less div_less_iff_less_mult mult.commute)
    with False show ?thesis by (simp add: bytesRequired.simps [of v])
  qed (simp add: bytesRequired.simps)
qed

lemma bytesRequired_least: "v < 256 ^ n \<Longrightarrow> bytesRequired v \<le> n"
proof (induction v arbitrary: n rule: bytesRequired.induct)
  case (1 v)
  show ?case
  proof (cases "v = 0")
    case False
    then obtain m where n: "n = Suc m"
      using "1.prems" by (cases n) auto
    have "v div 256 < 256 ^ m"
      using "1.prems" by (simp add: n less_mult_imp_div_less mult.commute)
    with "1.IH" False have "bytesRequired (v div 256) \<le> m" by simp
    with False n show ?thesis by (simp add: bytesRequired.simps [of v])
  qed (simp add: bytesRequired.simps)
qed

lemma bytesRequired_0 [simp]: "bytesRequired 0 = 0"
  by (simp add: bytesRequired.simps)

lemma bytesRequired_pos: "v \<noteq> 0 \<Longrightarrow> 0 < bytesRequired v"
  by (simp add: bytesRequired.simps)

lemma bytesRequired_be_nat: "bs \<noteq> [] \<Longrightarrow> hd bs \<noteq> 0 \<Longrightarrow> bytesRequired (be_nat bs) = length bs"
proof (rule antisym)
  show "bytesRequired (be_nat bs) \<le> length bs"
    by (rule bytesRequired_least) (rule be_nat_bound)
  assume "bs \<noteq> []" and "hd bs \<noteq> 0"
  then have "256 ^ (length bs - 1) \<le> be_nat bs" by (rule be_nat_pos)
  also have "\<dots> < 256 ^ bytesRequired (be_nat bs)" by (rule bytesRequired_bound)
  finally have "length bs - 1 < bytesRequired (be_nat bs)"
    using power_less_imp_less_exp by fastforce
  with \<open>bs \<noteq> []\<close> show "length bs \<le> bytesRequired (be_nat bs)" by linarith
qed

lemma toBigEndian_hd: "v \<noteq> 0 \<Longrightarrow> hd (toBigEndian (bytesRequired v) v) \<noteq> 0"
proof
  assume v: "v \<noteq> 0" and z: "hd (toBigEndian (bytesRequired v) v) = 0"
  obtain n where n: "bytesRequired v = Suc n"
    using bytesRequired_pos [OF v] by (cases "bytesRequired v") auto
  then obtain b bs where bs: "toBigEndian (bytesRequired v) v = b # bs" and len: "length bs = n"
    by (metis length_Suc_conv length_toBigEndian)
  have "be_nat (b # bs) = v"
    by (metis be_nat_toBigEndian bs bytesRequired_bound mod_less)
  moreover have "be_nat (b # bs) < 256 ^ n"
    using z bs be_nat_bound [of bs] by (simp add: be_nat_Cons len)
  ultimately have "bytesRequired v \<le> n"
    using bytesRequired_least by blast
  with n show False by simp
qed

lemma unat_push_or:
  fixes w :: "'a::len word" and b :: byte
  assumes "8 \<le> LENGTH('a)"
  shows "unat (push_bit 8 w OR ucast b) = (unat w * 256 + unat b) mod 2 ^ LENGTH('a)"
proof -
  have disj: "push_bit 8 w AND ucast b = 0"
    by (rule bit_eqI) (auto simp: bit_simps dest: bit_imp_le_length)
  have "push_bit 8 w OR ucast b = push_bit 8 w + ucast b"
    by (rule disjunctive_add_eq_or [symmetric, OF disj])
  also have "\<dots> = word_of_nat (unat w * 256 + unat b)"
    by (simp add: push_bit_eq_mult)
  finally have "push_bit 8 w OR ucast b = word_of_nat (unat w * 256 + unat b)" .
  then show ?thesis
    by (simp only: unat_of_nat)
qed

lemma unat_fromBigEndian:
  assumes "8 \<le> LENGTH('a::len)"
  shows "unat (fromBigEndian bs :: 'a word) = be_nat bs mod 2 ^ LENGTH('a)"
proof (induction bs rule: rev_induct)
  case Nil
  then show ?case by (simp add: fromBigEndian_def)
next
  case (snoc b bs)
  have "unat (fromBigEndian (bs @ [b]) :: 'a word) =
      (be_nat bs mod 2 ^ LENGTH('a) * 256 + unat b) mod 2 ^ LENGTH('a)"
    using snoc by (simp add: fromBigEndian_def unat_push_or [OF assms])
  also have "\<dots> = (be_nat bs * 256 + unat b) mod 2 ^ LENGTH('a)"
    by (metis mod_add_left_eq mod_mult_left_eq)
  finally show ?case by simp
qed

lemma toCompactBigEndian_0 [simp]: "toCompactBigEndian 0 0 = []"
  by (simp add: toCompactBigEndian_def)

lemma be_nat_toCompactBigEndian [simp]: "be_nat (toCompactBigEndian v mn) = v"
proof -
  have "v < 256 ^ bytesRequired v" by (rule bytesRequired_bound)
  also have "\<dots> \<le> 256 ^ max mn (bytesRequired v)" by (simp add: power_increasing)
  finally show ?thesis
    by (simp add: toCompactBigEndian_def be_nat_toBigEndian)
qed

lemma commonPrefix_le: "commonPrefix ts us \<le> length ts" "commonPrefix ts us \<le> length us"
  by (induction ts us rule: commonPrefix.induct) auto

lemma take_commonPrefix: "take (commonPrefix ts us) ts = take (commonPrefix ts us) us"
  by (induction ts us rule: commonPrefix.induct) auto

lemma commonPrefix_max:
  "commonPrefix ts us < length ts \<Longrightarrow> commonPrefix ts us < length us \<Longrightarrow>
     ts ! commonPrefix ts us \<noteq> us ! commonPrefix ts us"
  by (induction ts us rule: commonPrefix.induct) auto

section \<open>Lemmas: hex strings\<close>

lemma fromHexChar_hexdigits: "n < 16 \<Longrightarrow> fromHexChar (hexdigits ! n) = int n"
proof -
  assume "n < 16"
  then have "n \<in> set [0..<16]" by simp
  moreover have "list_all (\<lambda>n. fromHexChar (hexdigits ! n) = int n) [0..<16]"
    by code_simp
  ultimately show ?thesis by (simp add: list_all_iff)
qed

lemma unat_and_15: "unat (b AND 0x0f :: byte) = unat b mod 16"
proof -
  have "b AND 0x0f = take_bit 4 b"
    by (simp add: take_bit_eq_mask mask_eq_exp_minus_1)
  then show ?thesis
    by (simp add: take_bit_eq_mod unat_mod_distrib)
qed

lemma unat_high_nibble: "unat (drop_bit 4 (b :: byte)) mod 16 = unat b div 16"
  using unat_byte_less [of b] by (simp add: drop_bit_eq_div unat_div_distrib less_mult_imp_div_less)

lemma toHexBytes_Cons: "toHexBytes (b # bs) =
    hexdigits ! (unat b div 16) # hexdigits ! (unat b mod 16) # toHexBytes bs"
  by (simp only: toHexBytes.simps unat_and_15 unat_high_nibble)

lemma fromHexPairs_toHexBytes: "fromHexPairs (toHexBytes bs) w ret = Inr (ret @ bs)"
proof (induction bs arbitrary: ret)
  case Nil
  then show ?case by simp
next
  case (Cons b bs)
  have "int (unat b div 16) * 16 + int (unat b mod 16) = int (unat b)"
    by (metis div_mult_mod_eq of_nat_add of_nat_mult of_nat_numeral)
  then have "word_of_int (int (unat b div 16) * 16 + int (unat b mod 16)) = b"
    by simp
  moreover have "unat b div 16 < 16" "unat b mod 16 < 16"
    using unat_byte_less [of b] by (simp_all add: less_mult_imp_div_less)
  ultimately show ?case
    by (simp add: Cons.IH toHexBytes_Cons fromHexChar_hexdigits Let_def del: toHexBytes.simps)
qed

lemma length_toHexBytes [simp]: "length (toHexBytes bs) = 2 * length bs"
  by (induction bs) simp_all

lemma hexdigits_length: "length hexdigits = 16"
  by (simp add: hexdigits_def)

lemma toHexBytes_digits: "c \<in> set (toHexBytes bs) \<Longrightarrow> c \<in> set hexdigits"
proof (induction bs)
  case (Cons b bs)
  have "unat b div 16 < length hexdigits" "unat b mod 16 < length hexdigits"
    using unat_byte_less [of b] by (simp_all add: hexdigits_def less_mult_imp_div_less)
  with Cons show ?case by (auto simp: toHexBytes_Cons simp del: toHexBytes.simps)
qed simp

section \<open>Properties\<close>


end
