(* ===== verification/RLP_Stream.thy ===== *)
theory RLP_Stream
  imports CommonData
begin

text \<open>
  \<^verbatim>\<open>RLPStream\<close> of \<^verbatim>\<open>libdevcore/RLP.h\<close> and \<^verbatim>\<open>libdevcore/RLP.cpp\<close>: the writer, with its output
  buffer and its stack of open lists, and the abstract encoding it implements. The vector of
  open lists is modelled with its back at the head of a HOL list.
\<close>

section \<open>Constants\<close>

definition c_rlpMaxLengthBytes :: nat where "c_rlpMaxLengthBytes = 8"
definition c_rlpDataImmLenStart :: nat where "c_rlpDataImmLenStart = 0x80"
definition c_rlpListStart :: nat where "c_rlpListStart = 0xc0"
definition c_rlpDataImmLenCount :: nat where
  "c_rlpDataImmLenCount = c_rlpListStart - c_rlpDataImmLenStart - c_rlpMaxLengthBytes"
definition c_rlpDataIndLenZero :: nat where
  "c_rlpDataIndLenZero = c_rlpDataImmLenStart + c_rlpDataImmLenCount - 1"
definition c_rlpListImmLenCount :: nat where
  "c_rlpListImmLenCount = 256 - c_rlpListStart - c_rlpMaxLengthBytes"
definition c_rlpListIndLenZero :: nat where
  "c_rlpListIndLenZero = c_rlpListStart + c_rlpListImmLenCount - 1"

lemma rlp_constants [simp]:
  "c_rlpMaxLengthBytes = 8" "c_rlpDataImmLenStart = 128" "c_rlpListStart = 192"
  "c_rlpDataImmLenCount = 56" "c_rlpDataIndLenZero = 183"
  "c_rlpListImmLenCount = 56" "c_rlpListIndLenZero = 247"
  by (simp_all add: c_rlpMaxLengthBytes_def c_rlpDataImmLenStart_def c_rlpListStart_def
      c_rlpDataImmLenCount_def c_rlpDataIndLenZero_def c_rlpListImmLenCount_def
      c_rlpListIndLenZero_def)

section \<open>Errors and state\<close>

text \<open>
  The exceptions of the RLP code; \<open>BadIndex\<close> stands for the assertion of
  \<^verbatim>\<open>vector_ref::operator[]\<close>, a read outside the slice.
\<close>

datatype rlp_error =
    BadRLP | OversizeRLP | UndersizeRLP | BadCast
  | ItemCountTooLarge | ItemCountTooLargeForRLP | NumberTooLarge | CountTooLarge
  | ListStackNotEmpty | BadIndex

record rlp_stream =
  m_out :: bytes
  m_listStack :: "(nat \<times> nat) list"

section \<open>Operations\<close>

definition RLPStream :: rlp_stream where
  "RLPStream = \<lparr>m_out = [], m_listStack = []\<rparr>"

text \<open>
  The byte-wise loop \<^verbatim>\<open>for (; s; s >>= 8) *(b--) = (byte)s\<close>, writing at position \<open>b\<close> and
  below.
\<close>

fun writeBackwards :: "nat \<Rightarrow> nat \<Rightarrow> bytes \<Rightarrow> bytes" where
  "writeBackwards s b out =
     (if s \<noteq> 0 then writeBackwards (s div 256) (b - 1) (out[b := word_of_nat s]) else out)"

declare writeBackwards.simps [simp del]

definition pushInt :: "nat \<Rightarrow> nat \<Rightarrow> bytes \<Rightarrow> bytes" where
  "pushInt i br out = writeBackwards i (length out + br - 1) (out @ replicate br 0)"

definition pushCount :: "nat \<Rightarrow> nat \<Rightarrow> bytes \<Rightarrow> rlp_error + bytes" where
  "pushCount count base out =
     (let br = bytesRequired count in
      if br + base > 0xff then Inl CountTooLarge
      else Inr (pushInt count br (out @ [word_of_nat (br + base)])))"

text \<open>
  Closing a list at position \<open>p\<close>: \<^verbatim>\<open>m_out.resize(os + encodeSize)\<close>, the \<^verbatim>\<open>memmove\<close> of the
  list's payload, then the header written over the freed bytes.
\<close>

definition closeList :: "bytes \<Rightarrow> nat \<Rightarrow> rlp_error + bytes" where
  "closeList out p =
     (let s = length out - p;
          brs = bytesRequired s;
          encodeSize = (if s < c_rlpListImmLenCount then 1 else 1 + brs);
          resized = out @ replicate encodeSize 0;
          moved = take (p + encodeSize) resized @ drop p out
      in if s < c_rlpListImmLenCount then Inr (moved[p := word_of_nat (c_rlpListStart + s)])
         else if c_rlpListIndLenZero + brs \<le> 0xff
         then Inr (writeBackwards s (p + brs) (moved[p := word_of_nat (c_rlpListIndLenZero + brs)]))
         else Inl ItemCountTooLargeForRLP)"

fun noteAppended :: "nat \<Rightarrow> bytes \<Rightarrow> (nat \<times> nat) list \<Rightarrow> rlp_error + rlp_stream" where
  "noteAppended n out [] = Inr \<lparr>m_out = out, m_listStack = []\<rparr>"
| "noteAppended n out ((cnt, p) # st) =
     (if n = 0 then Inr \<lparr>m_out = out, m_listStack = (cnt, p) # st\<rparr>
      else if cnt < n then Inl ItemCountTooLarge
      else if cnt - n \<noteq> 0 then Inr \<lparr>m_out = out, m_listStack = (cnt - n, p) # st\<rparr>
      else sum_bind (closeList out p) (\<lambda>out'. noteAppended 1 out' st))"

definition appendRaw :: "bytes \<Rightarrow> nat \<Rightarrow> rlp_stream \<Rightarrow> rlp_error + rlp_stream" where
  "appendRaw s itemCount st = noteAppended itemCount (m_out st @ s) (m_listStack st)"

definition appendListRLP :: "bytes \<Rightarrow> rlp_stream \<Rightarrow> rlp_error + rlp_stream" where
  "appendListRLP rlp st =
     (if length rlp < c_rlpListImmLenCount
      then appendRaw rlp 1 (st\<lparr>m_out := m_out st @ [word_of_nat (length rlp + c_rlpListStart)]\<rparr>)
      else sum_bind (pushCount (length rlp) c_rlpListIndLenZero (m_out st))
             (\<lambda>out'. appendRaw rlp 1 (st\<lparr>m_out := out'\<rparr>)))"

definition appendList :: "nat \<Rightarrow> rlp_stream \<Rightarrow> rlp_error + rlp_stream" where
  "appendList items st =
     (if items \<noteq> 0 then Inr (st\<lparr>m_listStack := (items, length (m_out st)) # m_listStack st\<rparr>)
      else appendListRLP [] st)"

text \<open>\<^verbatim>\<open>append(bytesConstRef _s, bool _compact)\<close>: with \<open>compact\<close>, leading zero bytes are skipped.\<close>

definition appendBytes :: "bytes \<Rightarrow> bool \<Rightarrow> rlp_stream \<Rightarrow> rlp_error + rlp_stream" where
  "appendBytes bs compact st =
     (let d = (if compact then dropWhile (\<lambda>b. b = 0) bs else bs); s = length d in
      if s = 1 \<and> unat (hd d) < c_rlpDataImmLenStart
      then noteAppended 1 (m_out st @ d) (m_listStack st)
      else sum_bind
        (if s < c_rlpDataImmLenCount
         then Inr (m_out st @ [word_of_nat (s + c_rlpDataImmLenStart)])
         else pushCount s c_rlpDataIndLenZero (m_out st))
        (\<lambda>out'. sum_bind (appendRaw d 0 (st\<lparr>m_out := out'\<rparr>))
          (\<lambda>st'. noteAppended 1 (m_out st') (m_listStack st'))))"

text \<open>\<^verbatim>\<open>append(bigint _i)\<close>; every public overload passes an unsigned value.\<close>

definition appendInt :: "nat \<Rightarrow> rlp_stream \<Rightarrow> rlp_error + rlp_stream" where
  "appendInt i st =
     sum_bind
       (if i = 0 then Inr (m_out st @ [word_of_nat c_rlpDataImmLenStart])
        else if i < c_rlpDataImmLenStart then Inr (m_out st @ [word_of_nat i])
        else (let br = bytesRequired i in
              if br < c_rlpDataImmLenCount
              then Inr (pushInt i br (m_out st @ [word_of_nat (br + c_rlpDataImmLenStart)]))
              else (let brbr = bytesRequired br in
                    if c_rlpDataIndLenZero + brbr > 0xff then Inl NumberTooLarge
                    else Inr (pushInt i br
                           (pushInt br brbr (m_out st @ [word_of_nat (c_rlpDataIndLenZero + brbr)]))))))
       (\<lambda>out'. noteAppended 1 out' (m_listStack st))"

definition out_stream :: "rlp_stream \<Rightarrow> rlp_error + bytes" where
  "out_stream st = (if m_listStack st \<noteq> [] then Inl ListStackNotEmpty else Inr (m_out st))"

definition clear_stream :: "rlp_stream \<Rightarrow> rlp_stream" where
  "clear_stream st = st\<lparr>m_out := [], m_listStack := []\<rparr>"

section \<open>Nested values\<close>

text \<open>
  What \<^verbatim>\<open>operator<<\<close> streams: byte strings, and vectors of such values (\<^verbatim>\<open>appendVector\<close> opens a
  list of the vector's size and appends every element).
\<close>

datatype item = Data bytes | Lst "item list"

fun appendItem :: "item \<Rightarrow> rlp_stream \<Rightarrow> rlp_error + rlp_stream"
and appendItems :: "item list \<Rightarrow> rlp_stream \<Rightarrow> rlp_error + rlp_stream" where
  "appendItem (Data bs) st = appendBytes bs False st"
| "appendItem (Lst xs) st = sum_bind (appendList (length xs) st) (appendItems xs)"
| "appendItems [] st = Inr st"
| "appendItems (x # xs) st = sum_bind (appendItem x st) (appendItems xs)"

definition rlp :: "item \<Rightarrow> rlp_error + bytes" where
  "rlp x = sum_bind (appendItem x RLPStream) out_stream"

section \<open>The encoding as a function\<close>

text \<open>
  The recursive length prefix encoding by itself: a header chosen by the payload's length, then
  the payload.
\<close>

definition enc_length :: "nat \<Rightarrow> nat \<Rightarrow> bytes" where
  "enc_length off n =
     (if n < 56 then [word_of_nat (off + n)]
      else word_of_nat (off + 55 + bytesRequired n) # toBigEndian (bytesRequired n) n)"

definition enc_data :: "bytes \<Rightarrow> bytes" where
  "enc_data bs = (if length bs = 1 \<and> unat (hd bs) < 128 then bs
                  else enc_length 128 (length bs) @ bs)"

fun enc :: "item \<Rightarrow> bytes" where
  "enc (Data bs) = enc_data bs"
| "enc (Lst xs) = (let p = concat (map enc xs) in enc_length 192 (length p) @ p)"

text \<open>Every payload of the value can be held in a vector: its length fits \<^verbatim>\<open>size_t\<close>.\<close>

fun fits :: "item \<Rightarrow> bool" where
  "fits (Data bs) = (length bs < 2 ^ 64)"
| "fits (Lst xs) = (list_all fits xs \<and> length (concat (map enc xs)) < 2 ^ 64)"

section \<open>Lemmas: integers in the buffer\<close>

lemma writeBackwards_eq:
  "bytesRequired s \<le> Suc b \<Longrightarrow> b < length out \<Longrightarrow>
   writeBackwards s b out =
     take (Suc b - bytesRequired s) out @ toBigEndian (bytesRequired s) s @ drop (Suc b) out"
proof (induction s b out rule: writeBackwards.induct)
  case (1 s b out)
  show ?case
  proof (cases "s = 0")
    case True
    then show ?thesis by (simp add: writeBackwards.simps)
  next
    case False
    let ?k = "bytesRequired (s div 256)"
    have k: "bytesRequired s = Suc ?k"
      using False by (simp add: bytesRequired.simps [of s])
    have byte: "(word_of_nat s :: byte) = word_of_nat (s mod 256)"
      by (simp add: word_unat_eq_iff unat_of_nat)
    show ?thesis
    proof (cases "?k = 0")
      case True
      then have "s div 256 = 0"
        using bytesRequired_pos by (metis less_irrefl)
      then show ?thesis
        using False True "1.prems" byte
        by (simp add: writeBackwards.simps [of s] writeBackwards.simps [of 0] k
            upd_conv_take_nth_drop)
    next
      case pos: False
      then have b: "Suc (b - 1) = b"
        using "1.prems" k by simp
      have "writeBackwards s b out =
          take (b - ?k) (out[b := word_of_nat s]) @ toBigEndian ?k (s div 256) @
          drop b (out[b := word_of_nat s])"
        using "1.IH" "1.prems" False k b by (simp add: writeBackwards.simps [of s])
      then show ?thesis
        using "1.prems" k byte by (simp add: drop_update_swap Cons_nth_drop_Suc [symmetric])
    qed
  qed
qed

lemma pushInt_eq: "pushInt i (bytesRequired i) out = out @ toBigEndian (bytesRequired i) i"
proof (cases "i = 0")
  case True
  then show ?thesis by (simp add: pushInt_def writeBackwards.simps)
next
  case False
  then have "0 < bytesRequired i" by (rule bytesRequired_pos)
  then show ?thesis
    by (simp add: pushInt_def writeBackwards_eq)
qed

lemma bytesRequired_le_8: "n < 2 ^ 64 \<Longrightarrow> bytesRequired n \<le> 8"
  by (rule bytesRequired_least) simp

lemma pushCount_eq:
  assumes "n < 2 ^ 64" and "base \<le> 247"
  shows "pushCount n base out =
    Inr (out @ word_of_nat (base + bytesRequired n) # toBigEndian (bytesRequired n) n)"
  using bytesRequired_le_8 [OF assms(1)] assms(2)
  by (simp add: pushCount_def pushInt_eq Let_def add.commute)

lemma closeList_eq:
  assumes "p \<le> length out" and "length out - p < 2 ^ 64"
  shows "closeList out p =
    Inr (take p out @ enc_length 192 (length out - p) @ drop p out)"
proof (cases "length out - p < 56")
  case True
  then show ?thesis
    using assms(1) by (simp add: closeList_def enc_length_def Let_def list_update_append
        upd_conv_take_nth_drop min_def)
next
  case False
  let ?s = "length out - p"
  let ?brs = "bytesRequired ?s"
  let ?moved = "take (p + Suc ?brs) (out @ replicate (Suc ?brs) 0) @ drop p out"
  have brs: "?brs \<le> 8"
    using assms(2) by (rule bytesRequired_le_8)
  have le: "p + Suc ?brs \<le> length out"
    using False assms(1) brs by linarith
  have "take p ?moved = take p out" and "drop (p + Suc ?brs) ?moved = drop p out"
    and "length ?moved = p + Suc ?brs + ?s"
    using le assms(1) by (auto simp: min_def)
  then have "writeBackwards ?s (p + ?brs) (?moved[p := word_of_nat (247 + ?brs)]) =
      take (Suc p) (?moved[p := word_of_nat (247 + ?brs)]) @ toBigEndian ?brs ?s @ drop p out"
    by (simp add: writeBackwards_eq)
  also have "take (Suc p) (?moved[p := word_of_nat (247 + ?brs)]) =
      take p out @ [word_of_nat (247 + ?brs)]"
    using le by (simp add: take_Suc_conv_app_nth nth_append)
  finally show ?thesis
    using False brs by (simp add: closeList_def enc_length_def Let_def)
qed

section \<open>Lemmas: the writer implements the encoding\<close>

lemma appendBytes_eq:
  assumes "length bs < 2 ^ 64"
  shows "appendBytes bs False st = noteAppended 1 (m_out st @ enc_data bs) (m_listStack st)"
proof -
  have raw: "appendRaw bs 0 st' = Inr (st'\<lparr>m_out := m_out st' @ bs\<rparr>)" for st' :: rlp_stream
    by (cases st'; cases "m_listStack st'") (auto simp: appendRaw_def)
  show ?thesis
    using pushCount_eq [OF assms, of 183 "m_out st"]
    by (auto simp: appendBytes_def enc_data_def enc_length_def Let_def raw add.commute)
qed

lemma appendListRLP_eq:
  assumes "length p < 2 ^ 64"
  shows "appendListRLP p st =
    noteAppended 1 (m_out st @ enc_length 192 (length p) @ p) (m_listStack st)"
  using pushCount_eq [OF assms, of 247 "m_out st"]
  by (auto simp: appendListRLP_def appendRaw_def enc_length_def Let_def add.commute)

lemma appendItems_Nil [simp]: "appendItems [] = Inr"
  by (rule ext) simp

lemma appendItem_appendItems_eq:
  "fits x \<Longrightarrow> appendItem x st = noteAppended 1 (m_out st @ enc x) (m_listStack st)"
  "list_all fits xs \<Longrightarrow> xs \<noteq> [] \<Longrightarrow> m_listStack st = (n, p) # st' \<Longrightarrow> length xs \<le> n \<Longrightarrow>
     appendItems xs st = noteAppended (length xs) (m_out st @ concat (map enc xs)) (m_listStack st)"
proof (induction x st and xs st arbitrary: and n p st' rule: appendItem_appendItems.induct)
  case (1 bs st)
  then show ?case by (simp add: appendBytes_eq)
next
  case (2 xs st)
  show ?case
  proof (cases "xs = []")
    case True
    then show ?thesis
      by (simp add: appendList_def appendListRLP_eq)
  next
    case False
    let ?pl = "concat (map enc xs)"
    let ?st = "st\<lparr>m_listStack := (length xs, length (m_out st)) # m_listStack st\<rparr>"
    have "appendItem (Lst xs) st = appendItems xs ?st"
      using False by (simp add: appendList_def)
    also have "\<dots> = noteAppended (length xs) (m_out st @ ?pl)
        ((length xs, length (m_out st)) # m_listStack st)"
      using "2.IH" "2.prems" False by (simp add: appendList_def)
    also have "\<dots> = noteAppended 1 (m_out st @ enc (Lst xs)) (m_listStack st)"
      using "2.prems" False by (simp add: closeList_eq Let_def)
    finally show ?thesis .
  qed
next
  case (3 st)
  then show ?case by simp
next
  case (4 x xs st)
  show ?case
  proof (cases "xs = []")
    case True
    then show ?thesis using "4" by simp
  next
    case False
    let ?st = "st\<lparr>m_out := m_out st @ enc x, m_listStack := (n - 1, p) # st'\<rparr>"
    have n: "1 < n" "length xs \<le> n - 1"
      using "4.prems" False by (cases xs; simp)+
    then have "noteAppended 1 (m_out st @ enc x) (m_listStack st) = Inr ?st"
      using "4.prems"(3) by simp
    then have x: "appendItem x st = Inr ?st"
      using "4.IH"(1) "4.prems"(1) by simp
    then have "appendItems (x # xs) st = appendItems xs ?st"
      by simp
    also have "\<dots> = noteAppended (length xs) (m_out ?st @ concat (map enc xs)) (m_listStack ?st)"
      by (rule "4.IH"(2) [OF x _ False _ n(2)]) (use "4.prems"(1) in simp_all)
    also have "\<dots> = noteAppended (length (x # xs)) (m_out st @ concat (map enc (x # xs))) (m_listStack st)"
      using "4.prems"(3,4) False n by (cases xs) auto
    finally show ?thesis .
  qed
qed

lemmas appendItem_eq = appendItem_appendItems_eq(1)

end
