(* ===== verification/RLP_Reader.thy ===== *)
theory RLP_Reader
  imports RLP_Stream
begin

text \<open>
  The class \<^verbatim>\<open>RLP\<close> of \<^verbatim>\<open>libdevcore/RLP.h\<close> and \<^verbatim>\<open>libdevcore/RLP.cpp\<close>: the reader. An \<^verbatim>\<open>RLP\<close>
  object is the byte string \<^verbatim>\<open>m_data\<close> it views; the mutable indexing cache is part of the record
  \<open>rlp_obj\<close> that \<^verbatim>\<open>operator[]\<close> works on. Every read of a byte goes through \<open>byte_at\<close>, which fails
  with \<open>BadIndex\<close> where the assertion in \<^verbatim>\<open>vector_ref::operator[]\<close> would. Sizes are natural numbers
  except the length field, which is assembled in a 64-bit \<^verbatim>\<open>size_t\<close>.
\<close>

unbundle bit_operations_syntax

section \<open>Classification\<close>

definition byte_at :: "bytes \<Rightarrow> nat \<Rightarrow> rlp_error + nat" where
  "byte_at d i = (if i < length d then Inr (unat (d ! i)) else Inl BadIndex)"

definition AllowNonCanon :: int where "AllowNonCanon = 1"
definition ThrowOnFail :: int where "ThrowOnFail = 4"
definition FailIfTooBig :: int where "FailIfTooBig = 8"
definition FailIfTooSmall :: int where "FailIfTooSmall = 16"
definition Strict :: int where "Strict = ThrowOnFail OR FailIfTooBig"
definition VeryStrict :: int where "VeryStrict = ThrowOnFail OR FailIfTooBig OR FailIfTooSmall"
definition LaissezFaire :: int where "LaissezFaire = AllowNonCanon"

definition isNull :: "bytes \<Rightarrow> bool" where
  "isNull d = (length d = 0)"

definition isEmpty :: "bytes \<Rightarrow> bool" where
  "isEmpty d = (\<not> isNull d \<and> (unat (d ! 0) = c_rlpDataImmLenStart \<or> unat (d ! 0) = c_rlpListStart))"

definition isData :: "bytes \<Rightarrow> bool" where
  "isData d = (\<not> isNull d \<and> unat (d ! 0) < c_rlpListStart)"

definition isList :: "bytes \<Rightarrow> bool" where
  "isList d = (\<not> isNull d \<and> unat (d ! 0) \<ge> c_rlpListStart)"

definition isSingleByte :: "bytes \<Rightarrow> bool" where
  "isSingleByte d = (\<not> isNull d \<and> unat (d ! 0) < c_rlpDataImmLenStart)"

definition lengthSize :: "bytes \<Rightarrow> nat" where
  "lengthSize d =
     (if isData d \<and> unat (d ! 0) > c_rlpDataIndLenZero then unat (d ! 0) - c_rlpDataIndLenZero
      else if isList d \<and> unat (d ! 0) > c_rlpListIndLenZero then unat (d ! 0) - c_rlpListIndLenZero
      else 0)"

definition payloadOffset :: "bytes \<Rightarrow> nat" where
  "payloadOffset d = (if isSingleByte d then 0 else 1 + lengthSize d)"

definition requireGood :: "bytes \<Rightarrow> rlp_error + unit" where
  "requireGood d =
     (if isNull d then Inl BadRLP
      else sum_bind (byte_at d 0) (\<lambda>n.
        if n \<noteq> c_rlpDataImmLenStart + 1 then Inr ()
        else if length d < 2 then Inl BadRLP
        else sum_bind (byte_at d 1) (\<lambda>b.
          if b < c_rlpDataImmLenStart then Inl BadRLP else Inr ())))"

definition isInt :: "bytes \<Rightarrow> rlp_error + bool" where
  "isInt d =
     (if isNull d then Inr False
      else sum_bind (requireGood d) (\<lambda>_. sum_bind (byte_at d 0) (\<lambda>n.
        if n < c_rlpDataImmLenStart then Inr (n \<noteq> 0)
        else if n = c_rlpDataImmLenStart then Inr True
        else if n \<le> c_rlpDataIndLenZero then
          (if length d \<le> 1 then Inl BadRLP
           else sum_bind (byte_at d 1) (\<lambda>b. Inr (b \<noteq> 0)))
        else if n < c_rlpListStart then
          (if length d \<le> 1 + n - c_rlpDataIndLenZero then Inl BadRLP
           else sum_bind (byte_at d (1 + n - c_rlpDataIndLenZero)) (\<lambda>b. Inr (b \<noteq> 0)))
        else Inr False)))"

section \<open>Lengths\<close>

text \<open>
  The length field: \<^verbatim>\<open>for (i = 0; i < lengthSize; ++i) ret = (ret << 8) | m_data[i + 1]\<close> in a
  64-bit \<^verbatim>\<open>size_t\<close>.
\<close>

fun readLength :: "bytes \<Rightarrow> nat \<Rightarrow> nat \<Rightarrow> u64 \<Rightarrow> rlp_error + u64" where
  "readLength d i 0 ret = Inr ret"
| "readLength d i (Suc n) ret =
     sum_bind (byte_at d (i + 1)) (\<lambda>b. readLength d (Suc i) n (push_bit 8 ret OR word_of_nat b))"

text \<open>The two long forms check the field in the same way; \<open>lim\<close> is the least length they accept.\<close>

definition longLength :: "bytes \<Rightarrow> nat \<Rightarrow> nat \<Rightarrow> rlp_error + u64" where
  "longLength d ls lim =
     (if length d \<le> ls then Inl BadRLP
      else sum_bind (if length d > 1
                     then sum_bind (byte_at d 1) (\<lambda>b. if b = 0 then Inl BadRLP else Inr ())
                     else Inr ()) (\<lambda>_.
        if ls > 8 then Inl UndersizeRLP
        else sum_bind (byte_at d 1) (\<lambda>b.
          if b = 0 then Inl BadRLP
          else sum_bind (readLength d 0 ls 0) (\<lambda>ret.
            if unat ret < lim then Inl BadRLP else Inr ret))))"

definition length_field :: "bytes \<Rightarrow> rlp_error + nat" where
  "length_field d =
     (if isNull d then Inr 0
      else sum_bind (requireGood d) (\<lambda>_. sum_bind (byte_at d 0) (\<lambda>n.
        if n < c_rlpDataImmLenStart then Inr 1
        else if n \<le> c_rlpDataIndLenZero then Inr (n - c_rlpDataImmLenStart)
        else if \<not> n < c_rlpListStart \<and> n \<le> c_rlpListIndLenZero then Inr (n - c_rlpListStart)
        else sum_bind
          (if n < c_rlpListStart
           then longLength d (n - c_rlpDataIndLenZero)
                  (c_rlpListStart - c_rlpDataImmLenStart - c_rlpMaxLengthBytes)
           else longLength d (n - c_rlpListIndLenZero)
                  (0x100 - c_rlpListStart - c_rlpMaxLengthBytes))
          (\<lambda>ret. if unat ret \<ge> 2 ^ 64 - 1 - 0x100 then Inl UndersizeRLP else Inr (unat ret)))))"

definition payload_ref :: "bytes \<Rightarrow> rlp_error + vref" where
  "payload_ref d = sum_bind (length_field d) (\<lambda>l.
     if l > length d then Inl BadRLP
     else Inr (cropped (Some (0, length d)) (payloadOffset d) l))"

definition payload :: "bytes \<Rightarrow> rlp_error + bytes" where
  "payload d = sum_bind (payload_ref d) (\<lambda>r. Inr (view d r))"

definition actualSize :: "bytes \<Rightarrow> rlp_error + nat" where
  "actualSize d =
     (if isNull d then Inr 0
      else if isSingleByte d then Inr 1
      else if isData d \<or> isList d
      then sum_bind (length_field d) (\<lambda>l. Inr (payloadOffset d + l))
      else Inr 0)"

text \<open>The constructor \<^verbatim>\<open>RLP(bytesConstRef _d, Strictness _s)\<close>.\<close>

definition RLP :: "bytes \<Rightarrow> int \<Rightarrow> rlp_error + bytes" where
  "RLP d s =
     sum_bind
       (if s AND FailIfTooBig \<noteq> 0
        then sum_bind (actualSize d) (\<lambda>a.
               if a < length d
               then (if s AND ThrowOnFail \<noteq> 0 then Inl OversizeRLP else Inr [])
               else Inr d)
        else Inr d)
       (\<lambda>m. if s AND FailIfTooSmall \<noteq> 0
             then sum_bind (actualSize m) (\<lambda>a.
                    if a > length d
                    then (if s AND ThrowOnFail \<noteq> 0 then Inl UndersizeRLP else Inr [])
                    else Inr m)
             else Inr m)"

definition sizeAsEncoded :: "bytes \<Rightarrow> rlp_error + nat" where
  "sizeAsEncoded d = sum_bind (RLP d (ThrowOnFail OR FailIfTooSmall)) actualSize"

section \<open>Progress of the item scan\<close>

lemma actualSize_pos: "actualSize d = Inr n \<Longrightarrow> d \<noteq> [] \<Longrightarrow> 0 < n"
  by (auto simp: actualSize_def payloadOffset_def isNull_def isData_def isList_def split: if_splits)

lemma sizeAsEncoded_eq:
  "sizeAsEncoded d = sum_bind (actualSize d)
     (\<lambda>a. if a > length d then Inl UndersizeRLP else Inr a)"
  by (cases "actualSize d")
    (auto simp: sizeAsEncoded_def RLP_def ThrowOnFail_def FailIfTooSmall_def FailIfTooBig_def)

lemma sizeAsEncoded_pos: "sizeAsEncoded d = Inr n \<Longrightarrow> d \<noteq> [] \<Longrightarrow> 0 < n \<and> n \<le> length d"
  by (auto simp: sizeAsEncoded_eq dest: actualSize_pos split: if_splits)

section \<open>Items\<close>

function items_loop :: "bytes \<Rightarrow> nat \<Rightarrow> rlp_error + nat" where
  "items_loop d i =
     (if length d = 0 then Inr i
      else sum_bind (sizeAsEncoded d) (\<lambda>n. items_loop (drop n d) (Suc i)))"
  by pat_completeness auto
termination
  by (relation "measure (\<lambda>(d, i). length d)") (auto dest: sizeAsEncoded_pos)

declare items_loop.simps [simp del]

definition items :: "bytes \<Rightarrow> rlp_error + nat" where
  "items d = (if isList d then sum_bind (payload d) (\<lambda>p. items_loop p 0) else Inr 0)"

definition itemCountStrict :: "bytes \<Rightarrow> rlp_error + nat" where
  "itemCountStrict d = (if \<not> isList d then Inl BadCast else items d)"

record rlp_obj =
  m_data :: bytes
  m_lastIndex :: nat
  m_lastEnd :: nat
  m_lastItem :: bytes

definition rlp_obj_of :: "bytes \<Rightarrow> rlp_obj" where
  "rlp_obj_of d = \<lparr>m_data = d, m_lastIndex = 2 ^ 64 - 1, m_lastEnd = 0, m_lastItem = []\<rparr>"

text \<open>The scan of \<^verbatim>\<open>operator[]\<close> from the cached position up to item \<open>i\<close>.\<close>

function index_loop :: "bytes \<Rightarrow> nat \<Rightarrow> rlp_obj \<Rightarrow> rlp_error + rlp_obj" where
  "index_loop pl i r =
     (if m_lastIndex r < i \<and> length (m_lastItem r) \<noteq> 0
      then (let rest = drop (m_lastEnd r) pl in
            sum_bind (sizeAsEncoded rest) (\<lambda>n.
              index_loop pl i
                (r\<lparr>m_lastItem := take n rest, m_lastEnd := m_lastEnd r + length (take n rest),
                   m_lastIndex := Suc (m_lastIndex r)\<rparr>)))
      else Inr r)"
  by pat_completeness auto
termination
  by (relation "measure (\<lambda>(pl, i, r). i - m_lastIndex r)") auto

declare index_loop.simps [simp del]

definition index :: "rlp_obj \<Rightarrow> nat \<Rightarrow> rlp_error + (bytes \<times> rlp_obj)" where
  "index r i =
     sum_bind
       (if i < m_lastIndex r
        then sum_bind (payload (m_data r)) (\<lambda>pl. sum_bind (sizeAsEncoded pl) (\<lambda>n.
               Inr (r\<lparr>m_lastEnd := n, m_lastItem := take n pl, m_lastIndex := 0\<rparr>)))
        else Inr r)
       (\<lambda>r'. sum_bind
          (if m_lastIndex r' < i \<and> length (m_lastItem r') \<noteq> 0
           then sum_bind (payload (m_data r')) (\<lambda>pl. index_loop pl i r')
           else Inr r')
          (\<lambda>r''. sum_bind (RLP (m_lastItem r'') (ThrowOnFail OR FailIfTooSmall))
             (\<lambda>x. Inr (x, r''))))"

section \<open>Iterator\<close>

record rlp_iter =
  m_remaining :: nat
  m_currentItem :: vref

definition iter_begin :: "bytes \<Rightarrow> rlp_error + rlp_iter" where
  "iter_begin d =
     (if isList d
      then sum_bind (payload_ref d) (\<lambda>pl. sum_bind (sizeAsEncoded (view d pl)) (\<lambda>n.
             (let c = cropped pl 0 n in
              Inr \<lparr>m_remaining = vref_size pl - vref_size c, m_currentItem = c\<rparr>)))
      else Inr \<lparr>m_remaining = 0, m_currentItem = cropped_from (Some (0, length d)) (length d)\<rparr>)"

definition iter_end :: "bytes \<Rightarrow> rlp_iter" where
  "iter_end d = \<lparr>m_remaining = 0, m_currentItem = cropped_from (Some (0, length d)) (length d)\<rparr>"

definition iter_next :: "bytes \<Rightarrow> rlp_iter \<Rightarrow> rlp_error + rlp_iter" where
  "iter_next d it =
     (if m_remaining it \<noteq> 0
      then (case vref_next (m_currentItem it) of
              None \<Rightarrow> Inl BadIndex
            | Some (off, _) \<Rightarrow>
                (let cur = Some (off, m_remaining it) in
                 sum_bind (sizeAsEncoded (view d cur)) (\<lambda>n.
                   (let c = cropped cur 0 n in
                    Inr \<lparr>m_remaining = m_remaining it - min (m_remaining it) (vref_size c),
                         m_currentItem = c\<rparr>))))
      else Inr (it\<lparr>m_currentItem := map_option (\<lambda>(off, _). (off, 0)) (vref_next (m_currentItem it))\<rparr>))"

definition iter_deref :: "bytes \<Rightarrow> rlp_iter \<Rightarrow> rlp_error + bytes" where
  "iter_deref d it = RLP (view d (m_currentItem it)) VeryStrict"

text \<open>
  The range-for loop \<^verbatim>\<open>for (auto const& i: *this) ret.push_back(i)\<close>. It compares the iterator with
  \<^verbatim>\<open>end()\<close> by pointer and count; whether it ever meets it is a theorem, so the loop is a partial
  function and \<open>None\<close> means that it does not return.
\<close>

partial_function (option) iterate ::
    "bytes \<Rightarrow> rlp_iter \<Rightarrow> bytes list \<Rightarrow> (rlp_error + bytes list) option" where
  "iterate d it ret =
     (if m_currentItem it = m_currentItem (iter_end d) then Some (Inr ret)
      else case iter_deref d it of
             Inl e \<Rightarrow> Some (Inl e)
           | Inr x \<Rightarrow> (case iter_next d it of
                        Inl e \<Rightarrow> Some (Inl e)
                      | Inr it' \<Rightarrow> iterate d it' (ret @ [x])))"

definition toList :: "bytes \<Rightarrow> int \<Rightarrow> (rlp_error + bytes list) option" where
  "toList d flags =
     (if \<not> isList d
      then Some (if flags AND ThrowOnFail \<noteq> 0 then Inl BadCast else Inr [])
      else case iter_begin d of
             Inl e \<Rightarrow> Some (Inl e)
           | Inr it \<Rightarrow> iterate d it [])"

section \<open>Conversions\<close>

text \<open>
  \<^verbatim>\<open>bytes(payload().data(), payload().data() + length())\<close>: where the slice is too short for its
  payload, \<^verbatim>\<open>payload()\<close> is the null slice and the copy reads from the null pointer.
\<close>

definition toBytes :: "bytes \<Rightarrow> int \<Rightarrow> rlp_error + bytes" where
  "toBytes d flags =
     (if \<not> isData d then (if flags AND ThrowOnFail \<noteq> 0 then Inl BadCast else Inr [])
      else sum_bind (payload_ref d) (\<lambda>r. sum_bind (length_field d) (\<lambda>l.
             case r of None \<Rightarrow> (if l = 0 then Inr [] else Inl BadIndex)
                     | Some (off, _) \<Rightarrow> Inr (view d (Some (off, l))))))"

text \<open>
  \<^verbatim>\<open>toInt<T>\<close> up to the final \<^verbatim>\<open>fromBigEndian<T>\<close>: the payload that is converted, or \<open>None\<close> where
  the code returns 0. \<open>maxSize\<close> is \<^verbatim>\<open>intTraits<T>::maxSize\<close>.
\<close>

definition toIntPayload :: "nat \<Rightarrow> bytes \<Rightarrow> int \<Rightarrow> rlp_error + bytes option" where
  "toIntPayload maxSize d flags =
     sum_bind (requireGood d) (\<lambda>_. sum_bind (isInt d) (\<lambda>isint.
       if (\<not> isint \<and> flags AND AllowNonCanon = 0) \<or> isList d \<or> isNull d
       then (if flags AND ThrowOnFail \<noteq> 0 then Inl BadCast else Inr None)
       else sum_bind (payload d) (\<lambda>p.
         if length p > maxSize \<and> flags AND FailIfTooBig \<noteq> 0
         then (if flags AND ThrowOnFail \<noteq> 0 then Inl BadCast else Inr None)
         else Inr (Some p))))"

definition toInt :: "bytes \<Rightarrow> int \<Rightarrow> rlp_error + 'a::len word" where
  "toInt d flags = sum_bind (toIntPayload (LENGTH('a) div 8) d flags)
     (\<lambda>p. Inr (case p of None \<Rightarrow> 0 | Some p \<Rightarrow> fromBigEndian p))"

definition toBigInt :: "bytes \<Rightarrow> int \<Rightarrow> rlp_error + nat" where
  "toBigInt d flags = sum_bind (toIntPayload (2 ^ 32 - 1) d flags)
     (\<lambda>p. Inr (case p of None \<Rightarrow> 0 | Some p \<Rightarrow> be_nat p))"

text \<open>\<^verbatim>\<open>toHash<FixedHash<n>>\<close>: the payload's first bytes, right-aligned in \<open>n\<close> bytes.\<close>

definition toHash :: "nat \<Rightarrow> bytes \<Rightarrow> int \<Rightarrow> rlp_error + bytes" where
  "toHash n d flags =
     sum_bind (requireGood d) (\<lambda>_. sum_bind (payload d) (\<lambda>p.
       if \<not> isData d \<or> (length p > n \<and> flags AND FailIfTooBig \<noteq> 0)
          \<or> (length p < n \<and> flags AND FailIfTooSmall \<noteq> 0)
       then (if flags AND ThrowOnFail \<noteq> 0 then Inl BadCast else Inr (replicate n 0))
       else (let s = min n (length p) in Inr (replicate (n - s) 0 @ take s p))))"

end
