(* ===== verification/RLP_Codec.thy ===== *)
theory RLP_Codec
  imports RLP_Reader
begin

text \<open>
  What the reader of \<^verbatim>\<open>libdevcore/RLP.cpp\<close> makes of a byte string.
\<close>

unbundle bit_operations_syntax

section \<open>Reading a header\<close>

definition max_field :: nat where
  "max_field = 2 ^ 64 - 1 - 0x100"

lemma byte_at_eq [simp]: "i < length d \<Longrightarrow> byte_at d i = Inr (unat (d ! i))"
  by (simp add: byte_at_def)

lemma readLength_eq:
  "i + n < length d \<Longrightarrow>
   readLength d i n ret =
     Inr (foldl (\<lambda>ret b. push_bit 8 ret OR ucast b) ret (take n (drop (Suc i) d)))"
proof (induction n arbitrary: i ret)
  case 0
  then show ?case by simp
next
  case (Suc n)
  have "take (Suc n) (drop (Suc i) d) = d ! Suc i # take n (drop (Suc (Suc i)) d)"
    using Suc.prems by (simp add: Cons_nth_drop_Suc [symmetric])
  with Suc show ?case by simp
qed

lemma unat_length_field:
  "ls \<le> 8 \<Longrightarrow> unat (fromBigEndian (take ls bs) :: u64) = be_nat (take ls bs)"
proof -
  assume "ls \<le> 8"
  have "be_nat (take ls bs) < 256 ^ length (take ls bs)"
    by (rule be_nat_bound)
  also have "\<dots> \<le> 256 ^ 8"
    using \<open>ls \<le> 8\<close> by (intro power_increasing) auto
  finally show ?thesis
    by (simp add: unat_fromBigEndian)
qed

lemma longLength_eq:
  assumes "0 < ls" and "ls \<le> 8"
  shows "longLength d ls lim =
    (if length d \<le> ls \<or> d ! 1 = 0 \<or> be_nat (take ls (drop 1 d)) < lim then Inl BadRLP
     else Inr (fromBigEndian (take ls (drop 1 d))))"
  using assms
  by (auto simp: longLength_def readLength_eq unat_length_field fromBigEndian_def [symmetric]
      word_unat_eq_iff)

lemma requireGood_eq:
  "requireGood d = (if d = [] \<or> (unat (d ! 0) = 129 \<and> (length d < 2 \<or> unat (d ! 1) < 128))
     then Inl BadRLP else Inr ())"
  by (auto simp: requireGood_def isNull_def)

lemma length_field_eq:
  "length_field d =
     (if d = [] then Inr 0
      else if unat (d ! 0) = 129 \<and> (length d < 2 \<or> unat (d ! 1) < 128) then Inl BadRLP
      else if unat (d ! 0) < 128 then Inr 1
      else if unat (d ! 0) < 184 then Inr (unat (d ! 0) - 128)
      else if 192 \<le> unat (d ! 0) \<and> unat (d ! 0) < 248 then Inr (unat (d ! 0) - 192)
      else (let ls = unat (d ! 0) - (if unat (d ! 0) < 192 then 183 else 247);
                n = be_nat (take ls (drop 1 d)) in
        if length d \<le> ls \<or> d ! 1 = 0 \<or> n < 56 then Inl BadRLP
        else if n \<ge> max_field then Inl UndersizeRLP else Inr n))"
proof -
  have le: "unat (d ! 0) - 247 \<le> 8"
    using unat_byte_less [of "d ! 0"] by linarith
  have "longLength d (unat (d ! 0) - 183) lim =
      (let ls = unat (d ! 0) - 183 in
       if length d \<le> ls \<or> d ! 1 = 0 \<or> be_nat (take ls (drop 1 d)) < lim then Inl BadRLP
       else Inr (fromBigEndian (take ls (drop 1 d))))"
    if "183 < unat (d ! 0)" "unat (d ! 0) < 192" for lim
    using that by (simp add: longLength_eq)
  moreover have "longLength d (unat (d ! 0) - 247) lim =
      (let ls = unat (d ! 0) - 247 in
       if length d \<le> ls \<or> d ! 1 = 0 \<or> be_nat (take ls (drop 1 d)) < lim then Inl BadRLP
       else Inr (fromBigEndian (take ls (drop 1 d))))"
    if "247 < unat (d ! 0)" for lim
    using that le by (simp add: longLength_eq)
  moreover have "unat (fromBigEndian (take (unat (d ! 0) - 247) (drop 1 d)) :: u64) =
      be_nat (take (unat (d ! 0) - 247) (drop 1 d))"
    using le by (rule unat_length_field)
  moreover have "unat (fromBigEndian (take (unat (d ! 0) - 183) (drop 1 d)) :: u64) =
      be_nat (take (unat (d ! 0) - 183) (drop 1 d))" if "unat (d ! 0) < 192"
    using that by (intro unat_length_field) linarith
  ultimately show ?thesis
    by (auto simp add: length_field_def requireGood_eq isNull_def Let_def max_field_def)
qed

section \<open>Reading what the encoding wrote\<close>

lemma unat_byte_of_nat [simp]: "n < 256 \<Longrightarrow> unat (word_of_nat n :: byte) = n"
  by (simp add: unat_of_nat)

lemma enc_length_hd:
  assumes "off \<le> 192" and "n < 2 ^ 64"
  shows "unat (enc_length off n ! 0) = (if n < 56 then off + n else off + 55 + bytesRequired n)"
  using bytesRequired_le_8 [OF assms(2)] assms(1) by (simp add: enc_length_def del: of_nat_add)

lemma enc_length_not_Nil [simp]: "enc_length off n \<noteq> []"
  by (simp add: enc_length_def)

lemma eq_word_of_unat: "unat (b :: byte) = n \<Longrightarrow> b = word_of_nat n"
  by auto

lemma length_enc_length: "length (enc_length off n) = (if n < 56 then 1 else 1 + bytesRequired n)"
  by (simp add: enc_length_def)

lemma bytesRequired_bounds: "56 \<le> n \<Longrightarrow> n < 2 ^ 64 \<Longrightarrow> 0 < bytesRequired n \<and> bytesRequired n \<le> 8"
  by (simp add: bytesRequired_le_8 bytesRequired_pos)

lemma be_nat_toBigEndian_bytesRequired [simp]: "be_nat (toBigEndian (bytesRequired n) n) = n"
  by (simp add: be_nat_toBigEndian bytesRequired_bound)

lemma toBigEndian_nth_0:
  "n \<noteq> 0 \<Longrightarrow> (toBigEndian (bytesRequired n) n @ r) ! 0 \<noteq> 0"
  using toBigEndian_hd [of n] bytesRequired_pos [of n]
  by (metis hd_conv_nth length_greater_0_conv length_toBigEndian nth_append)

lemma length_field_enc:
  assumes off: "off = 128 \<or> off = 192" and n: "n < max_field"
    and single: "off = 128 \<Longrightarrow> n = 1 \<Longrightarrow> r \<noteq> [] \<and> 128 \<le> unat (r ! 0)"
  shows "length_field (enc_length off n @ r) = Inr n"
proof (cases "n < 56")
  case True
  then obtain h where h: "enc_length off n @ r = h # r" "unat h = off + n"
    using off by (auto simp: enc_length_def simp del: of_nat_add)
  with True off single show ?thesis
    unfolding h(1) by (cases r) (auto simp: length_field_eq)
next
  case False
  have n64: "n < 2 ^ 64"
    using n by (simp add: max_field_def)
  obtain k where k: "k = bytesRequired n" "0 < k" "k \<le> 8"
    using bytesRequired_bounds False n64 by auto
  then obtain h where d: "enc_length off n @ r = h # toBigEndian k n @ r" "unat h = off + 55 + k"
    using False off by (auto simp: enc_length_def simp del: of_nat_add)
  have "(toBigEndian k n @ r) ! 0 \<noteq> 0"
    using toBigEndian_nth_0 False k by auto
  with off k n False show ?thesis
    unfolding d(1) length_field_eq
    by (elim disjE) (auto simp: Let_def d(2))
qed

lemma enc_length_head:
  assumes off: "off = 128 \<or> off = 192" and n: "n < max_field"
  shows "isNull (enc_length off n @ r) = False"
    and "isSingleByte (enc_length off n @ r) = False"
    and "isData (enc_length off n @ r) = (off = 128)"
    and "isList (enc_length off n @ r) = (off = 192)"
    and "payloadOffset (enc_length off n @ r) = length (enc_length off n)"
proof -
  have n64: "n < 2 ^ 64"
    using n by (simp add: max_field_def)
  have hd: "unat ((enc_length off n @ r) ! 0) =
      (if n < 56 then off + n else off + 55 + bytesRequired n)"
    using enc_length_hd [OF _ n64, of off] off by (auto simp: nth_append length_enc_length)
  note b = bytesRequired_bounds [OF _ n64]
  show "isNull (enc_length off n @ r) = False"
    by (simp add: isNull_def)
  then show single: "isSingleByte (enc_length off n @ r) = False"
    and data: "isData (enc_length off n @ r) = (off = 128)"
    and list: "isList (enc_length off n @ r) = (off = 192)"
    using hd off b by (auto simp: isSingleByte_def isData_def isList_def)
  show "payloadOffset (enc_length off n @ r) = length (enc_length off n)"
    unfolding payloadOffset_def lengthSize_def single data list hd length_enc_length
    using off b by auto
qed

section \<open>Chunks: byte strings that delimit themselves\<close>

text \<open>
  A chunk is a non-empty byte string whose encoded size is its length whatever follows it. A
  list's payload is a concatenation of chunks.
\<close>

definition well_headed :: "nat \<Rightarrow> bytes \<Rightarrow> bool" where
  "well_headed off p \<longleftrightarrow> (off = 128 \<or> off = 192) \<and> length p < max_field \<and>
     (off = 128 \<longrightarrow> length p = 1 \<longrightarrow> 128 \<le> unat (p ! 0))"

definition chunk :: "bytes \<Rightarrow> bool" where
  "chunk c \<longleftrightarrow> c \<noteq> [] \<and> (\<forall>t. actualSize (c @ t) = Inr (length c))"

lemma chunk_not_Nil: "chunk c \<Longrightarrow> c \<noteq> []"
  by (simp add: chunk_def)

lemma chunk_actualSize: "chunk c \<Longrightarrow> actualSize (c @ t) = Inr (length c)"
  by (simp add: chunk_def)

lemma chunk_actualSize_self: "chunk c \<Longrightarrow> actualSize c = Inr (length c)"
  using chunk_actualSize [of c "[]"] by simp

lemma chunk_single_byte: "unat b < 128 \<Longrightarrow> chunk [b]"
  by (simp add: chunk_def actualSize_def isNull_def isSingleByte_def)

lemma length_field_well_headed:
  "well_headed off p \<Longrightarrow> length_field (enc_length off (length p) @ p @ t) = Inr (length p)"
  by (intro length_field_enc)
    (auto simp: well_headed_def length_Suc_conv)

lemma chunk_enc_length:
  assumes "well_headed off p"
  shows "chunk (enc_length off (length p) @ p)"
proof -
  have off: "off = 128 \<or> off = 192" and n: "length p < max_field"
    using assms by (auto simp: well_headed_def)
  show ?thesis
    using length_field_well_headed [OF assms] off
    by (auto simp: chunk_def actualSize_def enc_length_head [OF off n])
qed

text \<open>Conversely, a header that the reader accepts is the one the encoding writes.\<close>

lemma length_field_canon:
  assumes d: "d \<noteq> []" "128 \<le> unat (d ! 0)" and m: "length_field d = Inr m"
    and le: "payloadOffset d + m \<le> length d"
  defines "off \<equiv> if unat (d ! 0) < 192 then 128 else 192"
  shows "take (payloadOffset d) d = enc_length off m \<and> well_headed off (take m (drop (payloadOffset d) d))"
proof -
  obtain b ds where ds: "d = b # ds"
    using d by (cases d) auto
  consider (short) "unat b < 184" | (list) "192 \<le> unat b" "unat b < 248"
    | (long) "184 \<le> unat b" "\<not> (192 \<le> unat b \<and> unat b < 248)"
    by linarith
  then show ?thesis
  proof cases
    case short
    then have b: "unat b = 128 + m" and "m < 56"
      using m d(2) by (auto simp: length_field_eq ds split: if_splits)
    moreover have "b = word_of_nat (128 + m)"
      using b by (rule eq_word_of_unat)
    moreover have "payloadOffset d = 1"
      using short d(2) by (auto simp: payloadOffset_def isSingleByte_def lengthSize_def isList_def ds)
    moreover have "ds \<noteq> [] \<and> 128 \<le> unat (ds ! 0)" if "m = 1"
      using m that b by (auto simp: length_field_eq ds split: if_splits)
    ultimately show ?thesis
      using le short by (auto simp: off_def ds enc_length_def well_headed_def max_field_def)
  next
    case list
    then have b: "unat b = 192 + m" and "m < 56"
      using m by (auto simp: length_field_eq ds split: if_splits)
    moreover have "b = word_of_nat (192 + m)"
      using b by (rule eq_word_of_unat)
    moreover have "payloadOffset d = 1"
      using list by (auto simp: payloadOffset_def isSingleByte_def lengthSize_def isData_def ds)
    ultimately show ?thesis
      using le list by (auto simp: off_def ds enc_length_def well_headed_def max_field_def)
  next
    case long
    let ?ls = "unat b - (off + 55)"
    let ?f = "take ?ls ds"
    have ls: "0 < ?ls" "unat b = off + 55 + ?ls"
      using long by (auto simp: off_def ds)
    have f: "m = be_nat ?f" "56 \<le> m" "m < max_field" "?ls \<le> length ds" "ds ! 0 \<noteq> 0"
      using m long by (auto simp: length_field_eq ds off_def Let_def split: if_splits)
    have br: "bytesRequired m = ?ls"
      using bytesRequired_be_nat [of ?f] f ls(1) by (cases ds) (auto simp: hd_conv_nth)
    have "toBigEndian ?ls m = ?f"
      using toBigEndian_be_nat [of ?f] f by (simp add: min_absorb2)
    moreover have "b = word_of_nat (off + 55 + ?ls)"
      using ls(2) by (rule eq_word_of_unat)
    moreover have po: "payloadOffset d = 1 + ?ls"
      using long by (auto simp: payloadOffset_def isSingleByte_def lengthSize_def isData_def
          isList_def isNull_def off_def ds)
    ultimately show ?thesis
      using le f br
      by (auto simp: ds enc_length_def well_headed_def off_def min_def simp del: of_nat_add)
  qed
qed


lemma actualSize_canon:
  assumes "actualSize d = Inr n" and "n \<le> length d" and "d \<noteq> []"
  obtains (single) b where "take n d = [b]" "unat b < 128"
  | (headed) off p where "take n d = enc_length off (length p) @ p" "well_headed off p"
      "payloadOffset d = length (enc_length off (length p))"
      "off = (if unat (d ! 0) < 192 then 128 else 192)" "length_field d = Inr (length p)"
proof (cases "unat (d ! 0) < 128")
  case True
  then have "n = 1"
    using assms by (auto simp: actualSize_def isNull_def isSingleByte_def)
  with True assms(3) show thesis
    by (intro single [of "d ! 0"]) (auto simp: take_Suc hd_conv_nth)
next
  case False
  then obtain m where m: "length_field d = Inr m" "n = payloadOffset d + m"
    using assms by (auto simp: actualSize_def isNull_def isSingleByte_def isData_def isList_def
        split: if_splits)
  define p where "p = take m (drop (payloadOffset d) d)"
  let ?off = "if unat (d ! 0) < 192 then 128 else 192"
  have lp: "length p = m"
    using assms(2) m by (simp add: p_def)
  have c: "take (payloadOffset d) d = enc_length ?off m" "well_headed ?off p"
    using length_field_canon [of d m] False assms m by (auto simp: p_def not_less)
  have "take n d = take (payloadOffset d) d @ p"
    by (simp add: m p_def take_add)
  moreover have "payloadOffset d = length (enc_length ?off m)"
    using c(1) assms(2) m by (metis length_take min_absorb2 add_leD1)
  ultimately show thesis
    using c lp m by (intro headed [of ?off p]) auto
qed

lemma chunk_take:
  assumes "actualSize d = Inr n" and "n \<le> length d" and "d \<noteq> []"
  shows "chunk (take n d)"
  using assms by (rule actualSize_canon) (simp_all add: chunk_single_byte chunk_enc_length)

lemma chunk_sizeAsEncoded: "chunk c \<Longrightarrow> sizeAsEncoded (c @ t) = Inr (length c)"
  by (simp add: sizeAsEncoded_eq chunk_actualSize)

lemma sizeAsEncoded_chunk:
  assumes "sizeAsEncoded d = Inr n" and "d \<noteq> []"
  obtains c t where "d = c @ t" "chunk c" "n = length c"
proof -
  have n: "actualSize d = Inr n" "n \<le> length d"
    using assms(1) by (auto simp: sizeAsEncoded_eq split: if_splits)
  then show thesis
    using that [of "take n d" "drop n d"] chunk_take [OF n assms(2)] by simp
qed

section \<open>Scanning a payload\<close>

lemma items_loop_concat:
  "list_all chunk cs \<Longrightarrow> items_loop (concat cs) i = Inr (i + length cs)"
proof (induction cs arbitrary: i)
  case Nil
  then show ?case by (simp add: items_loop.simps)
next
  case (Cons c cs)
  then show ?case
    by (simp add: items_loop.simps [of "c @ concat cs"] chunk_sizeAsEncoded chunk_not_Nil)
qed

lemma items_loop_chunks:
  "items_loop d i = Inr k \<Longrightarrow> \<exists>cs. d = concat cs \<and> list_all chunk cs \<and> k = i + length cs"
proof (induction d i rule: items_loop.induct)
  case (1 d i)
  show ?case
  proof (cases "d = []")
    case True
    then show ?thesis
      using "1.prems" by (intro exI [of _ "[]"]) (simp add: items_loop.simps)
  next
    case False
    then obtain n where n: "sizeAsEncoded d = Inr n" "items_loop (drop n d) (Suc i) = Inr k"
      using "1.prems" by (auto simp: items_loop.simps [of d])
    obtain c t where c: "d = c @ t" "chunk c" "n = length c"
      using sizeAsEncoded_chunk [OF n(1) False] by blast
    obtain cs where "t = concat cs" "list_all chunk cs" "k = Suc i + length cs"
      using "1.IH" [OF _ n] False c by auto
    with c show ?thesis
      by (intro exI [of _ "c # cs"]) simp
  qed
qed


section \<open>Reading an encoded value\<close>

lemma strictness_flags [simp]:
  "VeryStrict AND FailIfTooBig \<noteq> 0" "VeryStrict AND FailIfTooSmall \<noteq> 0"
  "VeryStrict AND ThrowOnFail \<noteq> 0" "VeryStrict AND AllowNonCanon = 0"
  "Strict AND ThrowOnFail \<noteq> 0" "Strict AND AllowNonCanon = 0" "Strict AND FailIfTooBig \<noteq> 0"
  "(ThrowOnFail OR FailIfTooSmall) AND FailIfTooBig = 0"
  "(ThrowOnFail OR FailIfTooSmall) AND FailIfTooSmall \<noteq> 0"
  "(ThrowOnFail OR FailIfTooSmall) AND ThrowOnFail \<noteq> 0"
  by (simp_all add: VeryStrict_def Strict_def FailIfTooBig_def FailIfTooSmall_def ThrowOnFail_def
      AllowNonCanon_def)

lemma actualSize_Nil [simp]: "actualSize [] = Inr 0"
  by (simp add: actualSize_def isNull_def)

lemma sizeAsEncoded_Nil [simp]: "sizeAsEncoded [] = Inr 0"
  by (simp add: sizeAsEncoded_eq)

lemma RLP_VeryStrict_eq:
  "RLP d VeryStrict = sum_bind (actualSize d) (\<lambda>a.
     if a < length d then Inl OversizeRLP else if a > length d then Inl UndersizeRLP else Inr d)"
  by (cases "actualSize d") (auto simp: RLP_def)

lemma RLP_too_small_eq:
  "RLP d (ThrowOnFail OR FailIfTooSmall) = sum_bind (actualSize d) (\<lambda>a.
     if a > length d then Inl UndersizeRLP else Inr d)"
  by (cases "actualSize d") (auto simp: RLP_def)

lemma RLP_chunk: "chunk c \<Longrightarrow> RLP c VeryStrict = Inr c"
  by (simp add: RLP_VeryStrict_eq chunk_actualSize_self)

lemma payload_ref_well_headed:
  assumes "well_headed off p"
  shows "payload_ref (enc_length off (length p) @ p @ t) =
    Inr (Some (length (enc_length off (length p)), length p))"
proof -
  have off: "off = 128 \<or> off = 192" and n: "length p < max_field"
    using assms by (auto simp: well_headed_def)
  show ?thesis
    by (simp add: payload_ref_def length_field_well_headed [OF assms] cropped_Some
        enc_length_head(5) [OF off n])
qed

lemma payload_well_headed:
  "well_headed off p \<Longrightarrow> payload (enc_length off (length p) @ p @ t) = Inr p"
  by (simp add: payload_def payload_ref_well_headed)

lemma items_list:
  assumes "list_all chunk cs" and "length (concat cs) < max_field"
  shows "items (enc_length 192 (length (concat cs)) @ concat cs @ t) = Inr (length cs)"
proof -
  have wh: "well_headed 192 (concat cs)"
    using assms(2) by (simp add: well_headed_def)
  show ?thesis
    using enc_length_head(4) [OF _ assms(2), of 192] payload_well_headed [OF wh]
    by (simp add: items_def items_loop_concat [OF assms(1)])
qed

section \<open>Indexing through the cache\<close>

definition list_of_chunks :: "bytes list \<Rightarrow> bool" where
  "list_of_chunks cs \<longleftrightarrow> list_all chunk cs \<and> length (concat cs) < max_field"

definition list_bytes :: "bytes list \<Rightarrow> bytes" where
  "list_bytes cs = enc_length 192 (length (concat cs)) @ concat cs"

definition nth_or_null :: "bytes list \<Rightarrow> nat \<Rightarrow> bytes" where
  "nth_or_null cs i = (if i < length cs then cs ! i else [])"

definition cursor_ok :: "bytes list \<Rightarrow> rlp_obj \<Rightarrow> bool" where
  "cursor_ok cs r \<longleftrightarrow> m_lastIndex r \<le> length cs \<and>
     m_lastEnd r = length (concat (take (Suc (m_lastIndex r)) cs)) \<and>
     m_lastItem r = nth_or_null cs (m_lastIndex r)"

text \<open>The cache of an object that has not been indexed yet, or that points at an item.\<close>

definition cache_ok :: "bytes list \<Rightarrow> bytes \<Rightarrow> rlp_obj \<Rightarrow> bool" where
  "cache_ok cs t r \<longleftrightarrow> m_data r = list_bytes cs @ t \<and>
     (m_lastIndex r = 2 ^ 64 - 1 \<or> cursor_ok cs r)"

lemma concat_take_Suc: "concat (take (Suc k) cs) = concat (take k cs) @ nth_or_null cs k"
  by (simp add: nth_or_null_def take_Suc_conv_app_nth)

lemma drop_concat: "drop (length (concat (take k cs))) (concat cs) = concat (drop k cs)"
  by (metis append_eq_conv_conj append_take_drop_id concat_append)

lemma sizeAsEncoded_drop:
  assumes "list_all chunk cs"
  shows "sizeAsEncoded (concat (drop k cs)) = Inr (length (nth_or_null cs k))"
    and "take (length (nth_or_null cs k)) (concat (drop k cs)) = nth_or_null cs k"
proof -
  have "k < length cs \<Longrightarrow> concat (drop k cs) = cs ! k @ concat (drop (Suc k) cs) \<and> chunk (cs ! k)"
    using assms by (simp add: Cons_nth_drop_Suc [symmetric] list_all_length)
  then show "sizeAsEncoded (concat (drop k cs)) = Inr (length (nth_or_null cs k))"
    and "take (length (nth_or_null cs k)) (concat (drop k cs)) = nth_or_null cs k"
    by (auto simp: nth_or_null_def chunk_sizeAsEncoded)
qed

lemma nth_or_null_Nil: "list_all chunk cs \<Longrightarrow> nth_or_null cs k = [] \<longleftrightarrow> length cs \<le> k"
  by (auto simp: nth_or_null_def list_all_length chunk_not_Nil)

lemma index_loop_ok:
  assumes "list_all chunk cs"
  shows "cursor_ok cs r \<Longrightarrow> m_lastIndex r \<le> i \<Longrightarrow>
    \<exists>r'. index_loop (concat cs) i r = Inr r' \<and> cursor_ok cs r' \<and> m_data r' = m_data r \<and>
      m_lastItem r' = nth_or_null cs i"
proof (induction "concat cs" i r rule: index_loop.induct)
  case (1 i r)
  show ?case
  proof (cases "m_lastIndex r < i \<and> m_lastItem r \<noteq> []")
    case True
    let ?k = "Suc (m_lastIndex r)"
    have lt: "m_lastIndex r < length cs"
      using True "1.prems" nth_or_null_Nil [OF assms] by (auto simp: cursor_ok_def)
    have rest: "drop (m_lastEnd r) (concat cs) = concat (drop ?k cs)"
      using "1.prems" by (simp add: cursor_ok_def drop_concat)
    let ?r = "r\<lparr>m_lastItem := nth_or_null cs ?k, m_lastEnd := m_lastEnd r + length (nth_or_null cs ?k),
        m_lastIndex := ?k\<rparr>"
    have step: "index_loop (concat cs) i r = index_loop (concat cs) i ?r"
      using True by (simp add: index_loop.simps [of _ i r] rest sizeAsEncoded_drop [OF assms]
          del: length_take)
    have "cursor_ok cs ?r"
      using lt "1.prems" by (simp add: cursor_ok_def concat_take_Suc [of ?k])
    then show ?thesis
      using "1.hyps" [of "drop (m_lastEnd r) (concat cs)" "length (nth_or_null cs ?k)"] True step
      by (simp add: rest sizeAsEncoded_drop [OF assms] del: length_take)
  next
    case False
    then have "m_lastItem r = nth_or_null cs i"
      using "1.prems" nth_or_null_Nil [OF assms, of "m_lastIndex r"]
      by (cases "m_lastIndex r = i") (auto simp: cursor_ok_def nth_or_null_def)
    with False "1.prems" show ?thesis
      by (auto simp: index_loop.simps [of _ i r])
  qed
qed


lemma index_ok:
  assumes cs: "list_of_chunks cs" and r: "cache_ok cs t r" and i: "i < 2 ^ 64 - 1"
  shows "\<exists>r'. index r i = Inr (nth_or_null cs i, r') \<and> cache_ok cs t r'"
proof -
  have ch: "list_all chunk cs" and wh: "well_headed 192 (concat cs)"
    using cs by (simp_all add: list_of_chunks_def well_headed_def)
  have pl: "payload (m_data r) = Inr (concat cs)"
    using payload_well_headed [OF wh] r by (simp add: cache_ok_def list_bytes_def)
  let ?first = "r\<lparr>m_lastEnd := length (nth_or_null cs 0), m_lastItem := nth_or_null cs 0, m_lastIndex := 0\<rparr>"
  define r1 where "r1 = (if i < m_lastIndex r then ?first else r)"
  have first: "cursor_ok cs ?first"
    using concat_take_Suc [of 0 cs] by (simp add: cursor_ok_def)
  have r1: "cursor_ok cs r1" "m_lastIndex r1 \<le> i" "m_data r1 = m_data r"
    using first r i by (auto simp: r1_def cache_ok_def)
  have start: "(if i < m_lastIndex r
        then sum_bind (payload (m_data r)) (\<lambda>pl. sum_bind (sizeAsEncoded pl) (\<lambda>n.
               Inr (r\<lparr>m_lastEnd := n, m_lastItem := take n pl, m_lastIndex := 0\<rparr>)))
        else Inr r) = Inr r1"
    using sizeAsEncoded_drop [OF ch, of 0] by (simp add: r1_def pl)
  obtain r2 where r2: "index_loop (concat cs) i r1 = Inr r2" "cursor_ok cs r2"
      "m_data r2 = m_data r1" "m_lastItem r2 = nth_or_null cs i"
    using index_loop_ok [OF ch r1(1,2)] by blast
  have scan: "(if m_lastIndex r1 < i \<and> length (m_lastItem r1) \<noteq> 0
           then sum_bind (payload (m_data r1)) (\<lambda>pl. index_loop pl i r1) else Inr r1) = Inr r2"
    using r2(1) by (auto simp: r1(3) pl index_loop.simps [of _ i r1])
  have "RLP (nth_or_null cs i) (ThrowOnFail OR FailIfTooSmall) = Inr (nth_or_null cs i)"
    using ch by (auto simp: RLP_too_small_eq nth_or_null_def list_all_length chunk_actualSize_self)
  then have "index r i = Inr (nth_or_null cs i, r2)"
    unfolding index_def start by (simp add: scan [simplified] r2(4))
  with r2 r1(3) r show ?thesis
    by (auto simp: cache_ok_def)
qed

section \<open>Iterating\<close>

definition iter_at :: "bytes list \<Rightarrow> nat \<Rightarrow> rlp_iter" where
  "iter_at cs k = \<lparr>m_remaining = length (concat (drop (Suc k) cs)),
     m_currentItem = Some (length (enc_length 192 (length (concat cs))) + length (concat (take k cs)),
                           length (nth_or_null cs k))\<rparr>"

lemma view_list_bytes:
  "view (list_bytes cs @ t) (Some (length (enc_length 192 (length (concat cs))) + length (concat (take k cs)),
      length (concat (drop k cs)))) = concat (drop k cs)"
proof -
  have "concat cs = concat (take k cs) @ concat (drop k cs)"
    by (metis append_take_drop_id concat_append)
  then show ?thesis
    by (simp add: list_bytes_def drop_concat)
qed

lemma view_iter_at:
  "view (list_bytes cs @ t) (m_currentItem (iter_at cs k)) = nth_or_null cs k"
proof (cases "k < length cs")
  case True
  then have "drop (length (concat (take k cs))) (concat cs) = cs ! k @ concat (drop (Suc k) cs)"
    by (simp add: drop_concat Cons_nth_drop_Suc [symmetric])
  then show ?thesis
    using True by (simp add: iter_at_def list_bytes_def nth_or_null_def)
qed (simp add: iter_at_def nth_or_null_def)

lemma iter_begin_eq:
  assumes "list_of_chunks cs"
  shows "iter_begin (list_bytes cs @ t) = Inr (iter_at cs 0)"
proof -
  have ch: "list_all chunk cs" and wh: "well_headed 192 (concat cs)" and n: "length (concat cs) < max_field"
    using assms by (simp_all add: list_of_chunks_def well_headed_def)
  have "isList (list_bytes cs @ t)"
    using enc_length_head(4) [OF _ n, of 192] by (simp add: list_bytes_def)
  moreover have "payload_ref (list_bytes cs @ t) =
      Inr (Some (length (enc_length 192 (length (concat cs))), length (concat cs)))"
    using payload_ref_well_headed [OF wh] by (simp add: list_bytes_def)
  moreover have "view (list_bytes cs @ t)
      (Some (length (enc_length 192 (length (concat cs))), length (concat cs))) = concat cs"
    using view_list_bytes [of cs t 0] by simp
  moreover have "length (concat cs) = length (nth_or_null cs 0) + length (concat (drop 1 cs))"
    by (cases cs) (simp_all add: nth_or_null_def)
  ultimately show ?thesis
    using sizeAsEncoded_drop(1) [OF ch, of 0]
    by (simp add: iter_begin_def iter_at_def cropped_Some Let_def)
qed

lemma iter_next_eq:
  assumes "list_all chunk cs" and "k < length cs"
  shows "iter_next (list_bytes cs @ t) (iter_at cs k) = Inr (iter_at cs (Suc k))"
proof (cases "Suc k < length cs")
  case True
  let ?h = "length (enc_length 192 (length (concat cs)))"
  have pos: "?h + length (concat (take k cs)) + length (nth_or_null cs k) =
      ?h + length (concat (take (Suc k) cs))"
    by (simp add: concat_take_Suc)
  have split: "length (concat (drop (Suc k) cs)) =
      length (nth_or_null cs (Suc k)) + length (concat (drop (Suc (Suc k)) cs))"
    using True by (simp add: Cons_nth_drop_Suc [symmetric] nth_or_null_def)
  have "nth_or_null cs (Suc k) \<noteq> []"
    using True nth_or_null_Nil [OF assms(1)] by simp
  then have "0 < length (concat (drop (Suc k) cs))"
    by (simp add: split)
  then show ?thesis
    using sizeAsEncoded_drop(1) [OF assms(1), of "Suc k"] view_list_bytes [of cs t "Suc k"]
    unfolding iter_next_def iter_at_def rlp_iter.simps vref_next_def option.case prod.case pos
    by (simp add: cropped_Some Let_def split)
next
  case False
  then have "drop (Suc k) cs = []" "nth_or_null cs (Suc k) = []"
    by (simp_all add: nth_or_null_def)
  then show ?thesis
    using False concat_take_Suc [of k cs] assms(2)
    by (simp add: iter_next_def iter_at_def vref_next_def nth_or_null_def)
qed


lemma iter_deref_eq:
  "list_all chunk cs \<Longrightarrow> iter_deref (list_bytes cs @ t) (iter_at cs k) = Inr (nth_or_null cs k)"
  unfolding iter_deref_def view_iter_at
  by (auto simp: nth_or_null_def list_all_length RLP_chunk) (simp add: RLP_VeryStrict_eq)

lemma iterate_step:
  assumes "list_all chunk cs" and "k < length cs"
  shows "iterate (list_bytes cs @ t) (iter_at cs k) ret =
    iterate (list_bytes cs @ t) (iter_at cs (Suc k)) (ret @ [cs ! k])"
proof -
  have "nth_or_null cs k \<noteq> []"
    using assms nth_or_null_Nil [OF assms(1)] by simp
  then have "m_currentItem (iter_at cs k) \<noteq> m_currentItem (iter_end (list_bytes cs @ t))"
    by (simp add: iter_at_def iter_end_def cropped_from_def)
  then show ?thesis
    using assms by (subst iterate.simps)
      (simp add: iter_deref_eq iter_next_eq nth_or_null_def)
qed

lemma iterate_steps:
  assumes "list_all chunk cs"
  shows "n + k = length cs \<Longrightarrow> iterate (list_bytes cs @ t) (iter_at cs k) ret =
    iterate (list_bytes cs @ t) (iter_at cs (length cs)) (ret @ drop k cs)"
proof (induction n arbitrary: k ret)
  case 0
  then show ?case by simp
next
  case (Suc n)
  then show ?case
    by (simp add: iterate_step [OF assms] Cons_nth_drop_Suc)
qed

lemma iterate_end:
  "iterate (list_bytes cs) (iter_at cs (length cs)) ret = Some (Inr ret)"
  by (subst iterate.simps)
    (simp add: iter_at_def iter_end_def cropped_from_def list_bytes_def nth_or_null_def)

text \<open>
  An iterator that has run past the payload of a list followed by further bytes: it is not the
  end iterator, it dereferences to the null RLP, and incrementing it leaves it where it is.
\<close>

definition stuck :: "bytes \<Rightarrow> rlp_iter \<Rightarrow> bool" where
  "stuck d it \<longleftrightarrow> (\<exists>off. it = \<lparr>m_remaining = 0, m_currentItem = Some (off, 0)\<rparr> \<and> off < length d)"

lemma iterate_stuck: "stuck d it \<Longrightarrow> iterate d it ret = None"
proof -
  have "stuck d it \<longrightarrow> False" if "iterate d it ret = Some y" for d it ret y
  proof (rule iterate.raw_induct [OF _ that])
    fix f d it ret y
    assume IH: "\<And>d it ret y. f d it ret = Some y \<Longrightarrow> stuck d it \<longrightarrow> False"
      and step: "(if m_currentItem it = m_currentItem (iter_end d) then Some (Inr ret)
          else case iter_deref d it of Inl e \<Rightarrow> Some (Inl e)
            | Inr x \<Rightarrow> (case iter_next d it of Inl e \<Rightarrow> Some (Inl e)
                | Inr it' \<Rightarrow> f d it' (ret @ [x]))) = Some y"
    show "stuck d it \<longrightarrow> False"
    proof
      assume stuck: "stuck d it"
      then obtain off where it: "it = \<lparr>m_remaining = 0, m_currentItem = Some (off, 0)\<rparr>" "off < length d"
        by (auto simp: stuck_def)
      have "m_currentItem it \<noteq> m_currentItem (iter_end d)"
        using it by (simp add: iter_end_def cropped_from_def)
      moreover have "iter_deref d it = Inr []"
        by (simp add: it(1) iter_deref_def RLP_VeryStrict_eq)
      moreover have "iter_next d it = Inr it"
        by (simp add: it(1) iter_next_def vref_next_def)
      ultimately have "f d it (ret @ [[]]) = Some y"
        using step by simp
      with IH stuck show False by blast
    qed
  qed
  then show "stuck d it \<Longrightarrow> iterate d it ret = None"
    by (cases "iterate d it ret") auto
qed

lemma toList_exact:
  assumes "list_of_chunks cs"
  shows "toList (list_bytes cs) flags = Some (Inr cs)"
proof -
  have ch: "list_all chunk cs" and n: "length (concat cs) < max_field"
    using assms by (simp_all add: list_of_chunks_def)
  have "isList (list_bytes cs)"
    using enc_length_head(4) [OF _ n, of 192] by (simp add: list_bytes_def)
  then show ?thesis
    using iter_begin_eq [OF assms, of "[]"] iterate_steps [OF ch, of "length cs" 0 "[]"]
    by (simp add: toList_def iterate_end)
qed

lemma toList_trailing:
  assumes "list_of_chunks cs" and "t \<noteq> []"
  shows "toList (list_bytes cs @ t) flags = None"
proof -
  have ch: "list_all chunk cs" and n: "length (concat cs) < max_field"
    using assms by (simp_all add: list_of_chunks_def)
  have "isList (list_bytes cs @ t)"
    using enc_length_head(4) [OF _ n, of 192] by (simp add: list_bytes_def)
  moreover have "stuck (list_bytes cs @ t) (iter_at cs (length cs))"
    using assms(2) by (simp add: stuck_def iter_at_def list_bytes_def nth_or_null_def)
  ultimately show ?thesis
    using iter_begin_eq [OF assms(1), of t] iterate_steps [OF ch, of "length cs" 0 t]
    by (simp add: toList_def iterate_stuck)
qed


section \<open>Values that can be read back\<close>

text \<open>The reader refuses length fields of \<^verbatim>\<open>max_size_t - 0x100\<close> and more.\<close>

fun readable :: "item \<Rightarrow> bool" where
  "readable (Data bs) = (length bs < max_field)"
| "readable (Lst xs) = (list_all readable xs \<and> length (concat (map enc xs)) < max_field)"

lemma readable_fits: "readable x \<Longrightarrow> fits x"
  by (induction x rule: readable.induct) (auto simp: max_field_def list_all_iff)

lemma rlp_enc: "fits x \<Longrightarrow> rlp x = Inr (enc x)"
  by (simp add: rlp_def RLPStream_def appendItem_eq out_stream_def)

lemma enc_Lst: "enc (Lst xs) = list_bytes (map enc xs)"
  by (simp add: list_bytes_def Let_def)

lemma enc_data_cases:
  assumes "length bs < max_field"
  obtains (single) b where "bs = [b]" "unat b < 128" "enc_data bs = [b]"
  | (headed) "well_headed 128 bs" "enc_data bs = enc_length 128 (length bs) @ bs"
proof (cases "length bs = 1 \<and> unat (hd bs) < 128")
  case True
  then obtain b where "bs = [b]"
    by (auto simp: length_Suc_conv)
  with True show thesis
    by (intro single) (auto simp: enc_data_def)
next
  case False
  with assms show thesis
    by (intro headed) (auto simp: enc_data_def well_headed_def length_Suc_conv)
qed

lemma chunk_enc_data: "length bs < max_field \<Longrightarrow> chunk (enc_data bs)"
  by (erule enc_data_cases) (simp_all add: chunk_single_byte chunk_enc_length)

lemma chunk_enc: "readable x \<Longrightarrow> chunk (enc x)"
proof (induction x rule: readable.induct)
  case (1 bs)
  then show ?case by (simp add: chunk_enc_data)
next
  case (2 xs)
  then have "well_headed 192 (concat (map enc xs))"
    by (simp add: well_headed_def)
  then show ?case
    using chunk_enc_length by (simp add: Let_def)
qed

lemma list_of_chunks_enc: "readable (Lst xs) \<Longrightarrow> list_of_chunks (map enc xs)"
  by (auto simp: list_of_chunks_def list_all_iff chunk_enc)

lemma isData_enc_data: "length bs < max_field \<Longrightarrow> isData (enc_data bs)"
  using enc_length_head(3) [of 128 "length bs" bs]
  by (elim enc_data_cases) (auto simp: isData_def isNull_def well_headed_def)

lemma payload_single: "unat b < 128 \<Longrightarrow> payload [b] = Inr [b]"
  by (simp add: payload_def payload_ref_def length_field_eq payloadOffset_def isSingleByte_def
      isNull_def cropped_Some)

lemma payload_enc_data: "length bs < max_field \<Longrightarrow> payload (enc_data bs) = Inr bs"
  using payload_well_headed [of 128 bs "[]"]
  by (elim enc_data_cases) (simp_all add: payload_single)

lemma isList_list_bytes: "list_of_chunks cs \<Longrightarrow> isList (list_bytes cs @ t)"
  using enc_length_head(4) [of 192 "length (concat cs)"]
  by (simp add: list_bytes_def list_of_chunks_def)

lemma items_list_bytes: "list_of_chunks cs \<Longrightarrow> items (list_bytes cs @ t) = Inr (length cs)"
  using items_list by (simp add: list_bytes_def list_of_chunks_def)

lemma toBytes_eq:
  "toBytes d flags =
     (if \<not> isData d then (if flags AND ThrowOnFail \<noteq> 0 then Inl BadCast else Inr [])
      else if \<exists>l. length_field d = Inr l \<and> l \<le> length d \<and> length d < payloadOffset d + l
      then Inl BadIndex else payload d)"
proof (cases "length_field d")
  case (Inr l)
  have "payloadOffset d \<le> length d" if "l = 0" "isData d"
    using that Inr by (auto simp: payloadOffset_def lengthSize_def isData_def isNull_def isList_def
        length_field_eq Let_def Suc_le_eq split: if_splits)
  with Inr show ?thesis
    by (auto simp: toBytes_def payload_def payload_ref_def cropped_Some)
qed (auto simp: toBytes_def payload_def payload_ref_def)

lemma toBytes_strict:
  assumes "RLP d VeryStrict = Inr d" and "isData d"
  shows "toBytes d flags = payload d"
proof -
  have "actualSize d = Inr (length d)" "d \<noteq> []"
    using assms by (auto simp: RLP_VeryStrict_eq isData_def isNull_def split: if_splits)
  then have "l \<le> length d \<Longrightarrow> payloadOffset d + l \<le> length d" if "length_field d = Inr l" for l
    using that assms(2)
    by (auto simp: actualSize_def isNull_def length_field_eq isSingleByte_def payloadOffset_def
        split: if_splits)
  then show ?thesis
    using assms(2) by (auto simp: toBytes_eq)
qed

section \<open>What the reader accepts is what the writer wrote\<close>

lemma RLP_VeryStrict_canon:
  assumes "RLP d VeryStrict = Inr d" and "d \<noteq> []"
  obtains (single) b where "d = [b]" "unat b < 128"
  | (headed) off p where "d = enc_length off (length p) @ p" "well_headed off p"
proof -
  have "actualSize d = Inr (length d)"
    using assms(1) by (auto simp: RLP_VeryStrict_eq split: if_splits)
  then show thesis
    using assms(2) single headed by (elim actualSize_canon) auto
qed

lemma data_canon:
  assumes "RLP d VeryStrict = Inr d" "isData d" "payload d = Inr bs"
  shows "d = enc_data bs \<and> length bs < max_field"
proof -
  have "d \<noteq> []"
    using assms(2) by (auto simp: isData_def isNull_def)
  with assms(1) show ?thesis
  proof (cases rule: RLP_VeryStrict_canon)
    case (single b)
    with assms(3) show ?thesis
      by (auto simp: payload_single enc_data_def max_field_def)
  next
    case (headed off p)
    then have "off = 128" "p = bs"
      using assms(2,3) enc_length_head(3) [of off "length p" p] payload_well_headed [of off p "[]"]
      by (auto simp: well_headed_def)
    with headed(2) have "\<not> (length bs = 1 \<and> unat (hd bs) < 128)" "length bs < max_field"
      by (auto simp: well_headed_def length_Suc_conv)
    with headed \<open>off = 128\<close> \<open>p = bs\<close> show ?thesis
      by (simp add: enc_data_def)
  qed
qed

lemma list_canon:
  assumes "RLP d VeryStrict = Inr d" "isList d" "items d = Inr n"
  obtains cs where "d = list_bytes cs" "list_of_chunks cs" "length cs = n"
proof -
  have "d \<noteq> []"
    using assms(2) by (auto simp: isList_def isNull_def)
  with assms(1) show thesis
  proof (cases rule: RLP_VeryStrict_canon)
    case (single b)
    with assms(2) show thesis by (simp add: isList_def)
  next
    case (headed off p)
    then have off: "off = 192"
      using assms(2) enc_length_head(4) [of off "length p" p] by (auto simp: well_headed_def)
    have "items_loop p 0 = Inr n"
      using assms(2,3) payload_well_headed [OF headed(2), of "[]"] headed(1) by (simp add: items_def)
    then obtain cs where "p = concat cs" "list_all chunk cs" "n = length cs"
      using items_loop_chunks by fastforce
    with headed off show thesis
      by (intro that [of cs]) (auto simp: list_bytes_def list_of_chunks_def well_headed_def)
  qed
qed

text \<open>
  Reading a value completely: a byte string is accepted by the strict constructor, and it is data
  with the given payload, or a list with the given count whose items are read in turn.
\<close>

inductive decodes :: "bytes \<Rightarrow> item \<Rightarrow> bool" where
  data: "RLP d VeryStrict = Inr d \<Longrightarrow> isData d \<Longrightarrow> toBytes d VeryStrict = Inr bs \<Longrightarrow> decodes d (Data bs)"
| list: "RLP d VeryStrict = Inr d \<Longrightarrow> isList d \<Longrightarrow> items d = Inr (length ds) \<Longrightarrow>
    toList d VeryStrict = Some (Inr ds) \<Longrightarrow> list_all2 decodes ds xs \<Longrightarrow> decodes d (Lst xs)"
monos list.rel_mono_strong

lemma decodes_enc: "readable x \<Longrightarrow> decodes (enc x) x"
proof (induction x rule: readable.induct)
  case (1 bs)
  then show ?case
    by (intro decodes.data)
      (simp_all add: RLP_chunk chunk_enc_data isData_enc_data toBytes_strict payload_enc_data)
next
  case (2 xs)
  have loc: "list_of_chunks (map enc xs)"
    using "2.prems" by (rule list_of_chunks_enc)
  have "list_all2 decodes (map enc xs) xs"
    using 2 by (auto simp: list_all2_conv_all_nth list_all_length)
  then show ?case
    using isList_list_bytes [OF loc, of "[]"] items_list_bytes [OF loc, of "[]"] toList_exact [OF loc]
      RLP_chunk [OF chunk_enc [OF "2.prems"]]
    unfolding enc_Lst by (intro decodes.list [where ds = "map enc xs"]) simp_all
qed

lemma decodes_canon: "decodes d x \<Longrightarrow> readable x \<and> d = enc x"
proof (induction rule: decodes.induct)
  case (data d bs)
  then show ?case
    using data_canon [of d bs] by (simp add: toBytes_strict)
next
  case (list d ds xs)
  obtain cs where cs: "d = list_bytes cs" "list_of_chunks cs"
    using list(1-3) list_canon by metis
  then have "cs = ds"
    using toList_exact [OF cs(2)] list(4) by simp
  have xs: "ds = map enc xs" "list_all readable xs"
    using list(5) by (auto simp: list_all2_conv_all_nth list_all_length intro: nth_equalityI)
  then show ?case
    using cs \<open>cs = ds\<close> by (simp add: list_of_chunks_def enc_Lst [simplified])
qed


section \<open>Integers\<close>

lemma compact_toBigEndian: "toCompactBigEndian i 0 = toBigEndian (bytesRequired i) i"
  by (simp add: toCompactBigEndian_def)

lemma bytesRequired_1: "0 < i \<Longrightarrow> i < 256 \<Longrightarrow> bytesRequired i = 1"
  by (simp add: bytesRequired.simps)

lemma bytesRequired_ge_2: "256 \<le> i \<Longrightarrow> 2 \<le> bytesRequired i"
proof -
  assume "256 \<le> i"
  then have "i div 256 \<noteq> 0" by simp
  with \<open>256 \<le> i\<close> show ?thesis
    using bytesRequired_pos [of "i div 256"] by (simp add: bytesRequired.simps [of i])
qed

lemma appendInt_eq:
  assumes "bytesRequired i < 2 ^ 64"
  shows "appendInt i st = noteAppended 1 (m_out st @ enc_data (toCompactBigEndian i 0)) (m_listStack st)"
proof -
  let ?br = "bytesRequired i"
  consider "i = 0" | "0 < i" "i < 128" | "128 \<le> i" "?br < 56" | "128 \<le> i" "56 \<le> ?br"
    by linarith
  then show ?thesis
  proof cases
    case 1
    then show ?thesis by (simp add: appendInt_def enc_data_def enc_length_def)
  next
    case 2
    then have "toCompactBigEndian i 0 = [word_of_nat i]"
      by (simp add: compact_toBigEndian bytesRequired_1)
    with 2 show ?thesis by (simp add: appendInt_def enc_data_def)
  next
    case 3
    have "\<not> (?br = 1 \<and> unat (hd (toBigEndian ?br i)) < 128)"
    proof (cases "i < 256")
      case True
      with 3 show ?thesis by (simp add: bytesRequired_1)
    next
      case False
      with bytesRequired_ge_2 [of i] show ?thesis by simp
    qed
    with 3 show ?thesis
      by (auto simp: appendInt_def enc_data_def compact_toBigEndian enc_length_def pushInt_eq
          add.commute Let_def)
  next
    case 4
    then show ?thesis
      using bytesRequired_le_8 [OF assms]
      by (simp add: appendInt_def enc_data_def compact_toBigEndian enc_length_def pushInt_eq Let_def)
  qed
qed

lemma isInt_enc:
  assumes "bytesRequired i < max_field"
  shows "isInt (enc_data (toCompactBigEndian i 0)) = Inr True"
proof -
  let ?bs = "toCompactBigEndian i 0"
  have len: "length ?bs < max_field"
    using assms by (simp add: compact_toBigEndian)
  have nz: "?bs \<noteq> [] \<Longrightarrow> unat (?bs ! 0) \<noteq> 0"
    using toBigEndian_hd [of i]
    by (cases "i = 0") (auto simp: compact_toBigEndian hd_conv_nth word_unat_eq_iff)
  from len show ?thesis
  proof (cases rule: enc_data_cases)
    case (single b)
    with nz show ?thesis
      by (simp add: isInt_def isNull_def requireGood_eq)
  next
    case headed
    let ?n = "length ?bs"
    have n64: "?n < 2 ^ 64"
      using len by (simp add: max_field_def)
    have hd: "unat (enc_data ?bs ! 0) = (if ?n < 56 then 128 + ?n else 183 + bytesRequired ?n)"
      using enc_length_hd [OF _ n64, of 128] by (simp add: headed(2) nth_append)
    have "requireGood (enc_data ?bs) = Inr ()"
      using length_field_well_headed [OF headed(1), of "[]"]
      by (auto simp: headed(2) length_field_def isNull_def)
    then show ?thesis
      using hd nz bytesRequired_bounds [OF _ n64]
      by (cases "?n < 56") (auto simp: isInt_def isNull_def headed(2) nth_append length_enc_length)
  qed
qed


lemma toIntPayload_enc:
  assumes "bytesRequired i < max_field" and "bytesRequired i \<le> maxSize"
  shows "toIntPayload maxSize (enc_data (toCompactBigEndian i 0)) flags =
    Inr (Some (toCompactBigEndian i 0))"
proof -
  let ?bs = "toCompactBigEndian i 0"
  have len: "length ?bs < max_field" "length ?bs \<le> maxSize"
    using assms by (simp_all add: compact_toBigEndian)
  have d: "isData (enc_data ?bs)"
    by (rule isData_enc_data) (rule len)
  then have g: "requireGood (enc_data ?bs) = Inr ()"
    using isInt_enc [OF assms(1)] by (auto simp: isInt_def isData_def)
  show ?thesis
    using d len by (auto simp: toIntPayload_def g isInt_enc [OF assms(1)] isData_def isList_def
        payload_enc_data)
qed

lemma max_size_le: "bytesRequired i \<le> 2 ^ 32 \<Longrightarrow> bytesRequired i < max_field"
  by (simp add: max_field_def)

lemma toInt_enc:
  assumes "i < 2 ^ LENGTH('a)" and "8 dvd LENGTH('a::len)" and "LENGTH('a) \<le> 2 ^ 32"
  shows "toInt (enc_data (toCompactBigEndian i 0)) flags = Inr (word_of_nat i :: 'a word)"
proof -
  have len: "LENGTH('a) = 8 * (LENGTH('a) div 8)"
    using assms(2) by simp
  have "256 ^ k = (2 :: nat) ^ (8 * k)" for k
    by (simp add: power_mult)
  then have "256 ^ (LENGTH('a) div 8) = (2 :: nat) ^ LENGTH('a)"
    using len by simp
  with assms(1) have br: "bytesRequired i \<le> LENGTH('a) div 8"
    by (intro bytesRequired_least) simp
  moreover have "8 \<le> LENGTH('a)"
    using len_gt_0 [where 'a = 'a] assms(2) dvd_imp_le by blast
  moreover have "bytesRequired i < max_field"
    using br assms(3) by (simp add: max_field_def)
  ultimately show ?thesis
    using assms(1)
    by (simp add: toInt_def toIntPayload_enc word_unat_eq_iff unat_fromBigEndian unat_of_nat)
qed


lemma isInt_no_leading_zero:
  assumes "isInt (enc_data p) = Inr True" and "length p < max_field" and "p \<noteq> []"
  shows "hd p \<noteq> 0"
  using assms(2)
proof (cases rule: enc_data_cases)
  case (single b)
  then show ?thesis
    using assms(1) by (auto simp: isInt_def isNull_def requireGood_eq split: if_splits)
next
  case headed
  let ?n = "length p"
  have n64: "?n < 2 ^ 64"
    using assms(2) by (simp add: max_field_def)
  have hd: "unat (enc_data p ! 0) = (if ?n < 56 then 128 + ?n else 183 + bytesRequired ?n)"
    using enc_length_hd [OF _ n64, of 128] by (simp add: headed(2) nth_append)
  have g: "requireGood (enc_data p) = Inr ()"
    using length_field_well_headed [OF headed(1), of "[]"]
    by (auto simp: headed(2) length_field_def isNull_def)
  have "unat (p ! 0) \<noteq> 0"
    using assms(1,3) hd g bytesRequired_bounds [OF _ n64]
    by (cases "?n < 56")
      (auto simp: isInt_def isNull_def headed(2) nth_append length_enc_length split: if_splits)
  with assms(3) show ?thesis
    by (auto simp: hd_conv_nth)
qed

lemma compact_be_nat: "p = [] \<or> hd p \<noteq> 0 \<Longrightarrow> toCompactBigEndian (be_nat p) 0 = p"
  using bytesRequired_be_nat [of p] toBigEndian_be_nat [of p]
  by (cases "p = []") (auto simp: compact_toBigEndian)

lemma toInt_canon:
  assumes "RLP d VeryStrict = Inr d" and "toInt d VeryStrict = Inr (w :: 'a::len word)"
    and "8 \<le> LENGTH('a)"
  shows "d = enc_data (toCompactBigEndian (unat w) 0)"
proof -
  obtain q where q: "toIntPayload (LENGTH('a) div 8) d VeryStrict = Inr q"
    "w = (case q of None \<Rightarrow> 0 | Some p \<Rightarrow> fromBigEndian p)"
    using assms(2) by (auto simp: toInt_def)
  then obtain p where p: "q = Some p" "isInt d = Inr True" "payload d = Inr p" "isData d"
      "length p \<le> LENGTH('a) div 8"
    by (auto simp: toIntPayload_def isData_def isList_def split: if_splits)
  have d: "d = enc_data p" "length p < max_field"
    using data_canon [OF assms(1) p(4,3)] by auto
  have "be_nat p < 256 ^ length p"
    by (rule be_nat_bound)
  also have "\<dots> = 2 ^ (8 * length p)"
    by (simp add: power_mult)
  also have "\<dots> \<le> 2 ^ LENGTH('a)"
    using p(5) by (intro power_increasing) auto
  finally have "unat w = be_nat p"
    by (simp add: q(2) p(1) unat_fromBigEndian [OF assms(3)])
  moreover have "toCompactBigEndian (be_nat p) 0 = p"
    using isInt_no_leading_zero p(2) d by (intro compact_be_nat) blast
  ultimately show ?thesis
    by (simp add: d)
qed

section \<open>No read leaves the slice\<close>

lemma requireGood_safe [simp]: "requireGood d \<noteq> Inl BadIndex"
  by (simp add: requireGood_eq)

lemma length_field_safe [simp]: "length_field d \<noteq> Inl BadIndex"
  by (simp add: length_field_eq Let_def)

lemma isInt_safe [simp]: "isInt d \<noteq> Inl BadIndex"
  by (auto simp: isInt_def isNull_def requireGood_eq split: if_splits)

lemma payload_ref_safe [simp]: "payload_ref d \<noteq> Inl BadIndex"
  by (auto simp: payload_ref_def)

lemma payload_safe [simp]: "payload d \<noteq> Inl BadIndex"
  by (auto simp: payload_def)

lemma actualSize_safe [simp]: "actualSize d \<noteq> Inl BadIndex"
  by (auto simp: actualSize_def)

lemma RLP_safe [simp]: "RLP d s \<noteq> Inl BadIndex"
  by (auto simp: RLP_def split: if_splits)

lemma sizeAsEncoded_safe [simp]: "sizeAsEncoded d \<noteq> Inl BadIndex"
  by (auto simp: sizeAsEncoded_eq split: if_splits)

lemma items_loop_safe: "items_loop d i \<noteq> Inl BadIndex"
proof (induction d i rule: items_loop.induct)
  case (1 d i)
  then show ?case by (auto simp: items_loop.simps [of d i])
qed

lemma index_loop_safe: "index_loop pl i r \<noteq> Inl BadIndex"
proof (induction pl i r rule: index_loop.induct)
  case (1 pl i r)
  then show ?case
    by (cases "sizeAsEncoded (drop (m_lastEnd r) pl)")
      (auto simp: index_loop.simps [of pl i r] Let_def simp del: length_take)
qed


section \<open>Properties\<close>

text \<open>The results of successive calls of \<^verbatim>\<open>operator[]\<close> on one object, through its cache.\<close>

fun index_seq :: "rlp_obj \<Rightarrow> nat list \<Rightarrow> rlp_error + bytes list" where
  "index_seq r [] = Inr []"
| "index_seq r (i # is) =
     sum_bind (index r i) (\<lambda>(x, r'). sum_bind (index_seq r' is) (\<lambda>xs. Inr (x # xs)))"

lemma index_seq_ok:
  assumes "list_of_chunks cs"
  shows "cache_ok cs t r \<Longrightarrow> list_all (\<lambda>i. i < 2 ^ 64 - 1) is \<Longrightarrow>
    index_seq r is = Inr (map (nth_or_null cs) is)"
proof (induction "is" arbitrary: r)
  case Nil
  then show ?case by simp
next
  case (Cons i "is")
  then obtain r' where "index r i = Inr (nth_or_null cs i, r')" "cache_ok cs t r'"
    using index_ok [OF assms] by (metis list.pred_inject(2))
  with Cons show ?case by simp
qed

text \<open>
  C8. The writer implements the encoding: streaming any nested value through \<^verbatim>\<open>RLPStream\<close>, with
  its in-place list closing and length bytes, succeeds and leaves exactly the recursive length
  prefix encoding of the value, as long as every payload fits a 64-bit size.
\<close>

theorem rlp_writer_refines_encoding: "fits x \<Longrightarrow> rlp x = Inr (enc x)"
  by (rule rlp_enc)

theorem rlp_writer_refines_encoding_witness:
  "rlp (Lst [Data [1], Lst [], Data [200, 7]]) = Inr [0xc5, 1, 0xc0, 0x82, 200, 7]"
  using rlp_writer_refines_encoding [of "Lst [Data [1], Lst [], Data [200, 7]]"]
  by (simp add: enc_data_def enc_length_def)

text \<open>
  C9. Reader and writer are inverse to each other: the strict reader takes a byte string for a
  value exactly when the value's payloads are below the reader's length limit and the byte string
  is what the writer produces for it. So every such value is read back, and no second byte string
  is ever accepted for it.
\<close>

theorem rlp_reader_inverts_writer: "decodes d x \<longleftrightarrow> readable x \<and> rlp x = Inr d"
  using decodes_canon decodes_enc rlp_enc readable_fits by fastforce

text \<open>
  C17. \<^verbatim>\<open>operator[]\<close> is a pure lookup in spite of its cache: any sequence of indices asked of one
  object over an encoded list (whatever follows the list in the buffer) gives the items' own
  encodings, and the null RLP for an index past the end.
\<close>

theorem rlp_index_cache_transparent:
  assumes "readable (Lst xs)" and "list_all (\<lambda>i. i < 2 ^ 64 - 1) is"
  shows "index_seq (rlp_obj_of (enc (Lst xs) @ t)) is =
    Inr (map (\<lambda>i. if i < length xs then enc (xs ! i) else []) is)"
proof -
  have loc: "list_of_chunks (map enc xs)"
    using assms(1) by (rule list_of_chunks_enc)
  have "cache_ok (map enc xs) t (rlp_obj_of (enc (Lst xs) @ t))"
    by (simp add: cache_ok_def rlp_obj_of_def enc_Lst del: enc.simps)
  then have "index_seq (rlp_obj_of (enc (Lst xs) @ t)) is = Inr (map (nth_or_null (map enc xs)) is)"
    using assms(2) by (rule index_seq_ok [OF loc])
  then show ?thesis
    by (simp add: nth_or_null_def cong: map_cong)
qed

theorem rlp_index_cache_transparent_witness:
  "index_seq (rlp_obj_of (enc (Lst [Data [1], Data [200, 7]]) @ [9])) [1, 0, 2, 1] =
    Inr [[0x82, 200, 7], [1], [], [0x82, 200, 7]]"
  using rlp_index_cache_transparent [of "[Data [1], Data [200, 7]]" "[1, 0, 2, 1]" "[9]"]
  by (simp add: max_field_def enc_data_def enc_length_def)

text \<open>
  C18. Iterating an encoded list ends exactly when nothing follows the list in the slice, and then
  visits the items in order. With trailing bytes (an RLP built without \<^verbatim>\<open>FailIfTooBig\<close>) the
  iterator never equals \<^verbatim>\<open>end()\<close> and the loop does not return.
\<close>

theorem rlp_iteration_terminates_iff:
  assumes "readable (Lst xs)"
  shows "toList (enc (Lst xs) @ t) flags = (if t = [] then Some (Inr (map enc xs)) else None)"
  using toList_exact toList_trailing list_of_chunks_enc [OF assms]
  by (simp add: enc_Lst del: enc.simps)

theorem rlp_iteration_terminates_iff_witness:
  "toList [0xc2, 1, 2] Strict = Some (Inr [[1], [2]]) \<and> toList [0xc2, 1, 2, 0] LaissezFaire = None"
  using rlp_iteration_terminates_iff [of "[Data [1], Data [2]]" "[]" Strict]
    rlp_iteration_terminates_iff [of "[Data [1], Data [2]]" "[0]" LaissezFaire]
  by (simp add: max_field_def enc_data_def enc_length_def)

text \<open>
  C19. 256-bit integers: a byte string is a strict RLP that converts to the integer \<open>w\<close> exactly
  when it is what \<^verbatim>\<open>append\<close> writes for \<open>w\<close>; in particular integers have no second encoding (with
  leading zeros).
\<close>

theorem rlp_u256_roundtrip_canonical:
  "RLP d VeryStrict = Inr d \<and> toInt d VeryStrict = Inr w \<longleftrightarrow>
     sum_bind (appendInt (unat (w :: u256)) RLPStream) out_stream = Inr d"
proof -
  let ?bs = "toCompactBigEndian (unat w) 0"
  have "unat w < 256 ^ 32"
    using unsigned_less [of w] by simp
  then have br: "bytesRequired (unat w) \<le> 32"
    by (rule bytesRequired_least)
  then have "sum_bind (appendInt (unat w) RLPStream) out_stream = Inr (enc_data ?bs)"
    by (simp add: appendInt_eq RLPStream_def out_stream_def)
  moreover have "RLP (enc_data ?bs) VeryStrict = Inr (enc_data ?bs)"
    using br by (intro RLP_chunk chunk_enc_data) (simp add: compact_toBigEndian max_field_def)
  moreover have "toInt (enc_data ?bs) VeryStrict = Inr w"
    using toInt_enc [where 'a = 256, of "unat w" VeryStrict] unsigned_less [of w] by simp
  ultimately show ?thesis
    using toInt_canon [of d w] by auto
qed


end
