(* ===== verification/EVM_Instruction.thy ===== *)
theory EVM_Instruction
  imports Prelude "HOL-Library.More_List"
begin

text \<open>
  \<^verbatim>\<open>libevm/Instruction.h\<close>, \<^verbatim>\<open>libevm/Instruction.cpp\<close> and \<^verbatim>\<open>libaeccore/EVMSchedule.h\<close>: the
  opcodes, their stack and gas metrics, and the gas schedules of the protocol versions. The
  numbered families \<^verbatim>\<open>PUSHn\<close>, \<^verbatim>\<open>DUPn\<close>, \<^verbatim>\<open>SWAPn\<close> and \<^verbatim>\<open>LOGn\<close> are one constructor each with \<open>n\<close>
  as its argument, and the opcodes of the disabled extensions EIP-615 and EIP-616 are kept in two
  types of their own. A byte that is no opcode is \<open>Undefined\<close>.
\<close>

section \<open>Opcodes\<close>

datatype eip615 =
    JUMPTO | JUMPIF | JUMPSUB | JUMPV | JUMPSUBV | BEGINSUB | BEGINDATA | RETURNSUB | PUTLOCAL
  | GETLOCAL

datatype (plugins only: size) eip616 =
    XADD | XMUL | XSUB | XDIV | XSDIV | XMOD | XSMOD
  | XLT | XGT | XSLT | XSGT | XEQ | XISZERO | XAND | XOOR | XXOR | XNOT
  | XSHL | XSHR | XSAR | XROL | XROR
  | XPUSH | XMLOAD | XMSTORE | XSLOAD | XSSTORE | XVTOWIDE | XWIDETOV | XGET | XPUT | XSWIZZLE
  | XSHUFFLE

datatype (plugins only: size) Instruction =
    STOP | ADD | MUL | SUB | DIV | SDIV | MOD | SMOD | ADDMOD | MULMOD | EXP | SIGNEXTEND
  | LT | GT | SLT | SGT | EQ | ISZERO | ANDop | ORop | XORop | NOTop | BYTE | SHL | SHR | SAR
  | SHA3
  | ADDRESS | BALANCE | ORIGIN | CALLER | CALLVALUE | CALLDATALOAD | CALLDATASIZE | CALLDATACOPY
  | CODESIZE | CODECOPY | GASPRICE | EXTCODESIZE | EXTCODECOPY | RETURNDATASIZE | RETURNDATACOPY
  | BLOCKHASH | COINBASE | TIMESTAMP | NUMBER | DIFFICULTY | GASLIMIT
  | POP | MLOAD | MSTORE | MSTORE8 | SLOAD | SSTORE | JUMP | JUMPI | PC | MSIZE | GAS | JUMPDEST
  | PUSH nat | DUP nat | SWAP nat | LOG nat
  | PUSHC | JUMPC | JUMPCI
  | E615 eip615 | E616 eip616
  | CREATE | CALL | CALLCODE | RETURN | DELEGATECALL | STATICCALL | CREATE2 | REVERT | INVALID
  | SUICIDE
  | Undefined byte

text \<open>
  The value of every opcode, by the high and the low digit of its byte: \<^verbatim>\<open>Instruction(m_code[m_PC])\<close>.
\<close>

definition opcode_row :: "nat \<Rightarrow> Instruction list" where
  "opcode_row h =
     (if h = 0 then [STOP, ADD, MUL, SUB, DIV, SDIV, MOD, SMOD, ADDMOD, MULMOD, EXP, SIGNEXTEND]
      else if h = 1 then
        [LT, GT, SLT, SGT, EQ, ISZERO, ANDop, ORop, XORop, NOTop, BYTE, SHL, SHR, SAR]
      else if h = 2 then [SHA3]
      else if h = 3 then
        [ADDRESS, BALANCE, ORIGIN, CALLER, CALLVALUE, CALLDATALOAD, CALLDATASIZE, CALLDATACOPY,
         CODESIZE, CODECOPY, GASPRICE, EXTCODESIZE, EXTCODECOPY, RETURNDATASIZE, RETURNDATACOPY]
      else if h = 4 then [BLOCKHASH, COINBASE, TIMESTAMP, NUMBER, DIFFICULTY, GASLIMIT]
      else if h = 5 then
        [POP, MLOAD, MSTORE, MSTORE8, SLOAD, SSTORE, JUMP, JUMPI, PC, MSIZE, GAS, JUMPDEST]
      else if h = 0xb then map E615
        [JUMPTO, JUMPIF, JUMPSUB, JUMPV, JUMPSUBV, BEGINSUB, BEGINDATA, RETURNSUB, PUTLOCAL, GETLOCAL]
      else [])"

definition decode_high :: "byte \<Rightarrow> Instruction" where
  "decode_high b =
     (let n = unat b in
      if 0xa0 \<le> n \<and> n \<le> 0xa4 then LOG (n - 0xa0)
      else if n = 0xac then PUSHC else if n = 0xad then JUMPC else if n = 0xae then JUMPCI
      else if 0xc1 \<le> n \<and> n \<le> 0xc7
      then E616 ([XADD, XMUL, XSUB, XDIV, XSDIV, XMOD, XSMOD] ! (n - 0xc1))
      else if 0xd0 \<le> n \<and> n \<le> 0xd9
      then E616 ([XLT, XGT, XSLT, XSGT, XEQ, XISZERO, XAND, XOOR, XXOR, XNOT] ! (n - 0xd0))
      else if 0xdb \<le> n \<and> n \<le> 0xe2
      then E616 ([XSHL, XSHR, XSAR, XROL, XROR, XPUSH, XMLOAD, XMSTORE] ! (n - 0xdb))
      else if 0xe4 \<le> n \<and> n \<le> 0xeb
      then E616 ([XSLOAD, XSSTORE, XVTOWIDE, XWIDETOV, XGET, XPUT, XSWIZZLE, XSHUFFLE] ! (n - 0xe4))
      else if n = 0xf0 then CREATE else if n = 0xf1 then CALL else if n = 0xf2 then CALLCODE
      else if n = 0xf3 then RETURN else if n = 0xf4 then DELEGATECALL
      else if n = 0xfa then STATICCALL else if n = 0xfb then CREATE2 else if n = 0xfd then REVERT
      else if n = 0xfe then INVALID else if n = 0xff then SUICIDE
      else Undefined b)"

definition decode :: "byte \<Rightarrow> Instruction" where
  "decode b =
     (let h = unat b div 16; l = unat b mod 16 in
      if h = 6 \<or> h = 7 then PUSH (unat b - 0x60 + 1)
      else if h = 8 then DUP (l + 1)
      else if h = 9 then SWAP (l + 1)
      else if h < 6 \<or> h = 0xb then nth_default (Undefined b) (opcode_row h) l
      else decode_high b)"

section \<open>Metrics\<close>

datatype Tier = Zero | Base | VeryLow | Low | Mid | High | Ext | Special | Invalid

record InstructionMetric =
  gasPriceTier :: Tier
  args :: nat
  ret :: nat

definition metric :: "nat \<Rightarrow> nat \<Rightarrow> Tier \<Rightarrow> InstructionMetric" where
  "metric a r t = \<lparr>gasPriceTier = t, args = a, ret = r\<rparr>"

fun info615 :: "eip615 \<Rightarrow> InstructionMetric" where
  "info615 JUMPTO = metric 1 0 VeryLow"
| "info615 JUMPIF = metric 2 0 Low"
| "info615 JUMPV = metric 1 0 Mid"
| "info615 JUMPSUB = metric 1 0 Low"
| "info615 JUMPSUBV = metric 1 0 Mid"
| "info615 BEGINSUB = metric 0 0 Special"
| "info615 BEGINDATA = metric 0 0 Special"
| "info615 RETURNSUB = metric 1 0 Mid"
| "info615 PUTLOCAL = metric 1 0 VeryLow"
| "info615 GETLOCAL = metric 0 1 VeryLow"

text \<open>The table has no entry for \<open>XOOR\<close>.\<close>

definition info616 :: "eip616 \<Rightarrow> InstructionMetric" where
  "info616 x = (case x of XADD \<Rightarrow> metric 0 0 Special | XAND \<Rightarrow> metric 1 1 Special
     | XOOR \<Rightarrow> metric 0 0 Invalid
     | XPUSH \<Rightarrow> metric 1 1 VeryLow | XMLOAD \<Rightarrow> metric 1 1 VeryLow | XMSTORE \<Rightarrow> metric 2 0 VeryLow
     | XSLOAD \<Rightarrow> metric 1 1 Special | XSSTORE \<Rightarrow> metric 2 0 Special
     | XVTOWIDE \<Rightarrow> metric 1 1 VeryLow | XWIDETOV \<Rightarrow> metric 1 1 VeryLow
     | XPUT \<Rightarrow> metric 3 1 Special | XSHUFFLE \<Rightarrow> metric 3 1 Special
     | _ \<Rightarrow> metric 2 1 Special)"

definition instructionInfo :: "Instruction \<Rightarrow> InstructionMetric" where
  "instructionInfo i = (case i of
       STOP \<Rightarrow> metric 0 0 Zero
     | ADD \<Rightarrow> metric 2 1 VeryLow | SUB \<Rightarrow> metric 2 1 VeryLow
     | MUL \<Rightarrow> metric 2 1 Low | DIV \<Rightarrow> metric 2 1 Low | SDIV \<Rightarrow> metric 2 1 Low
     | MOD \<Rightarrow> metric 2 1 Low | SMOD \<Rightarrow> metric 2 1 Low | EXP \<Rightarrow> metric 2 1 Special
     | NOTop \<Rightarrow> metric 1 1 VeryLow | LT \<Rightarrow> metric 2 1 VeryLow | GT \<Rightarrow> metric 2 1 VeryLow
     | SLT \<Rightarrow> metric 2 1 VeryLow | SGT \<Rightarrow> metric 2 1 VeryLow | EQ \<Rightarrow> metric 2 1 VeryLow
     | ISZERO \<Rightarrow> metric 1 1 VeryLow | ANDop \<Rightarrow> metric 2 1 VeryLow | ORop \<Rightarrow> metric 2 1 VeryLow
     | XORop \<Rightarrow> metric 2 1 VeryLow | BYTE \<Rightarrow> metric 2 1 VeryLow | SHL \<Rightarrow> metric 2 1 VeryLow
     | SHR \<Rightarrow> metric 2 1 VeryLow | SAR \<Rightarrow> metric 2 1 VeryLow
     | ADDMOD \<Rightarrow> metric 3 1 Mid | MULMOD \<Rightarrow> metric 3 1 Mid | SIGNEXTEND \<Rightarrow> metric 2 1 Low
     | SHA3 \<Rightarrow> metric 2 1 Special
     | ADDRESS \<Rightarrow> metric 0 1 Base | BALANCE \<Rightarrow> metric 1 1 Special | ORIGIN \<Rightarrow> metric 0 1 Base
     | CALLER \<Rightarrow> metric 0 1 Base | CALLVALUE \<Rightarrow> metric 0 1 Base
     | CALLDATALOAD \<Rightarrow> metric 1 1 VeryLow | CALLDATASIZE \<Rightarrow> metric 0 1 Base
     | CALLDATACOPY \<Rightarrow> metric 3 0 VeryLow | CODESIZE \<Rightarrow> metric 0 1 Base
     | CODECOPY \<Rightarrow> metric 3 0 VeryLow | GASPRICE \<Rightarrow> metric 0 1 Base
     | EXTCODESIZE \<Rightarrow> metric 1 1 Special | EXTCODECOPY \<Rightarrow> metric 4 0 Special
     | RETURNDATASIZE \<Rightarrow> metric 0 1 Base | RETURNDATACOPY \<Rightarrow> metric 3 0 VeryLow
     | BLOCKHASH \<Rightarrow> metric 1 1 Special | COINBASE \<Rightarrow> metric 0 1 Base
     | TIMESTAMP \<Rightarrow> metric 0 1 Base | NUMBER \<Rightarrow> metric 0 1 Base | DIFFICULTY \<Rightarrow> metric 0 1 Base
     | GASLIMIT \<Rightarrow> metric 0 1 Base | POP \<Rightarrow> metric 1 0 Base
     | MLOAD \<Rightarrow> metric 1 1 VeryLow | MSTORE \<Rightarrow> metric 2 0 VeryLow | MSTORE8 \<Rightarrow> metric 2 0 VeryLow
     | SLOAD \<Rightarrow> metric 1 1 Special | SSTORE \<Rightarrow> metric 2 0 Special
     | JUMP \<Rightarrow> metric 1 0 Mid | JUMPI \<Rightarrow> metric 2 0 High
     | PC \<Rightarrow> metric 0 1 Base | MSIZE \<Rightarrow> metric 0 1 Base | GAS \<Rightarrow> metric 0 1 Base
     | JUMPDEST \<Rightarrow> metric 0 0 Special
     | PUSH n \<Rightarrow> metric 0 1 VeryLow | DUP n \<Rightarrow> metric n (n + 1) VeryLow
     | SWAP n \<Rightarrow> metric (n + 1) (n + 1) VeryLow | LOG n \<Rightarrow> metric (n + 2) 0 Special
     | E615 x \<Rightarrow> info615 x | E616 x \<Rightarrow> info616 x
     | CREATE \<Rightarrow> metric 3 1 Special | CREATE2 \<Rightarrow> metric 4 1 Special
     | CALL \<Rightarrow> metric 7 1 Special | CALLCODE \<Rightarrow> metric 7 1 Special | RETURN \<Rightarrow> metric 2 0 Zero
     | STATICCALL \<Rightarrow> metric 6 1 Special | DELEGATECALL \<Rightarrow> metric 6 1 Special
     | REVERT \<Rightarrow> metric 2 0 Special | INVALID \<Rightarrow> metric 0 0 Zero | SUICIDE \<Rightarrow> metric 1 0 Special
     | PUSHC \<Rightarrow> metric 0 1 VeryLow | JUMPC \<Rightarrow> metric 1 0 Mid | JUMPCI \<Rightarrow> metric 2 0 High
     | Undefined b \<Rightarrow> metric 0 0 Invalid)"

section \<open>Gas schedules\<close>

record EVMSchedule =
  exceptionalFailedCodeDeposit :: bool
  haveDelegateCall :: bool
  eip150Mode :: bool
  eip158Mode :: bool
  haveBitwiseShifting :: bool
  haveRevert :: bool
  haveReturnData :: bool
  haveStaticCall :: bool
  haveCreate2 :: bool
  tierStepGas :: "u32 list"
  expGas :: u32
  expByteGas :: u32
  sha3Gas :: u32
  sha3WordGas :: u32
  sloadGas :: u32
  sstoreSetGas :: u32
  sstoreResetGas :: u32
  sstoreRefundGas :: u32
  jumpdestGas :: u32
  logGas :: u32
  logDataGas :: u32
  logTopicGas :: u32
  createGas :: u32
  callGas :: u32
  callStipend :: u32
  callValueTransferGas :: u32
  callNewAccountGas :: u32
  suicideRefundGas :: u32
  memoryGas :: u32
  quadCoeffDiv :: u32
  createDataGas :: u32
  txGas :: u32
  txCreateGas :: u32
  txDataZeroGas :: u32
  txDataNonZeroGas :: u32
  copyGas :: u32
  extcodesizeGas :: u32
  extcodecopyGas :: u32
  balanceGas :: u32
  suicideGas :: u32
  blockhashGas :: u32
  maxCodeSize :: u32
  blockRewardOverwrite :: "u256 option"

definition DefaultSchedule :: EVMSchedule where
  "DefaultSchedule = \<lparr>
     exceptionalFailedCodeDeposit = True, haveDelegateCall = True, eip150Mode = False,
     eip158Mode = False, haveBitwiseShifting = False, haveRevert = False, haveReturnData = False,
     haveStaticCall = False, haveCreate2 = False, tierStepGas = [0, 2, 3, 5, 8, 10, 20, 0],
     expGas = 10, expByteGas = 10, sha3Gas = 30, sha3WordGas = 6, sloadGas = 50,
     sstoreSetGas = 20000, sstoreResetGas = 5000, sstoreRefundGas = 15000, jumpdestGas = 1,
     logGas = 375, logDataGas = 8, logTopicGas = 375, createGas = 32000, callGas = 40,
     callStipend = 2300, callValueTransferGas = 9000, callNewAccountGas = 25000,
     suicideRefundGas = 24000, memoryGas = 3, quadCoeffDiv = 512, createDataGas = 200,
     txGas = 21000, txCreateGas = 53000, txDataZeroGas = 4, txDataNonZeroGas = 68, copyGas = 3,
     extcodesizeGas = 20, extcodecopyGas = 20, balanceGas = 20, suicideGas = 0,
     blockhashGas = 20, maxCodeSize = - 1, blockRewardOverwrite = None\<rparr>"

text \<open>The second constructor, \<^verbatim>\<open>EVMSchedule(_efcd, _hdc, _txCreateGas)\<close>.\<close>

definition EVMSchedule_of :: "bool \<Rightarrow> bool \<Rightarrow> u32 \<Rightarrow> EVMSchedule" where
  "EVMSchedule_of efcd hdc txCreate =
     DefaultSchedule\<lparr>exceptionalFailedCodeDeposit := efcd, haveDelegateCall := hdc,
                     txCreateGas := txCreate\<rparr>"

definition FrontierSchedule :: EVMSchedule where
  "FrontierSchedule = EVMSchedule_of False False 21000"

definition HomesteadSchedule :: EVMSchedule where
  "HomesteadSchedule = EVMSchedule_of True True 53000"

definition EIP150Schedule :: EVMSchedule where
  "EIP150Schedule = HomesteadSchedule\<lparr>eip150Mode := True, extcodesizeGas := 700,
     extcodecopyGas := 700, balanceGas := 400, sloadGas := 200, callGas := 700, suicideGas := 5000\<rparr>"

definition EIP158Schedule :: EVMSchedule where
  "EIP158Schedule = EIP150Schedule\<lparr>expByteGas := 50, eip158Mode := True, maxCodeSize := 0x6000\<rparr>"

definition ByzantiumSchedule :: EVMSchedule where
  "ByzantiumSchedule = EIP158Schedule\<lparr>haveRevert := True, haveReturnData := True,
     haveStaticCall := True, blockRewardOverwrite := Some (3 * 10 ^ 18)\<rparr>"

definition EWASMSchedule :: EVMSchedule where
  "EWASMSchedule = ByzantiumSchedule\<lparr>maxCodeSize := - 1,
     txDataZeroGas := txDataNonZeroGas ByzantiumSchedule\<rparr>"

definition ConstantinopleSchedule :: EVMSchedule where
  "ConstantinopleSchedule = ByzantiumSchedule\<lparr>blockhashGas := 800, haveCreate2 := True,
     haveBitwiseShifting := True\<rparr>"

definition staticCallDepthLimit :: "EVMSchedule \<Rightarrow> bool" where
  "staticCallDepthLimit sch = (\<not> eip150Mode sch)"

definition suicideChargesNewAccountGas :: "EVMSchedule \<Rightarrow> bool" where
  "suicideChargesNewAccountGas sch = eip150Mode sch"

definition emptinessIsNonexistence :: "EVMSchedule \<Rightarrow> bool" where
  "emptinessIsNonexistence sch = eip158Mode sch"

definition zeroValueTransferChargesNewAccountGas :: "EVMSchedule \<Rightarrow> bool" where
  "zeroValueTransferChargesNewAccountGas sch = (\<not> eip158Mode sch)"

text \<open>
  \<^verbatim>\<open>tierStepGas[tier]\<close>. The array has eight elements and the tier \<open>Invalid\<close> has index 8: the read
  is one past the array, where the member \<^verbatim>\<open>expGas\<close> follows. (The value is never used: the
  opcodes of that tier throw.)
\<close>

definition tierGas :: "EVMSchedule \<Rightarrow> Tier \<Rightarrow> u32" where
  "tierGas sch t = (case t of
       Zero \<Rightarrow> tierStepGas sch ! 0 | Base \<Rightarrow> tierStepGas sch ! 1 | VeryLow \<Rightarrow> tierStepGas sch ! 2
     | Low \<Rightarrow> tierStepGas sch ! 3 | Mid \<Rightarrow> tierStepGas sch ! 4 | High \<Rightarrow> tierStepGas sch ! 5
     | Ext \<Rightarrow> tierStepGas sch ! 6 | Special \<Rightarrow> tierStepGas sch ! 7 | Invalid \<Rightarrow> expGas sch)"

section \<open>What the interpreter relies on in a schedule\<close>

text \<open>Memory becomes unaffordable before its size does not fit, and copies stay cheap.\<close>

definition meter_sane :: "EVMSchedule \<Rightarrow> bool" where
  "meter_sane sch \<longleftrightarrow> 0 < quadCoeffDiv sch \<and> quadCoeffDiv sch \<le> 2 ^ 10 \<and> copyGas sch \<le> 16"

text \<open>
  Every opcode that does not halt costs gas, the sums of gas stay below 64 bits, and a value
  transfer costs more than the stipend it hands on.
\<close>

definition sane_schedule :: "EVMSchedule \<Rightarrow> bool" where
  "sane_schedule sch \<longleftrightarrow>
     tierStepGas sch = [0, 2, 3, 5, 8, 10, 20, 0] \<and>
     0 < expGas sch \<and> expGas sch < 2 ^ 16 \<and> expByteGas sch < 2 ^ 16 \<and>
     0 < sha3Gas sch \<and> 0 < sloadGas sch \<and> 0 < sstoreSetGas sch \<and> 0 < sstoreResetGas sch \<and>
     0 < logGas sch \<and> logGas sch < 2 ^ 16 \<and> logTopicGas sch < 2 ^ 16 \<and>
     0 < createGas sch \<and> 0 < callGas sch \<and> callStipend sch \<le> callValueTransferGas sch \<and>
     meter_sane sch \<and>
     0 < extcodesizeGas sch \<and> 0 < extcodecopyGas sch \<and> 0 < balanceGas sch \<and> 0 < blockhashGas sch"

lemmas schedule_defs =
  DefaultSchedule_def EVMSchedule_of_def FrontierSchedule_def HomesteadSchedule_def
  EIP150Schedule_def EIP158Schedule_def ByzantiumSchedule_def EWASMSchedule_def
  ConstantinopleSchedule_def

lemma sane_schedules:
  "sane_schedule FrontierSchedule" "sane_schedule HomesteadSchedule" "sane_schedule EIP150Schedule"
  "sane_schedule EIP158Schedule" "sane_schedule ByzantiumSchedule" "sane_schedule EWASMSchedule"
  "sane_schedule ConstantinopleSchedule" "sane_schedule DefaultSchedule"
  by (simp_all add: sane_schedule_def meter_sane_def schedule_defs)

section \<open>Lemmas: metrics\<close>

text \<open>What an opcode may come from: the counts of the numbered families are those of the enum.\<close>

definition proper :: "Instruction \<Rightarrow> bool" where
  "proper i = (case i of PUSH n \<Rightarrow> 1 \<le> n \<and> n \<le> 32 | DUP n \<Rightarrow> 1 \<le> n \<and> n \<le> 16
     | SWAP n \<Rightarrow> 1 \<le> n \<and> n \<le> 16 | LOG n \<Rightarrow> n \<le> 4 | _ \<Rightarrow> True)"

lemma proper_simps [simp]:
  "proper (PUSH n) = (1 \<le> n \<and> n \<le> 32)" "proper (DUP n) = (1 \<le> n \<and> n \<le> 16)"
  "proper (SWAP n) = (1 \<le> n \<and> n \<le> 16)" "proper (LOG n) = (n \<le> 4)"
  by (simp_all add: proper_def)

lemma proper_row: "list_all proper (opcode_row h)"
  by (simp add: opcode_row_def proper_def)

lemma proper_nullary [simp]:
  "proper PUSHC" "proper JUMPC" "proper JUMPCI" "proper (E615 x)" "proper (E616 y)" "proper CREATE"
  "proper CALL" "proper CALLCODE" "proper RETURN" "proper DELEGATECALL" "proper STATICCALL"
  "proper CREATE2" "proper REVERT" "proper INVALID" "proper SUICIDE" "proper (Undefined b)"
  by (simp_all add: proper_def)

lemma proper_decode_high: "proper (decode_high b)"
  unfolding decode_high_def Let_def by simp linarith

lemma proper_decode: "proper (decode b)"
proof -
  have "unat b < 256" by simp
  moreover have "proper (nth_default (Undefined b) (opcode_row h) l)" for h l
    using proper_row [of h] by (auto simp: nth_default_def list_all_length proper_def)
  ultimately show ?thesis
    using proper_decode_high [of b] by (auto simp: decode_def Let_def)
qed

lemma decode_0 [simp]: "decode 0 = STOP"
  by (simp add: decode_def opcode_row_def nth_default_def)

lemma decode_0xfe [simp]: "decode 0xfe = INVALID"
  by (simp add: decode_def decode_high_def)

lemma decode_0x5b [simp]: "decode 0x5b = JUMPDEST"
  by (simp add: decode_def opcode_row_def nth_default_def)

text \<open>The stack growth of one opcode is at most one item.\<close>

lemma ret_le_Suc_args: "ret (instructionInfo i) \<le> Suc (args (instructionInfo i))"
proof (cases i)
  case (E615 x)
  then show ?thesis by (cases x) (simp_all add: instructionInfo_def metric_def)
next
  case (E616 x)
  then show ?thesis by (cases x) (simp_all add: instructionInfo_def metric_def info616_def)
qed (simp_all add: instructionInfo_def metric_def)

end
