(* ===== verification/LegacyVM_State.thy ===== *)
theory LegacyVM_State
  imports EVM_Instruction CommonData
begin

text \<open>
  The state of \<^verbatim>\<open>LegacyVM\<close> (\<^verbatim>\<open>libevm/LegacyVM.h\<close>), the face of the world it runs in
  (\<^verbatim>\<open>libevm/ExtVMFace.h\<close>, \<^verbatim>\<open>libevm/VMFace.h\<close>) and the checks of stack, memory and gas that every
  opcode goes through (\<^verbatim>\<open>LegacyVM.cpp\<close>, \<^verbatim>\<open>LegacyVMCalls.cpp\<close>).

  The virtual functions of \<^verbatim>\<open>ExtVMFace\<close> and the Keccak hash are a parameter, the record \<open>host\<close>;
  the type variable \<open>'w\<close> is what they keep behind the face; \<open>None\<close> is an exception of the host
  that passes through the interpreter. The trace callback \<^verbatim>\<open>onOp\<close> observes the
  state and changes nothing, it is left out. A C++ exception is a result that carries the state it
  was thrown in; an access outside an array, undefined in C++, is the result \<open>UndefinedBehaviour\<close>.
\<close>

unbundle bit_operations_syntax

section \<open>The face of the world\<close>

record LogEntry =
  log_address :: address
  log_topics :: "h256 list"
  log_data :: bytes

record SubState =
  suicides :: "address set"
  logs :: "LogEntry list"
  refunds :: u256

definition SubState_add :: "SubState \<Rightarrow> SubState \<Rightarrow> SubState" where
  "SubState_add a b = \<lparr>suicides = suicides a \<union> suicides b, logs = logs a @ logs b,
                       refunds = refunds a + refunds b\<rparr>"

definition SubState_clear :: SubState where
  "SubState_clear = \<lparr>suicides = {}, logs = [], refunds = 0\<rparr>"

record CallParameters =
  senderAddress :: address
  codeAddress :: address
  receiveAddress :: address
  valueTransfer :: u256
  apparentValue :: u256
  gas :: u256
  call_data :: bytes
  call_static :: bool

definition CallParameters_default :: CallParameters where
  "CallParameters_default = \<lparr>senderAddress = 0, codeAddress = 0, receiveAddress = 0,
     valueTransfer = 0, apparentValue = 0, gas = 0, call_data = [], call_static = False\<rparr>"

record CallResult =
  call_success :: bool
  call_output :: bytes

record CreateResult =
  create_success :: bool
  create_output :: bytes
  create_address :: address

record EnvInfo =
  env_number :: "64 word"
  env_author :: address
  env_timestamp :: "64 word"
  env_difficulty :: u256
  env_gasLimit :: u256
  env_gasUsed :: u256
  env_lastHashes :: "h256 list"

record 'w ExtVMFace =
  envInfo :: EnvInfo
  evmSchedule :: EVMSchedule
  myAddress :: address
  caller :: address
  origin :: address
  ext_value :: u256
  gasPrice :: u256
  ext_data :: bytes
  ext_code :: bytes
  sub :: SubState
  depth :: nat
  isCreate :: bool
  staticCall :: bool
  world :: 'w

record 'w host =
  h_store :: "'w ExtVMFace \<Rightarrow> u256 \<Rightarrow> u256"
  h_setStore :: "'w ExtVMFace \<Rightarrow> u256 \<Rightarrow> u256 \<Rightarrow> 'w ExtVMFace option"
  h_balance :: "'w ExtVMFace \<Rightarrow> address \<Rightarrow> u256"
  h_codeAt :: "'w ExtVMFace \<Rightarrow> address \<Rightarrow> bytes"
  h_codeSizeAt :: "'w ExtVMFace \<Rightarrow> address \<Rightarrow> nat"
  h_exists :: "'w ExtVMFace \<Rightarrow> address \<Rightarrow> bool"
  h_suicide :: "'w ExtVMFace \<Rightarrow> address \<Rightarrow> 'w ExtVMFace option"
  h_create :: "'w ExtVMFace \<Rightarrow> u256 \<Rightarrow> u256 \<Rightarrow> bytes \<Rightarrow> Instruction \<Rightarrow> u256 \<Rightarrow>
                 (CreateResult \<times> u256 \<times> 'w ExtVMFace) option"
  h_call :: "'w ExtVMFace \<Rightarrow> CallParameters \<Rightarrow> (CallResult \<times> u256 \<times> 'w ExtVMFace) option"
  h_log :: "'w ExtVMFace \<Rightarrow> h256 list \<Rightarrow> bytes \<Rightarrow> 'w ExtVMFace"
  h_blockHash :: "'w ExtVMFace \<Rightarrow> u256 \<Rightarrow> (h256 \<times> 'w ExtVMFace) option"
  h_sha3 :: "bytes \<Rightarrow> h256"

definition asAddress :: "u256 \<Rightarrow> address" where
  "asAddress item = ucast item"

definition fromAddress :: "address \<Rightarrow> u256" where
  "fromAddress a = ucast a"

section \<open>The interpreter's state\<close>

text \<open>Where the trampoline of \<^verbatim>\<open>exec\<close> goes next; \<open>Done\<close> is the null member pointer.\<close>

datatype bounce = InitEntry | InterpretCases | CaseCreate | CaseCall | Done

datatype vm_exception =
    BadInstruction | BadJumpDestination | OutOfGas | OutOfStack | StackUnderflow
  | DisallowedStateChange | BufferOverrun | RevertInstruction bytes | HostException | UndefinedBehaviour

text \<open>
  The stack is an array of 1024 words that grows downwards; \<open>m_SP\<close> and \<open>m_SPP\<close> are indices into
  it, 1024 is \<^verbatim>\<open>m_stackEnd\<close>.
\<close>

record 'w vm =
  m_io_gas :: u64
  m_ext :: "'w ExtVMFace"
  m_schedule :: EVMSchedule
  m_bounce :: bounce
  m_output :: bytes
  m_mem :: bytes
  m_code :: bytes
  m_returnData :: bytes
  m_stack :: "nat \<Rightarrow> u256"
  m_OP :: Instruction
  m_PC :: u64
  m_SP :: nat
  m_SPP :: nat
  m_runGas :: u64
  m_newMemSize :: u64
  m_copyMemSize :: u64
  m_jumpDests :: "u64 list"

datatype 's res = Ok 's | Thrown vm_exception 's

type_synonym 'w op = "'w vm \<Rightarrow> 'w vm res"

fun bind_res :: "'s res \<Rightarrow> ('s \<Rightarrow> 's res) \<Rightarrow> 's res" where
  "bind_res (Ok s) f = f s"
| "bind_res (Thrown e s) f = Thrown e s"

text \<open>\<^verbatim>\<open>LegacyVM::stack()\<close>: the items from the bottom to the top.\<close>

definition stack_size :: "'w vm \<Rightarrow> nat" where
  "stack_size s = 1024 - m_SP s"

definition stack_list :: "'w vm \<Rightarrow> u256 list" where
  "stack_list s = rev (map (m_stack s) [m_SP s..<1024])"

section \<open>Throwing\<close>

definition throwOutOfGas :: "'w op" where
  "throwOutOfGas s = Thrown OutOfGas s"

definition throwBadInstruction :: "'w op" where
  "throwBadInstruction s = Thrown BadInstruction s"

definition throwBadJumpDestination :: "'w op" where
  "throwBadJumpDestination s = Thrown BadJumpDestination s"

definition throwDisallowedStateChange :: "'w op" where
  "throwDisallowedStateChange s = Thrown DisallowedStateChange s"

definition throwRevertInstruction :: "bytes \<Rightarrow> 'w op" where
  "throwRevertInstruction out s = Thrown (RevertInstruction out) s"

definition throwHostException :: "'w op" where
  "throwHostException s = Thrown HostException s"

definition throwBufferOverrun :: "'w op" where
  "throwBufferOverrun s = Thrown BufferOverrun s"

text \<open>
  \<^verbatim>\<open>size < _removed\<close> compares big integers: \<open>spp\<close> is the stack pointer prime the bounds check
  found outside the array, on either side of it.
\<close>

definition throwBadStack :: "nat \<Rightarrow> int \<Rightarrow> 'w op" where
  "throwBadStack removed spp s =
     (if 1024 - spp < int removed then Thrown StackUnderflow s else Thrown OutOfStack s)"

section \<open>Array accesses\<close>

text \<open>The operands \<^verbatim>\<open>m_SP[0]\<close>, \dots, \<^verbatim>\<open>m_SP[n - 1]\<close>, as a function of their index.\<close>

definition operands :: "nat \<Rightarrow> ((nat \<Rightarrow> u256) \<Rightarrow> 'w op) \<Rightarrow> 'w op" where
  "operands n k s =
     (if m_SP s + n \<le> 1024 then k (\<lambda>i. m_stack s (m_SP s + i)) s else Thrown UndefinedBehaviour s)"

text \<open>\<^verbatim>\<open>m_stack\<close> at an index, and \<^verbatim>\<open>m_SPP[0] = v\<close>.\<close>

definition setSlot :: "nat \<Rightarrow> u256 \<Rightarrow> 'w op" where
  "setSlot i v s =
     (if i < 1024 then Ok (s\<lparr>m_stack := (m_stack s)(i := v)\<rparr>) else Thrown UndefinedBehaviour s)"

definition setSPP :: "u256 \<Rightarrow> 'w op" where
  "setSPP v s = setSlot (m_SPP s) v s"

definition readBytes :: "bytes \<Rightarrow> nat \<Rightarrow> nat \<Rightarrow> (bytes \<Rightarrow> 'w op) \<Rightarrow> 'w op" where
  "readBytes bs off n k s =
     (if n = 0 \<or> off + n \<le> length bs then k (take n (drop off bs)) s
      else Thrown UndefinedBehaviour s)"

definition readMem :: "nat \<Rightarrow> nat \<Rightarrow> (bytes \<Rightarrow> 'w op) \<Rightarrow> 'w op" where
  "readMem off n k s = readBytes (m_mem s) off n k s"

definition writeMem :: "nat \<Rightarrow> bytes \<Rightarrow> 'w op" where
  "writeMem off bs s =
     (if bs = [] then Ok s
      else if off + length bs \<le> length (m_mem s)
      then Ok (s\<lparr>m_mem := take off (m_mem s) @ bs @ drop (off + length bs) (m_mem s)\<rparr>)
      else Thrown UndefinedBehaviour s)"

section \<open>Checks\<close>

text \<open>The template \<^verbatim>\<open>toInt63\<close>; the callers pass unsigned values of several widths.\<close>

definition toInt63 :: "nat \<Rightarrow> (u64 \<Rightarrow> 'w op) \<Rightarrow> 'w op" where
  "toInt63 v k s = (if v > 0x7FFFFFFFFFFFFFFF then throwOutOfGas s else k (word_of_nat v) s)"

text \<open>\<^verbatim>\<open>u512(_offset) + _size\<close> cannot wrap, so the sum is taken in \<open>nat\<close>.\<close>

definition memNeed :: "u256 \<Rightarrow> u256 \<Rightarrow> (u64 \<Rightarrow> 'w op) \<Rightarrow> 'w op" where
  "memNeed off siz k s = toInt63 (if siz \<noteq> 0 then unat off + unat siz else 0) k s"

definition adjustStack :: "nat \<Rightarrow> nat \<Rightarrow> 'w op" where
  "adjustStack removed added s =
     (let s1 = s\<lparr>m_SP := m_SPP s, m_SPP := m_SPP s + removed\<rparr> in
      if 1024 < m_SPP s1 then throwBadStack removed (int (m_SPP s1)) s1
      else if m_SPP s1 < added then throwBadStack removed (int (m_SPP s1) - int added) s1
      else Ok (s1\<lparr>m_SPP := m_SPP s1 - added\<rparr>))"

definition gasForMem :: "nat \<Rightarrow> (u64 \<Rightarrow> 'w op) \<Rightarrow> 'w op" where
  "gasForMem siz k s =
     (let sz = siz div 32 in
      toInt63 (unat (memoryGas (m_schedule s)) * sz + sz * sz div unat (quadCoeffDiv (m_schedule s))) k s)"

definition updateIOGas :: "'w op" where
  "updateIOGas s =
     (if m_io_gas s < m_runGas s then throwOutOfGas s
      else Ok (s\<lparr>m_io_gas := m_io_gas s - m_runGas s\<rparr>))"

definition updateGas :: "'w op" where
  "updateGas s =
     bind_res
       (if unat (m_newMemSize s) > length (m_mem s)
        then gasForMem (unat (m_newMemSize s)) (\<lambda>g1. gasForMem (length (m_mem s)) (\<lambda>g0.
               toInt63 (unat (g1 - g0)) (\<lambda>d s. Ok (s\<lparr>m_runGas := m_runGas s + d\<rparr>)))) s
        else Ok s)
       (\<lambda>s. (let s1 = s\<lparr>m_runGas := m_runGas s +
                          ucast (copyGas (m_schedule s)) * ((m_copyMemSize s + 31) div 32)\<rparr>
              in if m_io_gas s1 < m_runGas s1 then throwOutOfGas s1 else Ok s1))"

definition updateMem :: "u64 \<Rightarrow> 'w op" where
  "updateMem newMem s =
     bind_res (updateGas (s\<lparr>m_newMemSize := (newMem + 31) div 32 * 32\<rparr>))
       (\<lambda>s. Ok (if unat (m_newMemSize s) > length (m_mem s)
                 then s\<lparr>m_mem := m_mem s @ replicate (unat (m_newMemSize s) - length (m_mem s)) 0\<rparr>
                 else s))"

text \<open>
  \<^verbatim>\<open>updateSSGas\<close>. The original and the new value of the slot decide; clearing a slot earns a
  refund.
\<close>

definition updateSSGas :: "'w host \<Rightarrow> 'w op" where
  "updateSSGas H = operands 2 (\<lambda>a s.
     if h_store H (m_ext s) (a 0) = 0 \<and> a 1 \<noteq> 0
     then toInt63 (unat (sstoreSetGas (m_schedule s))) (\<lambda>g s. Ok (s\<lparr>m_runGas := g\<rparr>)) s
     else if h_store H (m_ext s) (a 0) \<noteq> 0 \<and> a 1 = 0
     then toInt63 (unat (sstoreResetGas (m_schedule s))) (\<lambda>g s.
            Ok (s\<lparr>m_runGas := g,
                  m_ext := (m_ext s)\<lparr>sub := (sub (m_ext s))\<lparr>refunds := refunds (sub (m_ext s)) +
                      ucast (sstoreRefundGas (m_schedule s))\<rparr>\<rparr>\<rparr>)) s
     else toInt63 (unat (sstoreResetGas (m_schedule s))) (\<lambda>g s. Ok (s\<lparr>m_runGas := g\<rparr>)) s)"

text \<open>\<^verbatim>\<open>logGasMem\<close>: the first sum is one of \<^verbatim>\<open>unsigned\<close>, the product one of \<^verbatim>\<open>u512\<close>.\<close>

definition logGasMem :: "nat \<Rightarrow> 'w op" where
  "logGasMem n = operands 2 (\<lambda>a s.
     toInt63 (unat (logGas (m_schedule s) + logTopicGas (m_schedule s) * word_of_nat n) +
              unat (logDataGas (m_schedule s)) * unat (a 1)) (\<lambda>g s.
       memNeed (a 0) (a 1) (\<lambda>need s. updateMem need s) (s\<lparr>m_runGas := g\<rparr>)) s)"

definition fetchInstruction :: "'w op" where
  "fetchInstruction s =
     (if unat (m_PC s) < length (m_code s)
      then (let op = decode (m_code s ! unat (m_PC s)); mt = instructionInfo op in
            bind_res (adjustStack (args mt) (ret mt) (s\<lparr>m_OP := op\<rparr>)) (\<lambda>s.
              toInt63 (unat (tierGas (m_schedule s) (gasPriceTier mt))) (\<lambda>g s.
                Ok (s\<lparr>m_runGas := g, m_newMemSize := word_of_nat (length (m_mem s)),
                      m_copyMemSize := 0\<rparr>)) s))
      else Thrown UndefinedBehaviour s)"

text \<open>
  \<^verbatim>\<open>copyDataToMemory(_data, _sp)\<close> with the three words at \<^verbatim>\<open>_sp\<close>: the data is read from the wide
  index on and padded with zeros up to the size.
\<close>

definition copyDataToMemory :: "bytes \<Rightarrow> u256 \<Rightarrow> u256 \<Rightarrow> u256 \<Rightarrow> 'w op" where
  "copyDataToMemory data sp0 sp1 sp2 s =
     (let offset = unat (ucast sp0 :: u64);
          bigIndex = unat sp1;
          index = unat (ucast sp1 :: u64);
          siz = unat (ucast sp2 :: u64);
          n = (if bigIndex + siz > length data
               then (if length data < bigIndex then 0 else length data - index) else siz)
      in bind_res
           (if n > 0 then readBytes data index n (writeMem offset) s else Ok s)
           (\<lambda>s. if siz > n then writeMem (offset + n) (replicate (siz - n) 0) s else Ok s))"

section \<open>Jump destinations\<close>

text \<open>\<^verbatim>\<open>std::binary_search\<close> on the half-open range \<open>[lo, hi)\<close>.\<close>

function binary_search :: "u64 list \<Rightarrow> u64 \<Rightarrow> nat \<Rightarrow> nat \<Rightarrow> bool" where
  "binary_search xs v lo hi =
     (if lo < hi
      then (let mid = (lo + hi) div 2 in
            if xs ! mid < v then binary_search xs v (mid + 1) hi
            else if v < xs ! mid then binary_search xs v lo mid
            else True)
      else False)"
  by pat_completeness auto
termination
  by (relation "measure (\<lambda>(xs, v, lo, hi). hi - lo)") auto

declare binary_search.simps [simp del]

definition verifyJumpDest :: "u256 \<Rightarrow> (u64 \<Rightarrow> 'w op) \<Rightarrow> 'w op" where
  "verifyJumpDest dest k s =
     (if dest \<le> 0x7FFFFFFFFFFFFFFF \<and>
         binary_search (m_jumpDests s) (ucast dest) 0 (length (m_jumpDests s))
      then k (ucast dest) s else throwBadJumpDestination s)"

end
