(* ===== verification/LegacyVM.thy ===== *)
theory LegacyVM
  imports LegacyVM_State
begin

text \<open>
  The interpreter of \<^verbatim>\<open>libevm/LegacyVM.cpp\<close>: one definition per \<^verbatim>\<open>CASE\<close> of \<^verbatim>\<open>interpretCases\<close>, in
  the order of the file, the cases that call out (\<^verbatim>\<open>LegacyVMCalls.cpp\<close>), the preparation of the
  code (\<^verbatim>\<open>LegacyVMOpt.cpp\<close>) and the trampoline of \<^verbatim>\<open>exec\<close>. The build's configuration
  (\<^verbatim>\<open>VMConfig.h\<close>) has the extensions EIP-615 and EIP-616 and the optimisations switched off.
\<close>

unbundle bit_operations_syntax

section \<open>Leaving a case\<close>

text \<open>\<^verbatim>\<open>NEXT\<close> increments the program counter; \<^verbatim>\<open>CONTINUE\<close> is \<open>Ok\<close> itself.\<close>

definition nextOp :: "'w op" where
  "nextOp s = Ok (s\<lparr>m_PC := m_PC s + 1\<rparr>)"

text \<open>
  The shape of most cases: charge the gas, compute a word from the first \<open>n\<close> operands and store it
  as the new top of the stack.
\<close>

definition pureOp :: "nat \<Rightarrow> ((nat \<Rightarrow> u256) \<Rightarrow> u256) \<Rightarrow> 'w op" where
  "pureOp n f s =
     bind_res (updateIOGas s) (operands n (\<lambda>a s. bind_res (setSPP (f a) s) nextOp))"

definition pushOp :: "('w vm \<Rightarrow> u256) \<Rightarrow> 'w op" where
  "pushOp f s = bind_res (updateIOGas s) (\<lambda>s. bind_res (setSPP (f s) s) nextOp)"

section \<open>Call-related instructions\<close>

definition op_CREATE2 :: "'w op" where
  "op_CREATE2 s =
     (if \<not> haveCreate2 (m_schedule s) then throwBadInstruction s
      else Ok (s\<lparr>m_bounce := CaseCreate\<rparr>))"

definition op_CREATE :: "'w op" where
  "op_CREATE s =
     (if staticCall (m_ext s) then throwDisallowedStateChange s
      else Ok (s\<lparr>m_bounce := CaseCreate\<rparr>))"

definition op_CALLs :: "'w op" where
  "op_CALLs = operands 3 (\<lambda>a s.
     if m_OP s = DELEGATECALL \<and> \<not> haveDelegateCall (m_schedule s) then throwBadInstruction s
     else if m_OP s = STATICCALL \<and> \<not> haveStaticCall (m_schedule s) then throwBadInstruction s
     else if m_OP s = CALL \<and> staticCall (m_ext s) \<and> a 2 \<noteq> 0 then throwDisallowedStateChange s
     else Ok (s\<lparr>m_bounce := CaseCall\<rparr>))"

text \<open>\<^verbatim>\<open>owning_bytes_ref{std::move(m_mem), b, s}\<close>: the memory is moved out.\<close>

definition returnData :: "(bytes \<Rightarrow> 'w op) \<Rightarrow> 'w op" where
  "returnData k = operands 2 (\<lambda>a s.
     memNeed (a 0) (a 1) (\<lambda>need s.
       bind_res (updateMem need s) (\<lambda>s. bind_res (updateIOGas s) (\<lambda>s.
         readMem (unat (ucast (a 0) :: u64)) (unat (ucast (a 1) :: u64)) (\<lambda>out s. k out (s\<lparr>m_mem := []\<rparr>)) s)))
       (s\<lparr>m_copyMemSize := 0\<rparr>))"

definition op_RETURN :: "'w op" where
  "op_RETURN = returnData (\<lambda>out s. Ok (s\<lparr>m_output := out, m_bounce := Done\<rparr>))"

definition op_REVERT :: "'w op" where
  "op_REVERT s =
     (if \<not> haveRevert (m_schedule s) then throwBadInstruction s
      else returnData throwRevertInstruction s)"

definition op_SUICIDE :: "'w host \<Rightarrow> 'w op" where
  "op_SUICIDE H = operands 1 (\<lambda>a s.
     if staticCall (m_ext s) then throwDisallowedStateChange s
     else toInt63 (unat (suicideGas (m_schedule s))) (\<lambda>g s.
       (let dest = asAddress (a 0);
            s1 = s\<lparr>m_runGas := g\<rparr>;
            s2 = (if (h_balance H (m_ext s) (myAddress (m_ext s)) > 0 \<or>
                      zeroValueTransferChargesNewAccountGas (m_schedule s)) \<and>
                     suicideChargesNewAccountGas (m_schedule s) \<and> \<not> h_exists H (m_ext s) dest
                  then s1\<lparr>m_runGas := m_runGas s1 + ucast (callNewAccountGas (m_schedule s))\<rparr>
                  else s1)
        in bind_res (updateIOGas s2) (\<lambda>s.
             case h_suicide H (m_ext s) dest of
               None \<Rightarrow> throwHostException s
             | Some ext' \<Rightarrow> Ok (s\<lparr>m_ext := ext', m_bounce := Done\<rparr>)))) s)"

definition op_STOP :: "'w op" where
  "op_STOP s = bind_res (updateIOGas s) (\<lambda>s. Ok (s\<lparr>m_bounce := Done\<rparr>))"

section \<open>Instructions potentially expanding memory\<close>

text \<open>The offset is cast to \<^verbatim>\<open>unsigned\<close>, 32 bits, before it is used.\<close>

definition op_MLOAD :: "'w op" where
  "op_MLOAD = operands 1 (\<lambda>a s.
     toInt63 (unat (a 0)) (\<lambda>w s.
       bind_res (updateMem (w + 32) s) (\<lambda>s. bind_res (updateIOGas s) (\<lambda>s.
         readMem (unat (ucast (a 0) :: u32)) 32 (\<lambda>bs s.
           bind_res (setSPP (fromBigEndian bs) s) nextOp) s))) s)"

definition op_MSTORE :: "'w op" where
  "op_MSTORE = operands 2 (\<lambda>a s.
     toInt63 (unat (a 0)) (\<lambda>w s.
       bind_res (updateMem (w + 32) s) (\<lambda>s. bind_res (updateIOGas s) (\<lambda>s.
         bind_res (writeMem (unat (ucast (a 0) :: u32)) (toBigEndian 32 (unat (a 1))) s) nextOp))) s)"

definition op_MSTORE8 :: "'w op" where
  "op_MSTORE8 = operands 2 (\<lambda>a s.
     toInt63 (unat (a 0)) (\<lambda>w s.
       bind_res (updateMem (w + 1) s) (\<lambda>s. bind_res (updateIOGas s) (\<lambda>s.
         bind_res (writeMem (unat (ucast (a 0) :: u32)) [ucast (a 1 AND 0xff)] s) nextOp))) s)"

definition op_SHA3 :: "'w host \<Rightarrow> 'w op" where
  "op_SHA3 H = operands 2 (\<lambda>a s.
     toInt63 (unat (sha3Gas (m_schedule s)) +
              (unat (a 1) + 31) div 32 * unat (sha3WordGas (m_schedule s))) (\<lambda>g s.
       memNeed (a 0) (a 1) (\<lambda>need s.
         bind_res (updateMem need s) (\<lambda>s. bind_res (updateIOGas s) (\<lambda>s.
           readMem (unat (ucast (a 0) :: u64)) (unat (ucast (a 1) :: u64)) (\<lambda>bs s.
             bind_res (setSPP (h_sha3 H bs) s) nextOp) s))) (s\<lparr>m_runGas := g\<rparr>)) s)"

text \<open>The five \<^verbatim>\<open>LOGn\<close> cases: the topics are \<^verbatim>\<open>m_SP[2]\<close>, \dots, \<^verbatim>\<open>m_SP[n + 1]\<close>.\<close>

definition op_LOG :: "'w host \<Rightarrow> nat \<Rightarrow> 'w op" where
  "op_LOG H n = operands (n + 2) (\<lambda>a s.
     if staticCall (m_ext s) then throwDisallowedStateChange s
     else bind_res (logGasMem n s) (\<lambda>s. bind_res (updateIOGas s) (\<lambda>s.
       readMem (unat (ucast (a 0) :: u64)) (unat (ucast (a 1) :: u64)) (\<lambda>bs s.
         nextOp (s\<lparr>m_ext := h_log H (m_ext s) (map a [2..<n + 2]) bs\<rparr>)) s)))"

text \<open>\<^verbatim>\<open>FixedHash::firstBitSet\<close> on the bytes of a hash.\<close>

fun byteFirstBit :: "nat \<Rightarrow> byte \<Rightarrow> nat" where
  "byteFirstBit 0 d = 0"
| "byteFirstBit (Suc n) d = (if d AND 0x80 \<noteq> 0 then 0 else Suc (byteFirstBit n (push_bit 1 d)))"

fun firstBitSet :: "bytes \<Rightarrow> nat" where
  "firstBitSet [] = 0"
| "firstBitSet (d # ds) = (if d \<noteq> 0 then byteFirstBit 8 d else 8 + firstBitSet ds)"

text \<open>\<^verbatim>\<open>exp256\<close>: square and multiply.\<close>

function exp256_loop :: "u256 \<Rightarrow> u256 \<Rightarrow> u256 \<Rightarrow> u256" where
  "exp256_loop base expon result =
     (if expon \<noteq> 0
      then exp256_loop (base * base) (drop_bit 1 expon)
             (if expon AND 1 \<noteq> 0 then result * base else result)
      else result)"
  by pat_completeness auto
termination
proof (relation "measure (\<lambda>(b, e, r). unat e)")
  fix base expon result :: u256
  assume "expon \<noteq> 0"
  then have "0 < unat expon" by (simp add: unat_gt_0)
  then have "unat expon div 2 < unat expon" by simp
  then show "((base * base, drop_bit 1 expon, if expon AND 1 \<noteq> 0 then result * base else result),
      base, expon, result) \<in> measure (\<lambda>(b, e, r). unat e)"
    by (simp add: drop_bit_eq_div unat_div)
qed simp

declare exp256_loop.simps [simp del]

definition exp256 :: "u256 \<Rightarrow> u256 \<Rightarrow> u256" where
  "exp256 base expon = exp256_loop base expon 1"

definition op_EXP :: "'w op" where
  "op_EXP = operands 2 (\<lambda>a s.
     toInt63 (unat (expGas (m_schedule s) + expByteGas (m_schedule s) *
                    word_of_nat (32 - firstBitSet (toBigEndian 32 (unat (a 1))) div 8))) (\<lambda>g s.
       bind_res (updateIOGas (s\<lparr>m_runGas := g\<rparr>)) (\<lambda>s.
         bind_res (setSPP (exp256 (a 0) (a 1)) s) nextOp)) s)"

section \<open>Ordinary instructions\<close>

text \<open>
  Signed numbers are sign and magnitude in C++; their quotient is rounded towards zero and the
  remainder has the sign of the dividend.
\<close>

definition u2s :: "u256 \<Rightarrow> int" where
  "u2s u = (if bit u 255 then - (2 ^ 256 - uint u) else uint u)"

definition s2u :: "int \<Rightarrow> u256" where
  "s2u i = (if i \<ge> 0 then word_of_int i else word_of_int (2 ^ 256 + i))"

definition divWorkaround :: "int \<Rightarrow> int \<Rightarrow> int" where
  "divWorkaround a b = sgn a * sgn b * (\<bar>a\<bar> div \<bar>b\<bar>)"

definition modWorkaround :: "int \<Rightarrow> int \<Rightarrow> int" where
  "modWorkaround a b = sgn a * (\<bar>a\<bar> mod \<bar>b\<bar>)"

definition bool_word :: "bool \<Rightarrow> u256" where
  "bool_word b = (if b then 1 else 0)"

definition op_ADD :: "'w op" where
  "op_ADD = pureOp 2 (\<lambda>a. a 0 + a 1)"

definition op_MUL :: "'w op" where
  "op_MUL = pureOp 2 (\<lambda>a. a 0 * a 1)"

definition op_SUB :: "'w op" where
  "op_SUB = pureOp 2 (\<lambda>a. a 0 - a 1)"

definition op_DIV :: "'w op" where
  "op_DIV = pureOp 2 (\<lambda>a. if a 1 \<noteq> 0 then word_of_int (divWorkaround (uint (a 0)) (uint (a 1))) else 0)"

text \<open>\<^verbatim>\<open>SDIV\<close> and \<^verbatim>\<open>POP\<close> also move \<^verbatim>\<open>m_SP\<close>, which the next fetch overwrites.\<close>

definition sdiv_word :: "u256 \<Rightarrow> u256 \<Rightarrow> u256" where
  "sdiv_word x y = (if y \<noteq> 0 then s2u (divWorkaround (u2s x) (u2s y)) else 0)"

definition op_SDIV :: "'w op" where
  "op_SDIV s =
     bind_res (updateIOGas s) (operands 2 (\<lambda>a s.
       bind_res (setSPP (sdiv_word (a 0) (a 1)) s) (\<lambda>s. nextOp (s\<lparr>m_SP := m_SP s - 1\<rparr>))))"

definition op_MOD :: "'w op" where
  "op_MOD = pureOp 2 (\<lambda>a. if a 1 \<noteq> 0 then word_of_int (modWorkaround (uint (a 0)) (uint (a 1))) else 0)"

definition smod_word :: "u256 \<Rightarrow> u256 \<Rightarrow> u256" where
  "smod_word x y = (if y \<noteq> 0 then s2u (modWorkaround (u2s x) (u2s y)) else 0)"

definition op_SMOD :: "'w op" where
  "op_SMOD = pureOp 2 (\<lambda>a. smod_word (a 0) (a 1))"

definition op_NOT :: "'w op" where
  "op_NOT = pureOp 1 (\<lambda>a. NOT (a 0))"

definition op_LT :: "'w op" where
  "op_LT = pureOp 2 (\<lambda>a. bool_word (a 0 < a 1))"

definition op_GT :: "'w op" where
  "op_GT = pureOp 2 (\<lambda>a. bool_word (a 0 > a 1))"

definition op_SLT :: "'w op" where
  "op_SLT = pureOp 2 (\<lambda>a. bool_word (u2s (a 0) < u2s (a 1)))"

definition op_SGT :: "'w op" where
  "op_SGT = pureOp 2 (\<lambda>a. bool_word (u2s (a 0) > u2s (a 1)))"

definition op_EQ :: "'w op" where
  "op_EQ = pureOp 2 (\<lambda>a. bool_word (a 0 = a 1))"

definition op_ISZERO :: "'w op" where
  "op_ISZERO = pureOp 1 (\<lambda>a. if a 0 \<noteq> 0 then 0 else 1)"

definition op_AND :: "'w op" where
  "op_AND = pureOp 2 (\<lambda>a. a 0 AND a 1)"

definition op_OR :: "'w op" where
  "op_OR = pureOp 2 (\<lambda>a. a 0 OR a 1)"

definition op_XOR :: "'w op" where
  "op_XOR = pureOp 2 (\<lambda>a. a 0 XOR a 1)"

definition byte_word :: "u256 \<Rightarrow> u256 \<Rightarrow> u256" where
  "byte_word i x = (if i < 32 then drop_bit (unat (ucast (8 * (31 - i)) :: u32)) x AND 0xff else 0)"

definition op_BYTE :: "'w op" where
  "op_BYTE = pureOp 2 (\<lambda>a. byte_word (a 0) (a 1))"

definition shl_word :: "u256 \<Rightarrow> u256 \<Rightarrow> u256" where
  "shl_word n x = (if n \<ge> 256 then 0 else push_bit (unat (ucast n :: u32)) x)"

definition op_SHL :: "'w op" where
  "op_SHL s = (if \<not> haveBitwiseShifting (m_schedule s) then throwBadInstruction s
               else pureOp 2 (\<lambda>a. shl_word (a 0) (a 1)) s)"

definition shr_word :: "u256 \<Rightarrow> u256 \<Rightarrow> u256" where
  "shr_word n x = (if n \<ge> 256 then 0 else drop_bit (unat (ucast n :: u32)) x)"

definition op_SHR :: "'w op" where
  "op_SHR s = (if \<not> haveBitwiseShifting (m_schedule s) then throwBadInstruction s
               else pureOp 2 (\<lambda>a. shr_word (a 0) (a 1)) s)"

definition sar_word :: "u256 \<Rightarrow> u256 \<Rightarrow> u256" where
  "sar_word n shiftee =
     (let hibit = push_bit 255 1; allbits = - 1 in
      if n \<ge> 256 then (if shiftee AND hibit \<noteq> 0 then allbits else 0)
      else (let amount = unat (ucast n :: u32); r = drop_bit amount shiftee in
            if shiftee AND hibit \<noteq> 0 then r OR push_bit (256 - amount) allbits else r))"

definition op_SAR :: "'w op" where
  "op_SAR s = (if \<not> haveBitwiseShifting (m_schedule s) then throwBadInstruction s
               else pureOp 2 (\<lambda>a. sar_word (a 0) (a 1)) s)"

definition addmod_word :: "u256 \<Rightarrow> u256 \<Rightarrow> u256 \<Rightarrow> u256" where
  "addmod_word x y m =
     (if m \<noteq> 0 then ucast (((ucast x :: u512) + ucast y) mod ucast m) else 0)"

definition op_ADDMOD :: "'w op" where
  "op_ADDMOD = pureOp 3 (\<lambda>a. addmod_word (a 0) (a 1) (a 2))"

definition mulmod_word :: "u256 \<Rightarrow> u256 \<Rightarrow> u256 \<Rightarrow> u256" where
  "mulmod_word x y m =
     (if m \<noteq> 0 then ucast (((ucast x :: u512) * ucast y) mod ucast m) else 0)"

definition op_MULMOD :: "'w op" where
  "op_MULMOD = pureOp 3 (\<lambda>a. mulmod_word (a 0) (a 1) (a 2))"

text \<open>\<^verbatim>\<open>SIGNEXTEND\<close> changes \<^verbatim>\<open>m_SP[1]\<close> in place, the slot that becomes the top of the stack.\<close>

definition signextend_word :: "u256 \<Rightarrow> u256 \<Rightarrow> u256" where
  "signextend_word k number =
     (if k < 31
      then (let testBit = unat (ucast k * 8 + 7 :: u32); msk = push_bit testBit 1 - 1 in
            if bit number testBit then number OR NOT msk else number AND msk)
      else number)"

definition op_SIGNEXTEND :: "'w op" where
  "op_SIGNEXTEND s =
     bind_res (updateIOGas s) (operands 2 (\<lambda>a s.
       bind_res (setSlot (m_SP s + 1) (signextend_word (a 0) (a 1)) s) nextOp))"

section \<open>The environment\<close>

definition op_ADDRESS :: "'w op" where
  "op_ADDRESS = pushOp (\<lambda>s. fromAddress (myAddress (m_ext s)))"

definition op_ORIGIN :: "'w op" where
  "op_ORIGIN = pushOp (\<lambda>s. fromAddress (origin (m_ext s)))"

definition op_BALANCE :: "'w host \<Rightarrow> 'w op" where
  "op_BALANCE H = operands 1 (\<lambda>a s. toInt63 (unat (balanceGas (m_schedule s))) (\<lambda>g s.
     pushOp (\<lambda>s. h_balance H (m_ext s) (asAddress (a 0))) (s\<lparr>m_runGas := g\<rparr>)) s)"

definition op_CALLER :: "'w op" where
  "op_CALLER = pushOp (\<lambda>s. fromAddress (caller (m_ext s)))"

definition op_CALLVALUE :: "'w op" where
  "op_CALLVALUE = pushOp (\<lambda>s. ext_value (m_ext s))"

text \<open>
  \<^verbatim>\<open>CALLDATALOAD\<close> overwrites \<^verbatim>\<open>m_SP[0]\<close>. Inside the data the word is read at once, at its end
  byte by byte with zeros behind it.
\<close>

definition calldata_word :: "bytes \<Rightarrow> u256 \<Rightarrow> u256" where
  "calldata_word data sp0 =
     (if unat sp0 + 31 < length data
      then fromBigEndian (take 32 (drop (unat (ucast sp0 :: u64)) data))
      else if unat sp0 \<ge> length data then 0
      else fromBigEndian (map (\<lambda>i. if i < length data then data ! i else 0)
             [unat (ucast sp0 :: u64)..<unat (ucast sp0 + 32 :: u64)]))"

definition op_CALLDATALOAD :: "'w op" where
  "op_CALLDATALOAD s =
     bind_res (updateIOGas s) (operands 1 (\<lambda>a s.
       bind_res (setSlot (m_SP s) (calldata_word (ext_data (m_ext s)) (a 0)) s) nextOp))"

definition op_CALLDATASIZE :: "'w op" where
  "op_CALLDATASIZE = pushOp (\<lambda>s. word_of_nat (length (ext_data (m_ext s))))"

definition op_RETURNDATASIZE :: "'w op" where
  "op_RETURNDATASIZE s =
     (if \<not> haveReturnData (m_schedule s) then throwBadInstruction s
      else pushOp (\<lambda>s. word_of_nat (length (m_returnData s))) s)"

definition op_CODESIZE :: "'w op" where
  "op_CODESIZE = pushOp (\<lambda>s. word_of_nat (length (ext_code (m_ext s))))"

definition op_EXTCODESIZE :: "'w host \<Rightarrow> 'w op" where
  "op_EXTCODESIZE H = operands 1 (\<lambda>a s. toInt63 (unat (extcodesizeGas (m_schedule s))) (\<lambda>g s.
     pushOp (\<lambda>s. word_of_nat (h_codeSizeAt H (m_ext s) (asAddress (a 0)))) (s\<lparr>m_runGas := g\<rparr>)) s)"

section \<open>Copying to memory\<close>

text \<open>
  What the copying cases share: the size to be copied, the memory it needs, the gas, and the copy
  of the buffer \<open>data\<close> selected once all that is paid.
\<close>

definition copyOp :: "('w vm \<Rightarrow> bytes) \<Rightarrow> u256 \<Rightarrow> u256 \<Rightarrow> u256 \<Rightarrow> 'w op" where
  "copyOp data sp0 sp1 sp2 =
     toInt63 (unat sp2) (\<lambda>c s.
       memNeed sp0 sp2 (\<lambda>need s.
         bind_res (updateMem need s) (\<lambda>s. bind_res (updateIOGas s) (\<lambda>s.
           bind_res (copyDataToMemory (data s) sp0 sp1 sp2 s) nextOp))) (s\<lparr>m_copyMemSize := c\<rparr>))"

definition op_CALLDATACOPY :: "'w op" where
  "op_CALLDATACOPY = operands 3 (\<lambda>a. copyOp (\<lambda>s. ext_data (m_ext s)) (a 0) (a 1) (a 2))"

definition op_RETURNDATACOPY :: "'w op" where
  "op_RETURNDATACOPY = operands 3 (\<lambda>a s.
     if \<not> haveReturnData (m_schedule s) then throwBadInstruction s
     else if length (m_returnData s) < unat (a 1) + unat (a 2) then throwBufferOverrun s
     else copyOp m_returnData (a 0) (a 1) (a 2) s)"

definition op_CODECOPY :: "'w op" where
  "op_CODECOPY = operands 3 (\<lambda>a. copyOp (\<lambda>s. ext_code (m_ext s)) (a 0) (a 1) (a 2))"

definition op_EXTCODECOPY :: "'w host \<Rightarrow> 'w op" where
  "op_EXTCODECOPY H = operands 4 (\<lambda>a s. toInt63 (unat (extcodecopyGas (m_schedule s))) (\<lambda>g s.
     copyOp (\<lambda>s. h_codeAt H (m_ext s) (asAddress (a 0))) (a 1) (a 2) (a 3) (s\<lparr>m_runGas := g\<rparr>)) s)"

section \<open>The block\<close>

definition op_GASPRICE :: "'w op" where
  "op_GASPRICE = pushOp (\<lambda>s. gasPrice (m_ext s))"

definition op_BLOCKHASH :: "'w host \<Rightarrow> 'w op" where
  "op_BLOCKHASH H = operands 1 (\<lambda>a s. toInt63 (unat (blockhashGas (m_schedule s))) (\<lambda>g s.
     bind_res (updateIOGas (s\<lparr>m_runGas := g\<rparr>)) (\<lambda>s.
       case h_blockHash H (m_ext s) (a 0) of
         None \<Rightarrow> throwHostException s
       | Some (h, ext') \<Rightarrow> bind_res (setSPP h (s\<lparr>m_ext := ext'\<rparr>)) nextOp)) s)"

definition op_COINBASE :: "'w op" where
  "op_COINBASE = pushOp (\<lambda>s. fromAddress (env_author (envInfo (m_ext s))))"

text \<open>Number and timestamp are \<^verbatim>\<open>int64_t\<close>; the conversion to \<^verbatim>\<open>u256\<close> keeps their sign.\<close>

definition op_TIMESTAMP :: "'w op" where
  "op_TIMESTAMP = pushOp (\<lambda>s. scast (env_timestamp (envInfo (m_ext s))))"

definition op_NUMBER :: "'w op" where
  "op_NUMBER = pushOp (\<lambda>s. scast (env_number (envInfo (m_ext s))))"

definition op_DIFFICULTY :: "'w op" where
  "op_DIFFICULTY = pushOp (\<lambda>s. env_difficulty (envInfo (m_ext s)))"

definition op_GASLIMIT :: "'w op" where
  "op_GASLIMIT = pushOp (\<lambda>s. env_gasLimit (envInfo (m_ext s)))"

section \<open>Stack, jumps and storage\<close>

definition op_POP :: "'w op" where
  "op_POP s = bind_res (updateIOGas s) (\<lambda>s. nextOp (s\<lparr>m_SP := m_SP s - 1\<rparr>))"

definition codeByte :: "(byte \<Rightarrow> 'w op) \<Rightarrow> 'w op" where
  "codeByte k s =
     (if unat (m_PC s) < length (m_code s) then k (m_code s ! unat (m_PC s)) s
      else Thrown UndefinedBehaviour s)"

definition op_PUSH1 :: "'w op" where
  "op_PUSH1 s =
     bind_res (updateIOGas s) (\<lambda>s.
       codeByte (\<lambda>b s. bind_res (setSPP (ucast b) s) nextOp) (s\<lparr>m_PC := m_PC s + 1\<rparr>))"

fun pushLoop :: "nat \<Rightarrow> 'w op" where
  "pushLoop 0 s = Ok s"
| "pushLoop (Suc n) s =
     codeByte (\<lambda>b s.
       bind_res (setSPP (push_bit 8 (m_stack s (m_SPP s)) OR ucast b) s) (\<lambda>s.
         pushLoop n (s\<lparr>m_PC := m_PC s + 1\<rparr>))) s"

definition op_PUSHn :: "nat \<Rightarrow> 'w op" where
  "op_PUSHn numBytes s =
     bind_res (updateIOGas s) (\<lambda>s. bind_res (setSPP 0 s) (\<lambda>s.
       pushLoop numBytes (s\<lparr>m_PC := m_PC s + 1\<rparr>)))"

definition op_JUMP :: "'w op" where
  "op_JUMP s =
     bind_res (updateIOGas s) (operands 1 (\<lambda>a.
       verifyJumpDest (a 0) (\<lambda>pc s. Ok (s\<lparr>m_PC := pc\<rparr>))))"

definition op_JUMPI :: "'w op" where
  "op_JUMPI s =
     bind_res (updateIOGas s) (operands 2 (\<lambda>a s.
       if a 1 \<noteq> 0 then verifyJumpDest (a 0) (\<lambda>pc s. Ok (s\<lparr>m_PC := pc\<rparr>)) s
       else Ok (s\<lparr>m_PC := m_PC s + 1\<rparr>)))"

definition op_DUP :: "nat \<Rightarrow> 'w op" where
  "op_DUP n s =
     bind_res (updateIOGas s) (operands n (\<lambda>a s. bind_res (setSPP (a (n - 1)) s) nextOp))"

definition op_SWAP :: "nat \<Rightarrow> 'w op" where
  "op_SWAP n s =
     bind_res (updateIOGas s) (operands (n + 1) (\<lambda>a s.
       bind_res (setSlot (m_SP s) (a n) s) (\<lambda>s. bind_res (setSlot (m_SP s + n) (a 0) s) nextOp)))"

definition op_SLOAD :: "'w host \<Rightarrow> 'w op" where
  "op_SLOAD H = operands 1 (\<lambda>a s. toInt63 (unat (sloadGas (m_schedule s))) (\<lambda>g s.
     pushOp (\<lambda>s. h_store H (m_ext s) (a 0)) (s\<lparr>m_runGas := g\<rparr>)) s)"

definition op_SSTORE :: "'w host \<Rightarrow> 'w op" where
  "op_SSTORE H s =
     (if staticCall (m_ext s) then throwDisallowedStateChange s
      else bind_res (updateSSGas H s) (\<lambda>s. bind_res (updateIOGas s) (operands 2 (\<lambda>a s.
             case h_setStore H (m_ext s) (a 0) (a 1) of
               None \<Rightarrow> throwHostException s
             | Some ext' \<Rightarrow> nextOp (s\<lparr>m_ext := ext'\<rparr>)))))"

definition op_PC :: "'w op" where
  "op_PC = pushOp (\<lambda>s. ucast (m_PC s))"

definition op_MSIZE :: "'w op" where
  "op_MSIZE = pushOp (\<lambda>s. word_of_nat (length (m_mem s)))"

definition op_GAS :: "'w op" where
  "op_GAS = pushOp (\<lambda>s. ucast (m_io_gas s))"

definition op_JUMPDEST :: "'w op" where
  "op_JUMPDEST s = bind_res (updateIOGas (s\<lparr>m_runGas := 1\<rparr>)) nextOp"

section \<open>The switch\<close>

definition interpretCases :: "'w host \<Rightarrow> 'w op" where
  "interpretCases H s = (case m_OP s of
       CREATE2 \<Rightarrow> op_CREATE2 s | CREATE \<Rightarrow> op_CREATE s
     | DELEGATECALL \<Rightarrow> op_CALLs s | STATICCALL \<Rightarrow> op_CALLs s | CALL \<Rightarrow> op_CALLs s
     | CALLCODE \<Rightarrow> op_CALLs s
     | RETURN \<Rightarrow> op_RETURN s | REVERT \<Rightarrow> op_REVERT s | SUICIDE \<Rightarrow> op_SUICIDE H s | STOP \<Rightarrow> op_STOP s
     | MLOAD \<Rightarrow> op_MLOAD s | MSTORE \<Rightarrow> op_MSTORE s | MSTORE8 \<Rightarrow> op_MSTORE8 s | SHA3 \<Rightarrow> op_SHA3 H s
     | LOG n \<Rightarrow> op_LOG H n s | EXP \<Rightarrow> op_EXP s
     | ADD \<Rightarrow> op_ADD s | MUL \<Rightarrow> op_MUL s | SUB \<Rightarrow> op_SUB s | DIV \<Rightarrow> op_DIV s | SDIV \<Rightarrow> op_SDIV s
     | MOD \<Rightarrow> op_MOD s | SMOD \<Rightarrow> op_SMOD s | NOTop \<Rightarrow> op_NOT s | LT \<Rightarrow> op_LT s | GT \<Rightarrow> op_GT s
     | SLT \<Rightarrow> op_SLT s | SGT \<Rightarrow> op_SGT s | EQ \<Rightarrow> op_EQ s | ISZERO \<Rightarrow> op_ISZERO s
     | ANDop \<Rightarrow> op_AND s | ORop \<Rightarrow> op_OR s | XORop \<Rightarrow> op_XOR s | BYTE \<Rightarrow> op_BYTE s
     | SHL \<Rightarrow> op_SHL s | SHR \<Rightarrow> op_SHR s | SAR \<Rightarrow> op_SAR s | ADDMOD \<Rightarrow> op_ADDMOD s
     | MULMOD \<Rightarrow> op_MULMOD s | SIGNEXTEND \<Rightarrow> op_SIGNEXTEND s
     | E615 x \<Rightarrow> throwBadInstruction s | E616 x \<Rightarrow> throwBadInstruction s
     | ADDRESS \<Rightarrow> op_ADDRESS s | ORIGIN \<Rightarrow> op_ORIGIN s | BALANCE \<Rightarrow> op_BALANCE H s
     | CALLER \<Rightarrow> op_CALLER s | CALLVALUE \<Rightarrow> op_CALLVALUE s | CALLDATALOAD \<Rightarrow> op_CALLDATALOAD s
     | CALLDATASIZE \<Rightarrow> op_CALLDATASIZE s | RETURNDATASIZE \<Rightarrow> op_RETURNDATASIZE s
     | CODESIZE \<Rightarrow> op_CODESIZE s | EXTCODESIZE \<Rightarrow> op_EXTCODESIZE H s
     | CALLDATACOPY \<Rightarrow> op_CALLDATACOPY s | RETURNDATACOPY \<Rightarrow> op_RETURNDATACOPY s
     | CODECOPY \<Rightarrow> op_CODECOPY s | EXTCODECOPY \<Rightarrow> op_EXTCODECOPY H s
     | GASPRICE \<Rightarrow> op_GASPRICE s | BLOCKHASH \<Rightarrow> op_BLOCKHASH H s | COINBASE \<Rightarrow> op_COINBASE s
     | TIMESTAMP \<Rightarrow> op_TIMESTAMP s | NUMBER \<Rightarrow> op_NUMBER s | DIFFICULTY \<Rightarrow> op_DIFFICULTY s
     | GASLIMIT \<Rightarrow> op_GASLIMIT s | POP \<Rightarrow> op_POP s
     | PUSHC \<Rightarrow> throwBadInstruction s
     | PUSH n \<Rightarrow> (if n = 1 then op_PUSH1 s else op_PUSHn n s)
     | JUMP \<Rightarrow> op_JUMP s | JUMPI \<Rightarrow> op_JUMPI s
     | JUMPC \<Rightarrow> throwBadInstruction s | JUMPCI \<Rightarrow> throwBadInstruction s
     | DUP n \<Rightarrow> op_DUP n s | SWAP n \<Rightarrow> op_SWAP n s
     | SLOAD \<Rightarrow> op_SLOAD H s | SSTORE \<Rightarrow> op_SSTORE H s | PC \<Rightarrow> op_PC s | MSIZE \<Rightarrow> op_MSIZE s
     | GAS \<Rightarrow> op_GAS s | JUMPDEST \<Rightarrow> op_JUMPDEST s
     | INVALID \<Rightarrow> throwBadInstruction s | Undefined b \<Rightarrow> throwBadInstruction s)"

section \<open>Cases that call out\<close>

text \<open>
  \<^verbatim>\<open>caseCreate\<close> once its memory and gas are paid: the creation with all gas, or with all but one
  64th of it, if the balance and the depth allow it.
\<close>

definition createGasFor :: "'w vm \<Rightarrow> u256" where
  "createGasFor s =
     (let io = ucast (m_io_gas s) in
      if \<not> staticCallDepthLimit (m_schedule s) then io - io div 64 else io)"

definition createPaid :: "'w host \<Rightarrow> u256 \<Rightarrow> u256 \<Rightarrow> u256 \<Rightarrow> u256 \<Rightarrow> 'w op" where
  "createPaid H endowment salt initOff initSize s0 =
     (let s = s0\<lparr>m_returnData := []\<rparr> in
      if h_balance H (m_ext s) (myAddress (m_ext s)) \<ge> endowment \<and> depth (m_ext s) < 1024
      then (let io = ucast (m_io_gas s) :: u256;
                cGas = createGasFor s
            in readMem (unat (ucast initOff :: u64)) (unat (ucast initSize :: u64)) (\<lambda>initCode s.
                 case h_create H (m_ext s) endowment cGas initCode (m_OP s) salt of
                   None \<Rightarrow> throwHostException s
                 | Some (result, gas', ext') \<Rightarrow>
                     bind_res (setSPP (fromAddress (create_address result)) (s\<lparr>m_ext := ext'\<rparr>)) (\<lambda>s.
                       nextOp (s\<lparr>m_returnData := create_output result,
                                 m_io_gas := ucast (io - (cGas - gas'))\<rparr>))) s)
      else bind_res (setSPP 0 s) nextOp)"

definition caseCreate :: "'w host \<Rightarrow> 'w op" where
  "caseCreate H s0 =
     toInt63 (unat (createGas (m_schedule s0))) (\<lambda>g s.
       operands (if m_OP s = CREATE then 3 else 4) (\<lambda>a s.
         (let endowment = a 0;
              salt = (if m_OP s = CREATE then 0 else a 1);
              initOff = (if m_OP s = CREATE then a 1 else a 2);
              initSize = (if m_OP s = CREATE then a 2 else a 3)
          in memNeed initOff initSize (\<lambda>need s.
               bind_res (updateMem need s) (\<lambda>s. bind_res (updateIOGas s)
                 (createPaid H endowment salt initOff initSize))) s)) (s\<lparr>m_runGas := g\<rparr>))
     (s0\<lparr>m_bounce := InterpretCases\<rparr>)"

text \<open>
  \<^verbatim>\<open>caseCallSetup\<close>: its continuation gets whether the call is to be made, the parameters, and the
  output region \<^verbatim>\<open>o_output\<close>.
\<close>

definition callCharges :: "'w host \<Rightarrow> (nat \<Rightarrow> u256) \<Rightarrow> 'w vm \<Rightarrow> u64" where
  "callCharges H a s =
     ucast (callGas (m_schedule s)) +
     (if m_OP s = CALL \<and> \<not> h_exists H (m_ext s) (asAddress (a 1)) \<and>
         (a 2 > 0 \<or> zeroValueTransferChargesNewAccountGas (m_schedule s))
      then ucast (callNewAccountGas (m_schedule s)) else 0) +
     (if (m_OP s = CALL \<or> m_OP s = CALLCODE) \<and> a 2 > 0
      then ucast (callValueTransferGas (m_schedule s)) else 0)"

definition callGasFor :: "u256 \<Rightarrow> 'w vm \<Rightarrow> u256" where
  "callGasFor requested s =
     (if staticCallDepthLimit (m_schedule s) then requested
      else min requested (ucast (m_io_gas s - m_io_gas s div 64)))"

definition callParamsFor :: "(nat \<Rightarrow> u256) \<Rightarrow> u256 \<Rightarrow> 'w vm \<Rightarrow> CallParameters" where
  "callParamsFor a cgas s =
     (let haveValueArg = (m_OP s = CALL \<or> m_OP s = CALLCODE); e = m_ext s in
      CallParameters_default\<lparr>
        call_static := (m_OP s = STATICCALL \<or> staticCall e),
        gas := (if haveValueArg \<and> a 2 > 0 then cgas + ucast (callStipend (m_schedule s)) else cgas),
        codeAddress := asAddress (a 1),
        valueTransfer := (if haveValueArg then a 2 else 0),
        apparentValue := (if haveValueArg then a 2
                          else if m_OP s = DELEGATECALL then ext_value e else 0)\<rparr>)"

text \<open>The last part of \<^verbatim>\<open>caseCallSetup\<close>, with the static costs paid: charge the call's gas and go.\<close>

definition callSetupPaid :: "'w host \<Rightarrow> (bool \<Rightarrow> CallParameters \<Rightarrow> nat \<Rightarrow> nat \<Rightarrow> 'w op) \<Rightarrow>
    (nat \<Rightarrow> u256) \<Rightarrow> nat \<Rightarrow> 'w op" where
  "callSetupPaid H k a so s0 =
     toInt63 (unat (callGasFor (a 0) s0)) (\<lambda>g s.
       bind_res (updateIOGas (s\<lparr>m_runGas := g\<rparr>)) (\<lambda>s.
         (let e = m_ext s;
              p = callParamsFor a (callGasFor (a 0) s0) s;
              outOff = unat (ucast (a (so + 2)) :: u64);
              outSize = unat (ucast (a (so + 3)) :: u64)
          in if h_balance H e (myAddress e) \<ge> valueTransfer p \<and> depth e < 1024
             then readMem (unat (ucast (a so) :: u64)) (unat (ucast (a (so + 1)) :: u64))
                    (\<lambda>input. k True (p\<lparr>
                      senderAddress := (if m_OP s = DELEGATECALL then caller e else myAddress e),
                      receiveAddress := (if m_OP s = CALL \<or> m_OP s = STATICCALL
                                         then codeAddress p else myAddress e),
                      call_data := input\<rparr>) outOff outSize) s
             else k False p outOff outSize s))) s0"

definition caseCallSetup ::
    "'w host \<Rightarrow> (bool \<Rightarrow> CallParameters \<Rightarrow> nat \<Rightarrow> nat \<Rightarrow> 'w op) \<Rightarrow> 'w op" where
  "caseCallSetup H k s0 =
     (let so = (if m_OP s0 = CALL \<or> m_OP s0 = CALLCODE then 3 else 2) in
      operands (so + 4) (\<lambda>a s.
        memNeed (a so) (a (so + 1)) (\<lambda>inputMemNeed.
          memNeed (a (so + 2)) (a (so + 3)) (\<lambda>outputMemNeed s.
            bind_res (updateMem (max inputMemNeed outputMemNeed) s) (\<lambda>s.
              bind_res (updateIOGas s) (callSetupPaid H k a so))))
          (s\<lparr>m_runGas := callCharges H a s\<rparr>)) s0)"

text \<open>The body of \<^verbatim>\<open>caseCall\<close> after the setup.\<close>

definition callBody :: "'w host \<Rightarrow> bool \<Rightarrow> CallParameters \<Rightarrow> nat \<Rightarrow> nat \<Rightarrow> 'w op" where
  "callBody H go p outOff outSize s =
     (if go
      then (case h_call H (m_ext s) p of
              None \<Rightarrow> throwHostException s
            | Some (result, gas', ext') \<Rightarrow>
              bind_res (writeMem outOff (take outSize (call_output result)) (s\<lparr>m_ext := ext'\<rparr>)) (\<lambda>s.
                bind_res (setSPP (bool_word (call_success result)) (s\<lparr>m_returnData := call_output result\<rparr>)) (\<lambda>s.
                  nextOp (s\<lparr>m_io_gas := m_io_gas s + ucast gas'\<rparr>))))
      else bind_res (setSPP 0 s) (\<lambda>s. nextOp (s\<lparr>m_io_gas := m_io_gas s + ucast (gas p)\<rparr>)))"

definition caseCall :: "'w host \<Rightarrow> 'w op" where
  "caseCall H s = caseCallSetup H (callBody H) (s\<lparr>m_bounce := InterpretCases, m_returnData := []\<rparr>)"

section \<open>Entry\<close>

text \<open>
  The first loop of \<^verbatim>\<open>optimize\<close> over the code: it records the jump destinations, skips the data of
  the pushes and overwrites the interpreter's own opcodes.
\<close>

function optimizeLoop :: "nat \<Rightarrow> nat \<Rightarrow> bytes \<Rightarrow> u64 list \<Rightarrow> bytes \<times> u64 list" where
  "optimizeLoop nBytes pc code dests =
     (if pc < nBytes
      then (let op = decode (code ! pc);
                code' = (if op = PUSHC \<or> op = JUMPC \<or> op = JUMPCI then code[pc := 0xfe] else code)
            in case op of
                 JUMPDEST \<Rightarrow> optimizeLoop nBytes (Suc pc) code' (dests @ [word_of_nat pc])
               | PUSH n \<Rightarrow> optimizeLoop nBytes (Suc (pc + n)) code' dests
               | _ \<Rightarrow> optimizeLoop nBytes (Suc pc) code' dests)
      else (code, dests))"
  by pat_completeness auto
termination
  by (relation "measure (\<lambda>(n, pc, _). n - pc)") auto

declare optimizeLoop.simps [simp del]

definition copyCode :: "nat \<Rightarrow> 'w vm \<Rightarrow> 'w vm" where
  "copyCode extraBytes s = s\<lparr>m_code := ext_code (m_ext s) @ replicate extraBytes 0\<rparr>"

definition optimize :: "'w vm \<Rightarrow> 'w vm" where
  "optimize s =
     (let s1 = copyCode 33 s in
      case optimizeLoop (length (ext_code (m_ext s1))) 0 (m_code s1) (m_jumpDests s1) of
        (code, dests) \<Rightarrow> s1\<lparr>m_code := code, m_jumpDests := dests\<rparr>)"

definition initEntry :: "'w op" where
  "initEntry s = Ok (optimize (s\<lparr>m_bounce := InterpretCases\<rparr>))"

text \<open>
  One turn of the trampoline. Inside \<^verbatim>\<open>interpretCases\<close> a turn is one instruction: \<^verbatim>\<open>NEXT\<close> and
  \<^verbatim>\<open>CONTINUE\<close> fetch the next one with \<^verbatim>\<open>m_bounce\<close> unchanged.
\<close>

definition bounceStep :: "'w host \<Rightarrow> 'w op" where
  "bounceStep H s = (case m_bounce s of
       InitEntry \<Rightarrow> initEntry s
     | InterpretCases \<Rightarrow> bind_res (fetchInstruction s) (interpretCases H)
     | CaseCreate \<Rightarrow> caseCreate H s
     | CaseCall \<Rightarrow> caseCall H s
     | Done \<Rightarrow> Ok s)"

partial_function (option) trampoline :: "'w host \<Rightarrow> 'w vm \<Rightarrow> 'w vm res option" where
  "trampoline H s = (case bounceStep H s of
       Thrown e s' \<Rightarrow> Some (Thrown e s')
     | Ok s' \<Rightarrow> if m_bounce s' = Done then Some (Ok s') else trampoline H s')"

definition newVM :: "u256 \<Rightarrow> 'w ExtVMFace \<Rightarrow> 'w vm" where
  "newVM io_gas ext = \<lparr>m_io_gas = ucast io_gas, m_ext = ext, m_schedule = evmSchedule ext,
     m_bounce = InitEntry, m_output = [], m_mem = [], m_code = [], m_returnData = [],
     m_stack = (\<lambda>_. 0), m_OP = INVALID, m_PC = 0, m_SP = 1024, m_SPP = 1024, m_runGas = 0,
     m_newMemSize = 0, m_copyMemSize = 0, m_jumpDests = []\<rparr>"

text \<open>
  \<^verbatim>\<open>exec\<close> on a fresh machine: the output or the exception, the gas left (written back through
  \<^verbatim>\<open>m_io_gas_p\<close> in both cases) and the world. \<open>None\<close> would be a run that does not end.
\<close>

definition exec :: "'w host \<Rightarrow> u256 \<Rightarrow> 'w ExtVMFace \<Rightarrow>
    ((vm_exception + bytes) \<times> u256 \<times> 'w ExtVMFace) option" where
  "exec H io_gas ext = map_option (\<lambda>r. case r of
       Ok s \<Rightarrow> (Inr (m_output s), ucast (m_io_gas s), m_ext s)
     | Thrown e s \<Rightarrow> (Inl e, ucast (m_io_gas s), m_ext s)) (trampoline H (newVM io_gas ext))"

end
