(* ===== verification/LegacyVM_Logic.thy ===== *)
theory LegacyVM_Logic
  imports LegacyVM
begin

text \<open>
  Weakest preconditions for the interpreter's operations: \<open>wp r P E\<close> says that the result \<open>r\<close> is
  either a state with \<open>P\<close> or an exception and a state with \<open>E\<close>. The rules of this theory reduce it
  over the operations; the memory and gas update is summarised by one rule.
\<close>

section \<open>Weakest preconditions\<close>

definition wp :: "'s res \<Rightarrow> ('s \<Rightarrow> bool) \<Rightarrow> (vm_exception \<Rightarrow> 's \<Rightarrow> bool) \<Rightarrow> bool" where
  "wp r P E = (case r of Ok s \<Rightarrow> P s | Thrown e s \<Rightarrow> E e s)"

lemma wp_simps [simp, vm_simps]:
  "wp (Ok s) P E = P s" "wp (Thrown e s) P E = E e s"
  "wp (bind_res r f) P E = wp r (\<lambda>s. wp (f s) P E) E"
  by (simp_all add: wp_def) (cases r; simp)

lemma wp_if: "wp (if b then r else r') P E = (if b then wp r P E else wp r' P E)"
  by simp

lemma wp_mono:
  "wp r P E \<Longrightarrow> (\<And>s. P s \<Longrightarrow> P' s) \<Longrightarrow> (\<And>e s. E e s \<Longrightarrow> E' e s) \<Longrightarrow> wp r P' E'"
  by (cases r) simp_all

lemma wp_conj: "wp r P E \<Longrightarrow> wp r P' E' \<Longrightarrow> wp r (\<lambda>s. P s \<and> P' s) (\<lambda>e s. E e s \<and> E' e s)"
  by (cases r) simp_all

lemma wp_throw [simp]:
  "wp (throwOutOfGas s) P E = E OutOfGas s" "wp (throwBadInstruction s) P E = E BadInstruction s"
  "wp (throwBadJumpDestination s) P E = E BadJumpDestination s"
  "wp (throwDisallowedStateChange s) P E = E DisallowedStateChange s"
  "wp (throwRevertInstruction out s) P E = E (RevertInstruction out) s"
  "wp (throwBufferOverrun s) P E = E BufferOverrun s"
  "wp (throwHostException s) P E = E HostException s"
  by (simp_all add: throwOutOfGas_def throwBadInstruction_def throwBadJumpDestination_def
      throwDisallowedStateChange_def throwRevertInstruction_def throwBufferOverrun_def throwHostException_def)

lemma wp_operands [simp]: "m_SP s + n \<le> 1024 \<Longrightarrow>
    wp (operands n k s) P E = wp (k (\<lambda>i. m_stack s (m_SP s + i)) s) P E"
  by (simp add: operands_def)

lemma wp_setSlot [simp]: "i < 1024 \<Longrightarrow>
    wp (setSlot i v s) P E = P (s\<lparr>m_stack := (m_stack s)(i := v)\<rparr>)"
  by (simp add: setSlot_def)

lemma wp_setSPP [simp]: "m_SPP s < 1024 \<Longrightarrow>
    wp (setSPP v s) P E = P (s\<lparr>m_stack := (m_stack s)(m_SPP s := v)\<rparr>)"
  by (simp add: setSPP_def)

lemma wp_nextOp [simp]: "wp (nextOp s) P E = P (s\<lparr>m_PC := m_PC s + 1\<rparr>)"
  by (simp add: nextOp_def)

lemma wp_updateIOGas [simp]: "wp (updateIOGas s) P E =
    (if m_io_gas s < m_runGas s then E OutOfGas s else P (s\<lparr>m_io_gas := m_io_gas s - m_runGas s\<rparr>))"
  by (simp add: updateIOGas_def)

lemma wp_readMem: "n = 0 \<or> off + n \<le> length (m_mem s) \<Longrightarrow>
    wp (readMem off n k s) P E = wp (k (take n (drop off (m_mem s))) s) P E"
  by (auto simp: readMem_def readBytes_def)

lemma wp_toInt63: "wp (toInt63 v k s) P E =
    (if v > 0x7FFFFFFFFFFFFFFF then E OutOfGas s else wp (k (word_of_nat v) s) P E)"
  by (simp add: toInt63_def)

lemma unat_u32_less: "unat (w :: u32) < 2 ^ 32"
  using unsigned_less [of w] by simp

lemma unat_u32_u64 [simp]: "unat (ucast (w :: u32) :: u64) = unat w"
  using unat_u32_less [of w] by (simp add: unsigned_ucast_eq take_bit_nat_eq_self_iff)

text \<open>A schedule entry is 32 bits wide and passes \<^verbatim>\<open>toInt63\<close>.\<close>

lemma wp_toInt63_u32 [simp]: "wp (toInt63 (unat (g :: u32)) k s) P E = wp (k (ucast g) s) P E"
  using unat_u32_less [of g] by (simp add: toInt63_def)

lemma toInt63_unat: "v \<le> 0x7FFFFFFFFFFFFFFF \<Longrightarrow> unat (word_of_nat v :: u64) = v"
  by (simp add: unat_of_nat)

section \<open>Memory expansion\<close>

text \<open>
  What \<^verbatim>\<open>updateMem\<close> may do to the state: the memory is extended with zeros to a multiple of 32 that
  covers what was asked for, the running gas grows, nothing else but the size fields changes.
\<close>

definition mem_grown :: "nat \<Rightarrow> 'w vm \<Rightarrow> 'w vm \<Rightarrow> bool" where
  "mem_grown need s s' \<longleftrightarrow> (\<exists>nm rg k.
     s' = s\<lparr>m_newMemSize := nm, m_runGas := rg, m_mem := m_mem s @ replicate k 0\<rparr> \<and>
     need \<le> length (m_mem s) + k \<and> 32 dvd length (m_mem s) + k \<and>
     length (m_mem s) + k < 2 ^ 43 \<and>
     m_runGas s \<le> rg \<and> rg \<le> m_io_gas s)"

text \<open>An exception of the gas check leaves the state but for the size and running gas fields.\<close>

definition only_metering :: "'w vm \<Rightarrow> 'w vm \<Rightarrow> bool" where
  "only_metering s s' \<longleftrightarrow> (\<exists>nm rg. s' = s\<lparr>m_newMemSize := nm, m_runGas := rg\<rparr>)"

lemma only_metering_refl [simp]: "only_metering s s"
  unfolding only_metering_def by (intro exI [of _ "m_newMemSize s"] exI [of _ "m_runGas s"]) simp

lemma only_metering_run [simp]: "only_metering s (s\<lparr>m_runGas := rg\<rparr>)"
  unfolding only_metering_def by (intro exI [of _ "m_newMemSize s"] exI [of _ rg]) simp

lemma only_metering_new: "only_metering (s\<lparr>m_newMemSize := nm\<rparr>) s' \<Longrightarrow> only_metering s s'"
  by (auto simp: only_metering_def)

definition mem_ok :: "'w vm \<Rightarrow> bool" where
  "mem_ok s \<longleftrightarrow> 32 dvd length (m_mem s) \<and> length (m_mem s) < 2 ^ 43"

lemma gasForMem_mono:
  assumes "a \<le> b"
  shows "m * (a div 32) + a div 32 * (a div 32) div q \<le> m * (b div 32) + b div 32 * (b div 32) div (q :: nat)"
  using assms by (intro add_mono mult_le_mono div_le_mono order.refl)

lemma unat_plus_no_wrap: "unat (a :: u64) + unat b < 2 ^ 64 \<Longrightarrow> unat (a + b) = unat a + unat b"
  by (simp add: unat_word_ariths)

lemma le_plus_no_wrap: "unat (a :: u64) + unat b < 2 ^ 64 \<Longrightarrow> a \<le> a + b"
  by (simp add: word_le_nat_alt unat_plus_no_wrap)

text \<open>The charge for a copy of \<open>c\<close> bytes.\<close>

lemma copy_charge_bound:
  assumes "copyGas sch \<le> 16" and "unat c \<le> 0x7FFFFFFFFFFFFFFF"
  shows "unat (ucast (copyGas sch) * ((c + 31) div 32) :: u64) < 2 ^ 62 + 2 ^ 10"
proof -
  have c: "unat ((c + 31) div 32) \<le> 2 ^ 58"
    using assms(2) by (simp add: unat_div unat_plus_no_wrap)
  have g: "unat (copyGas sch) \<le> 16"
    using assms(1) by (simp add: word_le_nat_alt)
  then have "unat (copyGas sch) * unat ((c + 31) div 32) \<le> 16 * 2 ^ 58"
    using c by (rule mult_le_mono)
  moreover have "unat (ucast (copyGas sch) * d :: u64) \<le> unat (copyGas sch) * unat d" for d
    by (simp only: unat_word_ariths unat_u32_u64 mod_less_eq_dividend)
  ultimately have "unat (ucast (copyGas sch) * ((c + 31) div 32) :: u64) \<le> 16 * 2 ^ 58"
    using le_trans by blast
  then show ?thesis by simp
qed

text \<open>A memory whose cost passes \<^verbatim>\<open>toInt63\<close> is small.\<close>

lemma memory_affordable:
  assumes "meter_sane sch" and "m * (n div 32) + n div 32 * (n div 32) div unat (quadCoeffDiv sch) \<le> 0x7FFFFFFFFFFFFFFF"
  shows "n < 2 ^ 43"
proof (rule ccontr)
  assume "\<not> n < 2 ^ 43"
  then have "2 ^ 38 \<le> n div 32" by simp
  then have "2 ^ 38 * 2 ^ 38 \<le> n div 32 * (n div 32)" by (intro mult_le_mono)
  moreover have q: "0 < unat (quadCoeffDiv sch)" "unat (quadCoeffDiv sch) \<le> 2 ^ 10"
    using assms(1) by (simp_all add: meter_sane_def word_less_nat_alt word_le_nat_alt)
  ultimately have "2 ^ 38 * 2 ^ 38 div 2 ^ 10 \<le> n div 32 * (n div 32) div unat (quadCoeffDiv sch)"
    by (meson div_le_mono div_le_mono2 le_trans)
  with assms(2) show False by simp
qed

lemma updateGas_wp:
  assumes mem: "mem_ok s" and sch: "meter_sane (m_schedule s)"
    and new: "unat (m_newMemSize s) < 2 ^ 63 + 64"
    and copy: "unat (m_copyMemSize s) \<le> 0x7FFFFFFFFFFFFFFF"
    and run: "unat (m_runGas s) < 2 ^ 33 \<or> unat (m_runGas s) < 2 ^ 63 \<and> m_copyMemSize s = 0"
  shows "wp (updateGas s)
    (\<lambda>s'. \<exists>rg. s' = s\<lparr>m_runGas := rg\<rparr> \<and> m_runGas s \<le> rg \<and> rg \<le> m_io_gas s \<and>
      (unat (m_newMemSize s) \<le> length (m_mem s) \<or> unat (m_newMemSize s) < 2 ^ 43))
    (\<lambda>e s'. e = OutOfGas \<and> only_metering s s')"
proof -
  let ?sch = "m_schedule s"
  let ?c = "ucast (copyGas ?sch) * ((m_copyMemSize s + 31) div 32) :: u64"
  have c: "unat ?c < 2 ^ 62 + 2 ^ 10"
    using sch copy by (intro copy_charge_bound) (simp_all add: meter_sane_def)
  have c0: "?c = 0" if "m_copyMemSize s = 0"
    using that by simp
  have charge: "wp (let s1 = s\<lparr>m_runGas := rg + ?c\<rparr> in
      if m_io_gas s1 < m_runGas s1 then throwOutOfGas s1 else Ok s1)
    (\<lambda>s'. \<exists>rg. s' = s\<lparr>m_runGas := rg\<rparr> \<and> m_runGas s \<le> rg \<and> rg \<le> m_io_gas s)
    (\<lambda>e s'. e = OutOfGas \<and> only_metering s s')"
    if rg: "m_runGas s \<le> rg" "unat rg \<le> unat (m_runGas s) + 0x7FFFFFFFFFFFFFFF" for rg
  proof -
    have "unat rg + unat ?c < 2 ^ 64"
      using run rg(2) c c0 by auto
    then have "rg \<le> rg + ?c" by (rule le_plus_no_wrap)
    then have "m_runGas s \<le> rg + ?c" using rg(1) by simp
    then show ?thesis
      by (auto simp: Let_def not_less)
  qed
  have affordable: "wp r (\<lambda>s'. \<exists>rg. s' = s\<lparr>m_runGas := rg\<rparr> \<and> m_runGas s \<le> rg \<and> rg \<le> m_io_gas s \<and>
      (unat (m_newMemSize s) \<le> length (m_mem s) \<or> unat (m_newMemSize s) < 2 ^ 43))
      (\<lambda>e s'. e = OutOfGas \<and> only_metering s s')"
    if "wp r (\<lambda>s'. \<exists>rg. s' = s\<lparr>m_runGas := rg\<rparr> \<and> m_runGas s \<le> rg \<and> rg \<le> m_io_gas s)
      (\<lambda>e s'. e = OutOfGas \<and> only_metering s s')"
      "unat (m_newMemSize s) \<le> length (m_mem s) \<or> unat (m_newMemSize s) < 2 ^ 43" for r
    using that by (cases r) auto
  show ?thesis
  proof (cases "unat (m_newMemSize s) > length (m_mem s)")
    case True
    let ?g = "\<lambda>siz. unat (memoryGas ?sch) * (siz div 32) +
        siz div 32 * (siz div 32) div unat (quadCoeffDiv ?sch)"
    have le: "?g (length (m_mem s)) \<le> ?g (unat (m_newMemSize s))"
      using True by (intro gasForMem_mono) simp
    show ?thesis
    proof (cases "?g (unat (m_newMemSize s)) > 0x7FFFFFFFFFFFFFFF")
      case big: True
      then show ?thesis
        using True by (simp add: updateGas_def gasForMem_def wp_toInt63 Let_def)
    next
      case False
      define g1 g0 where "g1 = ?g (unat (m_newMemSize s))" and "g0 = ?g (length (m_mem s))"
      have g: "g0 \<le> g1" "g1 \<le> 0x7FFFFFFFFFFFFFFF"
        using le False by (simp_all add: g1_def g0_def)
      let ?d = "word_of_nat g1 - word_of_nat g0 :: u64"
      have d: "unat ?d = g1 - g0"
        using g by (simp add: unat_sub toInt63_unat word_le_nat_alt)
      have rg: "unat (m_runGas s + ?d) = unat (m_runGas s) + (g1 - g0)"
        using g run d by (subst unat_plus_no_wrap) auto
      have "m_runGas s \<le> m_runGas s + ?d" "unat (m_runGas s + ?d) \<le> unat (m_runGas s) + 0x7FFFFFFFFFFFFFFF"
        using g by (simp_all add: word_le_nat_alt rg)
      note ch = charge [OF this]
      have "\<not> 0x7FFFFFFFFFFFFFFF < unat ?d" "\<not> 0x7FFFFFFFFFFFFFFF < g1" "\<not> 0x7FFFFFFFFFFFFFFF < g0"
        using d g by auto
      then have "updateGas s = (let s1 = s\<lparr>m_runGas := m_runGas s + ?d + ?c\<rparr> in
          if m_io_gas s1 < m_runGas s1 then throwOutOfGas s1 else Ok s1)"
        using True by (simp add: updateGas_def gasForMem_def toInt63_def g1_def [symmetric]
            g0_def [symmetric] Let_def)
      moreover have "unat (m_newMemSize s) < 2 ^ 43"
        using memory_affordable [OF sch] g(2) unfolding g1_def by blast
      ultimately show ?thesis
        using ch by (intro affordable) simp_all
    qed
  next
    case False
    then show ?thesis
      using charge [of "m_runGas s"] by (intro affordable) (simp_all add: updateGas_def)
  qed
qed


lemma updateMem_wp:
  assumes mem: "mem_ok s" and sch: "meter_sane (m_schedule s)"
    and new: "unat newMem < 2 ^ 63 + 32"
    and copy: "unat (m_copyMemSize s) \<le> 0x7FFFFFFFFFFFFFFF"
    and run: "unat (m_runGas s) < 2 ^ 33 \<or> unat (m_runGas s) < 2 ^ 63 \<and> m_copyMemSize s = 0"
  shows "wp (updateMem newMem s) (mem_grown (unat newMem) s) (\<lambda>e s'. e = OutOfGas \<and> only_metering s s')"
proof -
  define nm where "nm = ((newMem + 31) div 32 * 32 :: u64)"
  let ?s = "s\<lparr>m_newMemSize := nm\<rparr>"
  have sum: "unat (newMem + 31) = unat newMem + 31"
    using new by (subst unat_plus_no_wrap) simp_all
  have nm: "unat nm = (unat newMem + 31) div 32 * 32"
    using new by (simp add: nm_def unat_word_ariths(2) unat_div sum)
  have "unat newMem \<le> (unat newMem + 31) div 32 * 32" "(unat newMem + 31) div 32 * 32 \<le> unat newMem + 31"
    by presburger+
  then have nm': "unat newMem \<le> unat nm" "32 dvd unat nm" "unat nm < 2 ^ 63 + 64"
    using new unfolding nm by auto
  have "wp (updateGas ?s)
      (\<lambda>s'. \<exists>rg. s' = ?s\<lparr>m_runGas := rg\<rparr> \<and> m_runGas ?s \<le> rg \<and> rg \<le> m_io_gas ?s \<and>
        (unat (m_newMemSize ?s) \<le> length (m_mem ?s) \<or> unat (m_newMemSize ?s) < 2 ^ 43))
      (\<lambda>e s'. e = OutOfGas \<and> only_metering ?s s')"
    using mem sch copy run nm'(3) by (intro updateGas_wp) (simp_all add: mem_ok_def)
  then show ?thesis
    unfolding updateMem_def wp_simps nm_def [symmetric]
  proof (rule wp_mono)
    fix s' assume "\<exists>rg. s' = ?s\<lparr>m_runGas := rg\<rparr> \<and> m_runGas ?s \<le> rg \<and> rg \<le> m_io_gas ?s \<and>
        (unat (m_newMemSize ?s) \<le> length (m_mem ?s) \<or> unat (m_newMemSize ?s) < 2 ^ 43)"
    then obtain rg where s': "s' = ?s\<lparr>m_runGas := rg\<rparr>" "m_runGas s \<le> rg" "rg \<le> m_io_gas s"
      and small: "unat nm \<le> length (m_mem s) \<or> unat nm < 2 ^ 43"
      by auto
    define k where "k = unat nm - length (m_mem s)"
    have eq: "(if unat (m_newMemSize s') > length (m_mem s')
        then s'\<lparr>m_mem := m_mem s' @ replicate (unat (m_newMemSize s') - length (m_mem s')) 0\<rparr> else s') =
      s\<lparr>m_newMemSize := nm, m_runGas := rg, m_mem := m_mem s @ replicate k 0\<rparr>"
      by (cases s) (simp add: s'(1) k_def)
    have "length (m_mem s) + k = unat nm \<or> length (m_mem s) + k = length (m_mem s) \<and> unat nm \<le> length (m_mem s)"
      unfolding k_def by linarith
    then have "unat newMem \<le> length (m_mem s) + k" "32 dvd length (m_mem s) + k"
      "length (m_mem s) + k < 2 ^ 43"
      using nm' mem small unfolding mem_ok_def by - (linarith, metis, linarith)
    then show "mem_grown (unat newMem) s (if unat (m_newMemSize s') > length (m_mem s')
        then s'\<lparr>m_mem := m_mem s' @ replicate (unat (m_newMemSize s') - length (m_mem s')) 0\<rparr> else s')"
      unfolding eq mem_grown_def using s'(2,3) by blast
  qed (auto dest: only_metering_new)
qed

end
