(* ===== verification/LegacyVM_Safety.thy ===== *)
theory LegacyVM_Safety
  imports LegacyVM_Logic
begin

text \<open>
  Invariants of the interpreter, preserved by every opcode: the stack pointers stay inside the
  array, the program counter stays on an instruction of the extended code, the memory is a whole
  number of words, and the gas never grows. From them: no run of the interpreter reads or writes
  outside an array, and every run ends.
\<close>

section \<open>Instruction boundaries\<close>

definition width :: "Instruction \<Rightarrow> nat" where
  "width i = (case i of PUSH n \<Rightarrow> Suc n | _ \<Rightarrow> 1)"

text \<open>The positions reached by reading the code instruction by instruction from its start.\<close>

inductive start :: "bytes \<Rightarrow> nat \<Rightarrow> bool" for code :: bytes where
  zero: "start code 0"
| step: "start code i \<Longrightarrow> i < length code \<Longrightarrow> start code (i + width (decode (code ! i)))"

lemma width_le: "width (decode b) \<le> 33"
  using proper_decode [of b] by (auto simp: width_def split: Instruction.split)

section \<open>Invariants\<close>

text \<open>
  The operations of the host change the sub-state and what lies behind the face, never the call's
  own data; buffers are smaller than the address space.
\<close>

definition same_face :: "'w ExtVMFace \<Rightarrow> 'w ExtVMFace \<Rightarrow> bool" where
  "same_face e e' \<longleftrightarrow> e' = e\<lparr>sub := sub e', world := world e'\<rparr>"

lemma same_face_refl [simp]: "same_face e e"
  by (simp add: same_face_def)

lemma same_face_sub [simp]: "same_face (e\<lparr>sub := x\<rparr>) e' \<longleftrightarrow> same_face e e'"
  by (simp add: same_face_def)

lemma same_face_trans: "same_face e e' \<Longrightarrow> same_face e' e'' \<Longrightarrow> same_face e e''"
  by (cases e; cases e'; cases e'') (simp add: same_face_def)

text \<open>
  The face and what lies behind it have an invariant of their own, \<open>ok\<close>, that the host relies on and
  keeps; it does not depend on the sub-state, which the interpreter itself changes. The second
  component says whether the host promises not to throw.
\<close>

type_synonym 'w contract = "('w ExtVMFace \<Rightarrow> bool) \<times> bool"

definition holds :: "'w contract \<Rightarrow> 'w ExtVMFace \<Rightarrow> bool" where
  "holds ok e \<longleftrightarrow> fst ok (e\<lparr>sub := SubState_clear\<rparr>)"

lemma holds_sub [simp]: "holds ok (e\<lparr>sub := x\<rparr>) \<longleftrightarrow> holds ok e"
  by (simp add: holds_def)

definition keeps :: "'w contract \<Rightarrow> 'w ExtVMFace \<Rightarrow> 'w ExtVMFace \<Rightarrow> bool" where
  "keeps ok e e' \<longleftrightarrow> same_face e e' \<and> (holds ok e \<longrightarrow> holds ok e')"

lemma keeps_refl [simp]: "keeps ok e e"
  by (simp add: keeps_def)

lemma keeps_sub [simp]: "keeps ok (e\<lparr>sub := x\<rparr>) e' \<longleftrightarrow> keeps ok e e'"
  by (simp add: keeps_def)

lemma same_face_sub_right [simp]: "same_face e (e'\<lparr>sub := x\<rparr>) \<longleftrightarrow> same_face e e'"
  by (cases e; cases e') (auto simp: same_face_def)

lemma keeps_sub_right [simp]: "keeps ok e (e'\<lparr>sub := x\<rparr>) \<longleftrightarrow> keeps ok e e'"
  by (simp add: keeps_def)

lemma keeps_trans: "keeps ok e e' \<Longrightarrow> keeps ok e' e'' \<Longrightarrow> keeps ok e e''"
  by (auto simp: keeps_def intro: same_face_trans)

lemma keeps_world: "keeps ok e e' \<Longrightarrow> holds ok e \<Longrightarrow> holds ok e'"
  by (simp add: keeps_def)

definition face_ok :: "'w ExtVMFace \<Rightarrow> bool" where
  "face_ok e \<longleftrightarrow> length (ext_data e) < 2 ^ 64 \<and> length (ext_code e) < 2 ^ 64"

lemma same_face_ok: "same_face e e' \<Longrightarrow> face_ok e' = face_ok e"
  by (cases e; cases e') (simp add: same_face_def face_ok_def)

text \<open>The code has 33 zero bytes behind it, and the recorded destinations are \<^verbatim>\<open>JUMPDEST\<close>s in it.\<close>

definition code_ok :: "bytes \<Rightarrow> u64 list \<Rightarrow> bool" where
  "code_ok code dests \<longleftrightarrow> 33 \<le> length code \<and> length code < 2 ^ 63 \<and>
     (\<forall>i. length code - 33 \<le> i \<longrightarrow> i < length code \<longrightarrow> code ! i = 0) \<and>
     list_all (\<lambda>d. unat d + 33 < length code \<and> start code (unat d) \<and>
                   decode (code ! unat d) = JUMPDEST) dests"

definition pc_ok :: "bytes \<Rightarrow> u64 \<Rightarrow> bool" where
  "pc_ok code pc \<longleftrightarrow> unat pc < length code \<and> start code (unat pc)"

definition vm_inv :: "'w vm \<Rightarrow> bool" where
  "vm_inv s \<longleftrightarrow> code_ok (m_code s) (m_jumpDests s) \<and> pc_ok (m_code s) (m_PC s) \<and> m_SPP s \<le> 1024 \<and>
     mem_ok s \<and> sane_schedule (m_schedule s) \<and> face_ok (m_ext s) \<and> length (m_returnData s) < 2 ^ 64 \<and>
     m_output s = []"

text \<open>After a fetch: the operands are on the stack and the room for the results is there.\<close>

definition fetched :: "'w vm \<Rightarrow> bool" where
  "fetched s \<longleftrightarrow> vm_inv s \<and> m_OP s = decode (m_code s ! unat (m_PC s)) \<and>
     m_SP s + args (instructionInfo (m_OP s)) \<le> 1024 \<and>
     m_SPP s + ret (instructionInfo (m_OP s)) = m_SP s + args (instructionInfo (m_OP s)) \<and>
     m_runGas s = ucast (tierGas (m_schedule s) (gasPriceTier (instructionInfo (m_OP s)))) \<and>
     m_copyMemSize s = 0"

text \<open>What a case does to a fetched state.\<close>

definition same_code :: "'w contract \<Rightarrow> 'w vm \<Rightarrow> 'w vm \<Rightarrow> bool" where
  "same_code ok s s' \<longleftrightarrow> m_code s' = m_code s \<and> m_jumpDests s' = m_jumpDests s \<and>
     m_schedule s' = m_schedule s \<and> keeps ok (m_ext s) (m_ext s')"

definition good :: "'w contract \<Rightarrow> 'w vm \<Rightarrow> 'w vm \<Rightarrow> bool" where
  "good ok s s' \<longleftrightarrow> same_code ok s s' \<and>
     (case m_bounce s' of
        Done \<Rightarrow> m_io_gas s' \<le> m_io_gas s \<and> length (m_output s') < 2 ^ 43
      | InterpretCases \<Rightarrow> m_SPP s' = m_SPP s \<and> mem_ok s' \<and> pc_ok (m_code s) (m_PC s') \<and>
          length (m_returnData s') < 2 ^ 64 \<and> m_output s' = m_output s \<and> m_io_gas s' < m_io_gas s
      | CaseCreate \<Rightarrow> m_bounce s = InterpretCases \<and> s' = s\<lparr>m_bounce := CaseCreate\<rparr> \<and> (m_OP s = CREATE \<or> m_OP s = CREATE2)
      | CaseCall \<Rightarrow> m_bounce s = InterpretCases \<and> s' = s\<lparr>m_bounce := CaseCall\<rparr> \<and>
          (m_OP s = CALL \<or> m_OP s = CALLCODE \<or> m_OP s = DELEGATECALL \<or> m_OP s = STATICCALL)
      | InitEntry \<Rightarrow> False)"

definition bad :: "'w contract \<Rightarrow> 'w vm \<Rightarrow> vm_exception \<Rightarrow> 'w vm \<Rightarrow> bool" where
  "bad ok s e s' \<longleftrightarrow> e \<noteq> UndefinedBehaviour \<and> (e = HostException \<longrightarrow> \<not> snd ok) \<and> m_io_gas s' \<le> m_io_gas s \<and>
     (case e of RevertInstruction out \<Rightarrow> length out < 2 ^ 43 | _ \<Rightarrow> True) \<and>
     keeps ok (m_ext s) (m_ext s')"

section \<open>Consequences of a fetch\<close>

lemma fetched_vm_inv: "fetched s \<Longrightarrow> vm_inv s"
  by (simp add: fetched_def)

lemma pc_step:
  assumes "vm_inv s" and "m_OP s = decode (m_code s ! unat (m_PC s))" and "m_OP s \<noteq> STOP"
    and "k = width (m_OP s)"
  shows "pc_ok (m_code s) (m_PC s + word_of_nat k)"
proof -
  let ?c = "m_code s" and ?pc = "unat (m_PC s)"
  have c: "33 \<le> length ?c" "length ?c < 2 ^ 63" "?pc < length ?c" "start ?c ?pc"
    using assms(1) by (auto simp: vm_inv_def code_ok_def pc_ok_def)
  have "\<not> length ?c - 33 \<le> ?pc"
  proof
    assume "length ?c - 33 \<le> ?pc"
    then have "?c ! ?pc = 0"
      using assms(1) c(3) by (auto simp: vm_inv_def code_ok_def)
    with assms(2,3) show False by simp
  qed
  then have lt: "?pc + 33 < length ?c" by linarith
  have k: "k \<le> 33"
    using assms(2,4) width_le by simp
  then have "unat (word_of_nat k :: u64) = k"
    by (simp add: unat_of_nat)
  then have pc: "unat (m_PC s + word_of_nat k) = ?pc + k"
    using lt c(2) k by (subst unat_plus_no_wrap) auto
  moreover have "start ?c (?pc + k)"
    using start.step [OF c(4,3)] assms(2,4) by simp
  ultimately show ?thesis
    using lt k by (simp add: pc_ok_def)
qed

lemma pc_next: "fetched s \<Longrightarrow> m_OP s \<noteq> STOP \<Longrightarrow> width (m_OP s) = 1 \<Longrightarrow> pc_ok (m_code s) (m_PC s + 1)"
  using pc_step [of s 1] by (simp add: fetched_def)

lemma tierGas_bounds:
  assumes "sane_schedule sch"
  shows "tierGas sch Base = 2" "tierGas sch VeryLow = 3" "tierGas sch Low = 5" "tierGas sch Mid = 8"
    "tierGas sch High = 10" "tierGas sch Zero = 0" "tierGas sch Special = 0"
  using assms by (simp_all add: tierGas_def sane_schedule_def)

lemma gas_less: "0 < g \<Longrightarrow> g \<le> (io :: u64) \<Longrightarrow> io - g < io"
  by (simp add: word_less_nat_alt unat_sub word_le_nat_alt)

lemma gas_less_1: "(io :: u64) \<noteq> 0 \<Longrightarrow> io - 1 < io"
  by (rule gas_less) (simp_all add: word_le_nat_alt Suc_le_eq unat_gt_0)

lemma gas_le: "g \<le> (io :: u64) \<Longrightarrow> io - g \<le> io"
  by (simp add: word_le_sub1 word_sub_le)

section \<open>Cases without memory\<close>

lemma bad_refl [simp]: "bad ok s e s \<longleftrightarrow> e \<noteq> UndefinedBehaviour \<and> (e = HostException \<longrightarrow> \<not> snd ok) \<and>
    (case e of RevertInstruction out \<Rightarrow> length out < 2 ^ 43 | _ \<Rightarrow> True)"
  by (simp add: bad_def)

lemma pureOp_good:
  assumes f: "fetched s" "m_bounce s = InterpretCases" and n: "m_SP s + n \<le> 1024" "m_SPP s < 1024"
    and gas: "0 < m_runGas s" and pc: "pc_ok (m_code s) (m_PC s + 1)"
  shows "wp (pureOp n f s) (good ok s) (bad ok s)"
  using assms fetched_vm_inv [OF f(1)]
  by (simp add: pureOp_def good_def same_code_def mem_ok_def vm_inv_def gas_less not_less)

lemma pushOp_good:
  assumes f: "vm_inv s" "m_bounce s = InterpretCases" and n: "m_SPP s < 1024"
    and gas: "0 < m_runGas s" and pc: "pc_ok (m_code s) (m_PC s + 1)"
  shows "wp (pushOp f s) (good ok s) (bad ok s)"
  using assms
  by (simp add: pushOp_def good_def same_code_def mem_ok_def vm_inv_def gas_less not_less)

lemmas metric_simps = instructionInfo_def metric_def width_def

lemma pure_cases:
  assumes "fetched s" "m_bounce s = InterpretCases"
  shows "m_OP s = ADD \<Longrightarrow> wp (op_ADD s) (good ok s) (bad ok s)"
    "m_OP s = MUL \<Longrightarrow> wp (op_MUL s) (good ok s) (bad ok s)"
    "m_OP s = SUB \<Longrightarrow> wp (op_SUB s) (good ok s) (bad ok s)"
    "m_OP s = DIV \<Longrightarrow> wp (op_DIV s) (good ok s) (bad ok s)"
    "m_OP s = MOD \<Longrightarrow> wp (op_MOD s) (good ok s) (bad ok s)"
    "m_OP s = SMOD \<Longrightarrow> wp (op_SMOD s) (good ok s) (bad ok s)"
    "m_OP s = NOTop \<Longrightarrow> wp (op_NOT s) (good ok s) (bad ok s)"
    "m_OP s = LT \<Longrightarrow> wp (op_LT s) (good ok s) (bad ok s)"
    "m_OP s = GT \<Longrightarrow> wp (op_GT s) (good ok s) (bad ok s)"
    "m_OP s = SLT \<Longrightarrow> wp (op_SLT s) (good ok s) (bad ok s)"
    "m_OP s = SGT \<Longrightarrow> wp (op_SGT s) (good ok s) (bad ok s)"
    "m_OP s = EQ \<Longrightarrow> wp (op_EQ s) (good ok s) (bad ok s)"
    "m_OP s = ISZERO \<Longrightarrow> wp (op_ISZERO s) (good ok s) (bad ok s)"
    "m_OP s = ANDop \<Longrightarrow> wp (op_AND s) (good ok s) (bad ok s)"
    "m_OP s = ORop \<Longrightarrow> wp (op_OR s) (good ok s) (bad ok s)"
    "m_OP s = XORop \<Longrightarrow> wp (op_XOR s) (good ok s) (bad ok s)"
    "m_OP s = BYTE \<Longrightarrow> wp (op_BYTE s) (good ok s) (bad ok s)"
    "m_OP s = ADDMOD \<Longrightarrow> wp (op_ADDMOD s) (good ok s) (bad ok s)"
    "m_OP s = MULMOD \<Longrightarrow> wp (op_MULMOD s) (good ok s) (bad ok s)"
  using assms pc_next [OF assms(1)] tierGas_bounds [of "m_schedule s"]
  unfolding op_ADD_def op_MUL_def op_SUB_def op_DIV_def op_MOD_def op_SMOD_def op_NOT_def op_LT_def
    op_GT_def op_SLT_def op_SGT_def op_EQ_def op_ISZERO_def op_AND_def op_OR_def op_XOR_def
    op_BYTE_def op_ADDMOD_def op_MULMOD_def
  by (intro pureOp_good; simp add: fetched_def vm_inv_def metric_simps)+

lemma shift_cases:
  assumes "fetched s" "m_bounce s = InterpretCases"
  shows "m_OP s = SHL \<Longrightarrow> wp (op_SHL s) (good ok s) (bad ok s)"
    "m_OP s = SHR \<Longrightarrow> wp (op_SHR s) (good ok s) (bad ok s)"
    "m_OP s = SAR \<Longrightarrow> wp (op_SAR s) (good ok s) (bad ok s)"
  using assms pc_next [OF assms(1)] tierGas_bounds [of "m_schedule s"]
  unfolding op_SHL_def op_SHR_def op_SAR_def wp_if
  by (auto intro!: pureOp_good simp: fetched_def vm_inv_def metric_simps)

lemma push_cases:
  assumes "fetched s" "m_bounce s = InterpretCases"
  shows "m_OP s = ADDRESS \<Longrightarrow> wp (op_ADDRESS s) (good ok s) (bad ok s)"
    "m_OP s = ORIGIN \<Longrightarrow> wp (op_ORIGIN s) (good ok s) (bad ok s)"
    "m_OP s = CALLER \<Longrightarrow> wp (op_CALLER s) (good ok s) (bad ok s)"
    "m_OP s = CALLVALUE \<Longrightarrow> wp (op_CALLVALUE s) (good ok s) (bad ok s)"
    "m_OP s = CALLDATASIZE \<Longrightarrow> wp (op_CALLDATASIZE s) (good ok s) (bad ok s)"
    "m_OP s = CODESIZE \<Longrightarrow> wp (op_CODESIZE s) (good ok s) (bad ok s)"
    "m_OP s = GASPRICE \<Longrightarrow> wp (op_GASPRICE s) (good ok s) (bad ok s)"
    "m_OP s = COINBASE \<Longrightarrow> wp (op_COINBASE s) (good ok s) (bad ok s)"
    "m_OP s = TIMESTAMP \<Longrightarrow> wp (op_TIMESTAMP s) (good ok s) (bad ok s)"
    "m_OP s = NUMBER \<Longrightarrow> wp (op_NUMBER s) (good ok s) (bad ok s)"
    "m_OP s = DIFFICULTY \<Longrightarrow> wp (op_DIFFICULTY s) (good ok s) (bad ok s)"
    "m_OP s = GASLIMIT \<Longrightarrow> wp (op_GASLIMIT s) (good ok s) (bad ok s)"
    "m_OP s = PC \<Longrightarrow> wp (op_PC s) (good ok s) (bad ok s)"
    "m_OP s = MSIZE \<Longrightarrow> wp (op_MSIZE s) (good ok s) (bad ok s)"
    "m_OP s = GAS \<Longrightarrow> wp (op_GAS s) (good ok s) (bad ok s)"
  using assms pc_next [OF assms(1)] tierGas_bounds [of "m_schedule s"]
  unfolding op_ADDRESS_def op_ORIGIN_def op_CALLER_def op_CALLVALUE_def op_CALLDATASIZE_def
    op_CODESIZE_def op_GASPRICE_def op_COINBASE_def op_TIMESTAMP_def op_NUMBER_def op_DIFFICULTY_def
    op_GASLIMIT_def op_PC_def op_MSIZE_def op_GAS_def
  by (intro pushOp_good; simp add: fetched_def vm_inv_def metric_simps)+

lemma RETURNDATASIZE_case:
  assumes "fetched s" "m_bounce s = InterpretCases" "m_OP s = RETURNDATASIZE"
  shows "wp (op_RETURNDATASIZE s) (good ok s) (bad ok s)"
  using assms pc_next [OF assms(1)] tierGas_bounds [of "m_schedule s"]
  unfolding op_RETURNDATASIZE_def wp_if
  by (auto intro!: pushOp_good simp: fetched_def vm_inv_def metric_simps)

text \<open>Cases that set the running gas themselves from a schedule entry.\<close>

lemma charged_push:
  assumes f: "fetched s" "m_bounce s = InterpretCases" and n: "m_SPP s < 1024"
    and gas: "0 < g" and pc: "pc_ok (m_code s) (m_PC s + 1)"
  shows "wp (pushOp f (s\<lparr>m_runGas := g\<rparr>)) (good ok s) (bad ok s)"
  using assms fetched_vm_inv [OF f(1)]
  by (simp add: pushOp_def good_def bad_def same_code_def mem_ok_def vm_inv_def gas_less not_less)

lemma ucast_pos [simp]: "(0 :: u64) < ucast (g :: u32) \<longleftrightarrow> 0 < g"
  by (simp add: word_less_nat_alt)

lemma charged_cases:
  assumes "fetched s" "m_bounce s = InterpretCases"
  shows "m_OP s = BALANCE \<Longrightarrow> wp (op_BALANCE H s) (good ok s) (bad ok s)"
    "m_OP s = EXTCODESIZE \<Longrightarrow> wp (op_EXTCODESIZE H s) (good ok s) (bad ok s)"
    "m_OP s = SLOAD \<Longrightarrow> wp (op_SLOAD H s) (good ok s) (bad ok s)"
  using assms pc_next [OF assms(1)] unfolding op_BALANCE_def op_EXTCODESIZE_def
    op_SLOAD_def
  by (auto intro!: charged_push simp: fetched_def vm_inv_def metric_simps sane_schedule_def)

lemma stack_cases:
  assumes "fetched s" "m_bounce s = InterpretCases"
  shows "m_OP s = SDIV \<Longrightarrow> wp (op_SDIV s) (good ok s) (bad ok s)"
    "m_OP s = SIGNEXTEND \<Longrightarrow> wp (op_SIGNEXTEND s) (good ok s) (bad ok s)"
    "m_OP s = CALLDATALOAD \<Longrightarrow> wp (op_CALLDATALOAD s) (good ok s) (bad ok s)"
    "m_OP s = POP \<Longrightarrow> wp (op_POP s) (good ok s) (bad ok s)"
    "m_OP s = JUMPDEST \<Longrightarrow> wp (op_JUMPDEST s) (good ok s) (bad ok s)"
  using assms pc_next [OF assms(1)] tierGas_bounds [of "m_schedule s"]
  unfolding op_SDIV_def op_SIGNEXTEND_def op_CALLDATALOAD_def op_POP_def op_JUMPDEST_def
  by (simp_all add: fetched_def vm_inv_def metric_simps good_def bad_def same_code_def mem_ok_def
      gas_less gas_less_1 not_less)

lemma fetched_proper: "fetched s \<Longrightarrow> proper (m_OP s)"
  using proper_decode by (simp add: fetched_def)

lemma DUP_SWAP_cases:
  assumes f: "fetched s" and b: "m_bounce s = InterpretCases"
  shows "m_OP s = DUP n \<Longrightarrow> wp (op_DUP n s) (good ok s) (bad ok s)"
    "m_OP s = SWAP n \<Longrightarrow> wp (op_SWAP n s) (good ok s) (bad ok s)"
proof -
  have sane: "sane_schedule (m_schedule s)" and mem: "mem_ok s" "length (m_returnData s) < 2 ^ 64"
    using f by (auto simp: fetched_def vm_inv_def)
  {
    assume op: "m_OP s = DUP n"
    then have "pc_ok (m_code s) (m_PC s + 1)"
      using pc_next [OF f] by (simp add: width_def)
    moreover have "m_SP s + n \<le> 1024" "m_SPP s < 1024" "m_runGas s = 3"
      using f fetched_proper [OF f] op sane by (auto simp: fetched_def metric_simps tierGas_bounds)
    ultimately show "wp (op_DUP n s) (good ok s) (bad ok s)"
      using b mem by (simp add: op_DUP_def good_def same_code_def mem_ok_def gas_less not_less)
  next
    assume op: "m_OP s = SWAP n"
    then have "pc_ok (m_code s) (m_PC s + 1)"
      using pc_next [OF f] by (simp add: width_def)
    moreover have "m_SP s + (n + 1) \<le> 1024" "m_runGas s = 3"
      using f op sane by (auto simp: fetched_def metric_simps tierGas_bounds)
    ultimately show "wp (op_SWAP n s) (good ok s) (bad ok s)"
      using b mem by (simp add: op_SWAP_def good_def same_code_def mem_ok_def gas_less not_less)
  }
qed

lemma STOP_case:
  assumes "fetched s" "m_bounce s = InterpretCases" "m_OP s = STOP"
  shows "wp (op_STOP s) (good ok s) (bad ok s)"
  using assms unfolding op_STOP_def
  by (simp add: fetched_def vm_inv_def metric_simps good_def bad_def same_code_def gas_le not_less)

lemma calling_cases:
  assumes "fetched s" "m_bounce s = InterpretCases"
  shows "m_OP s = CREATE \<Longrightarrow> wp (op_CREATE s) (good ok s) (bad ok s)"
    "m_OP s = CREATE2 \<Longrightarrow> wp (op_CREATE2 s) (good ok s) (bad ok s)"
    "m_OP s \<in> {CALL, CALLCODE, DELEGATECALL, STATICCALL} \<Longrightarrow> wp (op_CALLs s) (good ok s) (bad ok s)"
  using assms unfolding op_CREATE_def op_CREATE2_def op_CALLs_def
  by (auto simp: fetched_def metric_simps good_def bad_def same_code_def)

end
