(* ===== verification/LegacyVM_Arith.thy ===== *)
theory LegacyVM_Arith
  imports LegacyVM "HOL-Library.Signed_Division"
begin

text \<open>
  The arithmetic of the opcodes against its specification: signed numbers are two's complement,
  quotients are rounded towards zero, shifts and extensions are those of the word, modular
  arithmetic is exact, and square-and-multiply computes powers.
\<close>

unbundle bit_operations_syntax

section \<open>Powers\<close>

lemma exp256_loop_power: "exp256_loop b e r = r * b ^ unat e"
proof (induction b e r rule: exp256_loop.induct)
  case (1 b e r)
  show ?case
  proof (cases "e = 0")
    case True
    then show ?thesis by (simp add: exp256_loop.simps [of b 0 r])
  next
    case False
    have half: "unat (drop_bit 1 e) = unat e div 2"
      by (simp add: drop_bit_eq_div unat_div)
    have odd: "e AND 1 \<noteq> 0 \<longleftrightarrow> odd (unat e)"
      by (simp add: and_one_eq mod_2_eq_odd flip: bit_0) (simp add: bit_unsigned_iff)
    have "b ^ unat e = (b * b) ^ (unat e div 2) * (if odd (unat e) then b else 1)"
      by (cases "odd (unat e)") (auto elim!: oddE evenE simp: power_mult power2_eq_square [symmetric] power_add)
    moreover have "exp256_loop b e r =
        (if e AND 1 \<noteq> 0 then r * b else r) * (b * b) ^ (unat e div 2)"
      using False "1.IH" [OF False] by (subst exp256_loop.simps) (simp only: half if_True not_False_eq_True)
    ultimately show ?thesis
      by (simp add: odd mult.assoc mult.commute mult.left_commute)
  qed
qed

text \<open>
  C32. \<^verbatim>\<open>exp256\<close>, which \<^verbatim>\<open>EXP\<close> uses, is exponentiation modulo \<open>2\<^sup>256\<close> for every base and exponent.
\<close>

theorem exp256_spec: "exp256 b e = b ^ unat e \<and> unat (exp256 b e) = unat b ^ unat e mod 2 ^ 256"
proof -
  have "unat (b ^ n) = unat b ^ n mod 2 ^ 256" for n
    by (induction n) (simp_all add: unat_word_ariths mod_mult_right_eq)
  then show ?thesis
    by (simp add: exp256_def exp256_loop_power)
qed

section \<open>Signed division\<close>

lemma u2s_sint: "u2s x = sint x"
proof -
  have "take_bit 256 (uint x) = uint x"
    using uint_bounded [of x] by (simp add: take_bit_int_eq_self)
  then show ?thesis
    by (simp add: u2s_def sint_uint signed_take_bit_eq_take_bit_minus bit_uint_iff)
qed

lemma s2u_word: "s2u i = word_of_int i"
proof -
  have "(word_of_int (2 ^ 256 + i) :: u256) = word_of_int i"
    by (simp add: word_of_int_eq_iff take_bit_eq_mod)
  then show ?thesis by (simp add: s2u_def)
qed

lemma workaround_sdiv: "divWorkaround a b = a sdiv b" "modWorkaround a b = a smod b"
  by (simp_all add: divWorkaround_def signed_divide_int_def modWorkaround_def signed_modulo_int_def)

lemma sdiv_word_eq: "y \<noteq> 0 \<Longrightarrow> sdiv_word x y = word_of_int (sint x sdiv sint y)"
  by (simp add: sdiv_word_def s2u_word u2s_sint workaround_sdiv)

lemma smod_word_eq: "y \<noteq> 0 \<Longrightarrow> smod_word x y = word_of_int (sint x smod sint y)"
  by (simp add: smod_word_def s2u_word u2s_sint workaround_sdiv)

lemma smod_int_less: "b \<noteq> 0 \<Longrightarrow> \<bar>a smod b\<bar> < \<bar>b :: int\<bar>"
  by (simp add: signed_modulo_int_def abs_mult abs_sgn_eq)

lemma smod_int_le: "\<bar>a smod b\<bar> \<le> \<bar>a :: int\<bar>"
  by (cases "b = 0") (simp_all add: signed_modulo_int_def abs_mult abs_sgn_eq zmod_le_nonneg_dividend)

lemma sint_smod_word:
  fixes x y :: u256
  assumes "y \<noteq> 0"
  shows "sint (smod_word x y) = sint x smod sint y"
proof -
  have x: "- (2 ^ 255) \<le> sint x" "sint x < 2 ^ 255"
    using sint_range_size [of x] by (simp_all add: word_size)
  have y: "- (2 ^ 255) \<le> sint y" "sint y < 2 ^ 255"
    using sint_range_size [of y] by (simp_all add: word_size)
  have nz: "sint y \<noteq> 0"
    using assms signed_eq_0_iff by blast
  have "\<bar>sint x smod sint y\<bar> < \<bar>sint y\<bar>" "\<bar>sint y\<bar> \<le> 2 ^ 255"
    using smod_int_less [OF nz] y by auto
  then have "- (2 ^ 255) \<le> sint x smod sint y \<and> sint x smod sint y < 2 ^ 255"
    by linarith
  then have "signed_take_bit 255 (sint x smod sint y) = sint x smod sint y"
    by (intro signed_take_bit_int_eq_self) simp_all
  then show ?thesis
    using assms by (simp add: smod_word_eq signed_of_int)
qed



section \<open>Shifts and sign extension\<close>

lemma unat_ucast_u32: "n < 2 ^ 32 \<Longrightarrow> unat (ucast (n :: u256) :: u32) = unat n"
  by (simp add: unsigned_ucast_eq word_less_nat_alt take_bit_nat_eq_self_iff)

lemma hibit: "x AND push_bit k 1 \<noteq> 0 \<longleftrightarrow> bit (x :: u256) k"
  by (simp add: push_bit_eq_mult and_exp_eq_0_iff_not_bit)

lemma sar_word_eq: "sar_word n x = signed_drop_bit (unat n) x"
proof (cases "n \<ge> 256")
  case True
  then have "256 \<le> unat n" by (simp add: word_le_nat_alt)
  then show ?thesis
    unfolding sar_word_def Let_def hibit using True
    by (intro bit_word_eqI) (auto simp: bit_simps min_def not_le)
next
  case False
  then have "unat n < 256" by (simp add: word_le_nat_alt)
  moreover have "unat (ucast n :: u32) = unat n"
    using False by (intro unat_ucast_u32) (simp add: word_less_nat_alt word_le_nat_alt)
  ultimately show ?thesis
    unfolding sar_word_def Let_def hibit using False
    by (intro bit_word_eqI) (auto simp: bit_simps min_def not_le dest: bit_imp_le_length)
qed

lemma signextend_word_eq:
  assumes "k < 31"
  shows "signextend_word k x = signed_take_bit (8 * unat k + 7) x"
proof -
  have k: "unat k < 31" using assms by (simp add: word_less_nat_alt)
  have u: "unat (ucast k :: u32) = unat k"
    using assms by (intro unat_ucast_u32) (simp add: word_less_nat_alt)
  have t: "unat (ucast k * 8 + 7 :: u32) = 8 * unat k + 7"
    using k by (simp add: unat_word_ariths u)
  show ?thesis
    unfolding signextend_word_def t Let_def using assms k
    by (intro bit_word_eqI)
      (auto simp: bit_simps min_def not_le mask_eq_exp_minus_1 [symmetric] push_bit_eq_mult not_less)
qed

lemma nth_toBigEndian: "i < n \<Longrightarrow> toBigEndian n v ! i = word_of_nat (v div 256 ^ (n - 1 - i) mod 256)"
proof (induction n arbitrary: v)
  case (Suc n)
  show ?case
  proof (cases "i < n")
    case True
    then have "Suc (n - 1 - i) = n - i" by simp
    then have "v div 256 div 256 ^ (n - 1 - i) = v div 256 ^ (n - i)"
      by (metis div_mult2_eq power_Suc)
    with True Suc.IH [OF True] show ?thesis
      by (simp add: nth_append)
  next
    case False
    then have "i = n" using Suc.prems by simp
    then show ?thesis by (simp add: nth_append)
  qed
qed simp

lemma byte_word_eq:
  "byte_word i x = (if unat i < 32 then ucast (toBigEndian 32 (unat x) ! unat i) else 0)"
proof (cases "i < 32")
  case True
  then have i: "unat i < 32" by (simp add: word_less_nat_alt)
  have "unat (8 * (31 - i)) = 8 * (31 - unat i)"
    using i by (simp add: unat_word_ariths unat_sub word_le_nat_alt)
  moreover have "8 * (31 - i) < 2 ^ 32"
    using i calculation by (simp add: word_less_nat_alt)
  ultimately have sh: "unat (ucast (8 * (31 - i)) :: u32) = 8 * (31 - unat i)"
    by (simp add: unat_ucast_u32)
  have ff: "(0xff :: u256) = mask 8"
    by (simp add: mask_eq_exp_minus_1)
  have "byte_word i x = take_bit 8 (drop_bit (8 * (31 - unat i)) x)"
    unfolding byte_word_def sh ff take_bit_eq_mask using True by simp
  then have "unat (byte_word i x) = unat x div 2 ^ (8 * (31 - unat i)) mod 256"
    using unsigned_less [of x, where 'a = nat]
    by (simp only: unsigned_take_bit_eq unsigned_drop_bit_eq) (simp add: drop_bit_eq_div take_bit_eq_mod)
  also have "\<dots> = unat x div 256 ^ (31 - unat i) mod 256"
    by (simp add: power_mult)
  also have "\<dots> = unat (ucast (toBigEndian 32 (unat x) ! unat i) :: u256)"
    using i by (simp add: nth_toBigEndian unsigned_ucast_eq unat_of_nat take_bit_eq_mod)
  finally show ?thesis
    using i by (simp add: word_unat_eq_iff)
next
  case False
  then show ?thesis by (simp add: byte_word_def word_less_nat_alt)
qed

lemma unat_shift_amount: "n < 256 \<Longrightarrow> unat (ucast (n :: u256) :: u32) = unat n"
  by (intro unat_ucast_u32) (simp add: word_less_nat_alt)

lemma shl_word_eq: "shl_word n x = x * 2 ^ unat n"
proof (cases "n < 256")
  case True
  then show ?thesis
    by (auto simp: shl_word_def unat_shift_amount push_bit_eq_mult)
next
  case False
  then have "256 \<le> unat n" by (simp add: word_less_nat_alt)
  then have z: "(2 :: u256) ^ unat n = 0" by (simp add: exp_eq_zero_iff)
  show ?thesis using False by (simp only: z) (simp add: shl_word_def)
qed

lemma unat_shr_word: "unat (shr_word n x) = unat x div 2 ^ unat n"
proof (cases "n < 256")
  case True
  then have "shr_word n x = drop_bit (unat n) x"
    by (simp add: shr_word_def unat_shift_amount)
  then have "unat (shr_word n x) = drop_bit (unat n) (take_bit 256 (unat x))"
    by (simp only: unsigned_drop_bit_eq) simp
  then show ?thesis
    using unsigned_less [of x, where 'a = nat] by (simp add: drop_bit_eq_div take_bit_eq_mod)
next
  case False
  then have "256 \<le> unat n" by (simp add: word_less_nat_alt)
  then have "unat x < 2 ^ unat n"
    using unsigned_less [of x, where 'a = nat] power_increasing [of 256 "unat n" "2::nat"] by simp
  then show ?thesis using False by (simp add: shr_word_def)
qed

section \<open>Modular arithmetic\<close>

lemma unat_u256_u512 [simp]: "unat (ucast (x :: u256) :: u512) = unat x"
proof -
  have "unat x < 2 ^ 256" using unsigned_less [of x] by simp
  then have "unat x < 2 ^ 512" by (simp add: less_le_trans)
  then show ?thesis by (simp add: unsigned_ucast_eq take_bit_nat_eq_self_iff)
qed

lemma unat_u512_u256: "unat (v :: u512) < 2 ^ 256 \<Longrightarrow> unat (ucast v :: u256) = unat v"
  by (simp add: unsigned_ucast_eq take_bit_nat_eq_self_iff)

lemma unat_modular:
  "unat (addmod_word x y m) = (if m = 0 then 0 else (unat x + unat y) mod unat m) \<and>
   unat (mulmod_word x y m) = (if m = 0 then 0 else (unat x * unat y) mod unat m)"
proof (cases "m = 0")
  case False
  have lt: "unat w < 2 ^ 256" for w :: u256
    using unsigned_less [of w] by simp
  have m: "v mod unat m < 2 ^ 256" for v
    using lt [of m] False by (meson less_trans mod_less_divisor unat_gt_0)
  have "unat x + unat y < 2 ^ 512" using lt [of x] lt [of y] by simp
  moreover have "unat x * unat y < 2 ^ 512"
    using mult_strict_mono' [OF lt [of x] lt [of y]] by simp
  ultimately have "unat ((ucast x :: u512) + ucast y) = unat x + unat y"
    "unat ((ucast x :: u512) * ucast y) = unat x * unat y"
    by (simp_all add: unat_word_ariths)
  then show ?thesis
    using False m by (simp add: addmod_word_def mulmod_word_def unat_u512_u256 unat_mod)
qed (simp add: addmod_word_def mulmod_word_def)

end
