(* ===== verification/LegacyVM_Refine.thy ===== *)
theory LegacyVM_Refine
  imports LegacyVM_Safety LegacyVM_Arith
begin

text \<open>
  The interpreter refines an abstract stack machine: the stack is a list with the top first, and an
  instruction of the arithmetic unit replaces its operands by its result, moves to the next
  instruction and charges its tier, or fails for want of operands or gas.
\<close>

unbundle bit_operations_syntax

section \<open>The abstract machine\<close>

text \<open>The stack between two instructions; the next fetch sets \<^verbatim>\<open>m_SP\<close> to \<^verbatim>\<open>m_SPP\<close>.\<close>

definition vstack :: "'w vm \<Rightarrow> u256 list" where
  "vstack s = map (m_stack s) [m_SPP s..<1024]"

text \<open>The arithmetic unit: the number of operands and the result, by opcode.\<close>

definition alu :: "EVMSchedule \<Rightarrow> Instruction \<Rightarrow> (nat \<times> (u256 list \<Rightarrow> u256)) option" where
  "alu sch i = (case i of
     ADD \<Rightarrow> Some (2, \<lambda>st. st ! 0 + st ! 1)
   | MUL \<Rightarrow> Some (2, \<lambda>st. st ! 0 * st ! 1)
   | SUB \<Rightarrow> Some (2, \<lambda>st. st ! 0 - st ! 1)
   | DIV \<Rightarrow> Some (2, \<lambda>st. st ! 0 div st ! 1)
   | SDIV \<Rightarrow> Some (2, \<lambda>st. word_of_int (sint (st ! 0) sdiv sint (st ! 1)))
   | MOD \<Rightarrow> Some (2, \<lambda>st. if st ! 1 = 0 then 0 else st ! 0 mod st ! 1)
   | SMOD \<Rightarrow> Some (2, \<lambda>st. if st ! 1 = 0 then 0 else word_of_int (sint (st ! 0) smod sint (st ! 1)))
   | ADDMOD \<Rightarrow> Some (3, \<lambda>st. word_of_nat (if st ! 2 = 0 then 0 else (unat (st ! 0) + unat (st ! 1)) mod unat (st ! 2)))
   | MULMOD \<Rightarrow> Some (3, \<lambda>st. word_of_nat (if st ! 2 = 0 then 0 else (unat (st ! 0) * unat (st ! 1)) mod unat (st ! 2)))
   | SIGNEXTEND \<Rightarrow> Some (2, \<lambda>st. if st ! 0 < 31 then signed_take_bit (8 * unat (st ! 0) + 7) (st ! 1) else st ! 1)
   | LT \<Rightarrow> Some (2, \<lambda>st. of_bool (unat (st ! 0) < unat (st ! 1)))
   | GT \<Rightarrow> Some (2, \<lambda>st. of_bool (unat (st ! 1) < unat (st ! 0)))
   | SLT \<Rightarrow> Some (2, \<lambda>st. of_bool (sint (st ! 0) < sint (st ! 1)))
   | SGT \<Rightarrow> Some (2, \<lambda>st. of_bool (sint (st ! 1) < sint (st ! 0)))
   | EQ \<Rightarrow> Some (2, \<lambda>st. of_bool (st ! 0 = st ! 1))
   | ISZERO \<Rightarrow> Some (1, \<lambda>st. of_bool (st ! 0 = 0))
   | ANDop \<Rightarrow> Some (2, \<lambda>st. st ! 0 AND st ! 1)
   | ORop \<Rightarrow> Some (2, \<lambda>st. st ! 0 OR st ! 1)
   | XORop \<Rightarrow> Some (2, \<lambda>st. st ! 0 XOR st ! 1)
   | NOTop \<Rightarrow> Some (1, \<lambda>st. NOT (st ! 0))
   | BYTE \<Rightarrow> Some (2, \<lambda>st. if unat (st ! 0) < 32 then ucast (toBigEndian 32 (unat (st ! 1)) ! unat (st ! 0)) else 0)
   | SHL \<Rightarrow> if haveBitwiseShifting sch then Some (2, \<lambda>st. st ! 1 * 2 ^ unat (st ! 0)) else None
   | SHR \<Rightarrow> if haveBitwiseShifting sch then Some (2, \<lambda>st. word_of_nat (unat (st ! 1) div 2 ^ unat (st ! 0))) else None
   | SAR \<Rightarrow> if haveBitwiseShifting sch then Some (2, \<lambda>st. signed_drop_bit (unat (st ! 0)) (st ! 1)) else None
   | _ \<Rightarrow> None)"

section \<open>The fetch\<close>

lemma fetch_eq:
  assumes "vm_inv s" and "op = decode (m_code s ! unat (m_PC s))"
    and "ret (instructionInfo op) \<le> args (instructionInfo op)"
  shows "fetchInstruction s =
    (if length (vstack s) < args (instructionInfo op)
     then Thrown StackUnderflow (s\<lparr>m_OP := op, m_SP := m_SPP s, m_SPP := m_SPP s + args (instructionInfo op)\<rparr>)
     else Ok (s\<lparr>m_OP := op, m_SP := m_SPP s,
       m_SPP := m_SPP s + args (instructionInfo op) - ret (instructionInfo op),
       m_runGas := ucast (tierGas (m_schedule s) (gasPriceTier (instructionInfo op))),
       m_newMemSize := word_of_nat (length (m_mem s)), m_copyMemSize := 0\<rparr>))"
proof -
  have pc: "unat (m_PC s) < length (m_code s)" and spp: "m_SPP s \<le> 1024"
    using assms(1) by (auto simp: vm_inv_def pc_ok_def)
  have "\<not> 0x7FFFFFFFFFFFFFFF < unat (g :: u32)" for g
    using unat_u32_less [of g] by simp
  then show ?thesis
    using pc spp assms(2,3)
    by (auto simp: fetchInstruction_def adjustStack_def throwBadStack_def Let_def vstack_def toInt63_def)
qed


text \<open>The stack after a write to its new top.\<close>

lemma vstack_top:
  "i < 1024 \<Longrightarrow> m_SPP s = i \<Longrightarrow> m_stack s = st(i := v) \<Longrightarrow> vstack s = v # map st [Suc i..<1024]"
  by (simp add: vstack_def upt_conv_Cons)

lemma drop_vstack: "drop n (vstack s) = map (m_stack s) [m_SPP s + n..<1024]"
  by (simp add: vstack_def drop_map)

lemma nth_vstack: "m_SPP s + i < 1024 \<Longrightarrow> vstack s ! i = m_stack s (m_SPP s + i)"
  by (simp add: vstack_def)

text \<open>What a step of the arithmetic unit makes of the state.\<close>

definition alu_step :: "u64 \<Rightarrow> nat \<Rightarrow> (u256 list \<Rightarrow> u256) \<Rightarrow> 'w vm \<Rightarrow> 'w vm \<Rightarrow> bool" where
  "alu_step cost n f s s' \<longleftrightarrow> vstack s' = f (vstack s) # drop n (vstack s) \<and> m_PC s' = m_PC s + 1 \<and>
     m_io_gas s' = m_io_gas s - cost \<and> m_mem s' = m_mem s \<and> m_ext s' = m_ext s \<and> m_code s' = m_code s \<and>
     m_jumpDests s' = m_jumpDests s \<and> m_returnData s' = m_returnData s \<and> m_bounce s' = m_bounce s"

lemma alu_step_intro:
  assumes "m_SPP s' = m_SPP s + n - 1" "m_stack s' = (m_stack s)(m_SPP s + n - 1 := f (vstack s))"
    "m_PC s' = m_PC s + 1" "m_io_gas s' = m_io_gas s - cost" "m_mem s' = m_mem s" "m_ext s' = m_ext s"
    "m_code s' = m_code s" "m_jumpDests s' = m_jumpDests s" "m_returnData s' = m_returnData s"
    "m_bounce s' = m_bounce s" "0 < n" "m_SPP s + n \<le> 1024"
  shows "alu_step cost n f s s'"
proof -
  have "vstack s' = f (vstack s) # map (m_stack s) [Suc (m_SPP s + n - 1)..<1024]"
    by (rule vstack_top [OF _ assms(1,2)]) (use assms(11,12) in linarith)
  then show ?thesis
    using assms by (simp add: alu_step_def drop_vstack)
qed

text \<open>The state a fetch leaves behind.\<close>

definition after_fetch :: "Instruction \<Rightarrow> u64 \<Rightarrow> nat \<Rightarrow> 'w vm \<Rightarrow> 'w vm" where
  "after_fetch op cost n s = s\<lparr>m_OP := op, m_SP := m_SPP s, m_SPP := m_SPP s + n - 1, m_runGas := cost,
     m_newMemSize := word_of_nat (length (m_mem s)), m_copyMemSize := 0\<rparr>"

lemma pureOp_alu:
  assumes "0 < n" "m_SPP s + n \<le> 1024" "cost \<le> m_io_gas s"
    and "g (\<lambda>i. m_stack s (m_SPP s + i)) = f (vstack s)"
  shows "wp (pureOp n g (after_fetch op cost n s)) (alu_step cost n f s) (\<lambda>_ _. False)"
proof -
  have "m_SPP s + n - 1 < 1024" using assms by linarith
  then show ?thesis
    using assms by (auto simp: pureOp_def after_fetch_def not_less[symmetric] intro!: alu_step_intro)
qed

lemma pureOp_gas: "m_io_gas t < m_runGas t \<Longrightarrow> \<exists>s'. pureOp n g t = Thrown OutOfGas s'"
  by (simp add: pureOp_def updateIOGas_def throwOutOfGas_def)


lemma alu_metric:
  "alu sch op = Some (n, f) \<Longrightarrow> 0 < n \<and> args (instructionInfo op) = n \<and> ret (instructionInfo op) = 1"
  by (cases op) (auto simp: alu_def metric_simps split: if_splits)

lemma div_words: "y \<noteq> 0 \<Longrightarrow> word_of_int (divWorkaround (uint x) (uint y)) = x div (y :: u256)"
  "y \<noteq> 0 \<Longrightarrow> word_of_int (modWorkaround (uint x) (uint y)) = x mod (y :: u256)"
  using uint_ge_0 [of x] uint_ge_0 [of y] unfolding order_le_less
  by (auto simp: divWorkaround_def modWorkaround_def word_div_def word_mod_def sgn_if)

lemma of_bool_word: "bool_word b = of_bool b"
  by (simp add: bool_word_def)

lemma modular_word:
  "addmod_word x y m = word_of_nat (if m = 0 then 0 else (unat x + unat y) mod unat m)"
  "mulmod_word x y m = word_of_nat (if m = 0 then 0 else (unat x * unat y) mod unat m)"
  "shr_word n x = word_of_nat (unat x div 2 ^ unat n)"
proof -
  have word: "unat w = v \<Longrightarrow> w = word_of_nat v" for w :: u256 and v
    by auto
  show "addmod_word x y m = word_of_nat (if m = 0 then 0 else (unat x + unat y) mod unat m)"
    "mulmod_word x y m = word_of_nat (if m = 0 then 0 else (unat x * unat y) mod unat m)"
    "shr_word n x = word_of_nat (unat x div 2 ^ unat n)"
    using unat_modular [of x y m] unat_shr_word [of n x] by (blast intro: word)+
qed

lemma signextend_out: "\<not> k < 31 \<Longrightarrow> signextend_word k x = x"
  by (simp add: signextend_word_def)

lemma smod_word_total: "smod_word x y = (if y = 0 then 0 else word_of_int (sint x smod sint y))"
  by (cases "y = 0") (simp_all add: smod_word_eq, simp add: smod_word_def)

lemma sdiv_word_total: "sdiv_word x y = word_of_int (sint x sdiv sint y)"
  by (cases "y = 0") (simp_all add: sdiv_word_eq, simp add: sdiv_word_def)

lemma alu_pure:
  assumes "alu (m_schedule s) op = Some (n, f)" "m_SPP s + n \<le> 1024" "cost \<le> m_io_gas s"
    and "op \<noteq> SDIV" "op \<noteq> SIGNEXTEND"
  shows "wp (interpretCases H (after_fetch op cost n s)) (alu_step cost n f s) (\<lambda>_ _. False)"
proof -
  have op: "m_OP (after_fetch op cost n s) = op" and sch: "m_schedule (after_fetch i c k s) = m_schedule s" for i c k
    by (simp_all add: after_fetch_def)
  have nth: "vstack s ! i = m_stack s (m_SPP s + i)" if "i < n" for i
    using that assms(2) by (intro nth_vstack) simp
  show ?thesis
    using assms nth unfolding interpretCases_def op
    by (cases op)
      (auto simp: alu_def sch op_ADD_def op_MUL_def op_SUB_def op_DIV_def op_MOD_def op_SMOD_def op_NOT_def
        op_LT_def op_GT_def op_SLT_def op_SGT_def op_EQ_def op_ISZERO_def op_AND_def op_OR_def op_XOR_def
        op_BYTE_def op_ADDMOD_def op_MULMOD_def op_SHL_def op_SHR_def op_SAR_def
        div_words modular_word smod_word_total u2s_sint shl_word_eq sar_word_eq byte_word_eq
        of_bool_word word_less_nat_alt
        intro!: pureOp_alu split: if_splits)
qed


lemma alu_in_place:
  assumes "alu (m_schedule s) op = Some (n, f)" "m_SPP s + n \<le> 1024" "cost \<le> m_io_gas s"
    and "op = SDIV \<or> op = SIGNEXTEND"
  shows "wp (interpretCases H (after_fetch op cost n s)) (alu_step cost n f s) (\<lambda>_ _. False)"
proof -
  have n: "n = 2"
    using assms(1,4) by (auto simp: alu_def)
  have nth: "vstack s ! i = m_stack s (m_SPP s + i)" if "i < 2" for i
    using that assms(2) n by (intro nth_vstack) simp
  have gas: "\<not> m_io_gas s < cost" and spp: "m_SPP s + 2 \<le> 1024" "m_SPP s + 2 - 1 < 1024"
    using assms(2,3) n by auto
  show ?thesis
    using assms(4)
  proof
    assume op: "op = SDIV"
    then have "f (vstack s) = sdiv_word (m_stack s (m_SPP s)) (m_stack s (Suc (m_SPP s)))"
      using assms(1) nth [of 0] nth [of 1] by (auto simp: alu_def sdiv_word_total)
    then show ?thesis
      using gas spp by (simp add: op n interpretCases_def after_fetch_def op_SDIV_def) (rule alu_step_intro; simp)
  next
    assume op: "op = SIGNEXTEND"
    then have "f (vstack s) = signextend_word (m_stack s (m_SPP s)) (m_stack s (Suc (m_SPP s)))"
      using assms(1) nth [of 0] nth [of 1] by (auto simp: alu_def signextend_word_eq signextend_out)
    then show ?thesis
      using gas spp by (simp add: op n interpretCases_def after_fetch_def op_SIGNEXTEND_def) (rule alu_step_intro; simp)
  qed
qed

lemma alu_out_of_gas:
  assumes "alu (m_schedule s) op = Some (n, f)" "m_io_gas s < cost"
  shows "\<exists>s'. interpretCases H (after_fetch op cost n s) = Thrown OutOfGas s'"
  using assms
  by (cases op)
    (auto simp: interpretCases_def alu_def after_fetch_def op_SDIV_def op_SIGNEXTEND_def pureOp_def
      op_ADD_def op_MUL_def op_SUB_def op_DIV_def op_MOD_def op_SMOD_def op_NOT_def
      op_LT_def op_GT_def op_SLT_def op_SGT_def op_EQ_def op_ISZERO_def op_AND_def op_OR_def op_XOR_def
      op_BYTE_def op_ADDMOD_def op_MULMOD_def op_SHL_def op_SHR_def op_SAR_def
      updateIOGas_def throwOutOfGas_def split: if_splits)

text \<open>
  C13. The arithmetic instructions refine the abstract machine on every branch: with too few operands
  the step throws \<^verbatim>\<open>StackUnderflow\<close>, with too little gas \<^verbatim>\<open>OutOfGas\<close>, and otherwise the operands
  on the stack are replaced by the result of the arithmetic unit, the tier's gas is charged, the
  program counter moves on, and memory, code, return data and the world stay as they are.
\<close>

theorem alu_refines_stack_machine:
  assumes "vm_inv s" and "m_bounce s = InterpretCases"
    and "op = decode (m_code s ! unat (m_PC s))" and "alu (m_schedule s) op = Some (n, f)"
    and "cost = ucast (tierGas (m_schedule s) (gasPriceTier (instructionInfo op)))"
  shows "if length (vstack s) < n then \<exists>s'. bounceStep H s = Thrown StackUnderflow s'
    else if m_io_gas s < cost then \<exists>s'. bounceStep H s = Thrown OutOfGas s'
    else \<exists>s'. bounceStep H s = Ok s' \<and> alu_step cost n f s s'"
proof -
  have m: "0 < n" "args (instructionInfo op) = n" "ret (instructionInfo op) = 1"
    using alu_metric [OF assms(4)] by auto
  have spp: "m_SPP s \<le> 1024" using assms(1) by (simp add: vm_inv_def)
  have step: "bounceStep H s = (if length (vstack s) < n
      then Thrown StackUnderflow (s\<lparr>m_OP := op, m_SP := m_SPP s, m_SPP := m_SPP s + n\<rparr>)
      else interpretCases H (after_fetch op cost n s))"
    using assms(2) fetch_eq [OF assms(1,3)] m by (simp add: bounceStep_def after_fetch_def assms(5))
  have "wp (interpretCases H (after_fetch op cost n s)) (alu_step cost n f s) (\<lambda>_ _. False)"
    if "\<not> length (vstack s) < n" "\<not> m_io_gas s < cost"
  proof -
    have "m_SPP s + n \<le> 1024" "cost \<le> m_io_gas s"
      using that spp by (auto simp: vstack_def not_less)
    then show ?thesis
      using alu_pure [OF assms(4)] alu_in_place [OF assms(4)] by blast
  qed
  then have "\<exists>s'. interpretCases H (after_fetch op cost n s) = Ok s' \<and> alu_step cost n f s s'"
    if "\<not> length (vstack s) < n" "\<not> m_io_gas s < cost"
    using that by (cases "interpretCases H (after_fetch op cost n s)") auto
  then show ?thesis
    using alu_out_of_gas [OF assms(4), of cost] by (simp add: step)
qed

end
