(* ===== verification/LegacyVM_Cases.thy ===== *)
theory LegacyVM_Cases
  imports LegacyVM_Safety
begin

text \<open>
  The remaining cases of the interpreter: pushes and jumps, storage, and the opcodes that expand
  the memory or call out.
\<close>

section \<open>Jumps\<close>

lemma binary_search_mem:
  "binary_search xs v lo hi \<Longrightarrow> hi \<le> length xs \<Longrightarrow> \<exists>i. lo \<le> i \<and> i < hi \<and> xs ! i = v"
proof (induction xs v lo hi rule: binary_search.induct)
  case (1 xs v lo hi)
  let ?mid = "(lo + hi) div 2"
  have lt: "lo < hi"
    using "1.prems" by (simp add: binary_search.simps [of xs v lo hi] split: if_splits)
  consider "xs ! ?mid < v" | "v < xs ! ?mid" | "xs ! ?mid = v"
    by (rule linorder_cases)
  then show ?case
  proof cases
    case 1
    then have "binary_search xs v (?mid + 1) hi"
      using "1.prems"(1) lt by (simp add: binary_search.simps [of xs v lo hi] Let_def)
    with "1.IH"(1) 1 lt "1.prems"(2) obtain i where "?mid + 1 \<le> i" "i < hi" "xs ! i = v"
      by blast
    then show ?thesis
      using lt by (intro exI [of _ i]) auto
  next
    case 2
    then have "binary_search xs v lo ?mid"
      using "1.prems"(1) lt by (simp add: binary_search.simps [of xs v lo hi] Let_def)
    moreover have "?mid \<le> length xs"
      using lt "1.prems"(2) by linarith
    ultimately obtain i where "lo \<le> i" "i < ?mid" "xs ! i = v"
      using "1.IH"(2) [OF lt refl] 2 by (metis less_asym)
    then show ?thesis
      using lt by (intro exI [of _ i]) auto
  next
    case 3
    then show ?thesis
      using lt by (intro exI [of _ ?mid]) auto
  qed
qed

lemma jump_dest_ok:
  assumes "code_ok code dests" and "binary_search dests d 0 (length dests)"
  shows "pc_ok code d \<and> decode (code ! unat d) = JUMPDEST"
proof -
  obtain i where "i < length dests" "dests ! i = d"
    using binary_search_mem [OF assms(2)] by auto
  then have "d \<in> set dests" by auto
  then show ?thesis
    using assms(1) by (auto simp: code_ok_def pc_ok_def list_all_iff)
qed

lemma jump_cases:
  assumes f: "fetched s" and b: "m_bounce s = InterpretCases"
  shows "m_OP s = JUMP \<Longrightarrow> wp (op_JUMP s) (good ok s) (bad ok s)"
    "m_OP s = JUMPI \<Longrightarrow> wp (op_JUMPI s) (good ok s) (bad ok s)"
  using assms pc_next [OF assms(1)] tierGas_bounds [of "m_schedule s"] jump_dest_ok [of "m_code s" "m_jumpDests s"]
  unfolding op_JUMP_def op_JUMPI_def
  by (simp_all add: fetched_def vm_inv_def metric_simps good_def bad_def same_code_def mem_ok_def
      gas_less not_less verifyJumpDest_def gas_le)

section \<open>Pushes\<close>

lemma pushLoop_wp:
  assumes "m_SPP s < 1024" and "unat (m_PC s) + n < length (m_code s)" and "length (m_code s) < 2 ^ 63"
    and "\<And>st. P (s\<lparr>m_stack := st, m_PC := m_PC s + word_of_nat n\<rparr>)"
  shows "wp (pushLoop n s) P E"
  using assms
proof (induction n arbitrary: s)
  case 0
  have "s = s\<lparr>m_stack := m_stack s, m_PC := m_PC s + word_of_nat 0\<rparr>"
    by simp
  then show ?case
    using "0.prems"(4) [of "m_stack s"] by simp
next
  case (Suc n)
  let ?s = "s\<lparr>m_stack := (m_stack s)(m_SPP s := push_bit 8 (m_stack s (m_SPP s)) OR
      ucast (m_code s ! unat (m_PC s))), m_PC := m_PC s + 1\<rparr>"
  have "unat (m_PC s + 1) = unat (m_PC s) + 1"
    using Suc.prems by (subst unat_plus_no_wrap) auto
  then have "wp (pushLoop n ?s) P E"
    using Suc.prems by (intro Suc.IH) (auto simp: algebra_simps)
  then show ?case
    using Suc.prems by (simp add: codeByte_def)
qed

lemma PUSH_cases:
  assumes f: "fetched s" and b: "m_bounce s = InterpretCases" and op: "m_OP s = PUSH n"
  shows "n = 1 \<Longrightarrow> wp (op_PUSH1 s) (good ok s) (bad ok s)" "wp (op_PUSHn n s) (good ok s) (bad ok s)"
proof -
  have inv: "vm_inv s"
    using f by (rule fetched_vm_inv)
  have pc: "pc_ok (m_code s) (m_PC s + word_of_nat (Suc n))"
  proof (rule pc_step [OF inv])
    show "m_OP s = decode (m_code s ! unat (m_PC s))"
      using f by (simp add: fetched_def)
  qed (simp_all add: op width_def)
  have spp: "m_SPP s < 1024" and gas: "m_runGas s = 3" and mem: "mem_ok s"
    and rd: "length (m_returnData s) < 2 ^ 64"
    using f op by (auto simp: fetched_def vm_inv_def metric_simps tierGas_bounds)
  have len: "length (m_code s) < 2 ^ 63"
    using inv by (simp add: vm_inv_def code_ok_def)
  have n: "n \<le> 32"
    using fetched_proper [OF f] op by simp
  have pc_lt: "unat (m_PC s) < length (m_code s)"
    using inv by (simp add: vm_inv_def pc_ok_def)
  have pcs: "unat (m_PC s + word_of_nat (Suc n)) = unat (m_PC s) + Suc n"
    using n len pc_lt by (subst unat_plus_no_wrap) (auto simp: unat_of_nat simp del: of_nat_Suc)
  have pc1: "unat (m_PC s + 1) = unat (m_PC s) + 1"
    using len pc_lt by (subst unat_plus_no_wrap) auto
  have lt: "unat (m_PC s) + Suc n < length (m_code s)"
    using pc pcs by (simp add: pc_ok_def)
  show "wp (op_PUSH1 s) (good ok s) (bad ok s)" if "n = 1"
    using that b spp gas mem rd pc lt pc1
    by (simp add: op_PUSH1_def codeByte_def good_def bad_def same_code_def mem_ok_def gas_less not_less
        add.assoc)
  show "wp (op_PUSHn n s) (good ok s) (bad ok s)"
    using b spp gas mem rd pc lt pc1 len
    by (auto simp: op_PUSHn_def good_def bad_def same_code_def mem_ok_def gas_less not_less add.assoc
        intro!: pushLoop_wp)
qed

section \<open>Exponentiation\<close>

lemma exp_charge_pos:
  assumes "sane_schedule sch"
  shows "0 < expGas sch + expByteGas sch * word_of_nat (32 - k)"
proof -
  have "unat (expGas sch) < 2 ^ 16" "unat (expByteGas sch) < 2 ^ 16" "0 < unat (expGas sch)"
    using assms by (simp_all add: sane_schedule_def word_less_nat_alt unat_gt_0)
  moreover have "unat (word_of_nat (32 - k) :: u32) \<le> 32"
    by (simp add: unat_of_nat)
  ultimately have "unat (expByteGas sch) * unat (word_of_nat (32 - k) :: u32) \<le> 2 ^ 16 * 32"
    by (intro mult_le_mono) auto
  then have "unat (expGas sch + expByteGas sch * word_of_nat (32 - k)) =
      unat (expGas sch) + unat (expByteGas sch) * unat (word_of_nat (32 - k) :: u32)"
    using \<open>unat (expGas sch) < 2 ^ 16\<close> by (simp only: unat_word_ariths) simp
  then show ?thesis
    using \<open>0 < unat (expGas sch)\<close> by (simp add: word_less_nat_alt)
qed

lemma EXP_case:
  assumes "fetched s" "m_bounce s = InterpretCases" "m_OP s = EXP"
  shows "wp (op_EXP s) (good ok s) (bad ok s)"
  using assms pc_next [OF assms(1)] exp_charge_pos [of "m_schedule s"]
  unfolding op_EXP_def
  by (simp add: fetched_def vm_inv_def metric_simps good_def bad_def same_code_def mem_ok_def gas_less
      not_less)

section \<open>Memory\<close>

lemma wp_updateMem:
  assumes "mem_ok s" and "meter_sane (m_schedule s)" and "unat newMem < 2 ^ 63 + 32"
    and "unat (m_copyMemSize s) \<le> 0x7FFFFFFFFFFFFFFF"
    and "unat (m_runGas s) < 2 ^ 33 \<or> unat (m_runGas s) < 2 ^ 63 \<and> m_copyMemSize s = 0"
    and "\<And>s'. mem_grown (unat newMem) s s' \<Longrightarrow> P s'"
    and "\<And>s'. only_metering s s' \<Longrightarrow> E OutOfGas s'"
  shows "wp (updateMem newMem s) P E"
  using updateMem_wp [OF assms(1-5)] by (rule wp_mono) (auto intro: assms(6,7))

lemma unat_ucast_64:
  assumes "unat (w :: u256) \<le> 0x7FFFFFFFFFFFFFFF"
  shows "unat (ucast w :: u64) = unat w"
  using assms by (simp add: unsigned_ucast_eq take_bit_nat_eq_self_iff)

lemma unat_ucast_32_le: "unat (ucast (w :: u256) :: u32) \<le> unat w"
  by (simp add: unsigned_ucast_eq take_bit_nat_less_eq_self)

text \<open>The region a size and an offset stand for once they have passed \<^verbatim>\<open>memNeed\<close>.\<close>

definition covered :: "u256 \<Rightarrow> u256 \<Rightarrow> nat \<Rightarrow> bool" where
  "covered off siz len \<longleftrightarrow> unat (ucast siz :: u64) = 0 \<or>
     unat (ucast off :: u64) + unat (ucast siz :: u64) \<le> len"

lemma wp_memNeed:
  assumes "\<And>need. unat need \<le> 0x7FFFFFFFFFFFFFFF \<Longrightarrow>
      (\<And>len. unat need \<le> len \<Longrightarrow> covered off siz len) \<Longrightarrow> wp (k need s) P E"
    and "E OutOfGas s"
  shows "wp (memNeed off siz k s) P E"
proof (cases "siz = 0 \<or> unat off + unat siz \<le> 0x7FFFFFFFFFFFFFFF")
  case True
  show ?thesis
  proof (cases "siz = 0")
    case True
    then show ?thesis
      using assms(1) [of 0] by (simp add: memNeed_def toInt63_def covered_def)
  next
    case False
    then have le: "unat off + unat siz \<le> 0x7FFFFFFFFFFFFFFF"
      using True by simp
    then have "unat (ucast off :: u64) = unat off" "unat (ucast siz :: u64) = unat siz"
      by (auto intro!: unat_ucast_64)
    then show ?thesis
      using assms(1) [of "word_of_nat (unat off + unat siz)"] le False
      by (simp add: memNeed_def toInt63_def covered_def toInt63_unat del: of_nat_add)
  qed
next
  case False
  then show ?thesis
    using assms(2) by (simp add: memNeed_def toInt63_def)
qed

text \<open>
  Memory expanded and gas paid: how the state after both stands to the one before.
\<close>

definition paid :: "nat \<Rightarrow> 'w vm \<Rightarrow> 'w vm \<Rightarrow> bool" where
  "paid need s s' \<longleftrightarrow>
     m_code s' = m_code s \<and> m_jumpDests s' = m_jumpDests s \<and> m_schedule s' = m_schedule s \<and>
     m_SP s' = m_SP s \<and> m_SPP s' = m_SPP s \<and> m_PC s' = m_PC s \<and> m_OP s' = m_OP s \<and>
     m_bounce s' = m_bounce s \<and> m_stack s' = m_stack s \<and> m_ext s' = m_ext s \<and>
     m_returnData s' = m_returnData s \<and> m_copyMemSize s' = m_copyMemSize s \<and> m_output s' = m_output s \<and>
     mem_ok s' \<and> need \<le> length (m_mem s') \<and>
     (\<exists>k. m_mem s' = m_mem s @ replicate k 0) \<and>
     m_io_gas s' \<le> m_io_gas s \<and> unat (m_io_gas s') + unat (m_runGas s) \<le> unat (m_io_gas s)"

lemma mem_grown_paid:
  assumes "mem_grown need s s'"
  shows "paid need s (s'\<lparr>m_io_gas := m_io_gas s' - m_runGas s'\<rparr>) \<and> m_runGas s' \<le> m_io_gas s'"
proof -
  obtain nm rg k where s': "s' = s\<lparr>m_newMemSize := nm, m_runGas := rg, m_mem := m_mem s @ replicate k 0\<rparr>"
    and k: "need \<le> length (m_mem s) + k" "32 dvd length (m_mem s) + k" "length (m_mem s) + k < 2 ^ 43"
    and rg: "m_runGas s \<le> rg" "rg \<le> m_io_gas s"
    using assms by (auto simp: mem_grown_def)
  then have "unat (m_io_gas s - rg) + unat (m_runGas s) \<le> unat (m_io_gas s)"
    by (simp add: unat_sub word_le_nat_alt)
  then show ?thesis
    using k rg by (auto simp: paid_def s' mem_ok_def gas_le)
qed

lemma wp_pay:
  assumes s: "mem_ok s" "meter_sane (m_schedule s)" "unat need < 2 ^ 63 + 32"
      "unat (m_copyMemSize s) \<le> 0x7FFFFFFFFFFFFFFF"
      "unat (m_runGas s) < 2 ^ 33 \<or> unat (m_runGas s) < 2 ^ 63 \<and> m_copyMemSize s = 0"
    and k: "\<And>s'. paid (unat need) s s' \<Longrightarrow> wp (k s') P E"
    and E: "\<And>s'. m_io_gas s' = m_io_gas s \<Longrightarrow> m_ext s' = m_ext s \<Longrightarrow> E OutOfGas s'"
  shows "wp (bind_res (updateMem need s) (\<lambda>s. bind_res (updateIOGas s) k)) P E"
  unfolding wp_simps
proof (rule wp_updateMem [OF s])
  fix s' assume "mem_grown (unat need) s s'"
  then show "wp (updateIOGas s') (\<lambda>s. wp (k s) P E) E"
    using mem_grown_paid [of "unat need" s s'] k by (auto simp: not_less)
next
  fix s' assume "only_metering s s'"
  then show "E OutOfGas s'"
    using E by (auto simp: only_metering_def)
qed

lemma good_intro:
  assumes "m_code s' = m_code s" "m_jumpDests s' = m_jumpDests s" "m_schedule s' = m_schedule s"
    "keeps ok (m_ext s) (m_ext s')"
    "m_bounce s' = InterpretCases" "m_SPP s' = m_SPP s" "mem_ok s'" "pc_ok (m_code s) (m_PC s')"
    "length (m_returnData s') < 2 ^ 64" "m_output s' = m_output s"
    "unat (m_io_gas s') < unat (m_io_gas s)"
  shows "good ok s s'"
  using assms by (simp add: good_def same_code_def word_less_nat_alt)

lemma good_done:
  assumes "m_code s' = m_code s" "m_jumpDests s' = m_jumpDests s" "m_schedule s' = m_schedule s"
    "keeps ok (m_ext s) (m_ext s')" "m_bounce s' = Done" "m_io_gas s' \<le> m_io_gas s"
    "length (m_output s') < 2 ^ 43"
  shows "good ok s s'"
  using assms by (simp add: good_def same_code_def)

lemma fetched_facts:
  assumes "fetched s"
  shows "mem_ok s" "meter_sane (m_schedule s)" "m_copyMemSize s = 0" "unat (m_runGas s) < 2 ^ 33"
    "sane_schedule (m_schedule s)" "length (m_returnData s) < 2 ^ 64"
proof -
  show "mem_ok s" "meter_sane (m_schedule s)" "m_copyMemSize s = 0" "sane_schedule (m_schedule s)"
    "length (m_returnData s) < 2 ^ 64"
    using assms by (auto simp: fetched_def vm_inv_def sane_schedule_def)
  show "unat (m_runGas s) < 2 ^ 33"
    using assms unat_u32_less [of "tierGas (m_schedule s) (gasPriceTier (instructionInfo (m_OP s)))"]
    by (simp add: fetched_def)
qed

lemma returnData_wp:
  assumes f: "fetched s" and op: "m_SP s + 2 \<le> 1024"
    and k: "\<And>out s'. m_code s' = m_code s \<Longrightarrow> m_jumpDests s' = m_jumpDests s \<Longrightarrow>
        m_schedule s' = m_schedule s \<Longrightarrow> m_ext s' = m_ext s \<Longrightarrow> m_io_gas s' \<le> m_io_gas s \<Longrightarrow>
        length out < 2 ^ 43 \<Longrightarrow> wp (k out s') (good ok s) (bad ok s)"
  shows "wp (returnData k s) (good ok s) (bad ok s)"
  unfolding returnData_def
  using op fetched_facts [OF f]
  by (auto intro!: wp_memNeed wp_pay k simp del: wp_simps(3)
      simp: mem_ok_def bad_def covered_def paid_def wp_readMem)

lemma return_cases:
  assumes "fetched s" "m_bounce s = InterpretCases"
  shows "m_OP s = RETURN \<Longrightarrow> wp (op_RETURN s) (good ok s) (bad ok s)"
    "m_OP s = REVERT \<Longrightarrow> wp (op_REVERT s) (good ok s) (bad ok s)"
  using assms unfolding op_RETURN_def op_REVERT_def
  by (auto intro!: returnData_wp good_done simp: fetched_def metric_simps bad_def)

text \<open>An access to memory that has been paid for.\<close>

lemma wp_writeMem:
  assumes "bs = [] \<or> off + length bs \<le> length (m_mem s)"
    and "\<And>mem. length mem = length (m_mem s) \<Longrightarrow> P (s\<lparr>m_mem := mem\<rparr>)"
  shows "wp (writeMem off bs s) P E"
  using assms(1) assms(2) [of "m_mem s"]
    assms(2) [of "take off (m_mem s) @ bs @ drop (off + length bs) (m_mem s)"]
  by (auto simp: writeMem_def)

lemma word_access:
  assumes f: "fetched s" and op: "m_SP s + n \<le> 1024" and c: "unat c \<le> 32"
    and k: "\<And>s'. paid (unat (m_stack s (m_SP s)) + unat c) s s' \<Longrightarrow>
      wp (k (\<lambda>i. m_stack s (m_SP s + i)) s') (good ok s) (bad ok s)"
  shows "wp (operands n (\<lambda>a. toInt63 (unat (a 0)) (\<lambda>w s.
      bind_res (updateMem (w + c) s) (\<lambda>s. bind_res (updateIOGas s) (k a)))) s) (good ok s) (bad ok s)"
proof (cases "unat (m_stack s (m_SP s)) \<le> 0x7FFFFFFFFFFFFFFF")
  case True
  let ?w = "word_of_nat (unat (m_stack s (m_SP s))) :: u64"
  let ?k = "k (\<lambda>i. m_stack s (m_SP s + i))"
  have "unat ?w = unat (m_stack s (m_SP s))"
    using True by (rule toInt63_unat)
  then have need: "unat (?w + c) = unat (m_stack s (m_SP s)) + unat c"
    using True c by (subst unat_plus_no_wrap) auto
  have "wp (bind_res (updateMem (?w + c) s) (\<lambda>s. bind_res (updateIOGas s) ?k)) (good ok s) (bad ok s)"
    using fetched_facts [OF f] k True c need by (intro wp_pay) (auto simp: bad_def)
  then show ?thesis
    using op True by (simp add: wp_toInt63)
next
  case False
  then show ?thesis
    using op by (simp add: wp_toInt63)
qed

lemma memory_word_cases:
  assumes f: "fetched s" and b: "m_bounce s = InterpretCases"
  shows "m_OP s = MLOAD \<Longrightarrow> wp (op_MLOAD s) (good ok s) (bad ok s)"
    "m_OP s = MSTORE \<Longrightarrow> wp (op_MSTORE s) (good ok s) (bad ok s)"
    "m_OP s = MSTORE8 \<Longrightarrow> wp (op_MSTORE8 s) (good ok s) (bad ok s)"
proof -
  have off: "unat (ucast (m_stack s (m_SP s)) :: u32) \<le> unat (m_stack s (m_SP s))"
    by (rule unat_ucast_32_le)
  have facts: "m_SP s + args (instructionInfo (m_OP s)) \<le> 1024 \<and> m_runGas s = 3 \<and>
      pc_ok (m_code s) (m_PC s + 1) \<and> (m_OP s = MLOAD \<longrightarrow> m_SPP s < 1024)"
    if "m_OP s = MLOAD \<or> m_OP s = MSTORE \<or> m_OP s = MSTORE8"
    using that f pc_next [OF f] by (auto simp: fetched_def vm_inv_def metric_simps tierGas_bounds)
  show "wp (op_MLOAD s) (good ok s) (bad ok s)" if op: "m_OP s = MLOAD"
    unfolding op_MLOAD_def using facts off b op fetched_facts(6) [OF f]
    by (intro word_access [OF f])
      (auto simp: metric_simps paid_def mem_ok_def wp_readMem intro!: good_intro)
  show "wp (op_MSTORE s) (good ok s) (bad ok s)" if op: "m_OP s = MSTORE"
    unfolding op_MSTORE_def using facts off b op fetched_facts(6) [OF f]
    by (intro word_access [OF f])
      (auto simp: metric_simps paid_def mem_ok_def intro!: good_intro wp_writeMem)
  show "wp (op_MSTORE8 s) (good ok s) (bad ok s)" if op: "m_OP s = MSTORE8"
    unfolding op_MSTORE8_def using facts off b op fetched_facts(6) [OF f]
    by (intro word_access [OF f])
      (auto simp: metric_simps paid_def mem_ok_def intro!: good_intro wp_writeMem)
qed


lemma bind_memNeed:
  "bind_res (memNeed off siz k s) f = memNeed off siz (\<lambda>n s. bind_res (k n s) f) s"
  by (simp add: memNeed_def toInt63_def throwOutOfGas_def)

lemma region_access:
  assumes s: "mem_ok s" "meter_sane (m_schedule s)" "unat (m_copyMemSize s) \<le> 0x7FFFFFFFFFFFFFFF"
      "unat (m_runGas s) < 2 ^ 33 \<or> unat (m_runGas s) < 2 ^ 63 \<and> m_copyMemSize s = 0"
    and k: "\<And>s'. paid 0 s s' \<Longrightarrow> covered off siz (length (m_mem s')) \<Longrightarrow> wp (k s') P E"
    and E: "\<And>s'. m_io_gas s' = m_io_gas s \<Longrightarrow> m_ext s' = m_ext s \<Longrightarrow> E OutOfGas s'"
  shows "wp (memNeed off siz (\<lambda>need s. bind_res (updateMem need s) (\<lambda>s. bind_res (updateIOGas s) k)) s) P E"
proof (rule wp_memNeed)
  fix need :: u64
  assume need: "unat need \<le> 0x7FFFFFFFFFFFFFFF"
    and cov: "\<And>len. unat need \<le> len \<Longrightarrow> covered off siz len"
  show "wp (bind_res (updateMem need s) (\<lambda>s. bind_res (updateIOGas s) k)) P E"
  proof (rule wp_pay)
    fix s' assume p: "paid (unat need) s s'"
    then have "paid 0 s s'" "unat need \<le> length (m_mem s')"
      by (simp_all add: paid_def)
    then show "wp (k s') P E"
      by (intro k cov)
  qed (use s need E in auto)
qed (simp add: E)

lemma SHA3_case:
  assumes f: "fetched s" and b: "m_bounce s = InterpretCases" and op: "m_OP s = SHA3"
  shows "wp (op_SHA3 H s) (good ok s) (bad ok s)"
proof -
  define g where "g = unat (sha3Gas (m_schedule s)) +
      (unat (m_stack s (Suc (m_SP s))) + 31) div 32 * unat (sha3WordGas (m_schedule s))"
  have facts: "m_SP s + 2 \<le> 1024" "m_SPP s < 1024" "pc_ok (m_code s) (m_PC s + 1)" "0 < g"
    using f pc_next [OF f] op
    by (auto simp: fetched_def vm_inv_def metric_simps sane_schedule_def unat_gt_0 g_def)
  let ?s = "s\<lparr>m_runGas := word_of_nat g\<rparr>"
  let ?off = "m_stack s (m_SP s)" and ?siz = "m_stack s (Suc (m_SP s))"
  have "wp (memNeed ?off ?siz (\<lambda>need s.
         bind_res (updateMem need s) (\<lambda>s. bind_res (updateIOGas s) (\<lambda>s.
           readMem (unat (ucast ?off :: u64)) (unat (ucast ?siz :: u64))
             (\<lambda>bs s. bind_res (setSPP (h_sha3 H bs) s) nextOp) s))) ?s) (good ok s) (bad ok s)"
    if "g \<le> 0x7FFFFFFFFFFFFFFF"
    using facts b fetched_facts [OF f] that
    by (intro region_access)
      (auto simp: mem_ok_def toInt63_unat bad_def covered_def paid_def wp_readMem intro!: good_intro)
  then show ?thesis
    using facts(1) by (simp add: op_SHA3_def wp_toInt63 g_def [symmetric])
qed


lemma log_charge_pos:
  assumes "sane_schedule sch" and "n \<le> 4"
  shows "0 < unat (logGas sch + logTopicGas sch * word_of_nat n)"
proof -
  have g: "unat (logGas sch) < 2 ^ 16" "unat (logTopicGas sch) < 2 ^ 16" "0 < unat (logGas sch)"
    using assms by (simp_all add: sane_schedule_def word_less_nat_alt unat_gt_0)
  have "unat (word_of_nat n :: u32) = n"
    using assms(2) by (simp add: unat_of_nat)
  moreover have "unat (logTopicGas sch) * n \<le> 2 ^ 16 * 4"
    using g(2) assms(2) by (intro mult_le_mono) auto
  ultimately have "unat (logGas sch + logTopicGas sch * word_of_nat n) =
      unat (logGas sch) + unat (logTopicGas sch) * n"
    using g(1) by (simp only: unat_word_ariths) simp
  then show ?thesis
    using g(3) by simp
qed

section \<open>Copying\<close>

lemma copyDataToMemory_wp:
  assumes cov: "covered sp0 sp2 (length (m_mem s))" and data64: "length data < 2 ^ 64"
    and P: "\<And>mem. length mem = length (m_mem s) \<Longrightarrow> P (s\<lparr>m_mem := mem\<rparr>)"
  shows "wp (copyDataToMemory data sp0 sp1 sp2 s) P E"
proof -
  define off siz where "off = unat (ucast sp0 :: u64)" and "siz = unat (ucast sp2 :: u64)"
  define n where "n = (if unat sp1 + siz > length data
      then (if length data < unat sp1 then 0 else length data - unat (ucast sp1 :: u64)) else siz)"
  have idx: "unat (ucast sp1 :: u64) \<le> unat sp1"
    by (simp add: unsigned_ucast_eq take_bit_nat_less_eq_self)
  have mem: "siz = 0 \<or> off + siz \<le> length (m_mem s)"
    using cov by (simp add: covered_def off_def siz_def)
  have "unat (ucast sp1 :: u64) = unat sp1" if "unat sp1 \<le> length data"
    using that data64 by (simp add: unsigned_ucast_eq take_bit_nat_eq_self_iff)
  then have n: "n \<le> siz"
    by (auto simp: n_def)
  have data: "n = 0 \<or> unat (ucast sp1 :: u64) + n \<le> length data"
    using idx by (auto simp: n_def)
  let ?copied = "if n > 0 then readBytes data (unat (ucast sp1 :: u64)) n (writeMem off) s else Ok s"
  have "wp ?copied (\<lambda>s'. \<exists>mem. s' = s\<lparr>m_mem := mem\<rparr> \<and> length mem = length (m_mem s)) E"
  proof (cases "n > 0")
    case True
    then have "wp (writeMem off (take n (drop (unat (ucast sp1 :: u64)) data)) s)
        (\<lambda>s'. \<exists>mem. s' = s\<lparr>m_mem := mem\<rparr> \<and> length mem = length (m_mem s)) E"
      using mem n data by (intro wp_writeMem) auto
    with True data show ?thesis
      by (auto simp: readBytes_def)
  next
    case False
    then show ?thesis
      by (auto intro!: exI [of _ "m_mem s"])
  qed
  then have "wp (bind_res ?copied
      (\<lambda>s. if siz > n then writeMem (off + n) (replicate (siz - n) 0) s else Ok s)) P E"
    unfolding wp_simps
  proof (rule wp_mono)
    fix s' assume "\<exists>mem. s' = s\<lparr>m_mem := mem\<rparr> \<and> length mem = length (m_mem s)"
    then obtain m where s': "s' = s\<lparr>m_mem := m\<rparr>" "length m = length (m_mem s)"
      by auto
    show "wp (if siz > n then writeMem (off + n) (replicate (siz - n) 0) s' else Ok s') P E"
    proof (cases "siz > n")
      case True
      then show ?thesis
        using mem n s' P by (auto intro!: wp_writeMem)
    next
      case False
      then show ?thesis
        using s' P by simp
    qed
  qed simp
  then show ?thesis
    by (simp only: copyDataToMemory_def Let_def n_def off_def siz_def)
qed

lemma copyOp_good:
  assumes f: "fetched s" and b: "m_bounce s = InterpretCases" and pc: "pc_ok (m_code s) (m_PC s + 1)"
    and g: "0 < unat g" "unat g < 2 ^ 33" and data: "\<And>s'. m_ext s' = m_ext s \<Longrightarrow>
      m_returnData s' = m_returnData s \<Longrightarrow> length (data s') < 2 ^ 64"
  shows "wp (copyOp data sp0 sp1 sp2 (s\<lparr>m_runGas := g\<rparr>)) (good ok s) (bad ok s)"
proof (cases "unat sp2 \<le> 0x7FFFFFFFFFFFFFFF")
  case True
  let ?s = "s\<lparr>m_runGas := g, m_copyMemSize := word_of_nat (unat sp2)\<rparr>"
  have "wp (memNeed sp0 sp2 (\<lambda>need s. bind_res (updateMem need s) (\<lambda>s. bind_res (updateIOGas s) (\<lambda>s.
      bind_res (copyDataToMemory (data s) sp0 sp1 sp2 s) nextOp))) ?s) (good ok s) (bad ok s)"
  proof (rule region_access)
    fix s' assume p: "paid 0 ?s s'" and cov: "covered sp0 sp2 (length (m_mem s'))"
    have "length (data s') < 2 ^ 64"
      using p by (intro data) (simp_all add: paid_def)
    then show "wp (bind_res (copyDataToMemory (data s') sp0 sp1 sp2 s') nextOp) (good ok s) (bad ok s)"
      using p b pc g cov fetched_facts(6) [OF f] unfolding wp_simps
      by (intro copyDataToMemory_wp) (auto simp: paid_def mem_ok_def intro!: good_intro)
  qed (use f fetched_facts [OF f] True g in \<open>auto simp: mem_ok_def bad_def unat_ucast_64\<close>)
  with True show ?thesis
    by (simp add: copyOp_def wp_toInt63)
next
  case False
  then show ?thesis
    by (simp add: copyOp_def wp_toInt63 bad_def)
qed

lemma runGas_update_same: "m_runGas s = g \<Longrightarrow> s\<lparr>m_runGas := g\<rparr> = s"
  by (cases s) simp

lemma copy_cases:
  assumes f: "fetched s" and b: "m_bounce s = InterpretCases"
  shows "m_OP s = CALLDATACOPY \<Longrightarrow> wp (op_CALLDATACOPY s) (good ok s) (bad ok s)"
    "m_OP s = CODECOPY \<Longrightarrow> wp (op_CODECOPY s) (good ok s) (bad ok s)"
proof -
  have "wp (copyOp data sp0 sp1 sp2 s) (good ok s) (bad ok s)"
    if op: "m_OP s = CALLDATACOPY \<or> m_OP s = CODECOPY"
      and data: "\<And>s'. m_ext s' = m_ext s \<Longrightarrow> m_returnData s' = m_returnData s \<Longrightarrow> length (data s') < 2 ^ 64"
    for data sp0 sp1 sp2
  proof -
    have "m_runGas s = 3" "pc_ok (m_code s) (m_PC s + 1)"
      using op f pc_next [OF f] by (auto simp: fetched_def vm_inv_def metric_simps tierGas_bounds)
    then show ?thesis
      using copyOp_good [OF f b, of 3 data sp0 sp1 sp2] data runGas_update_same [of s 3] by simp
  qed
  then show "m_OP s = CALLDATACOPY \<Longrightarrow> wp (op_CALLDATACOPY s) (good ok s) (bad ok s)"
    "m_OP s = CODECOPY \<Longrightarrow> wp (op_CODECOPY s) (good ok s) (bad ok s)"
    using f by (auto simp: op_CALLDATACOPY_def op_CODECOPY_def fetched_def metric_simps vm_inv_def face_ok_def)
qed

lemma RETURNDATACOPY_case:
  assumes f: "fetched s" and b: "m_bounce s = InterpretCases" and op: "m_OP s = RETURNDATACOPY"
  shows "wp (op_RETURNDATACOPY s) (good ok s) (bad ok s)"
proof -
  have "m_runGas s = 3" "pc_ok (m_code s) (m_PC s + 1)" "m_SP s + 3 \<le> 1024"
    using op f pc_next [OF f] by (auto simp: fetched_def vm_inv_def metric_simps tierGas_bounds)
  then show ?thesis
    using copyOp_good [OF f b, of 3 m_returnData] fetched_facts(6) [OF f] runGas_update_same [of s 3]
    by (simp add: op_RETURNDATACOPY_def)
qed

section \<open>The contract with the host\<close>

text \<open>
  What the interpreter relies on in the functions behind \<^verbatim>\<open>ExtVMFace\<close>: from a world that satisfies
  its own invariant they leave the call's own data alone and keep that invariant, they give back no
  more gas than they were given, and they hand out buffers of the address space; the buffers they
  are given are pieces of the interpreter's memory.
\<close>

definition create_shape :: "'w host \<Rightarrow> 'w ExtVMFace \<Rightarrow> u256 \<Rightarrow> bytes \<Rightarrow> bool" where
  "create_shape H e v bs \<longleftrightarrow> depth e < 1024 \<and> v \<le> h_balance H e (myAddress e) \<and> length bs < 2 ^ 43"

definition call_shape :: "'w host \<Rightarrow> 'w ExtVMFace \<Rightarrow> CallParameters \<Rightarrow> bool" where
  "call_shape H e p \<longleftrightarrow> depth e < 1024 \<and> valueTransfer p \<le> h_balance H e (myAddress e) \<and>
     (valueTransfer p = 0 \<or> senderAddress p = myAddress e) \<and>
     (receiveAddress p = codeAddress p \<or> receiveAddress p = myAddress e) \<and> length (call_data p) < 2 ^ 43"

locale vm_host =
  fixes H :: "'w host" and ok :: "'w contract"
  assumes setStore_keeps: "holds ok e \<Longrightarrow> h_setStore H e k v = Some e' \<Longrightarrow> keeps ok e e'"
    and suicide_keeps: "holds ok e \<Longrightarrow> h_suicide H e a = Some e' \<Longrightarrow> keeps ok e e'"
    and log_keeps: "holds ok e \<Longrightarrow> keeps ok e (h_log H e ts bs)"
    and create_keeps: "holds ok e \<Longrightarrow> create_shape H e v bs \<Longrightarrow>
      h_create H e v g bs i salt = Some (r, g', e') \<Longrightarrow> keeps ok e e'"
    and call_keeps: "holds ok e \<Longrightarrow> call_shape H e p \<Longrightarrow> h_call H e p = Some (c, g', e') \<Longrightarrow> keeps ok e e'"
    and blockHash_keeps: "holds ok e \<Longrightarrow> h_blockHash H e n = Some (h, e') \<Longrightarrow> keeps ok e e'"
    and create_gas: "holds ok e \<Longrightarrow> create_shape H e v bs \<Longrightarrow>
      h_create H e v g bs i salt = Some (r, g', e') \<Longrightarrow> g' \<le> g"
    and call_gas: "holds ok e \<Longrightarrow> call_shape H e p \<Longrightarrow> h_call H e p = Some (c, g', e') \<Longrightarrow> g' \<le> gas p"
    and codeAt_size: "holds ok e \<Longrightarrow> length (h_codeAt H e a) < 2 ^ 64"
    and create_size: "holds ok e \<Longrightarrow> create_shape H e v bs \<Longrightarrow>
      h_create H e v g bs i salt = Some (r, g', e') \<Longrightarrow> length (create_output r) < 2 ^ 64"
    and call_size: "holds ok e \<Longrightarrow> call_shape H e p \<Longrightarrow> h_call H e p = Some (c, g', e') \<Longrightarrow>
      length (call_output c) < 2 ^ 64"
    and setStore_total: "snd ok \<Longrightarrow> holds ok e \<Longrightarrow> \<not> staticCall e \<Longrightarrow> h_setStore H e k v \<noteq> None"
    and suicide_total: "snd ok \<Longrightarrow> holds ok e \<Longrightarrow> h_suicide H e a \<noteq> None"
    and create_total: "snd ok \<Longrightarrow> holds ok e \<Longrightarrow> create_shape H e v bs \<Longrightarrow> h_create H e v g bs i salt \<noteq> None"
    and call_total: "snd ok \<Longrightarrow> holds ok e \<Longrightarrow> call_shape H e p \<Longrightarrow> h_call H e p \<noteq> None"
    and blockHash_total: "snd ok \<Longrightarrow> holds ok e \<Longrightarrow> h_blockHash H e n \<noteq> None"
begin

lemma setStore_sub_keeps: "holds ok e \<Longrightarrow> h_setStore H (e\<lparr>sub := x\<rparr>) k v = Some e' \<Longrightarrow> keeps ok e e'"
  using setStore_keeps [of "e\<lparr>sub := x\<rparr>" k v e'] by simp

lemma setStore_sub_total: "snd ok \<Longrightarrow> holds ok e \<Longrightarrow> \<not> staticCall e \<Longrightarrow> h_setStore H (e\<lparr>sub := x\<rparr>) k v \<noteq> None"
  using setStore_total [of "e\<lparr>sub := x\<rparr>" k v] by simp

lemma SSTORE_case:
  assumes "fetched s" "m_bounce s = InterpretCases" "holds ok (m_ext s)" "m_OP s = SSTORE"
  shows "wp (op_SSTORE H s) (good ok s) (bad ok s)"
  using assms pc_next [OF assms(1)]
  unfolding op_SSTORE_def updateSSGas_def
  by (auto simp: fetched_def vm_inv_def metric_simps good_def bad_def same_code_def mem_ok_def gas_less
      gas_le not_less sane_schedule_def setStore_keeps setStore_sub_keeps setStore_total setStore_sub_total
      split: option.split)

lemma BLOCKHASH_case:
  assumes "fetched s" "m_bounce s = InterpretCases" "holds ok (m_ext s)" "m_OP s = BLOCKHASH"
  shows "wp (op_BLOCKHASH H s) (good ok s) (bad ok s)"
  using assms pc_next [OF assms(1)] blockHash_keeps blockHash_total [of "m_ext s" "m_stack s (m_SP s)"]
  unfolding op_BLOCKHASH_def
  by (auto simp: fetched_def vm_inv_def metric_simps sane_schedule_def good_def bad_def same_code_def
      mem_ok_def gas_less not_less gas_le split: option.split)

lemma LOG_case:
  assumes f: "fetched s" and b: "m_bounce s = InterpretCases" and w: "holds ok (m_ext s)" and op: "m_OP s = LOG n"
  shows "wp (op_LOG H n s) (good ok s) (bad ok s)"
proof -
  let ?off = "m_stack s (m_SP s)" and ?siz = "m_stack s (Suc (m_SP s))"
  define g where "g = unat (logGas (m_schedule s) + logTopicGas (m_schedule s) * word_of_nat n) +
      unat (logDataGas (m_schedule s)) * unat ?siz"
  have n: "n \<le> 4"
    using fetched_proper [OF f] op by simp
  have pc: "pc_ok (m_code s) (m_PC s + 1)"
    using pc_next [OF f] op by (simp add: width_def)
  have facts: "m_SP s + (n + 2) \<le> 1024" "0 < g"
    using f op log_charge_pos [of "m_schedule s" n] n
    by (auto simp: fetched_def vm_inv_def metric_simps g_def)
  let ?s = "s\<lparr>m_runGas := word_of_nat g\<rparr>"
  let ?topics = "map (\<lambda>i. m_stack s (m_SP s + i)) [2..<n + 2]"
  let ?k = "\<lambda>s. readMem (unat (ucast ?off :: u64)) (unat (ucast ?siz :: u64))
      (\<lambda>bs s. nextOp (s\<lparr>m_ext := h_log H (m_ext s) ?topics bs\<rparr>)) s"
  have "wp (memNeed ?off ?siz (\<lambda>need s. bind_res (updateMem need s) (\<lambda>s. bind_res (updateIOGas s) ?k)) ?s)
      (good ok s) (bad ok s)"
    if "g \<le> 0x7FFFFFFFFFFFFFFF"
    using facts pc b fetched_facts [OF f] that w log_keeps
    by (intro region_access)
      (auto simp: mem_ok_def toInt63_unat bad_def covered_def paid_def wp_readMem intro!: good_intro)
  then have "wp (bind_res (memNeed ?off ?siz (\<lambda>need s. updateMem need s) ?s)
      (\<lambda>s. bind_res (updateIOGas s) ?k)) (good ok s) (bad ok s)" if "g \<le> 0x7FFFFFFFFFFFFFFF"
    using that unfolding bind_memNeed by blast
  then show ?thesis
    using facts(1)
    by (simp add: op_LOG_def logGasMem_def wp_toInt63 g_def [symmetric] del: upt_Suc)
qed

lemma SUICIDE_case:
  assumes "fetched s" "m_bounce s = InterpretCases" "holds ok (m_ext s)" "m_OP s = SUICIDE"
  shows "wp (op_SUICIDE H s) (good ok s) (bad ok s)"
  using assms unfolding op_SUICIDE_def
  by (auto simp: fetched_def vm_inv_def metric_simps good_def bad_def same_code_def gas_le not_less Let_def
      suicide_keeps suicide_total split: option.split)

lemma EXTCODECOPY_case:
  assumes f: "fetched s" and b: "m_bounce s = InterpretCases" and w: "holds ok (m_ext s)" and op: "m_OP s = EXTCODECOPY"
  shows "wp (op_EXTCODECOPY H s) (good ok s) (bad ok s)"
proof -
  have "0 < unat (extcodecopyGas (m_schedule s))" "pc_ok (m_code s) (m_PC s + 1)" "m_SP s + 4 \<le> 1024"
    using op f pc_next [OF f] by (auto simp: fetched_def vm_inv_def metric_simps sane_schedule_def unat_gt_0)
  moreover have "unat (extcodecopyGas (m_schedule s)) < 2 ^ 33"
    using unat_u32_less [of "extcodecopyGas (m_schedule s)"] by simp
  ultimately show ?thesis
    using copyOp_good [OF f b, of "ucast (extcodecopyGas (m_schedule s))"] codeAt_size w
    by (simp add: op_EXTCODECOPY_def)
qed

end

end
