(* ===== verification/LegacyVM_Calls.thy ===== *)
theory LegacyVM_Calls
  imports LegacyVM_Cases
begin

text \<open>
  The cases that call out (\<^verbatim>\<open>caseCreate\<close>, \<^verbatim>\<open>caseCall\<close>): they stay inside the arrays and leave less
  gas than they found, whatever the host does within its contract.
\<close>

section \<open>Creating and calling\<close>

lemma unat_u64_u256 [simp]: "unat (ucast (w :: u64) :: u256) = unat w"
proof -
  have "unat w < 2 ^ 64"
    using unsigned_less [of w] by simp
  then show ?thesis
    by (simp add: unsigned_ucast_eq take_bit_nat_eq_self_iff)
qed

lemma unat_u32_u256 [simp]: "unat (ucast (w :: u32) :: u256) = unat w"
  using unat_u32_less [of w] by (simp add: unsigned_ucast_eq take_bit_nat_eq_self_iff)

lemma unat_ucast_le: "unat (ucast (w :: u256) :: u64) \<le> unat w"
  by (simp add: unsigned_ucast_eq take_bit_nat_less_eq_self)

text \<open>The gas left after a creation that was given all but one 64th and returned \<open>g'\<close> of it.\<close>

lemma create_gas_left:
  fixes io :: u64 and cg g' :: u256
  assumes "cg \<le> ucast io" and "g' \<le> cg"
  shows "unat (ucast ((ucast io :: u256) - (cg - g')) :: u64) \<le> unat io"
proof -
  have "cg - g' \<le> ucast io"
    using assms by (meson order.trans word_sub_le)
  then have "(ucast io :: u256) - (cg - g') \<le> ucast io"
    by (rule word_sub_le)
  then have "unat ((ucast io :: u256) - (cg - g')) \<le> unat io"
    by (simp add: word_le_nat_alt)
  then show ?thesis
    using unat_ucast_le order.trans by blast
qed

lemma all_but_64th_le: "(io :: u256) - io div 64 \<le> io"
proof -
  have "io div 64 \<le> io"
    by (simp add: word_le_nat_alt unat_div)
  then show ?thesis by (rule word_sub_le)
qed

context vm_host
begin

lemma createPaid_good:
  assumes p: "paid 0 t s'" and cov: "covered off siz (length (m_mem s'))"
    and t: "m_bounce t = InterpretCases" "m_code t = m_code s"
      "m_jumpDests t = m_jumpDests s" "m_schedule t = m_schedule s" "m_SPP t = m_SPP s" "m_ext t = m_ext s"
      "m_PC t = m_PC s" "m_io_gas t = m_io_gas s" "0 < unat (m_runGas t)"
    and s: "m_SPP s < 1024" "pc_ok (m_code s) (m_PC s + 1)" "holds ok (m_ext s)" "m_output t = m_output s"
  shows "wp (createPaid H v salt off siz s') (good ok s) (bad ok s)"
proof -
  define io where "io = (ucast (m_io_gas s') :: u256)"
  define cg where "cg = createGasFor s'"
  define code where "code = take (unat (ucast siz :: u64)) (drop (unat (ucast off :: u64)) (m_mem s'))"
  define result where "result = h_create H (m_ext s') v cg code (m_OP s') salt"
  have less: "unat (m_io_gas s') < unat (m_io_gas s)"
    using p t by (auto simp: paid_def)
  define go where "go \<longleftrightarrow> h_balance H (m_ext s') (myAddress (m_ext s')) \<ge> v \<and> depth (m_ext s') < 1024"
  have w: "holds ok (m_ext s')" and shape: "go \<Longrightarrow> create_shape H (m_ext s') v code"
    using p t s by (auto simp: paid_def code_def mem_ok_def create_shape_def go_def)
  have face: "keeps ok (m_ext s') e' \<and> length (create_output r) < 2 ^ 64 \<and>
      unat (ucast (io - (cg - g')) :: u64) < unat (m_io_gas s)"
    if go "result = Some (r, g', e')" for r g' e'
  proof -
    note c = that(2) [unfolded result_def] and sh = shape [OF that(1)]
    have "unat (ucast (io - (cg - g')) :: u64) \<le> unat (m_io_gas s')"
      unfolding io_def using create_gas [OF w sh c]
      by (intro create_gas_left) (simp_all add: cg_def createGasFor_def Let_def all_but_64th_le)
    then show ?thesis
      using create_keeps [OF w sh c] create_size [OF w sh c] less by simp
  qed
  have tot: "result \<noteq> None" if go "snd ok"
    unfolding result_def using create_total [OF that(2) w shape [OF that(1)]] .
  have cg': "createGasFor (s'\<lparr>m_returnData := []\<rparr>) = cg"
    by (simp add: cg_def createGasFor_def)
  have eq: "createPaid H v salt off siz s' =
    (let s = s'\<lparr>m_returnData := []\<rparr> in
     if go
     then (case result of None \<Rightarrow> throwHostException s | Some (r, g', e') \<Rightarrow>
            bind_res (setSPP (fromAddress (create_address r)) (s\<lparr>m_ext := e'\<rparr>)) (\<lambda>s.
            nextOp (s\<lparr>m_returnData := create_output r, m_io_gas := ucast (io - (cg - g'))\<rparr>)))
     else bind_res (setSPP 0 s) nextOp)"
    using cov by (simp add: createPaid_def Let_def readMem_def readBytes_def covered_def io_def [symmetric]
        cg' code_def [symmetric] result_def [symmetric] go_def)
  show ?thesis
    using p t s less face tot unfolding eq
    by (auto simp: Let_def paid_def mem_ok_def bad_def word_le_nat_alt
        intro!: good_intro split: option.split)
qed

lemma caseCreate_good:
  assumes f: "fetched s" and w: "holds ok (m_ext s)" and op: "m_OP s = CREATE \<or> m_OP s = CREATE2"
  shows "wp (caseCreate H s) (good ok s) (bad ok s)"
proof -
  let ?n = "if m_OP s = CREATE then 3 else 4 :: nat"
  let ?a = "\<lambda>i. m_stack s (m_SP s + i)"
  let ?off = "if m_OP s = CREATE then ?a 1 else ?a 2"
  let ?siz = "if m_OP s = CREATE then ?a 2 else ?a 3"
  let ?salt = "if m_OP s = CREATE then 0 else ?a 1"
  have facts: "m_SP s + ?n \<le> 1024" "m_SPP s < 1024" "pc_ok (m_code s) (m_PC s + 1)"
    "0 < createGas (m_schedule s)"
    using f pc_next [OF f] op by (auto simp: fetched_def vm_inv_def metric_simps sane_schedule_def)
  let ?s = "s\<lparr>m_bounce := InterpretCases, m_runGas := ucast (createGas (m_schedule s))\<rparr>"
  have "wp (memNeed ?off ?siz (\<lambda>need s. bind_res (updateMem need s) (\<lambda>s. bind_res (updateIOGas s)
      (createPaid H (?a 0) ?salt ?off ?siz))) ?s) (good ok s) (bad ok s)"
  proof (rule region_access)
    fix s' assume "paid 0 ?s s'" and "covered ?off ?siz (length (m_mem s'))"
    then show "wp (createPaid H (?a 0) ?salt ?off ?siz s') (good ok s) (bad ok s)"
      by (rule createPaid_good) (use facts w in \<open>simp_all add: word_less_nat_alt\<close>)
  qed (use f fetched_facts [OF f] unat_u32_less [of "createGas (m_schedule s)"] in
      \<open>auto simp: mem_ok_def bad_def\<close>)
  with facts(1) show ?thesis
    by (cases "m_OP s = CREATE") (simp_all add: caseCreate_def Let_def)
qed

lemma callBody_good:
  assumes s': "m_bounce s' = InterpretCases" "m_code s' = m_code s" "m_jumpDests s' = m_jumpDests s"
      "m_schedule s' = m_schedule s" "m_SPP s' = m_SPP s" "m_ext s' = m_ext s" "m_PC s' = m_PC s"
      "mem_ok s'" "m_returnData s' = []" "m_output s' = m_output s"
    and gas: "unat (m_io_gas s') + unat (gas p) < unat (m_io_gas s)"
    and out: "outSize = 0 \<or> outOff + outSize \<le> length (m_mem s')"
    and s: "m_SPP s < 1024" "pc_ok (m_code s) (m_PC s + 1)" "holds ok (m_ext s)"
    and shape: "go \<Longrightarrow> call_shape H (m_ext s) p"
  shows "wp (callBody H go p outOff outSize s') (good ok s) (bad ok s)"
proof -
  have io: "unat (m_io_gas s' + ucast g) < unat (m_io_gas s)" if "g \<le> gas p" for g :: u256
  proof -
    have "unat (ucast g :: u64) \<le> unat (gas p)"
      using that unat_ucast_le [of g] by (simp add: word_le_nat_alt)
    moreover have "unat (m_io_gas s) < 2 ^ 64"
      using unsigned_less [of "m_io_gas s"] by simp
    ultimately show ?thesis
      using gas by (subst unat_plus_no_wrap) linarith+
  qed
  have w: "holds ok (m_ext s')" and data: "go \<Longrightarrow> call_shape H (m_ext s') p"
    using s'(6) s(3) shape by simp_all
  have "outOff + min n outSize \<le> length (m_mem s')" if "outSize \<noteq> 0" for n
    using out that by simp
  moreover have "unat (m_io_gas s') \<le> unat (m_io_gas s)"
    using gas by simp
  ultimately show ?thesis
    using s' s io [OF call_gas [OF w data]] io [OF order.refl] call_keeps [OF w data] call_size [OF w data] call_total [OF _ w data]
    by (cases "outSize = 0") (auto simp: callBody_def mem_ok_def bad_def word_le_nat_alt
        intro!: good_intro wp_writeMem split: option.split)
qed

end

lemma callCharges_stipend:
  assumes "sane_schedule (m_schedule s)"
  shows "(if (m_OP s = CALL \<or> m_OP s = CALLCODE) \<and> a 2 > 0 then unat (callStipend (m_schedule s)) else 0)
    < unat (callCharges H a s)" (is "?stipend < _")
    and "unat (callCharges H a s) < 2 ^ 34"
proof -
  let ?sch = "m_schedule s"
  let ?new = "if m_OP s = CALL \<and> \<not> h_exists H (m_ext s) (asAddress (a 1)) \<and>
      (a 2 > 0 \<or> zeroValueTransferChargesNewAccountGas ?sch) then callNewAccountGas ?sch else 0"
  let ?val = "if (m_OP s = CALL \<or> m_OP s = CALLCODE) \<and> a 2 > 0 then callValueTransferGas ?sch else 0"
  have "callCharges H a s = ucast (callGas ?sch) + ucast ?new + ucast ?val"
    by (simp add: callCharges_def)
  then have eq: "unat (callCharges H a s) = unat (callGas ?sch) + unat ?new + unat ?val"
    using unat_u32_less [of "callGas ?sch"] unat_u32_less [of ?new] unat_u32_less [of ?val]
    by (simp only: unat_word_ariths unat_u32_u64) simp
  have "0 < unat (callGas ?sch)" "unat (callStipend ?sch) \<le> unat (callValueTransferGas ?sch)"
    using assms by (simp_all add: sane_schedule_def word_less_nat_alt word_le_nat_alt)
  then show "?stipend < unat (callCharges H a s)"
    unfolding eq by simp
  show "unat (callCharges H a s) < 2 ^ 34"
    unfolding eq
    using unat_u32_less [of "callGas ?sch"] unat_u32_less [of ?new] unat_u32_less [of ?val] by simp
qed

context vm_host
begin

lemma callSetupPaid_good:
  assumes p: "paid 0 t s'" and inp: "covered (a so) (a (so + 1)) (length (m_mem s'))"
    and outp: "covered (a (so + 2)) (a (so + 3)) (length (m_mem s'))"
    and t: "m_bounce t = InterpretCases" "m_code t = m_code s"
      "m_jumpDests t = m_jumpDests s" "m_schedule t = m_schedule s" "m_SPP t = m_SPP s" "m_ext t = m_ext s"
      "m_PC t = m_PC s" "m_io_gas t = m_io_gas s" "m_returnData t = []" "m_output t = m_output s" "m_OP t = m_OP s"
      "m_runGas t = callCharges H a s"
    and s: "m_SPP s < 1024" "pc_ok (m_code s) (m_PC s + 1)" "sane_schedule (m_schedule s)" "holds ok (m_ext s)"
  shows "wp (callSetupPaid H (callBody H) a so s') (good ok s) (bad ok s)"
proof -
  define cgas where "cgas = callGasFor (a 0) s'"
  let ?stipend = "if (m_OP s = CALL \<or> m_OP s = CALLCODE) \<and> a 2 > 0
      then unat (callStipend (m_schedule s)) else 0"
  have io: "unat (m_io_gas s') + ?stipend < unat (m_io_gas s)"
    using callCharges_stipend(1) [OF s(3), of a H] p t by (simp add: paid_def)
  have sched: "m_schedule s' = m_schedule s" "m_OP s' = m_OP s"
    using p t by (simp_all add: paid_def)
  show ?thesis
  proof (cases "unat cgas \<le> 0x7FFFFFFFFFFFFFFF \<and> \<not> m_io_gas s' < word_of_nat (unat cgas)")
    case True
    let ?g = "word_of_nat (unat cgas) :: u64"
    let ?s = "s'\<lparr>m_runGas := ?g, m_io_gas := m_io_gas s' - ?g\<rparr>"
    let ?p = "callParamsFor a cgas ?s"
    have g: "unat ?g = unat cgas" "?g \<le> m_io_gas s'"
      using True by (auto simp: unat_ucast_64 toInt63_unat not_less)
    have "?stipend < 2 ^ 32"
      using unat_u32_less [of "callStipend (m_schedule s)"] by simp
    then have gp: "unat (gas ?p) = unat cgas + ?stipend"
      using True by (auto simp: callParamsFor_def Let_def sched unat_word_ariths)
    have "unat (m_io_gas ?s) + unat (gas ?p) < unat (m_io_gas s)"
      using io g unfolding gp by (simp add: unat_sub word_le_nat_alt)
    moreover have "gas (?p\<lparr>senderAddress := x, receiveAddress := y, call_data := z\<rparr>) = gas ?p" for x y z
      by simp
    ultimately have body: "wp (callBody H go (if go then ?p\<lparr>senderAddress := x, receiveAddress := y,
        call_data := take n (drop m (m_mem s'))\<rparr> else ?p) (unat (ucast (a (so + 2)) :: u64)) (unat (ucast (a (so + 3)) :: u64)) ?s) (good ok s) (bad ok s)"
      if "go \<Longrightarrow> call_shape H (m_ext s) (?p\<lparr>senderAddress := x, receiveAddress := y, call_data := take n (drop m (m_mem s'))\<rparr>)"
      for go x y n m
      using p t s outp that by (intro callBody_good) (auto simp: paid_def covered_def mem_ok_def)
    define x y where "x = (if m_OP s = DELEGATECALL then caller (m_ext s) else myAddress (m_ext s))"
      and "y = (if m_OP s = CALL \<or> m_OP s = STATICCALL then codeAddress ?p else myAddress (m_ext s))"
    have ext: "m_ext s' = m_ext s"
      using p t by (simp add: paid_def)
    have "call_shape H (m_ext s) (?p\<lparr>senderAddress := x, receiveAddress := y, call_data := take n (drop m (m_mem s'))\<rparr>)"
      if "valueTransfer ?p \<le> h_balance H (m_ext s) (myAddress (m_ext s))" "depth (m_ext s) < 1024" for n m
      using that p sched(2) by (auto simp: call_shape_def x_def y_def callParamsFor_def Let_def paid_def mem_ok_def)
    then have go: "wp (callBody H True (?p\<lparr>senderAddress := x, receiveAddress := y, call_data := take n (drop m (m_mem s'))\<rparr>)
        (unat (ucast (a (so + 2)) :: u64)) (unat (ucast (a (so + 3)) :: u64)) ?s) (good ok s) (bad ok s)"
      if "valueTransfer ?p \<le> h_balance H (m_ext s) (myAddress (m_ext s))" "depth (m_ext s) < 1024" for n m
      using body [where go = True and x = x and y = y and n = n and m = m] that by simp
    show ?thesis
      using True inp go go [where n = 0 and m = 0] body [where go = False] p sched(2) ext
      by (auto simp: callSetupPaid_def cgas_def [symmetric] wp_toInt63 Let_def wp_readMem covered_def x_def y_def)
  next
    case False
    then show ?thesis
      using p t by (auto simp: callSetupPaid_def cgas_def [symmetric] wp_toInt63 bad_def paid_def)
  qed
qed

lemma caseCall_good:
  assumes f: "fetched s" and w: "holds ok (m_ext s)" and op: "m_OP s \<in> {CALL, CALLCODE, DELEGATECALL, STATICCALL}"
  shows "wp (caseCall H s) (good ok s) (bad ok s)"
proof -
  define so :: nat where "so = (if m_OP s = CALL \<or> m_OP s = CALLCODE then 3 else 2)"
  let ?a = "\<lambda>i. m_stack s (m_SP s + i)"
  let ?s0 = "s\<lparr>m_bounce := InterpretCases, m_returnData := []\<rparr>"
  let ?t = "?s0\<lparr>m_runGas := callCharges H ?a ?s0\<rparr>"
  have facts: "m_SP s + (so + 4) \<le> 1024" "m_SPP s < 1024" "pc_ok (m_code s) (m_PC s + 1)"
    using f pc_next [OF f] op by (auto simp: fetched_def vm_inv_def metric_simps so_def)
  note ff = fetched_facts [OF f]
  have charges: "callCharges H ?a ?s0 = callCharges H ?a s"
    by (simp add: callCharges_def)
  have E: "bad ok s OutOfGas s'" if "m_io_gas s' = m_io_gas ?t" "m_ext s' = m_ext ?t" for s'
    using that by (simp add: bad_def)
  have pay: "wp (bind_res (updateMem (max i j) ?t) (\<lambda>s. bind_res (updateIOGas s)
      (callSetupPaid H (callBody H) ?a so))) (good ok s) (bad ok s)"
    if i: "unat i \<le> 0x7FFFFFFFFFFFFFFF" "\<And>len. unat i \<le> len \<Longrightarrow> covered (?a so) (?a (so + 1)) len"
      and j: "unat j \<le> 0x7FFFFFFFFFFFFFFF" "\<And>len. unat j \<le> len \<Longrightarrow> covered (?a (so + 2)) (?a (so + 3)) len"
    for i j :: u64
  proof (rule wp_pay)
    fix s' assume p: "paid (unat (max i j)) ?t s'"
    then have "unat (max i j) \<le> length (m_mem s')" "paid 0 ?t s'"
      by (simp_all add: paid_def)
    then have "unat i \<le> length (m_mem s')" "unat j \<le> length (m_mem s')" "paid 0 ?t s'"
      by (auto simp: max_def word_le_nat_alt split: if_splits)
    then show "wp (callSetupPaid H (callBody H) ?a so s') (good ok s) (bad ok s)"
      using i(2) j(2) facts ff charges w by (intro callSetupPaid_good [where t = "?t"]) auto
  next
    show "unat (m_runGas ?t) < 2 ^ 33 \<or> unat (m_runGas ?t) < 2 ^ 63 \<and> m_copyMemSize ?t = 0"
      using ff callCharges_stipend(2) [OF ff(5), of H ?a] by (simp add: charges)
    show "unat (max i j) < 2 ^ 63 + 32"
      using i(1) j(1) by (simp add: max_def)
  qed (use ff E in \<open>auto simp: mem_ok_def\<close>)
  have "wp (memNeed (?a so) (?a (so + 1)) (\<lambda>i. memNeed (?a (so + 2)) (?a (so + 3)) (\<lambda>j s.
      bind_res (updateMem (max i j) s) (\<lambda>s. bind_res (updateIOGas s)
      (callSetupPaid H (callBody H) ?a so)))) ?t) (good ok s) (bad ok s)"
    by (intro wp_memNeed pay E) simp_all
  then show ?thesis
    using facts(1) by (simp add: caseCall_def caseCallSetup_def so_def [symmetric] Let_def del: wp_simps(3))
qed

end

end
