(* ===== verification/LegacyVM_Code.thy ===== *)
theory LegacyVM_Code
  imports LegacyVM_Safety
begin

text \<open>
  The preparation of the code (\<^verbatim>\<open>initEntry\<close>, \<^verbatim>\<open>optimize\<close>) and the check of jumps against it: the
  recorded destinations are exactly the \<^verbatim>\<open>JUMPDEST\<close> bytes at instruction boundaries.
\<close>

section \<open>Instruction boundaries\<close>

lemma width_pos: "0 < width i"
  by (simp add: width_def split: Instruction.split)

lemma start_apart:
  "start c i \<Longrightarrow> start c j \<Longrightarrow> i < j \<Longrightarrow> i < length c \<Longrightarrow> i + width (decode (c ! i)) \<le> j"
proof (induction "i + j" arbitrary: i j rule: less_induct)
  case less
  from less.prems(2) show ?case
  proof cases
    case zero
    then show ?thesis using less.prems(3) by simp
  next
    case (step k)
    have kj: "k < j" using step(1) width_pos [of "decode (c ! k)"] by simp
    consider "i < k" | "i = k" | "k < i" by linarith
    then show ?thesis
    proof cases
      case 1
      then have "i + width (decode (c ! i)) \<le> k"
        using less.hyps [of i k] less.prems step kj by simp
      then show ?thesis using kj by simp
    next
      case 2
      then show ?thesis using step by simp
    next
      case 3
      then have "k + width (decode (c ! k)) \<le> i"
        using less.hyps [of k i] less.prems step kj by simp
      then show ?thesis using step less.prems by simp
    qed
  qed
qed

text \<open>Codes that agree on the widths at the boundaries have the same boundaries.\<close>

lemma start_transfer:
  assumes "start c i" and "length c' = length c"
    and "\<And>i. start c i \<Longrightarrow> i < length c \<Longrightarrow> width (decode (c' ! i)) = width (decode (c ! i))"
  shows "start c' i"
  using assms(1)
proof induction
  case (step i)
  then show ?case
    using start.step [of c' i] assms(2,3) by simp
qed (rule start.zero)

lemma start_transfer':
  assumes "start c' i" and "length c' = length c"
    and "\<And>i. start c i \<Longrightarrow> i < length c \<Longrightarrow> width (decode (c' ! i)) = width (decode (c ! i))"
  shows "start c i"
  using assms(1)
proof induction
  case (step i)
  then show ?case
    using start.step [of c i] assms(2,3) by simp
qed (rule start.zero)

lemma start_append: "i < length c \<Longrightarrow> start (c @ z) i = start c i"
proof
  assume "start (c @ z) i" "i < length c"
  then show "start c i"
  proof induction
    case (step i)
    then have "i < length c" by simp
    with step show ?case using start.step [of c i] by (simp add: nth_append)
  qed (rule start.zero)
next
  assume "start c i" "i < length c"
  then show "start (c @ z) i"
  proof induction
    case (step i)
    then show ?case using start.step [of "c @ z" i] by (simp add: nth_append)
  qed (rule start.zero)
qed

section \<open>The scan of the code\<close>

lemma filter_upt_skip:
  assumes "\<And>i. a < i \<Longrightarrow> i < a + w \<Longrightarrow> \<not> P i" and "a < n" and "0 < w"
  shows "filter P [a..<n] = (if P a then [a] else []) @ filter P [a + w..<n]"
proof -
  have "filter P [Suc a..<n] = filter P [a + w..<n]"
  proof (cases "a + w \<le> n")
    case True
    have "[Suc a..<n] = [Suc a..<a + w] @ [a + w..<n]"
      using True assms(3) by (metis add_Suc_right le_add_diff_inverse less_iff_Suc_add add_Suc
          le_add1 upt_add_eq_append)
    moreover have "filter P [Suc a..<a + w] = []"
      using assms(1) by (auto simp: filter_empty_conv)
    ultimately show ?thesis by simp
  next
    case False
    then have "filter P [Suc a..<n] = []"
      using assms(1) by (auto simp: filter_empty_conv)
    then show ?thesis using False by simp
  qed
  then show ?thesis
    using assms(2) by (simp add: upt_conv_Cons)
qed

definition private_op :: "Instruction \<Rightarrow> bool" where
  "private_op i \<longleftrightarrow> i = PUSHC \<or> i = JUMPC \<or> i = JUMPCI"

definition jumpdest_at :: "bytes \<Rightarrow> nat \<Rightarrow> bool" where
  "jumpdest_at c i \<longleftrightarrow> start c i \<and> decode (c ! i) = JUMPDEST"

lemma optimizeLoop_step:
  "pc < n \<Longrightarrow> optimizeLoop n pc code dests =
     optimizeLoop n (pc + width (decode (code ! pc)))
       (if private_op (decode (code ! pc)) then code[pc := 0xfe] else code)
       (if decode (code ! pc) = JUMPDEST then dests @ [word_of_nat pc] else dests)"
  by (subst optimizeLoop.simps)
    (cases "decode (code ! pc)"; simp add: width_def private_op_def Let_def)

lemma optimizeLoop_spec:
  assumes "start c pc" and "n \<le> length c" and "length code = length c"
    and "\<And>i. pc \<le> i \<Longrightarrow> code ! i = c ! i" and "optimizeLoop n pc code dests = (code', dests')"
  shows "length code' = length c \<and>
    (\<forall>i < length c. code' ! i = (if pc \<le> i \<and> i < n \<and> start c i \<and> private_op (decode (c ! i)) then 0xfe else code ! i)) \<and>
    dests' = dests @ map word_of_nat (filter (jumpdest_at c) [pc..<n])"
  using assms
proof (induction "n - pc" arbitrary: pc code dests rule: less_induct)
  case less
  show ?case
  proof (cases "pc < n")
    case False
    then show ?thesis
      using less.prems by (auto simp: optimizeLoop.simps [of n pc])
  next
    case True
    let ?w = "width (decode (c ! pc))"
    let ?code = "if private_op (decode (c ! pc)) then code[pc := 0xfe] else code"
    let ?dests = "if decode (c ! pc) = JUMPDEST then dests @ [word_of_nat pc] else dests"
    have pc: "code ! pc = c ! pc" "pc < length c"
      using less.prems True by auto
    have w: "0 < ?w" by (rule width_pos)
    have next_start: "start c (pc + ?w)"
      using less.prems(1) pc(2) by (rule start.step)
    have loop: "optimizeLoop n (pc + ?w) ?code ?dests = (code', dests')"
      using less.prems(5) optimizeLoop_step [OF True, of code dests] by (simp add: pc(1))
    have rest: "?code ! i = c ! i" if "pc + ?w \<le> i" for i
      using less.prems(4) [of i] that w by simp
    have IH: "length code' = length c \<and>
      (\<forall>i < length c. code' ! i = (if pc + ?w \<le> i \<and> i < n \<and> start c i \<and> private_op (decode (c ! i)) then 0xfe else ?code ! i)) \<and>
      dests' = ?dests @ map word_of_nat (filter (jumpdest_at c) [pc + ?w..<n])"
      using True w less.prems(2,3) by (intro less.hyps next_start rest loop) auto
    have gap: "\<not> start c i" if "pc < i" "i < pc + ?w" for i
      using start_apart [OF less.prems(1) _ that(1) pc(2)] that(2) by auto
    have "filter (jumpdest_at c) [pc..<n] =
        (if jumpdest_at c pc then [pc] else []) @ filter (jumpdest_at c) [pc + ?w..<n]"
      using gap True w by (intro filter_upt_skip) (auto simp: jumpdest_at_def)
    moreover have "code' ! i = (if pc \<le> i \<and> i < n \<and> start c i \<and> private_op (decode (c ! i)) then 0xfe else code ! i)"
      if i: "i < length c" for i
    proof -
      consider "i < pc" | "i = pc" | "pc < i" "i < pc + ?w" | "pc + ?w \<le> i"
        by linarith
      then show ?thesis
        using IH i gap [of i] less.prems(1,3) True w pc
        by cases auto
    qed
    ultimately show ?thesis
      using IH less.prems(1) by (auto simp: jumpdest_at_def)
  qed
qed

section \<open>The prepared code\<close>

lemma width_private: "private_op i \<Longrightarrow> width i = 1" "width INVALID = 1"
  by (auto simp: private_op_def width_def)

lemma optimize_facts:
  assumes "m_jumpDests s = []"
  defines "c \<equiv> ext_code (m_ext s) @ replicate 33 0" and "n \<equiv> length (ext_code (m_ext s))"
  shows "length (m_code (optimize s)) = n + 33"
    and "\<And>i. start (m_code (optimize s)) i = start c i"
    and "\<And>i. i < n + 33 \<Longrightarrow> start c i \<Longrightarrow> decode (m_code (optimize s) ! i) =
          (if private_op (decode (c ! i)) then INVALID else decode (c ! i))"
    and "\<And>i. n \<le> i \<Longrightarrow> i < n + 33 \<Longrightarrow> m_code (optimize s) ! i = 0"
    and "m_jumpDests (optimize s) = map word_of_nat (filter (jumpdest_at c) [0..<n])"
    and "optimize s = s\<lparr>m_code := m_code (optimize s), m_jumpDests := m_jumpDests (optimize s)\<rparr>"
proof -
  obtain code dests where l: "optimizeLoop n 0 c [] = (code, dests)"
    by fastforce
  have o: "optimize s = s\<lparr>m_code := code, m_jumpDests := dests\<rparr>"
    using l assms(1) by (cases s) (simp add: optimize_def copyCode_def c_def n_def)
  have spec: "length code = length c"
    "\<And>i. i < length c \<Longrightarrow> code ! i = (if i < n \<and> start c i \<and> private_op (decode (c ! i)) then 0xfe else c ! i)"
    "dests = map word_of_nat (filter (jumpdest_at c) [0..<n])"
    using optimizeLoop_spec [OF start.zero _ refl refl l] by (auto simp: c_def n_def)
  have len: "length c = n + 33" by (simp add: c_def n_def)
  have zero: "c ! i = 0" if "n \<le> i" "i < n + 33" for i
    using that by (auto simp: c_def n_def nth_append)
  have dec: "decode (code ! i) = (if private_op (decode (c ! i)) then INVALID else decode (c ! i))"
    if "i < n + 33" "start c i" for i
  proof (cases "i < n")
    case True
    then show ?thesis using that by (simp add: spec(2) len)
  next
    case False
    then show ?thesis using that zero [of i] by (simp add: spec(2) len private_op_def)
  qed
  then have w: "width (decode (code ! i)) = width (decode (c ! i))" if "start c i" "i < length c" for i
    using that by (simp add: len width_private)
  show "start (m_code (optimize s)) i = start c i" for i
    using start_transfer [OF _ spec(1) w] start_transfer' [OF _ spec(1) w] by (auto simp: o)
  show "length (m_code (optimize s)) = n + 33" "m_jumpDests (optimize s) = map word_of_nat (filter (jumpdest_at c) [0..<n])"
    "optimize s = s\<lparr>m_code := m_code (optimize s), m_jumpDests := m_jumpDests (optimize s)\<rparr>"
    using spec by (simp_all add: o len)
  show "i < n + 33 \<Longrightarrow> start c i \<Longrightarrow> decode (m_code (optimize s) ! i) =
      (if private_op (decode (c ! i)) then INVALID else decode (c ! i))" for i
    by (simp add: o dec)
  show "n \<le> i \<Longrightarrow> i < n + 33 \<Longrightarrow> m_code (optimize s) ! i = 0" for i
    using zero [of i] by (simp add: o spec(2) len)
qed

lemma unat_word_nat: "i < 2 ^ 64 \<Longrightarrow> unat (word_of_nat i :: u64) = i"
  by (simp add: unat_of_nat)

lemma optimize_code_ok:
  assumes "m_jumpDests s = []" and "length (ext_code (m_ext s)) + 33 < 2 ^ 63"
  shows "code_ok (m_code (optimize s)) (m_jumpDests (optimize s))"
  using optimize_facts [OF assms(1)] assms(2)
  by (auto simp: code_ok_def list_all_iff unat_word_nat jumpdest_at_def private_op_def)

section \<open>Binary search\<close>

lemma binary_search_complete:
  "sorted_wrt (<) xs \<Longrightarrow> hi \<le> length xs \<Longrightarrow> lo \<le> i \<Longrightarrow> i < hi \<Longrightarrow> xs ! i = v \<Longrightarrow> binary_search xs v lo hi"
proof (induction xs v lo hi rule: binary_search.induct)
  case (1 xs v lo hi)
  let ?mid = "(lo + hi) div 2"
  have lt: "lo < hi" "?mid < length xs" using "1.prems" by auto
  have less: "xs ! a < xs ! b" if "a < b" "b < length xs" for a b
    using "1.prems"(1) that by (simp add: sorted_wrt_nth_less)
  consider "i < ?mid" | "i = ?mid" | "?mid < i" by linarith
  then show ?case
  proof cases
    case 1
    then have "v < xs ! ?mid" using less [of i ?mid] "1.prems" lt by simp
    moreover have "binary_search xs v lo ?mid"
      using "1.IH"(2) [OF lt(1) refl] calculation 1 "1.prems" lt by (simp add: less_asym)
    ultimately show ?thesis
      using lt by (auto simp: binary_search.simps [of xs v lo hi] Let_def dest: less_asym)
  next
    case 2
    then show ?thesis
      using lt "1.prems" by (simp add: binary_search.simps [of xs v lo hi] Let_def)
  next
    case 3
    then have "xs ! ?mid < v" using less [of ?mid i] "1.prems" by simp
    moreover have "binary_search xs v (?mid + 1) hi"
      using "1.IH"(1) [OF lt(1) refl] calculation 3 "1.prems" lt by simp
    ultimately show ?thesis
      using lt by (simp add: binary_search.simps [of xs v lo hi] Let_def)
  qed
qed

end
