(* ===== verification/LegacyVM_Exec.thy ===== *)
theory LegacyVM_Exec
  imports LegacyVM_Calls LegacyVM_Code
begin

text \<open>
  The whole switch and the trampoline: from a sane schedule and a host that keeps its contract,
  \<^verbatim>\<open>exec\<close> returns on every input, reads and writes inside its arrays only, and gives back no more
  gas than it got.
\<close>

section \<open>The switch\<close>

lemma fetch_ok:
  assumes inv: "vm_inv s"
  shows "wp (fetchInstruction s)
    (\<lambda>s'. fetched s' \<and> m_io_gas s' = m_io_gas s \<and> m_bounce s' = m_bounce s \<and> same_code ok s s') (bad ok s)"
proof -
  let ?op = "decode (m_code s ! unat (m_PC s))"
  have "ret (instructionInfo ?op) \<le> Suc (args (instructionInfo ?op))"
    by (simp add: ret_le_Suc_args)
  then show ?thesis
    using inv
    by (auto simp: fetchInstruction_def adjustStack_def throwBadStack_def Let_def fetched_def vm_inv_def
        pc_ok_def mem_ok_def same_code_def bad_def)
qed

context vm_host
begin

lemma interpretCases_good:
  assumes f: "fetched s" and b: "m_bounce s = InterpretCases" and w: "holds ok (m_ext s)"
  shows "wp (interpretCases H s) (good ok s) (bad ok s)"
  unfolding interpretCases_def
  by (cases "m_OP s")
    (simp_all add: pure_cases [OF f b] shift_cases [OF f b] push_cases [OF f b] charged_cases [OF f b]
      stack_cases [OF f b] DUP_SWAP_cases [OF f b] STOP_case [OF f b] calling_cases [OF f b]
      RETURNDATASIZE_case [OF f b] jump_cases [OF f b] PUSH_cases [OF f b] EXP_case [OF f b]
      return_cases [OF f b] memory_word_cases [OF f b] SHA3_case [OF f b] copy_cases [OF f b]
      RETURNDATACOPY_case [OF f b] SSTORE_case [OF f b w] BLOCKHASH_case [OF f b w] LOG_case [OF f b w] SUICIDE_case [OF f b w]
      EXTCODECOPY_case [OF f b w] bad_def del: wp_simps(3) One_nat_def)

end

section \<open>The trampoline\<close>

text \<open>The invariant of the loop in \<^verbatim>\<open>exec\<close>, by where it goes next.\<close>

definition ready :: "'w vm \<Rightarrow> bool" where
  "ready s \<longleftrightarrow> (case m_bounce s of
       InitEntry \<Rightarrow> m_PC s = 0 \<and> m_SPP s = 1024 \<and> m_mem s = [] \<and> m_jumpDests s = [] \<and> m_returnData s = [] \<and>
         m_output s = [] \<and> sane_schedule (m_schedule s) \<and> length (ext_data (m_ext s)) < 2 ^ 64 \<and>
         length (ext_code (m_ext s)) + 33 < 2 ^ 63
     | InterpretCases \<Rightarrow> vm_inv s
     | CaseCreate \<Rightarrow> fetched s \<and> (m_OP s = CREATE \<or> m_OP s = CREATE2)
     | CaseCall \<Rightarrow> fetched s \<and> m_OP s \<in> {CALL, CALLCODE, DELEGATECALL, STATICCALL}
     | Done \<Rightarrow> length (m_output s) < 2 ^ 43)"

definition rank :: "bounce \<Rightarrow> nat" where
  "rank b = (case b of InitEntry \<Rightarrow> 2 | InterpretCases \<Rightarrow> 1 | _ \<Rightarrow> 0)"

definition progress :: "'w contract \<Rightarrow> 'w vm \<Rightarrow> 'w vm \<Rightarrow> bool" where
  "progress ok s s' \<longleftrightarrow> ready s' \<and> keeps ok (m_ext s) (m_ext s') \<and> m_io_gas s' \<le> m_io_gas s \<and>
     (m_bounce s' \<noteq> Done \<longrightarrow>
       2 * unat (m_io_gas s') + rank (m_bounce s') < 2 * unat (m_io_gas s) + rank (m_bounce s))"

lemma fetched_bounce [simp]: "fetched (s\<lparr>m_bounce := b\<rparr>) = fetched s"
  by (simp add: fetched_def vm_inv_def mem_ok_def)

lemma good_ready:
  assumes g: "good ok s s'" and f: "fetched s"
  shows "ready s'"
proof -
  have "vm_inv s" using f by (rule fetched_vm_inv)
  then show ?thesis
    using g f by (auto simp: good_def ready_def same_code_def vm_inv_def keeps_def same_face_ok split: bounce.splits)
qed

lemma good_progress:
  assumes g: "good ok s s'" and f: "fetched s"
    and s: "same_code ok t s" "m_io_gas s = m_io_gas t" "m_bounce s = m_bounce t"
  shows "progress ok t s'"
  using good_ready [OF g f] g s
  by (auto simp: progress_def good_def same_code_def rank_def word_less_nat_alt word_le_nat_alt
      split: bounce.splits intro: keeps_trans)


lemma ready_init:
  assumes r: "ready s" and b: "m_bounce s = InitEntry"
  shows "wp (initEntry s) (progress ok s) (bad ok s)"
proof -
  let ?t = "s\<lparr>m_bounce := InterpretCases\<rparr>"
  define code dests where "code = m_code (optimize ?t)" and "dests = m_jumpDests (optimize ?t)"
  have d: "m_jumpDests ?t = []" and len: "length (ext_code (m_ext ?t)) + 33 < 2 ^ 63"
    using r b by (simp_all add: ready_def)
  have t: "optimize ?t = ?t\<lparr>m_code := code, m_jumpDests := dests\<rparr>"
    using optimize_facts(6) [OF d] by (simp add: code_def dests_def)
  have "code_ok code dests"
    using optimize_code_ok [OF d len] by (simp add: code_def dests_def)
  moreover have "pc_ok code 0"
    using calculation by (auto simp: code_ok_def pc_ok_def start.zero)
  ultimately have "progress ok s (?t\<lparr>m_code := code, m_jumpDests := dests\<rparr>)"
    using r b by (simp add: progress_def ready_def vm_inv_def mem_ok_def face_ok_def rank_def)
  then show ?thesis
    by (simp add: initEntry_def t)
qed

lemma same_code_refl [simp]: "same_code ok s s"
  by (simp add: same_code_def)

context vm_host
begin

lemma bounceStep_progress:
  assumes "ready s" "m_bounce s \<noteq> Done" "holds ok (m_ext s)"
  shows "wp (bounceStep H s) (progress ok s) (bad ok s)"
proof (cases "m_bounce s")
  case InitEntry
  then show ?thesis
    using assms ready_init by (simp add: bounceStep_def)
next
  case InterpretCases
  then have "vm_inv s" using assms(1) by (simp add: ready_def)
  from fetch_ok [OF this] have "wp (fetchInstruction s)
      (\<lambda>s'. wp (interpretCases H s') (progress ok s) (bad ok s)) (bad ok s)"
  proof (rule wp_mono)
    fix s' assume s': "fetched s' \<and> m_io_gas s' = m_io_gas s \<and> m_bounce s' = m_bounce s \<and> same_code ok s s'"
    then have "holds ok (m_ext s')"
      using assms(3) by (simp add: same_code_def keeps_def)
    then have "wp (interpretCases H s') (good ok s') (bad ok s')"
      using s' InterpretCases by (intro interpretCases_good) simp_all
    then show "wp (interpretCases H s') (progress ok s) (bad ok s)"
      by (rule wp_mono)
        (use s' good_progress [of ok s' _ s] keeps_trans [of ok "m_ext s" "m_ext s'"] in \<open>auto simp: bad_def same_code_def\<close>)
  qed simp
  then show ?thesis
    by (simp add: bounceStep_def InterpretCases)
next
  case CaseCreate
  then show ?thesis
    using assms caseCreate_good [of s] good_progress [of ok s _ s]
    by (auto simp: bounceStep_def ready_def elim: wp_mono)
next
  case CaseCall
  then show ?thesis
    using assms caseCall_good [of s] good_progress [of ok s _ s]
    by (auto simp: bounceStep_def ready_def elim: wp_mono)
qed (use assms in simp)

text \<open>Every run ends, within the gas, in a result that is not an access outside an array.\<close>

lemma trampoline_ends:
  assumes "ready s" "m_bounce s \<noteq> Done" "holds ok (m_ext s)"
  shows "\<exists>r. trampoline H s = Some r \<and>
    wp r (\<lambda>s'. m_io_gas s' \<le> m_io_gas s \<and> keeps ok (m_ext s) (m_ext s') \<and> length (m_output s') < 2 ^ 43) (bad ok s)"
  using assms
proof (induction "2 * unat (m_io_gas s) + rank (m_bounce s)" arbitrary: s rule: less_induct)
  case less
  have step: "wp (bounceStep H s) (progress ok s) (bad ok s)"
    using less.prems by (rule bounceStep_progress)
  show ?case
  proof (cases "bounceStep H s")
    case (Thrown e s')
    then show ?thesis
      using step by (simp add: trampoline.simps [of H s])
  next
    case (Ok s')
    then have p: "progress ok s s'" using step by simp
    show ?thesis
    proof (cases "m_bounce s' = Done")
      case True
      then show ?thesis
        using Ok p by (simp add: trampoline.simps [of H s] progress_def ready_def)
    next
      case False
      then obtain r where r: "trampoline H s' = Some r"
        "wp r (\<lambda>t. m_io_gas t \<le> m_io_gas s' \<and> keeps ok (m_ext s') (m_ext t) \<and> length (m_output t) < 2 ^ 43) (bad ok s')"
        using less.hyps [of s'] p less.prems by (auto simp: progress_def keeps_def)
      have "wp r (\<lambda>t. m_io_gas t \<le> m_io_gas s \<and> keeps ok (m_ext s) (m_ext t) \<and> length (m_output t) < 2 ^ 43) (bad ok s)"
        using r(2) by (rule wp_mono) (use p in \<open>auto simp: progress_def bad_def dest: keeps_world intro: keeps_trans\<close>)
      then show ?thesis
        using r(1) Ok False by (simp add: trampoline.simps [of H s])
    qed
  qed
qed

lemma exec_ends:
  assumes "sane_schedule (evmSchedule ext)" and "length (ext_data ext) < 2 ^ 64"
    and "length (ext_code ext) + 33 < 2 ^ 63" and "holds ok ext"
  shows "\<exists>out g' ext'. exec H g ext = Some (out, g', ext') \<and> out \<noteq> Inl UndefinedBehaviour \<and>
    (snd ok \<longrightarrow> out \<noteq> Inl HostException) \<and>
    g' \<le> g \<and> same_face ext ext' \<and> holds ok ext' \<and>
    (case out of Inl (RevertInstruction bs) \<Rightarrow> length bs < 2 ^ 43 | Inl _ \<Rightarrow> True | Inr bs \<Rightarrow> length bs < 2 ^ 43)"
proof -
  have "ready (newVM g ext)" "m_bounce (newVM g ext) \<noteq> Done"
    using assms by (simp_all add: newVM_def ready_def)
  then obtain r where r: "trampoline H (newVM g ext) = Some r"
    "wp r (\<lambda>s'. m_io_gas s' \<le> ucast g \<and> keeps ok ext (m_ext s') \<and> length (m_output s') < 2 ^ 43)
       (bad ok (newVM g ext))"
    using trampoline_ends [of "newVM g ext"] assms(4) by (auto simp: newVM_def)
  have "ucast w \<le> g" if "w \<le> ucast g" for w :: u64
    using that unat_ucast_le [of g] by (simp add: word_le_nat_alt)
  with r assms(4) show ?thesis
    by (cases r) (auto simp: exec_def bad_def newVM_def keeps_def split: vm_exception.splits)
qed

end

end
