(* ===== verification/LegacyVM_Props.thy ===== *)
theory LegacyVM_Props
  imports LegacyVM_Refine LegacyVM_Exec
begin

text \<open>
  The behaviour of single operations of the interpreter: jumps, memory, copies and static calls.
\<close>

section \<open>Jumps\<close>

lemma sorted_dests: "n < 2 ^ 63 \<Longrightarrow> sorted_wrt (<) (map word_of_nat (filter P [0..<n]) :: u64 list)"
proof -
  assume n: "n < 2 ^ 63"
  have "sorted_wrt (<) (filter P [0..<n])"
    by (simp add: sorted_wrt_filter)
  then have "sorted_wrt (\<lambda>i j. (word_of_nat i :: u64) < word_of_nat j) (filter P [0..<n])"
    by (rule sorted_wrt_mono_rel [rotated]) (use n in \<open>auto simp: word_less_nat_alt unat_word_nat\<close>)
  then show ?thesis
    by (simp add: sorted_wrt_map)
qed

lemma binary_search_iff:
  assumes "sorted_wrt (<) xs"
  shows "binary_search xs v 0 (length xs) \<longleftrightarrow> v \<in> set xs"
proof
  assume "binary_search xs v 0 (length xs)"
  then show "v \<in> set xs"
    using binary_search_mem [of xs v 0 "length xs"] by auto
next
  assume "v \<in> set xs"
  then obtain i where "i < length xs" "xs ! i = v"
    by (auto simp: in_set_conv_nth)
  then show "binary_search xs v 0 (length xs)"
    using binary_search_complete [OF assms] by simp
qed

text \<open>
  C12. A jump succeeds exactly if its target is a \<^verbatim>\<open>JUMPDEST\<close> byte at an instruction boundary of the
  contract's code, that is neither data of a push nor behind the end; every other target throws
  \<^verbatim>\<open>BadJumpDestination\<close>. The scan of \<^verbatim>\<open>optimize\<close> and the binary search decide this together.
\<close>

theorem jump_destinations_exact:
  assumes "m_jumpDests s = []" and "code = ext_code (m_ext s)" and "length code + 33 < 2 ^ 63"
  shows "verifyJumpDest dest k (optimize s) =
    (if unat dest < length code \<and> start code (unat dest) \<and> decode (code ! unat dest) = JUMPDEST
     then k (ucast dest) (optimize s) else Thrown BadJumpDestination (optimize s))"
proof -
  let ?c = "code @ replicate 33 0" and ?d = "m_jumpDests (optimize s)"
  have d: "?d = map word_of_nat (filter (jumpdest_at ?c) [0..<length code])"
    using optimize_facts(5) [OF assms(1)] assms(2) by simp
  have sorted: "sorted_wrt (<) ?d"
    unfolding d by (rule sorted_dests) (use assms(3) in simp)
  have bs: "binary_search ?d v 0 (length ?d) \<longleftrightarrow>
      (\<exists>i < length code. jumpdest_at ?c i \<and> v = word_of_nat i)" for v
    unfolding binary_search_iff [OF sorted] by (auto simp: d)
  have at: "jumpdest_at ?c i \<longleftrightarrow> start code i \<and> decode (code ! i) = JUMPDEST" if "i < length code" for i
    using that by (simp add: jumpdest_at_def start_append nth_append)
  have "(dest \<le> 0x7FFFFFFFFFFFFFFF \<and> binary_search ?d (ucast dest) 0 (length ?d)) \<longleftrightarrow>
    unat dest < length code \<and> start code (unat dest) \<and> decode (code ! unat dest) = JUMPDEST"
  proof (cases "unat dest \<le> 0x7FFFFFFFFFFFFFFF")
    case True
    then have u: "unat (ucast dest :: u64) = unat dest"
      by (rule unat_ucast_64)
    have "ucast dest = (word_of_nat i :: u64) \<longleftrightarrow> i = unat dest" if "i < length code" for i
      using that assms(3) by (auto simp: word_unat_eq_iff u unat_word_nat)
    then show ?thesis
      using True at by (auto simp: bs word_le_nat_alt)
  next
    case False
    then show ?thesis
      using assms(3) by (auto simp: word_le_nat_alt)
  qed
  then show ?thesis
    by (simp add: verifyJumpDest_def throwBadJumpDestination_def)
qed

section \<open>Memory\<close>

text \<open>The cost of a memory of the given size.\<close>

definition memory_cost :: "EVMSchedule \<Rightarrow> nat \<Rightarrow> nat" where
  "memory_cost sch n = unat (memoryGas sch) * (n div 32) + (n div 32) * (n div 32) div unat (quadCoeffDiv sch)"

lemma memory_cost_mono: "a \<le> b \<Longrightarrow> memory_cost sch a \<le> memory_cost sch b"
  unfolding memory_cost_def by (rule gasForMem_mono)

lemma gasForMem_cost:
  "gasForMem n k s = (if 0x7FFFFFFFFFFFFFFF < memory_cost (m_schedule s) n then Thrown OutOfGas s
     else k (word_of_nat (memory_cost (m_schedule s) n)) s)"
  by (simp add: gasForMem_def memory_cost_def Let_def toInt63_def throwOutOfGas_def)

lemma updateGas_exact:
  assumes run: "unat (m_runGas s) < 2 ^ 33" and copy: "m_copyMemSize s = 0" and ok: "updateGas s = Ok s'"
    and new: "new = max (length (m_mem s)) (unat (m_newMemSize s))"
  shows "unat (m_runGas s') = unat (m_runGas s) +
      (memory_cost (m_schedule s) new - memory_cost (m_schedule s) (length (m_mem s)))"
    and "s' = s\<lparr>m_runGas := m_runGas s'\<rparr>" and "m_runGas s' \<le> m_io_gas s"
proof -
  let ?C = "memory_cost (m_schedule s)"
  have "unat (m_runGas s') = unat (m_runGas s) + (?C new - ?C (length (m_mem s))) \<and>
      s' = s\<lparr>m_runGas := m_runGas s'\<rparr> \<and> m_runGas s' \<le> m_io_gas s"
  proof (cases "unat (m_newMemSize s) > length (m_mem s)")
    case True
    then have n: "new = unat (m_newMemSize s)" using new by simp
    have le: "?C (length (m_mem s)) \<le> ?C new"
      using new by (intro memory_cost_mono) simp
    have c1: "?C new \<le> 0x7FFFFFFFFFFFFFFF"
      using ok True by (auto simp: updateGas_def gasForMem_cost n split: if_splits)
    define d where "d = (word_of_nat (?C new) - word_of_nat (?C (length (m_mem s))) :: u64)"
    have d: "unat d = ?C new - ?C (length (m_mem s))"
      unfolding d_def using le c1 by (simp add: unat_sub toInt63_unat word_le_nat_alt)
    then have "unat d \<le> 0x7FFFFFFFFFFFFFFF" using c1 by simp
    then have "updateGas s = (let s1 = s\<lparr>m_runGas := m_runGas s + d\<rparr> in
        if m_io_gas s1 < m_runGas s1 then throwOutOfGas s1 else Ok s1)"
      using True c1 le by (auto simp: updateGas_def gasForMem_cost n [symmetric] d_def [symmetric] toInt63_def
          copy not_less Let_def)
    then have "s' = s\<lparr>m_runGas := m_runGas s + d\<rparr>" "m_runGas s + d \<le> m_io_gas s"
      using ok by (auto simp: Let_def throwOutOfGas_def not_less split: if_splits)
    moreover have "unat (m_runGas s + d) = unat (m_runGas s) + unat d"
      using run c1 d by (intro unat_plus_no_wrap) simp
    ultimately show ?thesis
      using d by simp
  next
    case False
    then have "new = length (m_mem s)" using new by simp
    with False ok show ?thesis
      by (auto simp: updateGas_def copy Let_def throwOutOfGas_def not_less split: if_splits)
  qed
  then show "unat (m_runGas s') = unat (m_runGas s) + (?C new - ?C (length (m_mem s)))"
    "s' = s\<lparr>m_runGas := m_runGas s'\<rparr>" "m_runGas s' \<le> m_io_gas s"
    by blast+
qed

text \<open>
  C29. What an instruction pays for memory: on success the memory is the old one followed by zeros, its
  size the least multiple of 32 that covers both, and the running gas has grown by the difference of
  the quadratic costs of the two sizes.
\<close>

theorem memory_expansion_charge:
  assumes "mem_ok s" and "unat newMem \<le> 0x7FFFFFFFFFFFFFFF" and "m_copyMemSize s = 0"
    and "unat (m_runGas s) < 2 ^ 33" and "updateMem newMem s = Ok s'"
  shows "length (m_mem s') = max (length (m_mem s)) (32 * ((unat newMem + 31) div 32)) \<and>
    (\<exists>k. m_mem s' = m_mem s @ replicate k 0) \<and>
    unat (m_runGas s') = unat (m_runGas s) +
      (memory_cost (m_schedule s) (length (m_mem s')) - memory_cost (m_schedule s) (length (m_mem s))) \<and>
    m_runGas s' \<le> m_io_gas s' \<and> m_io_gas s' = m_io_gas s"
proof -
  define nm where "nm = (newMem + 31) div 32 * 32"
  have sum: "unat (newMem + 31) = unat newMem + 31"
    using assms(2) by (subst unat_plus_no_wrap) simp_all
  have nm: "unat nm = 32 * ((unat newMem + 31) div 32)"
    using assms(2) by (simp add: nm_def unat_word_ariths(2) unat_div sum mult.commute)
  obtain s1 where s1: "updateGas (s\<lparr>m_newMemSize := nm\<rparr>) = Ok s1"
    using assms(5) by (cases "updateGas (s\<lparr>m_newMemSize := nm\<rparr>)") (auto simp: updateMem_def nm_def)
  note g = updateGas_exact [OF _ _ s1 refl]
  define rg where "rg = m_runGas s1"
  have s1_eq: "s1 = s\<lparr>m_newMemSize := nm, m_runGas := rg\<rparr>"
    using g(2) assms(3,4) by (simp add: rg_def)
  have s': "s' = s\<lparr>m_newMemSize := nm, m_runGas := rg, m_mem := m_mem s @ replicate (unat nm - length (m_mem s)) 0\<rparr>"
    using assms(5) s1 by (cases s) (auto simp: updateMem_def nm_def [symmetric] s1_eq split: if_splits)
  have len: "length (m_mem s') = max (length (m_mem s)) (unat nm)"
    by (simp add: s')
  have "unat rg = unat (m_runGas s) + (memory_cost (m_schedule s) (length (m_mem s')) -
      memory_cost (m_schedule s) (length (m_mem s)))" "rg \<le> m_io_gas s"
    using g(1,3) assms(3,4) unfolding len by (simp_all add: s1_eq)
  then show ?thesis
    using len nm by (auto simp: s')
qed

section \<open>Copies\<close>

lemma writeMem_app:
  "off + length bs + length cs \<le> length (m_mem s) \<Longrightarrow>
    bind_res (writeMem off bs s) (writeMem (off + length bs) cs) = writeMem off (bs @ cs) s"
  by (cases "bs = []"; cases "cs = []") (auto simp: writeMem_def ac_simps)

text \<open>
  C30. \<^verbatim>\<open>copyDataToMemory\<close> (the copy of call data, code and return data) writes exactly the slice of the
  data that starts at the 256-bit index, padded with zeros to the requested size, and nothing else,
  also when the index lies behind the end of the data or does not fit 64 bits.
\<close>

theorem copy_is_padded_slice:
  assumes "length data < 2 ^ 64" and "length (m_mem s) < 2 ^ 64"
    and "unat siz = 0 \<or> unat off + unat siz \<le> length (m_mem s)"
  shows "copyDataToMemory data off idx siz s =
    writeMem (unat off) (take (unat siz) (drop (unat idx) data @ replicate (unat siz) 0)) s"
proof (cases "siz = 0")
  case True
  then show ?thesis
    by (simp add: copyDataToMemory_def writeMem_def Let_def)
next
  case False
  then have le: "unat off + unat siz \<le> length (m_mem s)"
    using assms(3) by (simp add: unat_eq_zero)
  have c: "unat (ucast w :: u64) = unat w" if "unat w < 2 ^ 64" for w :: u256
    using that by (simp add: unsigned_ucast_eq take_bit_nat_eq_self_iff)
  have o: "unat (ucast off :: u64) = unat off" "unat (ucast siz :: u64) = unat siz"
    using le assms(2) by (auto intro!: c)
  define n where "n = (if unat idx + unat siz > length data
      then (if length data < unat idx then 0 else length data - unat (ucast idx :: u64)) else unat siz)"
  have i: "unat (ucast idx :: u64) = unat idx" if "unat idx \<le> length data"
    using that assms(1) by (intro c) simp
  define bs where "bs = take (unat siz) (drop (unat idx) data)"
  have n: "n = length bs"
    using i by (auto simp: n_def bs_def min_def)
  have copied: "(if n > 0 then readBytes data (unat (ucast idx :: u64)) n (writeMem (unat off)) s else Ok s) =
      writeMem (unat off) bs s"
  proof (cases "n > 0")
    case True
    then have lt: "unat idx < length data" using n by (auto simp: bs_def)
    then have "unat idx + n \<le> length data" "take n (drop (unat idx) data) = bs"
      using n by (auto simp: bs_def min_def)
    then show ?thesis
      using True i lt by (simp add: readBytes_def)
  next
    case False
    then show ?thesis using n by (simp add: writeMem_def)
  qed
  have pad: "(\<lambda>s. if unat siz > n then writeMem (unat off + n) (replicate (unat siz - n) 0) s else Ok s) =
      writeMem (unat off + length bs) (replicate (unat siz - length bs) 0)"
    using n by (auto simp: writeMem_def fun_eq_iff)
  have "copyDataToMemory data off idx siz s =
      bind_res (writeMem (unat off) bs s) (writeMem (unat off + length bs) (replicate (unat siz - length bs) 0))"
    unfolding copyDataToMemory_def Let_def o n_def [symmetric] copied pad ..
  also have "\<dots> = writeMem (unat off) (bs @ replicate (unat siz - length bs) 0) s"
    using le by (intro writeMem_app) (simp add: bs_def)
  also have "bs @ replicate (unat siz - length bs) 0 = take (unat siz) (drop (unat idx) data @ replicate (unat siz) 0)"
    by (simp add: bs_def min_def)
  finally show ?thesis .
qed

section \<open>Words in memory\<close>

lemma updateMem_Ok: "updateMem n s = Ok s' \<Longrightarrow> \<exists>k. m_mem s' = m_mem s @ replicate k 0 \<and> m_SPP s' = m_SPP s"
  unfolding updateMem_def updateGas_def gasForMem_def toInt63_def throwOutOfGas_def Let_def
  by (auto split: if_splits)

lemma bind_Ok: "bind_res r f = Ok s' \<longleftrightarrow> (\<exists>s. r = Ok s \<and> f s = Ok s')"
  by (cases r) auto

lemma updateIOGas_Ok: "updateIOGas s = Ok s' \<Longrightarrow> m_mem s' = m_mem s \<and> m_SPP s' = m_SPP s"
  by (auto simp: updateIOGas_def throwOutOfGas_def split: if_splits)

lemma op_MSTORE_Ok:
  assumes "op_MSTORE s = Ok s'"
  defines "off \<equiv> unat (ucast (m_stack s (m_SP s)) :: u32)"
  shows "off + 32 \<le> length (m_mem s') \<and> take 32 (drop off (m_mem s')) = toBigEndian 32 (unat (m_stack s (m_SP s + 1)))"
proof -
  let ?bs = "toBigEndian 32 (unat (m_stack s (m_SP s + 1)))"
  obtain s1 s2 where w: "writeMem off ?bs s1 = Ok s2" "s' = s2\<lparr>m_PC := m_PC s2 + 1\<rparr>"
    using assms(1)
    by (auto simp: op_MSTORE_def operands_def toInt63_def throwOutOfGas_def bind_Ok nextOp_def off_def
        split: if_splits)
  moreover have "?bs \<noteq> []"
    using length_toBigEndian [of 32 "unat (m_stack s (m_SP s + 1))"] by (metis list.size(3) zero_neq_numeral)
  ultimately have "off + 32 \<le> length (m_mem s1)" "m_mem s' = take off (m_mem s1) @ ?bs @ drop (off + 32) (m_mem s1)"
    by (auto simp: writeMem_def split: if_splits)
  then show ?thesis
    by simp
qed

lemma op_MLOAD_Ok:
  assumes "op_MLOAD t = Ok t'"
  defines "off \<equiv> unat (ucast (m_stack t (m_SP t)) :: u32)"
  shows "\<exists>k. m_stack t' (m_SPP t') = fromBigEndian (take 32 (drop off (m_mem t @ replicate k 0)))"
proof -
  obtain t1 t2 t3 k where "m_mem t2 = m_mem t @ replicate k 0"
    and r: "readMem off 32 (\<lambda>bs s. bind_res (setSPP (fromBigEndian bs) s) nextOp) t2 = Ok t'"
    using assms(1) updateMem_Ok updateIOGas_Ok
    by (fastforce simp: op_MLOAD_def operands_def toInt63_def throwOutOfGas_def bind_Ok off_def split: if_splits)
  then show ?thesis
    by (intro exI [of _ k])
      (auto simp: readMem_def readBytes_def setSPP_def setSlot_def nextOp_def
        simp del: take_append drop_append split: if_splits)
qed

lemma fromBigEndian_word: "fromBigEndian (toBigEndian 32 (unat (v :: u256))) = v"
  using unsigned_less [of v, where 'a = nat]
  by (simp add: word_unat_eq_iff unat_fromBigEndian be_nat_toBigEndian)

text \<open>
  C31. A word stored with \<^verbatim>\<open>MSTORE\<close> is the word a later \<^verbatim>\<open>MLOAD\<close> at the same offset puts on the stack,
  as long as the memory has not been written in between.
\<close>

theorem mstore_mload_roundtrip:
  assumes "op_MSTORE s = Ok s'" and "op_MLOAD t = Ok t'"
    and "m_mem t = m_mem s'" and "m_stack t (m_SP t) = m_stack s (m_SP s)"
  shows "m_stack t' (m_SPP t') = m_stack s (m_SP s + 1)"
  using op_MSTORE_Ok [OF assms(1)] op_MLOAD_Ok [OF assms(2)] assms(3,4) by (auto simp: fromBigEndian_word)

section \<open>Static calls\<close>

text \<open>An outcome that leaves the face as it was.\<close>

definition kept :: "'w ExtVMFace \<Rightarrow> 'w vm res \<Rightarrow> bool" where
  "kept e r \<longleftrightarrow> wp r (\<lambda>s. m_ext s = e) (\<lambda>_ s. m_ext s = e)"

lemma kept_bind: "kept e r \<Longrightarrow> (\<And>s. m_ext s = e \<Longrightarrow> kept e (f s)) \<Longrightarrow> kept e (bind_res r f)"
  by (cases r) (auto simp: kept_def)

lemma kept_leaf:
  assumes "m_ext s = e"
  shows "kept e (Ok s)" "kept e (Thrown x s)" "kept e (nextOp s)" "kept e (updateIOGas s)" "kept e (setSPP v s)"
    "kept e (setSlot i v s)" "kept e (writeMem off bs s)" "kept e (throwBadInstruction s)"
    "kept e (throwDisallowedStateChange s)" "kept e (throwBufferOverrun s)" "kept e (throwOutOfGas s)"
    "kept e (throwRevertInstruction bs s)" "kept e (throwBadJumpDestination s)"
  using assms by (auto simp: kept_def setSPP_def setSlot_def writeMem_def)

lemma kept_cont:
  assumes "m_ext s = e"
  shows "(\<And>a. kept e (k a s)) \<Longrightarrow> kept e (operands n k s)"
    "(\<And>b. kept e (r b s)) \<Longrightarrow> kept e (readMem off m r s)"
    "(\<And>b. kept e (r b s)) \<Longrightarrow> kept e (readBytes data off m r s)"
    "(\<And>b. kept e (h b s)) \<Longrightarrow> kept e (toInt63 v h s)"
    "(\<And>b. kept e (h b s)) \<Longrightarrow> kept e (memNeed x y h s)"
    "(\<And>b. kept e (h b s)) \<Longrightarrow> kept e (gasForMem m h s)"
    "(\<And>b. kept e (h b s)) \<Longrightarrow> kept e (verifyJumpDest d h s)"
    "(\<And>b. kept e (q b s)) \<Longrightarrow> kept e (codeByte q s)"
  using assms by (auto simp: kept_def operands_def readMem_def readBytes_def toInt63_def memNeed_def
      gasForMem_def Let_def verifyJumpDest_def codeByte_def)

lemma kept_updateMem: "m_ext s = e \<Longrightarrow> kept e (updateMem n s)"
  unfolding updateMem_def updateGas_def by (auto intro!: kept_bind kept_leaf kept_cont simp: Let_def)

lemma kept_copy: "m_ext s = e \<Longrightarrow> kept e (copyDataToMemory d x y z s)"
  unfolding copyDataToMemory_def by (auto intro!: kept_bind kept_leaf kept_cont simp: Let_def)

lemma kept_pushLoop: "m_ext s = e \<Longrightarrow> kept e (pushLoop n s)"
  by (induction n arbitrary: s) (auto intro!: kept_bind kept_leaf kept_cont)

lemmas kept_intros = kept_bind kept_leaf kept_cont kept_updateMem kept_copy kept_pushLoop

lemma kept_pureOp: "m_ext s = e \<Longrightarrow> kept e (pureOp n f s)"
  unfolding pureOp_def by (auto intro!: kept_intros)

lemma kept_pushOp: "m_ext s = e \<Longrightarrow> kept e (pushOp f s)"
  unfolding pushOp_def by (auto intro!: kept_intros)

lemma kept_returnData: "m_ext s = e \<Longrightarrow> (\<And>out s. m_ext s = e \<Longrightarrow> kept e (k out s)) \<Longrightarrow> kept e (returnData k s)"
  unfolding returnData_def by (auto intro!: kept_intros)

lemma kept_copyOp: "m_ext s = e \<Longrightarrow> kept e (copyOp d x y z s)"
  unfolding copyOp_def by (auto intro!: kept_intros)

lemma static_kept:
  assumes "staticCall (m_ext s)" and "m_OP s \<noteq> BLOCKHASH"
  shows "kept (m_ext s) (interpretCases H s)"
  using assms unfolding interpretCases_def
  by (cases "m_OP s")
    (auto simp: op_CREATE_def op_CREATE2_def op_CALLs_def op_RETURN_def op_REVERT_def op_SUICIDE_def op_STOP_def
     op_MLOAD_def op_MSTORE_def op_MSTORE8_def op_SHA3_def op_LOG_def op_EXP_def  op_ADD_def op_MUL_def op_SUB_def op_DIV_def op_MOD_def op_SMOD_def op_NOT_def
      op_LT_def op_GT_def op_SLT_def op_SGT_def op_EQ_def op_ISZERO_def op_AND_def op_OR_def op_XOR_def
      op_BYTE_def op_ADDMOD_def op_MULMOD_def op_SHL_def op_SHR_def op_SAR_def op_SDIV_def op_SIGNEXTEND_def
      op_ADDRESS_def op_ORIGIN_def op_CALLER_def op_CALLVALUE_def op_CALLDATASIZE_def op_CALLDATALOAD_def
    op_CODESIZE_def op_GASPRICE_def op_COINBASE_def op_TIMESTAMP_def op_NUMBER_def op_DIFFICULTY_def
    op_GASLIMIT_def op_PC_def op_MSIZE_def op_GAS_def op_RETURNDATASIZE_def op_BALANCE_def op_EXTCODESIZE_def
    op_SLOAD_def op_SSTORE_def op_POP_def op_JUMPDEST_def op_DUP_def op_SWAP_def op_JUMP_def op_JUMPI_def
    op_PUSH1_def op_PUSHn_def op_CALLDATACOPY_def op_CODECOPY_def op_EXTCODECOPY_def op_RETURNDATACOPY_def
    intro!: kept_intros kept_pureOp kept_pushOp kept_returnData kept_copyOp split: if_splits)




section \<open>Sample states\<close>

definition demo_face :: "bytes \<Rightarrow> bool \<Rightarrow> unit ExtVMFace" where
  "demo_face code static = \<lparr>envInfo = \<lparr>env_number = 1, env_author = 0, env_timestamp = 0, env_difficulty = 0,
       env_gasLimit = 0, env_gasUsed = 0, env_lastHashes = []\<rparr>, evmSchedule = ConstantinopleSchedule, myAddress = 1, caller = 2,
     origin = 2, ext_value = 0, gasPrice = 0, ext_data = [1, 2, 3], ext_code = code, sub = SubState_clear, depth = 0,
     isCreate = False, staticCall = static, world = ()\<rparr>"

definition demo_vm :: "bytes \<Rightarrow> bool \<Rightarrow> u256 list \<Rightarrow> unit vm" where
  "demo_vm code static st = (newVM 100000 (demo_face code static))\<lparr>m_bounce := InterpretCases,
     m_code := code @ replicate 33 0, m_SP := 1024 - length st, m_SPP := 1024 - length st,
     m_stack := (\<lambda>i. st ! (i - (1024 - length st)))\<rparr>"

lemma demo_inv:
  assumes "length code < 100" "length st \<le> 1024"
  shows "vm_inv (demo_vm code static st)"
proof -
  have "(code @ replicate 33 0) ! i = 0" if "length code \<le> i" "i < length code + 33" for i
    using that by (simp add: nth_append)
  then show ?thesis
    using assms sane_schedules
    by (auto simp: demo_vm_def demo_face_def newVM_def vm_inv_def code_ok_def pc_ok_def mem_ok_def face_ok_def
        start.zero)
qed

lemma demo_simps [simp]:
  "m_bounce (demo_vm c st xs) = InterpretCases" "m_PC (demo_vm c st xs) = 0" "m_mem (demo_vm c st xs) = []"
  "m_code (demo_vm c st xs) = c @ replicate 33 0" "m_schedule (demo_vm c st xs) = ConstantinopleSchedule"
  "m_io_gas (demo_vm c st xs) = 100000" "m_runGas (demo_vm c st xs) = 0" "m_copyMemSize (demo_vm c st xs) = 0"
  "m_jumpDests (demo_vm c st xs) = []" "m_ext (demo_vm c st xs) = demo_face c st"
  "ext_code (demo_face c st) = c" "staticCall (demo_face c st) = st"
  by (simp_all add: demo_vm_def newVM_def demo_face_def)

lemma demo_vstack: "length st \<le> 1024 \<Longrightarrow> vstack (demo_vm c s st) = st"
  by (rule nth_equalityI) (auto simp: vstack_def demo_vm_def nth_append)

theorem alu_refines_stack_machine_witness:
  "\<forall>H. \<exists>s'. bounceStep H (demo_vm [3] False [7, 5, 9]) = Ok s' \<and> vstack s' = [2, 9] \<and> m_io_gas s' = 99997"
proof
  fix H :: "unit host"
  let ?s = "demo_vm [3] False [7, 5, 9]"
  have "vm_inv ?s" by (rule demo_inv) simp_all
  moreover have "decode (m_code ?s ! unat (m_PC ?s)) = SUB" by simp (simp add: decode_def opcode_row_def nth_default_def)
  ultimately show "\<exists>s'. bounceStep H ?s = Ok s' \<and> vstack s' = [2, 9] \<and> m_io_gas s' = 99997"
    using alu_refines_stack_machine [of ?s SUB 2 "\<lambda>st. st ! 0 - st ! 1" 3 H]
    by (auto simp: demo_vstack alu_def alu_step_def metric_simps tierGas_def schedule_defs)
qed

theorem jump_destinations_exact_witness:
  "\<forall>k. verifyJumpDest 1 k (optimize (demo_vm [0x5b, 0x5b] False [])) =
     k 1 (optimize (demo_vm [0x5b, 0x5b] False []))"
proof
  fix k :: "u64 \<Rightarrow> unit op"
  have "start [0x5b, 0x5b] 1"
    using start.step [OF start.zero, of "[0x5b, 0x5b]"] by (simp add: width_def)
  then show "verifyJumpDest 1 k (optimize (demo_vm [0x5b, 0x5b] False [])) =
      k 1 (optimize (demo_vm [0x5b, 0x5b] False []))"
    using jump_destinations_exact [of "demo_vm [0x5b, 0x5b] False []" "[0x5b, 0x5b]" 1 k] by simp
qed

lemma demo_updateMem: "\<exists>s'. updateMem 33 (demo_vm [] False []) = Ok s'"
  by (simp add: updateMem_def updateGas_def gasForMem_def toInt63_def Let_def schedule_defs)

theorem memory_expansion_charge_witness:
  "\<exists>s'. updateMem 33 (demo_vm [] False []) = Ok s' \<and> length (m_mem s') = 64 \<and> unat (m_runGas s') = 6"
proof -
  obtain s' where s': "updateMem 33 (demo_vm [] False []) = Ok s'"
    using demo_updateMem by blast
  then show ?thesis
    using memory_expansion_charge [of "demo_vm [] False []" 33 s']
    by (auto simp: mem_ok_def memory_cost_def schedule_defs)
qed

theorem copy_is_padded_slice_witness:
  "copyDataToMemory [1, 2, 3] 1 2 4 ((demo_vm [] False [])\<lparr>m_mem := [9, 9, 9, 9, 9, 9, 9, 9]\<rparr>) =
     Ok ((demo_vm [] False [])\<lparr>m_mem := [9, 3, 0, 0, 0, 9, 9, 9]\<rparr>)"
  using copy_is_padded_slice [of "[1, 2, 3]" "(demo_vm [] False [])\<lparr>m_mem := [9, 9, 9, 9, 9, 9, 9, 9]\<rparr>" 4 1 2]
  by (simp add: writeMem_def numeral_3_eq_3)

lemma demo_store: "\<exists>s'. op_MSTORE (demo_vm [] False [0, 5]) = Ok s' \<and> length (m_mem s') = 32"
  by (simp add: op_MSTORE_def operands_def toInt63_def updateMem_def updateGas_def gasForMem_def Let_def
      updateIOGas_def writeMem_def nextOp_def schedule_defs demo_vm_def newVM_def demo_face_def)

lemma demo_load: "length mem = 32 \<Longrightarrow> \<exists>t'. op_MLOAD ((demo_vm [] False [0])\<lparr>m_mem := mem\<rparr>) = Ok t' \<and> m_SPP t' = 1023"
  by (simp add: op_MLOAD_def operands_def toInt63_def updateMem_def updateGas_def gasForMem_def Let_def
      updateIOGas_def readMem_def readBytes_def setSPP_def setSlot_def nextOp_def schedule_defs demo_vm_def
      newVM_def demo_face_def)

theorem mstore_mload_roundtrip_witness:
  "\<exists>s' t'. op_MSTORE (demo_vm [] False [0, 5]) = Ok s' \<and>
     op_MLOAD ((demo_vm [] False [0])\<lparr>m_mem := m_mem s'\<rparr>) = Ok t' \<and> m_stack t' 1023 = 5"
proof -
  obtain s' where s': "op_MSTORE (demo_vm [] False [0, 5]) = Ok s'" "length (m_mem s') = 32"
    using demo_store by blast
  obtain t' where t': "op_MLOAD ((demo_vm [] False [0])\<lparr>m_mem := m_mem s'\<rparr>) = Ok t'" "m_SPP t' = 1023"
    using demo_load [OF s'(2)] by blast
  have "m_stack t' 1023 = 5"
    using mstore_mload_roundtrip [OF s'(1) t'(1)] t'(2) by (simp add: demo_vm_def)
  with s'(1) t'(1) show ?thesis by blast
qed



end
