(* ===== verification/RLP_Fields.thy ===== *)
theory RLP_Fields
  imports RLP_Codec
begin

text \<open>
  Reading a record from an RLP list, field by field: \<^verbatim>\<open>rlp[i]\<close> and the conversion of the item, as
  the constructors of transactions and block headers do it, and what they get from a list that
  the writer has produced.
\<close>

section \<open>Fields\<close>

definition rlp_field :: "nat \<Rightarrow> (bytes \<Rightarrow> rlp_error + 'a) \<Rightarrow> rlp_obj \<Rightarrow> rlp_error + 'a \<times> rlp_obj" where
  "rlp_field i f r = sum_bind (index r i) (\<lambda>(x, r). sum_bind (f x) (\<lambda>v. Inr (v, r)))"

text \<open>An RLP error among the errors of a caller.\<close>

definition map_err :: "('e \<Rightarrow> 'f) \<Rightarrow> 'e + 'a \<Rightarrow> 'f + 'a" where
  "map_err h r = (case r of Inl e \<Rightarrow> Inl (h e) | Inr v \<Rightarrow> Inr v)"

lemma map_err_simps [simp]: "map_err h (Inl e) = Inl (h e)" "map_err h (Inr v) = Inr v"
  by (simp_all add: map_err_def)

text \<open>The object is one over the encoded items \<open>xs\<close>, whatever its cache points at.\<close>

definition over :: "item list \<Rightarrow> rlp_obj \<Rightarrow> bool" where
  "over xs r \<longleftrightarrow> readable (Lst xs) \<and> cache_ok (map enc xs) [] r"

lemma over_start: "readable (Lst xs) \<Longrightarrow> over xs (rlp_obj_of (enc (Lst xs)))"
  by (simp add: over_def cache_ok_def rlp_obj_of_def enc_Lst del: enc.simps readable.simps)

lemma field_enc:
  assumes "over xs r" and "i < length xs" and "i < 100" and "f (enc (xs ! i)) = Inr v"
  shows "\<exists>r'. rlp_field i f r = Inr (v, r') \<and> over xs r'"
proof -
  have "list_of_chunks (map enc xs)"
    using assms(1) list_of_chunks_enc by (auto simp: over_def simp del: readable.simps)
  then obtain r' where "index r i = Inr (nth_or_null (map enc xs) i, r')" "cache_ok (map enc xs) [] r'"
    using index_ok [of "map enc xs" "[]" r i] assms(1,3) by (auto simp: over_def simp del: readable.simps)
  then show ?thesis
    using assms by (simp add: rlp_field_def nth_or_null_def over_def del: readable.simps enc.simps)
qed

lemma field_bind:
  assumes "over xs r" and "i < length xs" and "i < 100" and "f (enc (xs ! i)) = Inr v"
    and "\<And>r'. over xs r' \<Longrightarrow> k (v, r') = w"
  shows "sum_bind (map_err h (rlp_field i f r)) k = w"
  using field_enc [of xs r i f v] assms by (auto simp del: enc.simps)

lemma field_bind_rlp:
  assumes "over xs r" and "i < length xs" and "i < 100" and "f (enc (xs ! i)) = Inr v"
    and "\<And>r'. over xs r' \<Longrightarrow> k (v, r') = w"
  shows "sum_bind (rlp_field i f r) k = w"
  using field_enc [of xs r i f v] assms by (auto simp del: enc.simps)

section \<open>Conversions of encoded fields\<close>

lemma toInt_item:
  assumes "8 dvd LENGTH('a)" and "LENGTH('a) \<le> 2 ^ 32"
  shows "toInt (enc (Data (toCompactBigEndian (unat (w :: 'a::len word)) 0))) flags = Inr w"
  using toInt_enc [of "unat w" flags, where 'a = 'a] assms unsigned_less [of w, where 'a = nat] by auto

lemma toHash_item:
  assumes "length bs = n" and "n < max_field"
  shows "toHash n (enc (Data bs)) flags = Inr bs"
proof -
  have "isData (enc_data bs)" "payload (enc_data bs) = Inr bs"
    using assms by (simp_all add: isData_enc_data payload_enc_data)
  moreover have "requireGood (enc_data bs) = Inr ()"
    using calculation by (cases "requireGood (enc_data bs)")
      (auto simp: payload_def payload_ref_def length_field_def isData_def)
  ultimately show ?thesis
    using assms by (simp add: toHash_def)
qed

lemma appendInt_item:
  assumes "n < 256 ^ 32"
  shows "appendInt n st = appendItem (Data (toCompactBigEndian n 0)) st"
proof -
  have "bytesRequired n \<le> 32"
    using assms by (rule bytesRequired_least)
  then show ?thesis
    by (simp add: appendInt_eq appendItem_eq compact_toBigEndian del: appendItem.simps)
qed

lemma length_compact_le: "n < 256 ^ k \<Longrightarrow> length (toCompactBigEndian n 0) \<le> k"
  by (simp add: compact_toBigEndian bytesRequired_least)

lemma fromBigEndian_toBigEndian_word:
  assumes "LENGTH('a::len) = 8 * n"
  shows "fromBigEndian (toBigEndian n (unat (w :: 'a word))) = w"
proof -
  have "unat w < 256 ^ n"
    using unsigned_less [of w, where 'a = nat] assms by (simp add: power_mult)
  moreover have "1 \<le> n"
    using assms len_gt_0 [where 'a = 'a] by linarith
  ultimately show ?thesis
    using unat_fromBigEndian [of "toBigEndian n (unat w)", where 'a = 'a] assms
    by (simp add: be_nat_toBigEndian word_unat_eq_iff power_mult)
qed

section \<open>Loops over the items of a list\<close>

text \<open>
  A range-for loop whose body converts the item. It may not end (\<open>rlp_iteration_terminates_iff\<close>), so
  the result is an option; the body may contain such a loop itself.
\<close>

definition loop_bind :: "('e + 'a) option \<Rightarrow> ('a \<Rightarrow> ('e + 'b) option) \<Rightarrow> ('e + 'b) option" where
  "loop_bind m f = (case m of None \<Rightarrow> None | Some (Inl e) \<Rightarrow> Some (Inl e) | Some (Inr v) \<Rightarrow> f v)"

lemma loop_bind_simps [simp]:
  "loop_bind (Some (Inr v)) f = f v" "loop_bind (Some (Inl e)) f = Some (Inl e)" "loop_bind None f = None"
  by (simp_all add: loop_bind_def)

partial_function (option) iterate_with ::
    "(bytes \<Rightarrow> (rlp_error + 'a) option) \<Rightarrow> bytes \<Rightarrow> rlp_iter \<Rightarrow> 'a list \<Rightarrow> (rlp_error + 'a list) option" where
  "iterate_with f d it ret =
     (if m_currentItem it = m_currentItem (iter_end d) then Some (Inr ret)
      else case iter_deref d it of
             Inl e \<Rightarrow> Some (Inl e)
           | Inr x \<Rightarrow> (case f x of
                None \<Rightarrow> None
              | Some r \<Rightarrow> (case r of
                   Inl e \<Rightarrow> Some (Inl e)
                 | Inr v \<Rightarrow> (case iter_next d it of
                      Inl e \<Rightarrow> Some (Inl e)
                    | Inr it' \<Rightarrow> iterate_with f d it' (ret @ [v])))))"

text \<open>\<^verbatim>\<open>for (auto const& i: rlp)\<close>: what is not a list has no items, \<^verbatim>\<open>begin()\<close> is \<^verbatim>\<open>end()\<close>.\<close>

definition for_items :: "(bytes \<Rightarrow> (rlp_error + 'a) option) \<Rightarrow> bytes \<Rightarrow> (rlp_error + 'a list) option" where
  "for_items f d =
     (if \<not> isList d then Some (Inr [])
      else case iter_begin d of Inl e \<Rightarrow> Some (Inl e) | Inr it \<Rightarrow> iterate_with f d it [])"

definition toVector :: "(bytes \<Rightarrow> int \<Rightarrow> rlp_error + 'a) \<Rightarrow> bytes \<Rightarrow> int \<Rightarrow> (rlp_error + 'a list) option" where
  "toVector conv d flags =
     (if isList d then for_items (\<lambda>i. Some (conv i flags)) d
      else Some (if flags AND ThrowOnFail \<noteq> 0 then Inl BadCast else Inr []))"

definition rlp_field_loop :: "nat \<Rightarrow> (bytes \<Rightarrow> (rlp_error + 'a) option) \<Rightarrow> rlp_obj \<Rightarrow> (rlp_error + 'a \<times> rlp_obj) option" where
  "rlp_field_loop i f r = loop_bind (Some (index r i)) (\<lambda>(x, r). loop_bind (f x) (\<lambda>v. Some (Inr (v, r))))"

lemma iterate_with_step:
  assumes "list_all chunk cs" and "k < length cs" and "f (cs ! k) = Some (Inr v)"
  shows "iterate_with f (list_bytes cs @ t) (iter_at cs k) ret =
    iterate_with f (list_bytes cs @ t) (iter_at cs (Suc k)) (ret @ [v])"
proof -
  have "nth_or_null cs k \<noteq> []"
    using assms nth_or_null_Nil [OF assms(1)] by simp
  then have "m_currentItem (iter_at cs k) \<noteq> m_currentItem (iter_end (list_bytes cs @ t))"
    by (simp add: iter_at_def iter_end_def cropped_from_def)
  then show ?thesis
    using assms by (subst iterate_with.simps) (simp add: iter_deref_eq iter_next_eq nth_or_null_def)
qed

lemma iterate_with_steps:
  assumes "list_all chunk cs" and "\<And>i. i < length cs \<Longrightarrow> f (cs ! i) = Some (Inr (g i))"
  shows "n + k = length cs \<Longrightarrow> iterate_with f (list_bytes cs @ t) (iter_at cs k) ret =
    iterate_with f (list_bytes cs @ t) (iter_at cs (length cs)) (ret @ map g [k..<length cs])"
proof (induction n arbitrary: k ret)
  case (Suc n)
  then show ?case
    using iterate_with_step [OF assms(1), of k f "g k"] assms(2) [of k] by (simp add: upt_conv_Cons)
qed simp

text \<open>Over an encoded list the loop ends, with the conversions of the items.\<close>

lemma for_items_enc:
  assumes r: "readable (Lst (map it xs))" and f: "\<And>x. x \<in> set xs \<Longrightarrow> f (enc (it x)) = Some (Inr (v x))"
  shows "for_items f (enc (Lst (map it xs))) = Some (Inr (map v xs))"
proof -
  let ?cs = "map enc (map it xs)"
  have cs: "list_of_chunks ?cs" "enc (Lst (map it xs)) = list_bytes ?cs"
    using list_of_chunks_enc [OF r] enc_Lst by blast+
  have ch: "list_all chunk ?cs"
    using cs(1) by (simp add: list_of_chunks_def)
  have step: "f (?cs ! i) = Some (Inr (v (xs ! i)))" if "i < length ?cs" for i
    using that f by simp
  have map: "map (\<lambda>i. v (xs ! i)) [0..<length ?cs] = map v xs"
    by (rule nth_equalityI) simp_all
  have "iterate_with f (list_bytes ?cs) (iter_at ?cs (length ?cs)) ret = Some (Inr ret)" for ret
    by (subst iterate_with.simps) (simp add: iter_at_def iter_end_def cropped_from_def list_bytes_def nth_or_null_def)
  then have "iterate_with f (list_bytes ?cs) (iter_at ?cs 0) [] = Some (Inr (map v xs))"
    using iterate_with_steps [where f = f and g = "\<lambda>i. v (xs ! i)" and t = "[]" and n = "length ?cs" and k = 0 and ret = "[]", OF ch step] map
    by simp
  then show ?thesis
    using iter_begin_eq [OF cs(1), of "[]"] isList_list_bytes [OF cs(1), of "[]"]
    unfolding cs(2) by (simp add: for_items_def del: map_map)
qed

lemma field_loop_enc:
  assumes "over xs r" and "i < length xs" and "i < 100" and "f (enc (xs ! i)) = Some (Inr v)"
  shows "\<exists>r'. rlp_field_loop i f r = Some (Inr (v, r')) \<and> over xs r'"
proof -
  have "list_of_chunks (map enc xs)"
    using assms(1) list_of_chunks_enc by (auto simp: over_def simp del: readable.simps)
  then obtain r' where "index r i = Inr (nth_or_null (map enc xs) i, r')" "cache_ok (map enc xs) [] r'"
    using index_ok [of "map enc xs" "[]" r i] assms(1,3) by (auto simp: over_def simp del: readable.simps)
  then show ?thesis
    using assms by (simp add: rlp_field_loop_def nth_or_null_def over_def del: readable.simps enc.simps)
qed

lemma field_loop_bind:
  assumes "over xs r" and "i < length xs" and "i < 100" and "f (enc (xs ! i)) = Some (Inr v)"
    and "\<And>r'. over xs r' \<Longrightarrow> k (v, r') = w"
  shows "loop_bind (rlp_field_loop i f r) k = w"
  using field_loop_enc [of xs r i f v] assms by (auto simp del: enc.simps)

lemma field_loop_bind_err:
  assumes "over xs r" and "i < length xs" and "i < 100" and "f (enc (xs ! i)) = Some (Inr v)"
    and "\<And>r'. over xs r' \<Longrightarrow> k (v, r') = w"
  shows "loop_bind (map_option (map_err h) (rlp_field_loop i f r)) k = w"
  using field_loop_enc [of xs r i f v] assms by (auto simp del: enc.simps)

lemma appendItems_fun: "appendItems [] = Inr" "appendItems (x # xs) = (\<lambda>s. sum_bind (appendItem x s) (appendItems xs))"
  by (simp_all add: fun_eq_iff)

end
