(* ===== verification/Account.thy ===== *)
theory Account
  imports RLP_Fields
begin

text \<open>
  An account of the state (\<^verbatim>\<open>libaecereum/Account.h\<close>, \<^verbatim>\<open>Account.cpp\<close>) and the leaf of the state
  trie it is stored as: written by \<^verbatim>\<open>commit\<close> and read by \<^verbatim>\<open>State::account\<close> (\<^verbatim>\<open>State.cpp\<close>).

  The Keccak hash comes from a package outside the repository; it is the parameter \<open>K\<close> of the
  definitions that use it.
\<close>

section \<open>Account\<close>

type_synonym keccak = "bytes \<Rightarrow> h256"

definition EmptySHA3 :: "keccak \<Rightarrow> h256" where
  "EmptySHA3 K = K []"

text \<open>\<^verbatim>\<open>sha3(rlp(""))\<close>; the encoding of the empty string is one byte.\<close>

definition EmptyTrie :: "keccak \<Rightarrow> h256" where
  "EmptyTrie K = K [0x80]"

lemma EmptyTrie_rlp: "rlp (Data []) = Inr [0x80]"
  by code_simp

datatype Changedness = Changed | Unchanged

record Account =
  m_isAlive :: bool
  m_isUnchanged :: bool
  m_hasNewCode :: bool
  m_nonce :: u256
  m_balance :: u256
  m_storageRoot :: h256
  m_codeHash :: h256
  m_storageOverlay :: "u256 \<rightharpoonup> u256"
  m_codeCache :: bytes

text \<open>The three constructors: a dead account, one with an endowment, one read from the trie.\<close>

definition Account_dead :: "keccak \<Rightarrow> Account" where
  "Account_dead K = \<lparr>m_isAlive = False, m_isUnchanged = False, m_hasNewCode = False, m_nonce = 0,
     m_balance = 0, m_storageRoot = EmptyTrie K, m_codeHash = EmptySHA3 K, m_storageOverlay = Map.empty,
     m_codeCache = []\<rparr>"

definition Account_alive :: "keccak \<Rightarrow> u256 \<Rightarrow> u256 \<Rightarrow> Changedness \<Rightarrow> Account" where
  "Account_alive K nonce balance c = (Account_dead K)\<lparr>m_isAlive := True, m_isUnchanged := (c = Unchanged),
     m_nonce := nonce, m_balance := balance\<rparr>"

definition Account_contract :: "keccak \<Rightarrow> u256 \<Rightarrow> u256 \<Rightarrow> h256 \<Rightarrow> h256 \<Rightarrow> Changedness \<Rightarrow> Account" where
  "Account_contract K nonce balance contractRoot codeHash c =
     (Account_alive K nonce balance c)\<lparr>m_storageRoot := contractRoot, m_codeHash := codeHash\<rparr>"

definition Account_changed :: "Account \<Rightarrow> Account" where
  "Account_changed a = a\<lparr>m_isUnchanged := False\<rparr>"

definition Account_isDirty :: "Account \<Rightarrow> bool" where
  "Account_isDirty a \<longleftrightarrow> \<not> m_isUnchanged a"

definition Account_kill :: "keccak \<Rightarrow> Account \<Rightarrow> Account" where
  "Account_kill K a = Account_changed (a\<lparr>m_isAlive := False, m_storageOverlay := Map.empty,
     m_codeHash := EmptySHA3 K, m_storageRoot := EmptyTrie K, m_balance := 0, m_nonce := 0\<rparr>)"

definition Account_untouch :: "Account \<Rightarrow> Account" where
  "Account_untouch a = a\<lparr>m_isUnchanged := True\<rparr>"

definition Account_isEmpty :: "keccak \<Rightarrow> Account \<Rightarrow> bool" where
  "Account_isEmpty K a \<longleftrightarrow> m_nonce a = 0 \<and> m_balance a = 0 \<and> m_codeHash a = EmptySHA3 K"

definition Account_addBalance :: "u256 \<Rightarrow> Account \<Rightarrow> Account" where
  "Account_addBalance v a = Account_changed (a\<lparr>m_balance := m_balance a + v\<rparr>)"

definition Account_incNonce :: "Account \<Rightarrow> Account" where
  "Account_incNonce a = Account_changed (a\<lparr>m_nonce := m_nonce a + 1\<rparr>)"

definition Account_setNonce :: "u256 \<Rightarrow> Account \<Rightarrow> Account" where
  "Account_setNonce n a = Account_changed (a\<lparr>m_nonce := n\<rparr>)"

definition Account_setStorage :: "u256 \<Rightarrow> u256 \<Rightarrow> Account \<Rightarrow> Account" where
  "Account_setStorage p v a = Account_changed (a\<lparr>m_storageOverlay := (m_storageOverlay a)(p \<mapsto> v)\<rparr>)"

definition Account_clearStorage :: "keccak \<Rightarrow> Account \<Rightarrow> Account" where
  "Account_clearStorage K a =
     Account_changed (a\<lparr>m_storageOverlay := Map.empty, m_storageRoot := EmptyTrie K\<rparr>)"

definition Account_setStorageRoot :: "h256 \<Rightarrow> Account \<Rightarrow> Account" where
  "Account_setStorageRoot r a = Account_changed (a\<lparr>m_storageOverlay := Map.empty, m_storageRoot := r\<rparr>)"

definition Account_setStorageCache :: "u256 \<Rightarrow> u256 \<Rightarrow> Account \<Rightarrow> Account" where
  "Account_setStorageCache p v a = a\<lparr>m_storageOverlay := (m_storageOverlay a)(p \<mapsto> v)\<rparr>"

text \<open>\<^verbatim>\<open>setCode\<close> and \<^verbatim>\<open>noteCode\<close> do not mark the account as changed.\<close>

definition Account_setCode :: "keccak \<Rightarrow> bytes \<Rightarrow> Account \<Rightarrow> Account" where
  "Account_setCode K code a = a\<lparr>m_codeCache := code, m_hasNewCode := True, m_codeHash := K code\<rparr>"

definition Account_resetCode :: "keccak \<Rightarrow> Account \<Rightarrow> Account" where
  "Account_resetCode K a = a\<lparr>m_codeCache := [], m_hasNewCode := False, m_codeHash := EmptySHA3 K\<rparr>"

definition Account_noteCode :: "bytes \<Rightarrow> Account \<Rightarrow> Account" where
  "Account_noteCode code a = a\<lparr>m_codeCache := code\<rparr>"

lemmas Account_defs = Account_dead_def Account_alive_def Account_contract_def Account_changed_def
  Account_isDirty_def Account_kill_def Account_untouch_def Account_isEmpty_def Account_addBalance_def
  Account_incNonce_def Account_setNonce_def Account_setStorage_def Account_clearStorage_def
  Account_setStorageRoot_def Account_setStorageCache_def Account_setCode_def Account_noteCode_def

section \<open>The leaf\<close>

text \<open>
  \<^verbatim>\<open>RLPStream s(4)\<close> followed by the nonce, the balance, the storage root and the code hash. The
  root is the one of the storage trie after the overlay has been written to it.
\<close>

definition encodeLeaf :: "u256 \<Rightarrow> u256 \<Rightarrow> h256 \<Rightarrow> h256 \<Rightarrow> rlp_error + bytes" where
  "encodeLeaf nonce balance root codeHash =
     sum_bind (appendList 4 RLPStream) (\<lambda>s.
     sum_bind (appendInt (unat nonce) s) (\<lambda>s.
     sum_bind (appendInt (unat balance) s) (\<lambda>s.
     sum_bind (appendBytes (toBigEndian 32 (unat root)) False s) (\<lambda>s.
     sum_bind (appendBytes (toBigEndian 32 (unat codeHash)) False s) out_stream))))"

text \<open>
  \<^verbatim>\<open>RLP state(stateBack)\<close> and the four items; \<^verbatim>\<open>toInt\<close> and \<^verbatim>\<open>toHash\<close> are called with their
  default flags.
\<close>

definition decodeLeaf :: "keccak \<Rightarrow> bytes \<Rightarrow> rlp_error + Account" where
  "decodeLeaf K stateBack =
     sum_bind (RLP stateBack VeryStrict) (\<lambda>d.
     sum_bind (rlp_field 0 (\<lambda>i. toInt i Strict) (rlp_obj_of d)) (\<lambda>(nonce, r).
     sum_bind (rlp_field 1 (\<lambda>i. toInt i Strict) r) (\<lambda>(balance, r).
     sum_bind (rlp_field 2 (\<lambda>i. toHash 32 i Strict) r) (\<lambda>(root, r).
     sum_bind (rlp_field 3 (\<lambda>i. toHash 32 i Strict) r) (\<lambda>(codeHash, r).
       Inr (Account_contract K nonce balance (fromBigEndian root) (fromBigEndian codeHash) Unchanged))))))"

section \<open>The leaf's round trip\<close>

definition leafItems :: "u256 \<Rightarrow> u256 \<Rightarrow> h256 \<Rightarrow> h256 \<Rightarrow> item list" where
  "leafItems nonce balance root codeHash =
     [Data (toCompactBigEndian (unat nonce) 0), Data (toCompactBigEndian (unat balance) 0),
      Data (toBigEndian 32 (unat root)), Data (toBigEndian 32 (unat codeHash))]"

lemma unat_u256_less: "unat (w :: u256) < 256 ^ 32"
  using unsigned_less [of w, where 'a = nat] by simp

lemma length_compact_u256: "length (toCompactBigEndian (unat (w :: u256)) 0) \<le> 32"
  using unat_u256_less by (rule length_compact_le)

lemma length_enc_Data_small: "length bs \<le> 32 \<Longrightarrow> length (enc (Data bs)) \<le> 33"
  by (auto simp: enc_data_def enc_length_def)

lemma length_concat_leafItems: "length (concat (map enc (leafItems n b r c))) \<le> 132"
proof -
  have "length (enc (Data (toCompactBigEndian (unat (w :: u256)) 0))) \<le> 33"
    "length (enc (Data (toBigEndian 32 (unat w)))) \<le> 33" for w :: u256
    by (intro length_enc_Data_small; simp add: length_compact_u256)+
  from this(1) [of n] this(1) [of b] this(2) [of r] this(2) [of c] show ?thesis
    by (simp add: leafItems_def del: enc.simps)
qed

lemma readable_leafItems: "readable (Lst (leafItems n b r c))"
  using length_concat_leafItems [of n b r c] length_compact_u256 [of n] length_compact_u256 [of b]
  by (simp add: leafItems_def max_field_def)

lemma encodeLeaf_eq: "encodeLeaf n b r c = Inr (enc (Lst (leafItems n b r c)))"
proof -
  have "encodeLeaf n b r c = rlp (Lst (leafItems n b r c))"
    by (simp add: encodeLeaf_def rlp_def appendInt_item [OF unat_u256_less] leafItems_def eval_nat_numeral
        del: toBigEndian.simps)
  then show ?thesis
    using rlp_enc [OF readable_fits [OF readable_leafItems]] by simp
qed

lemma decodeLeaf_enc: "decodeLeaf K (enc (Lst (leafItems n b r c))) = Inr (Account_contract K n b r c Unchanged)"
proof -
  let ?xs = "leafItems n b r c"
  have ch: "RLP (enc (Lst ?xs)) VeryStrict = Inr (enc (Lst ?xs))"
    by (rule RLP_chunk [OF chunk_enc [OF readable_leafItems]])
  have items: "length ?xs = 4" "?xs ! 0 = Data (toCompactBigEndian (unat n) 0)"
    "?xs ! 1 = Data (toCompactBigEndian (unat b) 0)" "?xs ! 2 = Data (toBigEndian 32 (unat r))"
    "?xs ! 3 = Data (toBigEndian 32 (unat c))"
    by (simp_all add: leafItems_def)
  have o: "over ?xs (rlp_obj_of (enc (Lst ?xs)))"
    by (rule over_start [OF readable_leafItems])
  obtain r0 where r0: "rlp_field 0 (\<lambda>i. toInt i Strict) (rlp_obj_of (enc (Lst ?xs))) = Inr (n, r0)" "over ?xs r0"
    using field_enc [OF o, of 0 "\<lambda>i. toInt i Strict" n] by (auto simp: items toInt_item simp del: enc.simps)
  obtain r1 where r1: "rlp_field 1 (\<lambda>i. toInt i Strict) r0 = Inr (b, r1)" "over ?xs r1"
    using field_enc [OF r0(2), of 1 "\<lambda>i. toInt i Strict" b]
    by (auto simp: items toInt_item simp del: enc.simps One_nat_def)
  obtain r2 where r2: "rlp_field 2 (\<lambda>i. toHash 32 i Strict) r1 = Inr (toBigEndian 32 (unat r), r2)" "over ?xs r2"
    using field_enc [OF r1(2), of 2 "\<lambda>i. toHash 32 i Strict"]
    by (auto simp: items toHash_item max_field_def simp del: enc.simps)
  obtain r3 where r3: "rlp_field 3 (\<lambda>i. toHash 32 i Strict) r2 = Inr (toBigEndian 32 (unat c), r3)"
    using field_enc [OF r2(2), of 3 "\<lambda>i. toHash 32 i Strict"]
    by (auto simp: items toHash_item max_field_def simp del: enc.simps)
  show ?thesis
    unfolding decodeLeaf_def ch
    by (simp add: r0 r1 r2 r3 fromBigEndian_toBigEndian_word del: sum_bind_eq_Inr enc.simps One_nat_def)
qed


end
