(* ===== verification/State.thy ===== *)
theory State
  imports Account
begin

text \<open>
  The world state (\<^verbatim>\<open>libaecereum/State.h\<close>, \<^verbatim>\<open>State.cpp\<close>, \<^verbatim>\<open>CodeSizeCache.h\<close>): the accounts of the
  state trie behind a cache that reads fill and evict, and the change log that \<^verbatim>\<open>rollback\<close> undoes.

  The database is the contents it stores: for each root hash the trie below it, as the payload at
  a hashed key (empty where the trie has none), and for each code hash the code. The random device
  that chooses what a full cache evicts is a stream of numbers. A C++ exception is the left
  summand; reads are functions from a state to a result and a state, because they fill the caches.
  Assertions, which release builds drop, are not part of the definitions.
\<close>

section \<open>State\<close>

type_synonym trie = "h256 \<Rightarrow> bytes"

datatype state_error =
    BadLeaf rlp_error | RootNotFound | NotEnoughCash | InvalidAccountStartNonceInState
  | IncorrectAccountStartNonceInState | PoppedEmptyLog

text \<open>The entries of the change log; the balance entry holds the amount added.\<close>

datatype Change =
    ChangeBalance address u256 | ChangeStorage address u256 u256 | ChangeStorageRoot address h256
  | ChangeNonce address u256 | ChangeCreate address | ChangeCode address bytes | ChangeTouch address

record State =
  m_tries :: "h256 \<rightharpoonup> trie"
  m_codes :: "h256 \<Rightarrow> bytes"
  m_root :: h256
  m_cache :: "address \<rightharpoonup> Account"
  m_unchangedCacheEntries :: "address list"
  m_nonExistingAccountsCache :: "address set"
  m_touched :: "address set"
  m_accountStartNonce :: u256
  m_changeLog :: "Change list"
  m_codeSizeCache :: "(h256 \<times> nat) list"
  m_rng :: "nat \<Rightarrow> nat"

definition Invalid256 :: u256 where
  "Invalid256 = - 1"

definition logged :: "Change \<Rightarrow> State \<Rightarrow> State" where
  "logged c s = s\<lparr>m_changeLog := m_changeLog s @ [c]\<rparr>"

definition setAccount :: "address \<Rightarrow> Account \<Rightarrow> State \<Rightarrow> State" where
  "setAccount a acc s = s\<lparr>m_cache := (m_cache s)(a \<mapsto> acc)\<rparr>"

text \<open>\<^verbatim>\<open>m_cache[a]\<close>, which inserts a dead account where there is none.\<close>

definition cacheSlot :: "keccak \<Rightarrow> address \<Rightarrow> State \<Rightarrow> Account" where
  "cacheSlot K a s = (case m_cache s a of Some acc \<Rightarrow> acc | None \<Rightarrow> Account_dead K)"

section \<open>The database\<close>

text \<open>
  Opening a \<^verbatim>\<open>SecureTrieDB\<close> at a root: the empty trie is created on demand. The key of an entry is
  the hash of the address or of the big-endian storage key.
\<close>

definition openTrie :: "keccak \<Rightarrow> State \<Rightarrow> h256 \<Rightarrow> state_error + trie" where
  "openTrie K s root = (case m_tries s root of
       Some t \<Rightarrow> Inr t
     | None \<Rightarrow> if root = EmptyTrie K then Inr (\<lambda>_. []) else Inl RootNotFound)"

definition addressKey :: "keccak \<Rightarrow> address \<Rightarrow> h256" where
  "addressKey K a = K (toBigEndian 20 (unat a))"

definition storageKey :: "keccak \<Rightarrow> u256 \<Rightarrow> h256" where
  "storageKey K k = K (toBigEndian 32 (unat k))"

definition rlpU256 :: "bytes \<Rightarrow> state_error + u256" where
  "rlpU256 pl = (case sum_bind (RLP pl VeryStrict) (\<lambda>d. toInt d Strict) of
       Inl e \<Rightarrow> Inl (BadLeaf e) | Inr v \<Rightarrow> Inr v)"

definition storageLookup :: "keccak \<Rightarrow> State \<Rightarrow> h256 \<Rightarrow> u256 \<Rightarrow> state_error + u256" where
  "storageLookup K s root k = sum_bind (openTrie K s root) (\<lambda>t.
     if t (storageKey K k) \<noteq> [] then rlpU256 (t (storageKey K k)) else Inr 0)"

section \<open>Code sizes\<close>

text \<open>\<^verbatim>\<open>CodeSizeCache\<close>: a \<^verbatim>\<open>std::map\<close>, here the list of its entries in the order of the keys.\<close>

definition c_maxSize :: nat where
  "c_maxSize = 50000"

fun csc_insert :: "h256 \<Rightarrow> nat \<Rightarrow> (h256 \<times> nat) list \<Rightarrow> (h256 \<times> nat) list" where
  "csc_insert h n [] = [(h, n)]"
| "csc_insert h n ((h', n') # m) =
     (if h < h' then (h, n) # (h', n') # m else if h = h' then (h, n) # m
      else (h', n') # csc_insert h n m)"

definition removeRandomElement :: "h256 \<Rightarrow> (h256 \<times> nat) list \<Rightarrow> (h256 \<times> nat) list" where
  "removeRandomElement r m =
     (let below = takeWhile (\<lambda>e. fst e < r) m in
      if length below < length m then below @ drop (Suc (length below)) m else tl m)"

definition csc_store :: "h256 \<Rightarrow> nat \<Rightarrow> State \<Rightarrow> State" where
  "csc_store h n s =
     (if length (m_codeSizeCache s) \<ge> c_maxSize
      then s\<lparr>m_codeSizeCache := csc_insert h n (removeRandomElement (word_of_nat (m_rng s 0)) (m_codeSizeCache s)),
             m_rng := (\<lambda>i. m_rng s (Suc i))\<rparr>
      else s\<lparr>m_codeSizeCache := csc_insert h n (m_codeSizeCache s)\<rparr>)"

section \<open>Finding an account\<close>

text \<open>
  One pass of the loop of \<^verbatim>\<open>clearCacheIfTooLarge\<close>: a random entry of the vector is swapped with the
  last one and removed, and the account goes if nothing has changed it.
\<close>

definition evictOne :: "State \<Rightarrow> State" where
  "evictOne s =
     (let entries = m_unchangedCacheEntries s;
          i = m_rng s 0 mod length entries;
          a = entries ! i;
          entries' = butlast (entries[i := last entries, length entries - 1 := a])
      in s\<lparr>m_unchangedCacheEntries := entries', m_rng := (\<lambda>j. m_rng s (Suc j)),
           m_cache := (case m_cache s a of
               Some acc \<Rightarrow> if \<not> Account_isDirty acc then (m_cache s)(a := None) else m_cache s
             | None \<Rightarrow> m_cache s)\<rparr>)"

lemma length_evictOne:
  "m_unchangedCacheEntries s \<noteq> [] \<Longrightarrow>
   length (m_unchangedCacheEntries (evictOne s)) < length (m_unchangedCacheEntries s)"
  by (simp add: evictOne_def Let_def)

function clearCacheIfTooLarge :: "State \<Rightarrow> State" where
  "clearCacheIfTooLarge s =
     (if length (m_unchangedCacheEntries s) > 1000 then clearCacheIfTooLarge (evictOne s) else s)"
  by pat_completeness auto
termination
  by (relation "measure (\<lambda>s. length (m_unchangedCacheEntries s))") (auto intro!: length_evictOne)

declare clearCacheIfTooLarge.simps [simp del]

text \<open>
  \<^verbatim>\<open>account\<close>: the pointer it returns is the entry of the cache at the address, or null. The leaf is
  decoded before the cache is trimmed; nothing observes the order.
\<close>

definition State_account :: "keccak \<Rightarrow> address \<Rightarrow> State \<Rightarrow> state_error + Account option \<times> State" where
  "State_account K a s =
     (case m_cache s a of
        Some acc \<Rightarrow> Inr (Some acc, s)
      | None \<Rightarrow>
          if a \<in> m_nonExistingAccountsCache s then Inr (None, s)
          else sum_bind (openTrie K s (m_root s)) (\<lambda>t.
            (let stateBack = t (addressKey K a) in
             if stateBack = []
             then Inr (None, s\<lparr>m_nonExistingAccountsCache := insert a (m_nonExistingAccountsCache s)\<rparr>)
             else (case decodeLeaf K stateBack of
                 Inl e \<Rightarrow> Inl (BadLeaf e)
               | Inr acc \<Rightarrow>
                   (let s1 = clearCacheIfTooLarge s in
                    Inr (Some acc, setAccount a acc
                      (s1\<lparr>m_unchangedCacheEntries := m_unchangedCacheEntries s1 @ [a]\<rparr>)))))))"

section \<open>Reading\<close>

definition State_addressInUse :: "keccak \<Rightarrow> address \<Rightarrow> State \<Rightarrow> state_error + bool \<times> State" where
  "State_addressInUse K a s = sum_bind (State_account K a s) (\<lambda>(acc, s). Inr (acc \<noteq> None, s))"

definition State_accountNonemptyAndExisting :: "keccak \<Rightarrow> address \<Rightarrow> State \<Rightarrow> state_error + bool \<times> State" where
  "State_accountNonemptyAndExisting K a s = sum_bind (State_account K a s) (\<lambda>(acc, s).
     Inr (case acc of Some acc \<Rightarrow> \<not> Account_isEmpty K acc | None \<Rightarrow> False, s))"

definition State_addressHasCode :: "keccak \<Rightarrow> address \<Rightarrow> State \<Rightarrow> state_error + bool \<times> State" where
  "State_addressHasCode K a s = sum_bind (State_account K a s) (\<lambda>(acc, s).
     Inr (case acc of Some acc \<Rightarrow> m_codeHash acc \<noteq> EmptySHA3 K | None \<Rightarrow> False, s))"

definition State_balance :: "keccak \<Rightarrow> address \<Rightarrow> State \<Rightarrow> state_error + u256 \<times> State" where
  "State_balance K a s = sum_bind (State_account K a s) (\<lambda>(acc, s).
     Inr (case acc of Some acc \<Rightarrow> m_balance acc | None \<Rightarrow> 0, s))"

definition State_getNonce :: "keccak \<Rightarrow> address \<Rightarrow> State \<Rightarrow> state_error + u256 \<times> State" where
  "State_getNonce K a s = sum_bind (State_account K a s) (\<lambda>(acc, s).
     Inr (case acc of Some acc \<Rightarrow> m_nonce acc | None \<Rightarrow> m_accountStartNonce s, s))"

definition State_codeHash :: "keccak \<Rightarrow> address \<Rightarrow> State \<Rightarrow> state_error + h256 \<times> State" where
  "State_codeHash K a s = sum_bind (State_account K a s) (\<lambda>(acc, s).
     Inr (case acc of Some acc \<Rightarrow> m_codeHash acc | None \<Rightarrow> EmptySHA3 K, s))"

definition State_storage :: "keccak \<Rightarrow> address \<Rightarrow> u256 \<Rightarrow> State \<Rightarrow> state_error + u256 \<times> State" where
  "State_storage K a k s = sum_bind (State_account K a s) (\<lambda>(acc, s).
     case acc of
       None \<Rightarrow> Inr (0, s)
     | Some acc \<Rightarrow>
         (case m_storageOverlay acc k of
            Some v \<Rightarrow> Inr (v, s)
          | None \<Rightarrow> sum_bind (storageLookup K s (m_storageRoot acc) k) (\<lambda>ret.
              Inr (ret, setAccount a (Account_setStorageCache k ret acc) s))))"

definition State_code :: "keccak \<Rightarrow> address \<Rightarrow> State \<Rightarrow> state_error + bytes \<times> State" where
  "State_code K a s = sum_bind (State_account K a s) (\<lambda>(acc, s).
     case acc of
       None \<Rightarrow> Inr ([], s)
     | Some acc \<Rightarrow>
         if m_codeHash acc = EmptySHA3 K then Inr ([], s)
         else if m_codeCache acc = []
         then (let code = m_codes s (m_codeHash acc) in
               Inr (code, csc_store (m_codeHash acc) (length code) (setAccount a (Account_noteCode code acc) s)))
         else Inr (m_codeCache acc, s))"

definition State_codeSize :: "keccak \<Rightarrow> address \<Rightarrow> State \<Rightarrow> state_error + nat \<times> State" where
  "State_codeSize K a s = sum_bind (State_account K a s) (\<lambda>(acc, s).
     case acc of
       None \<Rightarrow> Inr (0, s)
     | Some acc \<Rightarrow>
         if m_hasNewCode acc then Inr (length (m_codeCache acc), s)
         else (case map_of (m_codeSizeCache s) (m_codeHash acc) of
             Some n \<Rightarrow> Inr (n, s)
           | None \<Rightarrow> sum_bind (State_code K a s) (\<lambda>(code, s).
               Inr (length code, csc_store (m_codeHash acc) (length code) s))))"

definition State_storageRoot :: "keccak \<Rightarrow> address \<Rightarrow> State \<Rightarrow> state_error + h256" where
  "State_storageRoot K a s = sum_bind (openTrie K s (m_root s)) (\<lambda>t.
     (let leaf = t (addressKey K a) in
      if leaf \<noteq> []
      then (case sum_bind (RLP leaf VeryStrict) (\<lambda>d. sum_bind (index (rlp_obj_of d) 2)
                   (\<lambda>(i, _). toHash 32 i Strict)) of
              Inl e \<Rightarrow> Inl (BadLeaf e) | Inr h \<Rightarrow> Inr (fromBigEndian h))
      else Inr (EmptyTrie K)))"

section \<open>Writing\<close>

definition State_requireAccountStartNonce :: "State \<Rightarrow> state_error + u256" where
  "State_requireAccountStartNonce s =
     (if m_accountStartNonce s = Invalid256 then Inl InvalidAccountStartNonceInState
      else Inr (m_accountStartNonce s))"

definition State_noteAccountStartNonce :: "u256 \<Rightarrow> State \<Rightarrow> state_error + State" where
  "State_noteAccountStartNonce actual s =
     (if m_accountStartNonce s = Invalid256 then Inr (s\<lparr>m_accountStartNonce := actual\<rparr>)
      else if m_accountStartNonce s \<noteq> actual then Inl IncorrectAccountStartNonceInState else Inr s)"

definition State_createAccount :: "address \<Rightarrow> Account \<Rightarrow> State \<Rightarrow> State" where
  "State_createAccount a acc s = logged (ChangeCreate a)
     ((setAccount a acc s)\<lparr>m_nonExistingAccountsCache := m_nonExistingAccountsCache s - {a}\<rparr>)"

definition State_createContract :: "keccak \<Rightarrow> address \<Rightarrow> State \<Rightarrow> state_error + State" where
  "State_createContract K a s = sum_bind (State_requireAccountStartNonce s) (\<lambda>n.
     Inr (State_createAccount a (Account_alive K n 0 Changed) s))"

definition State_incNonce :: "keccak \<Rightarrow> address \<Rightarrow> State \<Rightarrow> state_error + State" where
  "State_incNonce K a s = sum_bind (State_account K a s) (\<lambda>(acc, s).
     case acc of
       Some acc \<Rightarrow> Inr (logged (ChangeNonce a (m_nonce acc)) (setAccount a (Account_incNonce acc) s))
     | None \<Rightarrow> sum_bind (State_requireAccountStartNonce s) (\<lambda>n.
         Inr (State_createAccount a (Account_alive K (n + 1) 0 Changed) s)))"

definition State_setNonce :: "keccak \<Rightarrow> address \<Rightarrow> u256 \<Rightarrow> State \<Rightarrow> state_error + State" where
  "State_setNonce K a newNonce s = sum_bind (State_account K a s) (\<lambda>(acc, s).
     case acc of
       Some acc \<Rightarrow> Inr (logged (ChangeNonce a (m_nonce acc)) (setAccount a (Account_setNonce newNonce acc) s))
     | None \<Rightarrow> Inr (State_createAccount a (Account_alive K newNonce 0 Changed) s))"

definition State_addBalance :: "keccak \<Rightarrow> address \<Rightarrow> u256 \<Rightarrow> State \<Rightarrow> state_error + State" where
  "State_addBalance K a amount s = sum_bind
     (sum_bind (State_account K a s) (\<lambda>(acc, s).
        case acc of
          Some acc \<Rightarrow>
            (let s1 = (if \<not> Account_isDirty acc \<and> Account_isEmpty K acc then logged (ChangeTouch a) s else s)
             in Inr (setAccount a (Account_addBalance amount acc) s1))
        | None \<Rightarrow> sum_bind (State_requireAccountStartNonce s) (\<lambda>n.
            Inr (State_createAccount a (Account_alive K n amount Changed) s))))
     (\<lambda>s. Inr (if amount \<noteq> 0 then logged (ChangeBalance a amount) s else s))"

definition State_subBalance :: "keccak \<Rightarrow> address \<Rightarrow> u256 \<Rightarrow> State \<Rightarrow> state_error + State" where
  "State_subBalance K a v s =
     (if v = 0 then Inr s
      else sum_bind (State_account K a s) (\<lambda>(acc, s).
        case acc of
          None \<Rightarrow> Inl NotEnoughCash
        | Some acc \<Rightarrow> if m_balance acc < v then Inl NotEnoughCash else State_addBalance K a (0 - v) s))"

definition State_setBalance :: "keccak \<Rightarrow> address \<Rightarrow> u256 \<Rightarrow> State \<Rightarrow> state_error + State" where
  "State_setBalance K a v s = sum_bind (State_account K a s) (\<lambda>(acc, s).
     (let original = (case acc of Some acc \<Rightarrow> m_balance acc | None \<Rightarrow> 0) in
      State_addBalance K a (v - original) s))"

definition State_transferBalance :: "keccak \<Rightarrow> address \<Rightarrow> address \<Rightarrow> u256 \<Rightarrow> State \<Rightarrow> state_error + State" where
  "State_transferBalance K from to v s = sum_bind (State_subBalance K from v s) (State_addBalance K to v)"

definition State_kill :: "keccak \<Rightarrow> address \<Rightarrow> State \<Rightarrow> state_error + State" where
  "State_kill K a s = sum_bind (State_account K a s) (\<lambda>(acc, s).
     Inr (case acc of Some acc \<Rightarrow> setAccount a (Account_kill K acc) s | None \<Rightarrow> s))"

text \<open>
  \<^verbatim>\<open>setStorage\<close>, \<^verbatim>\<open>clearStorage\<close> and \<^verbatim>\<open>setCode\<close> write to \<^verbatim>\<open>m_cache[a]\<close> whether or not the
  account exists; \<^verbatim>\<open>clearStorage\<close> does not look the account up in the trie.
\<close>

definition State_setStorage :: "keccak \<Rightarrow> address \<Rightarrow> u256 \<Rightarrow> u256 \<Rightarrow> State \<Rightarrow> state_error + State" where
  "State_setStorage K a k v s = sum_bind (State_storage K a k s) (\<lambda>(old, s).
     (let s = logged (ChangeStorage a k old) s in
      Inr (setAccount a (Account_setStorage k v (cacheSlot K a s)) s)))"

definition State_clearStorage :: "keccak \<Rightarrow> address \<Rightarrow> State \<Rightarrow> State" where
  "State_clearStorage K a s =
     (let s = setAccount a (cacheSlot K a s) s; oldHash = m_storageRoot (cacheSlot K a s) in
      if oldHash = EmptyTrie K then s
      else (let s = logged (ChangeStorageRoot a oldHash) s in
            setAccount a (Account_clearStorage K (cacheSlot K a s)) s))"

definition State_setCode :: "keccak \<Rightarrow> address \<Rightarrow> bytes \<Rightarrow> State \<Rightarrow> state_error + State" where
  "State_setCode K a code s = sum_bind (State_code K a s) (\<lambda>(old, s).
     (let s = logged (ChangeCode a old) s in
      Inr (setAccount a (Account_setCode K code (cacheSlot K a s)) s)))"

definition State_removeEmptyAccounts :: "keccak \<Rightarrow> State \<Rightarrow> State" where
  "State_removeEmptyAccounts K s = s\<lparr>m_cache := (\<lambda>a. case m_cache s a of
       Some acc \<Rightarrow> Some (if Account_isDirty acc \<and> Account_isEmpty K acc then Account_kill K acc else acc)
     | None \<Rightarrow> None)\<rparr>"

definition State_setRoot :: "keccak \<Rightarrow> h256 \<Rightarrow> State \<Rightarrow> state_error + State" where
  "State_setRoot K r s =
     (let s = s\<lparr>m_cache := Map.empty, m_unchangedCacheEntries := [], m_nonExistingAccountsCache := {},
                m_root := r\<rparr>
      in sum_bind (openTrie K s r) (\<lambda>_. Inr s))"

section \<open>Savepoints\<close>

definition State_savepoint :: "State \<Rightarrow> nat" where
  "State_savepoint s = length (m_changeLog s)"

fun Change_address :: "Change \<Rightarrow> address" where
  "Change_address (ChangeBalance a v) = a"
| "Change_address (ChangeStorage a k v) = a"
| "Change_address (ChangeStorageRoot a r) = a"
| "Change_address (ChangeNonce a n) = a"
| "Change_address (ChangeCreate a) = a"
| "Change_address (ChangeCode a c) = a"
| "Change_address (ChangeTouch a) = a"

text \<open>The body of the loop of \<^verbatim>\<open>rollback\<close> on the last entry of the log.\<close>

definition undoChange :: "keccak \<Rightarrow> Change \<Rightarrow> State \<Rightarrow> State" where
  "undoChange K c s =
     (let acc = cacheSlot K (Change_address c) s; s0 = setAccount (Change_address c) acc s in
      case c of
        ChangeStorage a k v \<Rightarrow> setAccount a (Account_setStorage k v acc) s0
      | ChangeStorageRoot a r \<Rightarrow> setAccount a (Account_setStorageRoot r acc) s0
      | ChangeBalance a v \<Rightarrow> setAccount a (Account_addBalance (0 - v) acc) s0
      | ChangeNonce a n \<Rightarrow> setAccount a (Account_setNonce n acc) s0
      | ChangeCreate a \<Rightarrow> s0\<lparr>m_cache := (m_cache s0)(a := None)\<rparr>
      | ChangeCode a code \<Rightarrow> setAccount a (Account_setCode K code acc) s0
      | ChangeTouch a \<Rightarrow> (setAccount a (Account_untouch acc) s0)
          \<lparr>m_unchangedCacheEntries := m_unchangedCacheEntries s0 @ [a]\<rparr>)"

lemma m_changeLog_undoChange [simp]: "m_changeLog (undoChange K c s) = m_changeLog s"
  by (cases c) (simp_all add: undoChange_def setAccount_def Let_def)

function State_rollback :: "keccak \<Rightarrow> nat \<Rightarrow> State \<Rightarrow> state_error + State" where
  "State_rollback K savepoint s =
     (if savepoint = length (m_changeLog s) then Inr s
      else if m_changeLog s = [] then Inl PoppedEmptyLog
      else State_rollback K savepoint
        ((undoChange K (last (m_changeLog s)) s)\<lparr>m_changeLog := butlast (m_changeLog s)\<rparr>))"
  by pat_completeness auto
termination
  by (relation "measure (\<lambda>(K, sp, s). length (m_changeLog s))") auto

declare State_rollback.simps [simp del]

end
