(* ===== verification/State_Spec.thy ===== *)
theory State_Spec
  imports State
begin

text \<open>
  What the state promises: accounts as a plain map, without caches, and the change log. Every
  operation of \<^verbatim>\<open>State\<close> refines the operation on that map, whatever the caches hold and whichever
  entries the random eviction removes.
\<close>

section \<open>The abstract state\<close>

record acct =
  a_alive :: bool
  a_nonce :: u256
  a_balance :: u256
  a_root :: h256
  a_codeHash :: h256
  a_code :: bytes
  a_storage :: "u256 \<Rightarrow> u256"

text \<open>An account and whether it has been changed since the last commit.\<close>

type_synonym accts = "address \<rightharpoonup> acct \<times> bool"

record spec =
  accts :: accts
  slog :: "Change list"

definition put :: "address \<Rightarrow> acct \<times> bool \<Rightarrow> spec \<Rightarrow> spec" where
  "put a x \<sigma> = \<sigma>\<lparr>accts := (accts \<sigma>)(a \<mapsto> x)\<rparr>"

definition note_change :: "Change \<Rightarrow> spec \<Rightarrow> spec" where
  "note_change c \<sigma> = \<sigma>\<lparr>slog := slog \<sigma> @ [c]\<rparr>"

definition a_empty :: "keccak \<Rightarrow> acct \<Rightarrow> bool" where
  "a_empty K x \<longleftrightarrow> a_nonce x = 0 \<and> a_balance x = 0 \<and> a_codeHash x = EmptySHA3 K"

definition a_fresh :: "keccak \<Rightarrow> (h256 \<Rightarrow> u256 \<Rightarrow> u256) \<Rightarrow> bool \<Rightarrow> u256 \<Rightarrow> u256 \<Rightarrow> acct" where
  "a_fresh K base alive n v = \<lparr>a_alive = alive, a_nonce = n, a_balance = v, a_root = EmptyTrie K,
     a_codeHash = EmptySHA3 K, a_code = [], a_storage = base (EmptyTrie K)\<rparr>"

text \<open>
  What a run does not change: the start nonce, the accounts of the state trie and the storage below
  a root.
\<close>

record ground =
  g_startNonce :: u256
  g_leaf :: "address \<rightharpoonup> acct"
  g_storage :: "h256 \<Rightarrow> u256 \<Rightarrow> u256"

section \<open>Operations\<close>

definition spec_create :: "keccak \<Rightarrow> ground \<Rightarrow> address \<Rightarrow> u256 \<Rightarrow> u256 \<Rightarrow> spec \<Rightarrow> spec" where
  "spec_create K g a n v \<sigma> = note_change (ChangeCreate a) (put a (a_fresh K (g_storage g) True n v, True) \<sigma>)"

definition spec_startNonce :: "ground \<Rightarrow> state_error + u256" where
  "spec_startNonce g =
     (if g_startNonce g = Invalid256 then Inl InvalidAccountStartNonceInState else Inr (g_startNonce g))"

definition spec_createContract :: "keccak \<Rightarrow> ground \<Rightarrow> address \<Rightarrow> spec \<Rightarrow> state_error + spec" where
  "spec_createContract K g a \<sigma> = sum_bind (spec_startNonce g) (\<lambda>n. Inr (spec_create K g a n 0 \<sigma>))"

definition spec_incNonce :: "keccak \<Rightarrow> ground \<Rightarrow> address \<Rightarrow> spec \<Rightarrow> state_error + spec" where
  "spec_incNonce K g a \<sigma> = (case accts \<sigma> a of
       Some (x, d) \<Rightarrow> Inr (note_change (ChangeNonce a (a_nonce x)) (put a (x\<lparr>a_nonce := a_nonce x + 1\<rparr>, True) \<sigma>))
     | None \<Rightarrow> sum_bind (spec_startNonce g) (\<lambda>n. Inr (spec_create K g a (n + 1) 0 \<sigma>)))"

definition spec_setNonce :: "keccak \<Rightarrow> ground \<Rightarrow> address \<Rightarrow> u256 \<Rightarrow> spec \<Rightarrow> state_error + spec" where
  "spec_setNonce K g a n \<sigma> = Inr (case accts \<sigma> a of
       Some (x, d) \<Rightarrow> note_change (ChangeNonce a (a_nonce x)) (put a (x\<lparr>a_nonce := n\<rparr>, True) \<sigma>)
     | None \<Rightarrow> spec_create K g a n 0 \<sigma>)"

definition spec_addBalance :: "keccak \<Rightarrow> ground \<Rightarrow> address \<Rightarrow> u256 \<Rightarrow> spec \<Rightarrow> state_error + spec" where
  "spec_addBalance K g a v \<sigma> = sum_bind
     (case accts \<sigma> a of
        Some (x, d) \<Rightarrow> Inr (put a (x\<lparr>a_balance := a_balance x + v\<rparr>, True)
            (if \<not> d \<and> a_empty K x then note_change (ChangeTouch a) \<sigma> else \<sigma>))
      | None \<Rightarrow> sum_bind (spec_startNonce g) (\<lambda>n. Inr (spec_create K g a n v \<sigma>)))
     (\<lambda>\<sigma>. Inr (if v \<noteq> 0 then note_change (ChangeBalance a v) \<sigma> else \<sigma>))"

definition spec_subBalance :: "keccak \<Rightarrow> ground \<Rightarrow> address \<Rightarrow> u256 \<Rightarrow> spec \<Rightarrow> state_error + spec" where
  "spec_subBalance K g a v \<sigma> =
     (if v = 0 then Inr \<sigma>
      else case accts \<sigma> a of
        None \<Rightarrow> Inl NotEnoughCash
      | Some (x, d) \<Rightarrow> if a_balance x < v then Inl NotEnoughCash else spec_addBalance K g a (- v) \<sigma>)"

definition spec_setBalance :: "keccak \<Rightarrow> ground \<Rightarrow> address \<Rightarrow> u256 \<Rightarrow> spec \<Rightarrow> state_error + spec" where
  "spec_setBalance K g a v \<sigma> =
     spec_addBalance K g a (v - (case accts \<sigma> a of Some (x, d) \<Rightarrow> a_balance x | None \<Rightarrow> 0)) \<sigma>"

definition spec_transfer :: "keccak \<Rightarrow> ground \<Rightarrow> address \<Rightarrow> address \<Rightarrow> u256 \<Rightarrow> spec \<Rightarrow> state_error + spec" where
  "spec_transfer K g from to v \<sigma> = sum_bind (spec_subBalance K g from v \<sigma>) (spec_addBalance K g to v)"

definition spec_kill :: "keccak \<Rightarrow> ground \<Rightarrow> address \<Rightarrow> spec \<Rightarrow> spec" where
  "spec_kill K g a \<sigma> = (case accts \<sigma> a of
       Some (x, d) \<Rightarrow> put a (a_fresh K (g_storage g) False 0 0, True) \<sigma>
     | None \<Rightarrow> \<sigma>)"

definition spec_setStorage :: "keccak \<Rightarrow> ground \<Rightarrow> address \<Rightarrow> u256 \<Rightarrow> u256 \<Rightarrow> spec \<Rightarrow> spec" where
  "spec_setStorage K g a k v \<sigma> =
     (let x = (case accts \<sigma> a of Some (x, d) \<Rightarrow> x | None \<Rightarrow> a_fresh K (g_storage g) False 0 0);
          old = (case accts \<sigma> a of Some (x, d) \<Rightarrow> a_storage x k | None \<Rightarrow> 0)
      in put a (x\<lparr>a_storage := (a_storage x)(k := v)\<rparr>, True) (note_change (ChangeStorage a k old) \<sigma>))"

text \<open>The code an account has after \<^verbatim>\<open>setCode\<close>: \<^verbatim>\<open>State::code\<close> decides by the hash.\<close>

definition a_setCode :: "keccak \<Rightarrow> bytes \<Rightarrow> acct \<Rightarrow> acct" where
  "a_setCode K c x = x\<lparr>a_codeHash := K c, a_code := (if K c = EmptySHA3 K then [] else c)\<rparr>"

definition spec_setCode :: "keccak \<Rightarrow> address \<Rightarrow> bytes \<Rightarrow> acct \<times> bool \<Rightarrow> spec \<Rightarrow> spec" where
  "spec_setCode K a c xd \<sigma> =
     put a (a_setCode K c (fst xd), snd xd) (note_change (ChangeCode a (a_code (fst xd))) \<sigma>)"

section \<open>Undoing\<close>

definition spec_undo :: "keccak \<Rightarrow> ground \<Rightarrow> Change \<Rightarrow> accts \<Rightarrow> accts" where
  "spec_undo K g c A =
     (let (x, d) = (case A (Change_address c) of Some xd \<Rightarrow> xd | None \<Rightarrow> (a_fresh K (g_storage g) False 0 0, True))
      in case c of
        ChangeStorage a k v \<Rightarrow> A(a \<mapsto> (x\<lparr>a_storage := (a_storage x)(k := v)\<rparr>, True))
      | ChangeStorageRoot a r \<Rightarrow> A(a \<mapsto> (x\<lparr>a_root := r, a_storage := g_storage g r\<rparr>, True))
      | ChangeBalance a v \<Rightarrow> A(a \<mapsto> (x\<lparr>a_balance := a_balance x - v\<rparr>, True))
      | ChangeNonce a n \<Rightarrow> A(a \<mapsto> (x\<lparr>a_nonce := n\<rparr>, True))
      | ChangeCreate a \<Rightarrow> A(a := map_option (\<lambda>x. (x, False)) (g_leaf g a))
      | ChangeCode a code \<Rightarrow> A(a \<mapsto> (a_setCode K code x, d))
      | ChangeTouch a \<Rightarrow> A(a \<mapsto> (x, False)))"

section \<open>Abstraction\<close>

definition baseStorage :: "keccak \<Rightarrow> State \<Rightarrow> h256 \<Rightarrow> u256 \<Rightarrow> u256" where
  "baseStorage K s root k = (case storageLookup K s root k of Inr v \<Rightarrow> v | Inl _ \<Rightarrow> 0)"

definition acct_code :: "keccak \<Rightarrow> State \<Rightarrow> Account \<Rightarrow> bytes" where
  "acct_code K s acc =
     (if m_codeHash acc = EmptySHA3 K then []
      else if m_codeCache acc = [] then m_codes s (m_codeHash acc) else m_codeCache acc)"

text \<open>The overlay of an account on top of the storage trie.\<close>

definition overlaid :: "(u256 \<rightharpoonup> u256) \<Rightarrow> (u256 \<Rightarrow> u256) \<Rightarrow> u256 \<Rightarrow> u256" where
  "overlaid ov base k = (case ov k of Some v \<Rightarrow> v | None \<Rightarrow> base k)"

definition acct_of :: "keccak \<Rightarrow> State \<Rightarrow> Account \<Rightarrow> acct" where
  "acct_of K s acc = \<lparr>a_alive = m_isAlive acc, a_nonce = m_nonce acc, a_balance = m_balance acc,
     a_root = m_storageRoot acc, a_codeHash = m_codeHash acc, a_code = acct_code K s acc,
     a_storage = overlaid (m_storageOverlay acc) (baseStorage K s (m_storageRoot acc))\<rparr>"

definition leafAccount :: "keccak \<Rightarrow> State \<Rightarrow> address \<Rightarrow> Account option" where
  "leafAccount K s a = (case openTrie K s (m_root s) of
       Inl _ \<Rightarrow> None
     | Inr t \<Rightarrow> (if t (addressKey K a) = [] then None
                else case decodeLeaf K (t (addressKey K a)) of Inl _ \<Rightarrow> None | Inr acc \<Rightarrow> Some acc))"

definition ground_of :: "keccak \<Rightarrow> State \<Rightarrow> ground" where
  "ground_of K s = \<lparr>g_startNonce = m_accountStartNonce s,
     g_leaf = (\<lambda>a. map_option (acct_of K s) (leafAccount K s a)), g_storage = baseStorage K s\<rparr>"

definition accts_of :: "keccak \<Rightarrow> State \<Rightarrow> accts" where
  "accts_of K s = (\<lambda>a. case m_cache s a of
       Some acc \<Rightarrow> Some (acct_of K s acc, Account_isDirty acc)
     | None \<Rightarrow> map_option (\<lambda>acc. (acct_of K s acc, False)) (leafAccount K s a))"

definition spec_of :: "keccak \<Rightarrow> State \<Rightarrow> spec" where
  "spec_of K s = \<lparr>accts = accts_of K s, slog = m_changeLog s\<rparr>"

section \<open>Invariant\<close>

definition root_ok :: "keccak \<Rightarrow> State \<Rightarrow> h256 \<Rightarrow> bool" where
  "root_ok K s root \<longleftrightarrow> (\<forall>k. \<exists>v. storageLookup K s root k = Inr v)"

definition acct_ok :: "keccak \<Rightarrow> State \<Rightarrow> Account \<Rightarrow> bool" where
  "acct_ok K s acc \<longleftrightarrow> root_ok K s (m_storageRoot acc) \<and>
     (m_codeHash acc \<noteq> EmptySHA3 K \<longrightarrow> K (acct_code K s acc) = m_codeHash acc)"

text \<open>The database is readable: leaves decode, the roots in them exist, codes have their hash.\<close>

definition db_ok :: "keccak \<Rightarrow> State \<Rightarrow> bool" where
  "db_ok K s \<longleftrightarrow> root_ok K s (EmptyTrie K) \<and>
     (\<exists>t. openTrie K s (m_root s) = Inr t \<and>
        (\<forall>a. t (addressKey K a) \<noteq> [] \<longrightarrow>
           (\<exists>acc. decodeLeaf K (t (addressKey K a)) = Inr acc \<and> acct_ok K s acc)))"

definition state_inv :: "keccak \<Rightarrow> State \<Rightarrow> bool" where
  "state_inv K s \<longleftrightarrow> db_ok K s \<and>
     (\<forall>a acc. m_cache s a = Some acc \<longrightarrow> acct_ok K s acc \<and>
        (\<not> Account_isDirty acc \<longrightarrow> map_option (acct_of K s) (leafAccount K s a) = Some (acct_of K s acc))) \<and>
     (\<forall>a \<in> m_nonExistingAccountsCache s. leafAccount K s a = None) \<and>
     (\<forall>a r. ChangeStorageRoot a r \<in> set (m_changeLog s) \<longrightarrow> root_ok K s r)"

text \<open>Two states of one database.\<close>

definition same_db :: "State \<Rightarrow> State \<Rightarrow> bool" where
  "same_db s s' \<longleftrightarrow> m_tries s' = m_tries s \<and> m_codes s' = m_codes s \<and> m_root s' = m_root s \<and>
     m_accountStartNonce s' = m_accountStartNonce s"

end
