(* ===== verification/State_Refine.thy ===== *)
theory State_Refine
  imports State_Spec
begin

text \<open>
  The operations of \<^verbatim>\<open>State\<close> keep the invariant of the caches and refine the operations on the plain
  map of accounts.
\<close>

section \<open>What depends on the database only\<close>

lemma same_db_refl [simp]: "same_db s s"
  by (simp add: same_db_def)

lemma same_db_trans: "same_db s s' \<Longrightarrow> same_db s' s'' \<Longrightarrow> same_db s s''"
  by (simp add: same_db_def)

lemma db_cong:
  assumes "same_db s s'"
  shows "openTrie K s' = openTrie K s" "storageLookup K s' = storageLookup K s"
    "baseStorage K s' = baseStorage K s" "acct_code K s' = acct_code K s" "acct_of K s' = acct_of K s"
    "leafAccount K s' = leafAccount K s" "root_ok K s' = root_ok K s" "acct_ok K s' = acct_ok K s"
    "db_ok K s' = db_ok K s" "ground_of K s' = ground_of K s"
proof -
  show o: "openTrie K s' = openTrie K s"
    using assms by (intro ext) (simp add: openTrie_def same_db_def)
  show l: "storageLookup K s' = storageLookup K s"
    by (intro ext) (simp add: storageLookup_def o)
  show b: "baseStorage K s' = baseStorage K s"
    by (intro ext) (simp add: baseStorage_def l)
  show c: "acct_code K s' = acct_code K s"
    using assms by (intro ext) (simp add: acct_code_def same_db_def)
  show a: "acct_of K s' = acct_of K s"
    by (intro ext) (simp add: acct_of_def b c)
  show f: "leafAccount K s' = leafAccount K s"
    using assms by (intro ext) (simp add: leafAccount_def o same_db_def)
  show r: "root_ok K s' = root_ok K s"
    by (intro ext) (simp add: root_ok_def l)
  show k: "acct_ok K s' = acct_ok K s"
    by (intro ext) (simp add: acct_ok_def r c)
  show "db_ok K s' = db_ok K s"
    using assms by (simp add: db_ok_def r o k same_db_def)
  show "ground_of K s' = ground_of K s"
    using assms by (simp add: ground_of_def a f b same_db_def)
qed

lemma same_db_updates [simp]:
  "same_db s (setAccount a acc s')  \<longleftrightarrow> same_db s s'" "same_db s (logged c s') \<longleftrightarrow> same_db s s'"
  "same_db s (csc_store h n s') \<longleftrightarrow> same_db s s'"
  "same_db s (s'\<lparr>m_cache := x\<rparr>) \<longleftrightarrow> same_db s s'"
  "same_db s (s'\<lparr>m_nonExistingAccountsCache := ne\<rparr>) \<longleftrightarrow> same_db s s'"
  "same_db s (s'\<lparr>m_unchangedCacheEntries := es\<rparr>) \<longleftrightarrow> same_db s s'"
  "same_db s (s'\<lparr>m_changeLog := l\<rparr>) \<longleftrightarrow> same_db s s'"
  "same_db s (s'\<lparr>m_rng := r\<rparr>) \<longleftrightarrow> same_db s s'"
  "same_db s (State_createAccount a acc s') \<longleftrightarrow> same_db s s'"
  "same_db s (undoChange K ch s') \<longleftrightarrow> same_db s s'"
  by (auto simp: same_db_def setAccount_def logged_def csc_store_def State_createAccount_def undoChange_def
      Let_def split: Change.splits)

lemma db_simps [simp]:
  "acct_of K (setAccount a acc s) = acct_of K s" "acct_of K (logged c s) = acct_of K s"
  "leafAccount K (setAccount a acc s) = leafAccount K s" "leafAccount K (logged c s) = leafAccount K s"
  "root_ok K (setAccount a acc s) = root_ok K s" "root_ok K (logged c s) = root_ok K s"
  "acct_ok K (setAccount a acc s) = acct_ok K s" "acct_ok K (logged c s) = acct_ok K s"
  "db_ok K (setAccount a acc s) = db_ok K s" "db_ok K (logged c s) = db_ok K s"
  "ground_of K (setAccount a acc s) = ground_of K s" "ground_of K (logged c s) = ground_of K s"
  by (intro db_cong; simp)+

lemma field_simps [simp]:
  "m_cache (setAccount a acc s) = (m_cache s)(a \<mapsto> acc)" "m_cache (logged c s) = m_cache s"
  "m_changeLog (setAccount a acc s) = m_changeLog s" "m_changeLog (logged c s) = m_changeLog s @ [c]"
  "m_nonExistingAccountsCache (setAccount a acc s) = m_nonExistingAccountsCache s"
  "m_nonExistingAccountsCache (logged c s) = m_nonExistingAccountsCache s"
  "m_accountStartNonce (setAccount a acc s) = m_accountStartNonce s"
  "m_accountStartNonce (logged c s) = m_accountStartNonce s"
  by (simp_all add: setAccount_def logged_def)

lemma accts_setAccount [simp]:
  "accts_of K (setAccount a acc s) = (accts_of K s)(a \<mapsto> (acct_of K s acc, Account_isDirty acc))"
  by (rule ext) (simp add: accts_of_def cong: option.case_cong)

lemma accts_logged [simp]: "accts_of K (logged c s) = accts_of K s"
  by (rule ext) (simp add: accts_of_def cong: option.case_cong)

section \<open>The caches are invisible\<close>

text \<open>Two states that differ in what their caches hold only.\<close>

definition same_view :: "keccak \<Rightarrow> State \<Rightarrow> State \<Rightarrow> bool" where
  "same_view K s s' \<longleftrightarrow> state_inv K s' \<and> same_db s s' \<and> spec_of K s' = spec_of K s"

lemma same_view_refl: "state_inv K s \<Longrightarrow> same_view K s s"
  by (simp add: same_view_def)

lemma same_view_trans: "same_view K s s' \<Longrightarrow> same_view K s' s'' \<Longrightarrow> same_view K s s''"
  by (auto simp: same_view_def intro: same_db_trans)

lemma same_view_csc_store: "state_inv K s \<Longrightarrow> same_view K s (csc_store h n s)"
proof -
  assume inv: "state_inv K s"
  have d: "same_db s (csc_store h n s)" by simp
  have "m_cache (csc_store h n s) = m_cache s" "m_changeLog (csc_store h n s) = m_changeLog s"
    "m_nonExistingAccountsCache (csc_store h n s) = m_nonExistingAccountsCache s"
    by (simp_all add: csc_store_def)
  then show ?thesis
    using inv d by (simp add: same_view_def state_inv_def spec_of_def accts_of_def db_cong [OF d]
        cong: option.case_cong)
qed

lemma same_view_evictOne:
  assumes inv: "state_inv K s"
  shows "same_view K s (evictOne s)"
proof -
  define a where "a = m_unchangedCacheEntries s ! (m_rng s 0 mod length (m_unchangedCacheEntries s))"
  let ?s = "evictOne s"
  have d: "same_db s ?s"
    by (simp add: evictOne_def same_db_def Let_def)
  have c: "m_cache ?s = m_cache s \<or>
      m_cache ?s = (m_cache s)(a := None) \<and> (\<exists>acc. m_cache s a = Some acc \<and> \<not> Account_isDirty acc)"
    by (simp add: evictOne_def Let_def a_def split: option.split)
  have f: "m_changeLog ?s = m_changeLog s" "m_nonExistingAccountsCache ?s = m_nonExistingAccountsCache s"
    by (simp_all add: evictOne_def Let_def)
  have "accts_of K ?s = accts_of K s"
    using c inv by (auto simp: accts_of_def db_cong [OF d] state_inv_def split: option.split)
  then show ?thesis
    using inv d f c by (auto simp: same_view_def state_inv_def spec_of_def db_cong [OF d] split: if_splits)
qed

lemma same_view_clearCache: "state_inv K s \<Longrightarrow> same_view K s (clearCacheIfTooLarge s)"
proof (induction s rule: clearCacheIfTooLarge.induct)
  case (1 s)
  then show ?case
    using same_view_evictOne [of K s]
    by (auto simp: clearCacheIfTooLarge.simps [of s] same_view_refl same_view_def intro: same_db_trans)
qed

text \<open>Looking an account up finds what the map has, and shows nothing else.\<close>

lemma leafAccount_contract:
  assumes "leafAccount K s a = Some acc"
  shows "\<not> Account_isDirty acc" "m_hasNewCode acc = False" "m_isAlive acc" "m_storageOverlay acc = Map.empty"
proof -
  obtain t where "decodeLeaf K (t (addressKey K a)) = Inr acc"
    using assms by (auto simp: leafAccount_def split: sum.splits if_splits)
  then show "\<not> Account_isDirty acc" "m_hasNewCode acc = False" "m_isAlive acc" "m_storageOverlay acc = Map.empty"
    by (auto simp: decodeLeaf_def Account_defs)
qed

lemma State_account_spec:
  assumes inv: "state_inv K s"
  shows "\<exists>acc s'. State_account K a s = Inr (acc, s') \<and> same_view K s s' \<and> m_cache s' a = acc \<and>
    accts_of K s' a = map_option (\<lambda>acc. (acct_of K s' acc, Account_isDirty acc)) acc"
proof (cases "m_cache s a")
  case (Some acc)
  then show ?thesis
    using inv by (simp add: State_account_def same_view_refl accts_of_def)
next
  case None
  obtain t where t: "openTrie K s (m_root s) = Inr t"
    "\<And>a. t (addressKey K a) \<noteq> [] \<Longrightarrow> \<exists>acc. decodeLeaf K (t (addressKey K a)) = Inr acc \<and> acct_ok K s acc"
    using inv by (auto simp: state_inv_def db_ok_def)
  consider "a \<in> m_nonExistingAccountsCache s" | "a \<notin> m_nonExistingAccountsCache s" "t (addressKey K a) = []"
    | acc where "a \<notin> m_nonExistingAccountsCache s" "t (addressKey K a) \<noteq> []"
      "decodeLeaf K (t (addressKey K a)) = Inr acc" "acct_ok K s acc"
    using t(2) by blast
  then show ?thesis
  proof cases
    case 1
    then have "leafAccount K s a = None"
      using inv by (auto simp: state_inv_def)
    then show ?thesis
      using 1 None inv by (simp add: State_account_def same_view_refl accts_of_def)
  next
    case 2
    let ?s = "s\<lparr>m_nonExistingAccountsCache := insert a (m_nonExistingAccountsCache s)\<rparr>"
    have d: "same_db s ?s" by simp
    have leaf: "leafAccount K s a = None"
      using 2 t by (simp add: leafAccount_def)
    have "same_view K s ?s"
      using inv leaf unfolding same_view_def state_inv_def spec_of_def accts_of_def db_cong [OF d] by simp
    then show ?thesis
      using 2 None t leaf by (simp add: State_account_def accts_of_def db_cong [OF d])
  next
    case 3
    let ?s1 = "clearCacheIfTooLarge s"
    let ?s2 = "?s1\<lparr>m_unchangedCacheEntries := m_unchangedCacheEntries ?s1 @ [a]\<rparr>"
    have v1: "same_view K s ?s1"
      using inv by (rule same_view_clearCache)
    have d2: "same_db ?s1 ?s2" by simp
    have v2: "same_view K s ?s2"
      using v1 unfolding same_view_def state_inv_def spec_of_def accts_of_def db_cong [OF d2] by simp
    have leaf: "leafAccount K s a = Some acc"
      using 3 t by (simp add: leafAccount_def)
    have d: "same_db s ?s2"
      using v2 by (simp add: same_view_def)
    have "accts_of K ?s2 a = Some (acct_of K s acc, False)"
      using v2 None leaf by (simp add: same_view_def spec_of_def accts_of_def)
    moreover have "\<not> Account_isDirty acc"
      using leafAccount_contract [OF leaf] by simp
    ultimately have "same_view K s (setAccount a acc ?s2)"
      using v2 leaf 3(4) by (auto simp: same_view_def state_inv_def spec_of_def db_cong [OF d] fun_upd_idem)
    then show ?thesis
      using 3 None t \<open>\<not> Account_isDirty acc\<close> by (simp add: State_account_def Let_def)
  qed
qed

section \<open>Accounts\<close>

lemma overlaid_simps [simp]:
  "overlaid Map.empty base = base" "overlaid (ov(k \<mapsto> v)) base = (overlaid ov base)(k := v)"
  by (auto simp: overlaid_def)

lemma overlaid_absorb: "ov k = None \<Longrightarrow> v = base k \<Longrightarrow> (overlaid ov base)(k := v) = overlaid ov base"
  by (auto simp: overlaid_def)


lemma acct_of_ops [simp]:
  "acct_of K s (Account_addBalance v acc) = (acct_of K s acc)\<lparr>a_balance := m_balance acc + v\<rparr>"
  "acct_of K s (Account_incNonce acc) = (acct_of K s acc)\<lparr>a_nonce := m_nonce acc + 1\<rparr>"
  "acct_of K s (Account_setNonce n acc) = (acct_of K s acc)\<lparr>a_nonce := n\<rparr>"
  "acct_of K s (Account_alive K n v c) = a_fresh K (baseStorage K s) True n v"
  "acct_of K s (Account_dead K) = a_fresh K (baseStorage K s) False 0 0"
  "acct_of K s (Account_kill K acc) = a_fresh K (baseStorage K s) False 0 0"
  "acct_of K s (Account_setCode K code acc) = a_setCode K code (acct_of K s acc)"
  "acct_of K s (Account_untouch acc) = acct_of K s acc"
  "acct_of K s (Account_setStorage k w acc) =
     (acct_of K s acc)\<lparr>a_storage := (a_storage (acct_of K s acc))(k := w)\<rparr>"
  "acct_of K s (Account_setStorageRoot r acc) =
     (acct_of K s acc)\<lparr>a_root := r, a_storage := baseStorage K s r\<rparr>"
  "acct_of K s (Account_clearStorage K acc) =
     (acct_of K s acc)\<lparr>a_root := EmptyTrie K, a_storage := baseStorage K s (EmptyTrie K)\<rparr>"
  by (auto simp: acct_of_def Account_defs acct_code_def a_fresh_def a_setCode_def EmptySHA3_def)

lemma acct_of_fields [simp]:
  "a_balance (acct_of K s acc) = m_balance acc" "a_nonce (acct_of K s acc) = m_nonce acc"
  "a_codeHash (acct_of K s acc) = m_codeHash acc" "a_root (acct_of K s acc) = m_storageRoot acc"
  "a_code (acct_of K s acc) = acct_code K s acc" "a_alive (acct_of K s acc) = m_isAlive acc"
  "a_empty K (acct_of K s acc) = Account_isEmpty K acc"
  by (simp_all add: acct_of_def a_empty_def Account_isEmpty_def)

lemma dirty_ops [simp]:
  "Account_isDirty (Account_addBalance v acc)" "Account_isDirty (Account_incNonce acc)"
  "Account_isDirty (Account_setNonce n acc)" "Account_isDirty (Account_alive K n v Changed)"
  "Account_isDirty (Account_dead K)" "Account_isDirty (Account_kill K acc)"
  "Account_isDirty (Account_setStorage k w acc)" "Account_isDirty (Account_setStorageRoot r acc)"
  "Account_isDirty (Account_clearStorage K acc)" "\<not> Account_isDirty (Account_untouch acc)"
  "Account_isDirty (Account_setCode K code acc) = Account_isDirty acc"
  "Account_isDirty (Account_setStorageCache k w acc) = Account_isDirty acc"
  "Account_isDirty (Account_noteCode code acc) = Account_isDirty acc"
  by (simp_all add: Account_defs)

lemma acct_ok_ops [simp]:
  "acct_ok K s acc \<Longrightarrow> acct_ok K s (Account_addBalance v acc)"
  "acct_ok K s acc \<Longrightarrow> acct_ok K s (Account_incNonce acc)"
  "acct_ok K s acc \<Longrightarrow> acct_ok K s (Account_setNonce n acc)"
  "acct_ok K s acc \<Longrightarrow> acct_ok K s (Account_setStorage k w acc)"
  "acct_ok K s acc \<Longrightarrow> acct_ok K s (Account_untouch acc)"
  "acct_ok K s acc \<Longrightarrow> acct_ok K s (Account_setCode K code acc)"
  "acct_ok K s acc \<Longrightarrow> acct_ok K s (Account_setStorageCache k w acc)"
  "acct_ok K s acc \<Longrightarrow> root_ok K s r \<Longrightarrow> acct_ok K s (Account_setStorageRoot r acc)"
  "acct_ok K s acc \<Longrightarrow> root_ok K s (EmptyTrie K) \<Longrightarrow> acct_ok K s (Account_clearStorage K acc)"
  "root_ok K s (EmptyTrie K) \<Longrightarrow> acct_ok K s (Account_alive K n v c)"
  "root_ok K s (EmptyTrie K) \<Longrightarrow> acct_ok K s (Account_dead K)"
  "root_ok K s (EmptyTrie K) \<Longrightarrow> acct_ok K s (Account_kill K acc)"
  by (auto simp: acct_ok_def Account_defs acct_code_def EmptySHA3_def split: if_splits)

lemma acct_of_noteCode:
  "m_codeCache acc = [] \<Longrightarrow> m_codeHash acc \<noteq> EmptySHA3 K \<Longrightarrow>
   acct_of K s (Account_noteCode (m_codes s (m_codeHash acc)) acc) = acct_of K s acc"
  by (simp add: acct_of_def Account_defs acct_code_def)

lemma acct_of_setStorageCache:
  "m_storageOverlay acc k = None \<Longrightarrow> v = baseStorage K s (m_storageRoot acc) k \<Longrightarrow>
   acct_of K s (Account_setStorageCache k v acc) = acct_of K s acc"
  by (simp add: acct_of_def Account_defs acct_code_def overlaid_absorb)

section \<open>Keeping the invariant\<close>

lemma state_inv_root [simp]: "state_inv K s \<Longrightarrow> root_ok K s (EmptyTrie K)"
  by (simp add: state_inv_def db_ok_def)

lemma state_inv_acct: "state_inv K s \<Longrightarrow> m_cache s a = Some acc \<Longrightarrow> acct_ok K s acc"
  by (simp add: state_inv_def)

lemma state_inv_setAccount:
  assumes "state_inv K s" "acct_ok K s acc"
    and "\<not> Account_isDirty acc \<Longrightarrow> map_option (acct_of K s) (leafAccount K s a) = Some (acct_of K s acc)"
  shows "state_inv K (setAccount a acc s)"
  using assms unfolding state_inv_def by simp

lemma state_inv_logged:
  assumes "state_inv K s" "\<And>a r. c = ChangeStorageRoot a r \<Longrightarrow> root_ok K s r"
  shows "state_inv K (logged c s)"
  using assms unfolding state_inv_def by auto

lemma state_inv_createAccount:
  assumes inv: "state_inv K s" and "acct_ok K s acc" "Account_isDirty acc"
  shows "state_inv K (State_createAccount a acc s)"
proof -
  have d: "same_db s (State_createAccount a acc s)" by simp
  show ?thesis
    using assms unfolding state_inv_def db_cong [OF d]
    by (auto simp: State_createAccount_def setAccount_def logged_def)
qed

lemma spec_of_createAccount:
  "spec_of K (State_createAccount a (Account_alive K n v Changed) s) =
   spec_create K (ground_of K s) a n v (spec_of K s)"
proof -
  have d: "same_db s (State_createAccount a (Account_alive K n v Changed) s)" by simp
  show ?thesis
    unfolding spec_of_def accts_of_def db_cong [OF d]
    by (auto simp: State_createAccount_def spec_create_def put_def note_change_def ground_of_def
        setAccount_def logged_def)
qed

lemma spec_of_setAccount:
  "spec_of K (setAccount a acc s) = put a (acct_of K s acc, Account_isDirty acc) (spec_of K s)"
  by (simp add: spec_of_def put_def)

lemma spec_of_logged: "spec_of K (logged c s) = note_change c (spec_of K s)"
  by (simp add: spec_of_def note_change_def)

section \<open>Reads\<close>

lemma same_view_startNonce: "same_view K s s' \<Longrightarrow> m_accountStartNonce s' = m_accountStartNonce s"
  by (simp add: same_view_def same_db_def)

definition reads :: "keccak \<Rightarrow> State \<Rightarrow> state_error + 'a \<times> State \<Rightarrow> 'a \<Rightarrow> bool" where
  "reads K s r v \<longleftrightarrow> (\<exists>s'. r = Inr (v, s') \<and> same_view K s s')"

lemma reads_account:
  assumes inv: "state_inv K s"
    and "\<And>acc s'. same_view K s s' \<Longrightarrow> m_cache s' a = acc \<Longrightarrow>
      accts_of K s a = map_option (\<lambda>acc. (acct_of K s acc, Account_isDirty acc)) acc \<Longrightarrow> reads K s (f (acc, s')) v"
  shows "reads K s (sum_bind (State_account K a s) f) v"
proof -
  obtain acc s' where r: "State_account K a s = Inr (acc, s')" "same_view K s s'" "m_cache s' a = acc"
    "accts_of K s' a = map_option (\<lambda>acc. (acct_of K s' acc, Account_isDirty acc)) acc"
    using State_account_spec [OF inv] by blast
  have d: "same_db s s'" and "accts_of K s' = accts_of K s"
    using r(2) by (simp_all add: same_view_def spec_of_def)
  with r assms(2) [of s' acc] show ?thesis
    by (simp add: db_cong [OF d])
qed

definition read_acct :: "spec \<Rightarrow> address \<Rightarrow> (acct \<Rightarrow> 'a) \<Rightarrow> 'a \<Rightarrow> 'a" where
  "read_acct \<sigma> a f z = (case accts \<sigma> a of Some (x, d) \<Rightarrow> f x | None \<Rightarrow> z)"

lemma read_ops:
  assumes "state_inv K s"
  shows "reads K s (State_balance K a s) (read_acct (spec_of K s) a a_balance 0)"
    and "reads K s (State_getNonce K a s) (read_acct (spec_of K s) a a_nonce (m_accountStartNonce s))"
    and "reads K s (State_codeHash K a s) (read_acct (spec_of K s) a a_codeHash (EmptySHA3 K))"
    and "reads K s (State_addressInUse K a s) (read_acct (spec_of K s) a (\<lambda>_. True) False)"
    and "reads K s (State_addressHasCode K a s) (read_acct (spec_of K s) a (\<lambda>x. a_codeHash x \<noteq> EmptySHA3 K) False)"
    and "reads K s (State_accountNonemptyAndExisting K a s) (read_acct (spec_of K s) a (\<lambda>x. \<not> a_empty K x) False)"
proof -
  have field: "reads K s (sum_bind (State_account K a s)
      (\<lambda>(acc, s). Inr (case acc of Some x \<Rightarrow> f x | None \<Rightarrow> z s, s))) (read_acct (spec_of K s) a f' z')"
    if "\<And>acc. f' (acct_of K s acc) = f acc" "\<And>s'. same_view K s s' \<Longrightarrow> z s' = z'" for f :: "Account \<Rightarrow> 'a" and f' z z'
    using that by (intro reads_account [OF assms])
      (auto simp: reads_def read_acct_def spec_of_def split: option.split)
  have use: "(\<lambda>(acc, s). Inr (acc \<noteq> None, s)) =
      (\<lambda>(acc :: Account option, s :: State). Inr (case acc of Some x \<Rightarrow> True | None \<Rightarrow> False, s))"
    by (auto simp: fun_eq_iff split: option.split)
  show "reads K s (State_balance K a s) (read_acct (spec_of K s) a a_balance 0)"
    "reads K s (State_getNonce K a s) (read_acct (spec_of K s) a a_nonce (m_accountStartNonce s))"
    "reads K s (State_codeHash K a s) (read_acct (spec_of K s) a a_codeHash (EmptySHA3 K))"
    "reads K s (State_addressInUse K a s) (read_acct (spec_of K s) a (\<lambda>_. True) False)"
    "reads K s (State_addressHasCode K a s) (read_acct (spec_of K s) a (\<lambda>x. a_codeHash x \<noteq> EmptySHA3 K) False)"
    "reads K s (State_accountNonemptyAndExisting K a s) (read_acct (spec_of K s) a (\<lambda>x. \<not> a_empty K x) False)"
    unfolding State_balance_def State_getNonce_def State_codeHash_def State_addressInUse_def
      State_addressHasCode_def State_accountNonemptyAndExisting_def use
    by (intro field; simp add: same_view_startNonce)+
qed

lemma read_storage:
  assumes inv: "state_inv K s"
  shows "reads K s (State_storage K a k s) (read_acct (spec_of K s) a (\<lambda>x. a_storage x k) 0)"
  unfolding State_storage_def
proof (rule reads_account [OF inv])
  fix acc s' assume v: "same_view K s s'" and c: "m_cache s' a = acc"
    and A: "accts_of K s a = map_option (\<lambda>acc. (acct_of K s acc, Account_isDirty acc)) acc"
  have inv': "state_inv K s'" and d: "same_db s s'" and sp: "spec_of K s' = spec_of K s"
    using v by (simp_all add: same_view_def)
  show "reads K s (case (acc, s') of (acc, s) \<Rightarrow> case acc of None \<Rightarrow> Inr (0, s) | Some acc \<Rightarrow>
         (case m_storageOverlay acc k of Some v \<Rightarrow> Inr (v, s)
          | None \<Rightarrow> sum_bind (storageLookup K s (m_storageRoot acc) k) (\<lambda>ret.
              Inr (ret, setAccount a (Account_setStorageCache k ret acc) s))))
     (read_acct (spec_of K s) a (\<lambda>x. a_storage x k) 0)"
  proof (cases acc)
    case None
    then show ?thesis using A v by (auto simp: reads_def read_acct_def spec_of_def)
  next
    case (Some ac)
    show ?thesis
    proof (cases "m_storageOverlay ac k")
      case Some': (Some w)
      then show ?thesis using A v Some by (auto simp: reads_def read_acct_def spec_of_def acct_of_def overlaid_def)
    next
      case None
      have ok: "acct_ok K s' ac"
        using inv' c Some by (auto simp: state_inv_def)
      then obtain w where w: "storageLookup K s' (m_storageRoot ac) k = Inr w"
        by (auto simp: acct_ok_def root_ok_def)
      then have b: "w = baseStorage K s' (m_storageRoot ac) k"
        by (simp add: baseStorage_def)
      have eq: "acct_of K s' (Account_setStorageCache k w ac) = acct_of K s' ac"
        using None b by (rule acct_of_setStorageCache)
      have "accts_of K s' a = Some (acct_of K s' ac, Account_isDirty ac)"
        using c Some by (simp add: accts_of_def)
      then have "same_view K s' (setAccount a (Account_setStorageCache k w ac) s')"
        using inv' c Some ok eq
        by (auto simp: same_view_def spec_of_def fun_upd_idem intro!: state_inv_setAccount simp: state_inv_def)
      then have "same_view K s (setAccount a (Account_setStorageCache k w ac) s')"
        using v by (rule same_view_trans [rotated])
      then show ?thesis
        using Some None w A b by (simp add: reads_def read_acct_def spec_of_def acct_of_def overlaid_def db_cong [OF d])
    qed
  qed
qed

lemma read_code:
  assumes inv: "state_inv K s"
  shows "reads K s (State_code K a s) (read_acct (spec_of K s) a a_code [])"
  unfolding State_code_def
proof (rule reads_account [OF inv])
  fix acc s' assume v: "same_view K s s'" and c: "m_cache s' a = acc"
    and A: "accts_of K s a = map_option (\<lambda>acc. (acct_of K s acc, Account_isDirty acc)) acc"
  have inv': "state_inv K s'" and d: "same_db s s'"
    using v by (simp_all add: same_view_def)
  show "reads K s (case (acc, s') of (acc, s) \<Rightarrow> case acc of None \<Rightarrow> Inr ([], s) | Some acc \<Rightarrow>
         if m_codeHash acc = EmptySHA3 K then Inr ([], s)
         else if m_codeCache acc = []
         then (let code = m_codes s (m_codeHash acc) in
               Inr (code, csc_store (m_codeHash acc) (length code) (setAccount a (Account_noteCode code acc) s)))
         else Inr (m_codeCache acc, s))
     (read_acct (spec_of K s) a a_code [])"
  proof (cases "acc = None \<or> m_codeHash (the acc) = EmptySHA3 K \<or> m_codeCache (the acc) \<noteq> []")
    case True
    then show ?thesis using A v by (cases acc) (auto simp: reads_def read_acct_def spec_of_def acct_code_def)
  next
    case False
    then obtain ac where ac: "acc = Some ac" "m_codeHash ac \<noteq> EmptySHA3 K" "m_codeCache ac = []"
      by auto
    let ?ac = "Account_noteCode (m_codes s' (m_codeHash ac)) ac"
    have eq: "acct_of K s' ?ac = acct_of K s' ac"
      using ac by (intro acct_of_noteCode)
    have ok: "acct_ok K s' ac"
      using inv' c ac by (auto simp: state_inv_def)
    then have ok': "acct_ok K s' ?ac"
      using ac by (auto simp: acct_ok_def acct_code_def Account_noteCode_def)
    have "accts_of K s' a = Some (acct_of K s' ac, Account_isDirty ac)"
      using c ac by (simp add: accts_of_def)
    then have "same_view K s' (setAccount a ?ac s')"
      using inv' c ac ok' eq
      by (auto simp: same_view_def spec_of_def fun_upd_idem intro!: state_inv_setAccount simp: state_inv_def)
    then have "same_view K s' (csc_store h n (setAccount a ?ac s'))" for h n
      by (meson same_view_csc_store same_view_def same_view_trans)
    then have "same_view K s (csc_store h n (setAccount a ?ac s'))" for h n
      using v same_view_trans by blast
    moreover have "acct_code K s ac = m_codes s' (m_codeHash ac)"
      using ac d by (simp add: acct_code_def same_db_def)
    ultimately show ?thesis
      using ac A by (auto simp: reads_def read_acct_def spec_of_def Let_def)
  qed
qed

section \<open>Writes\<close>

definition refines :: "keccak \<Rightarrow> State \<Rightarrow> state_error + State \<Rightarrow> state_error + spec \<Rightarrow> bool" where
  "refines K s r q \<longleftrightarrow> (case r of Inl e \<Rightarrow> q = Inl e
     | Inr s' \<Rightarrow> state_inv K s' \<and> same_db s s' \<and> q = Inr (spec_of K s'))"

lemma refines_Inr:
  "state_inv K s' \<Longrightarrow> same_db s s' \<Longrightarrow> q = Inr (spec_of K s') \<Longrightarrow> refines K s (Inr s') q"
  by (simp add: refines_def)

lemma refines_db: "same_db s s' \<Longrightarrow> refines K s' r q \<Longrightarrow> refines K s r q"
  by (auto simp: refines_def intro: same_db_trans split: sum.splits)

lemma refines_account:
  assumes inv: "state_inv K s"
    and f: "\<And>acc s'. state_inv K s' \<Longrightarrow> m_cache s' a = acc \<Longrightarrow> spec_of K s' = spec_of K s \<Longrightarrow>
      ground_of K s' = ground_of K s \<Longrightarrow> m_accountStartNonce s' = m_accountStartNonce s \<Longrightarrow>
      accts (spec_of K s) a = map_option (\<lambda>acc. (acct_of K s' acc, Account_isDirty acc)) acc \<Longrightarrow>
      refines K s' (f (acc, s')) q"
  shows "refines K s (sum_bind (State_account K a s) f) q"
proof -
  obtain acc s' where r: "State_account K a s = Inr (acc, s')" "same_view K s s'" "m_cache s' a = acc"
    "accts_of K s' a = map_option (\<lambda>acc. (acct_of K s' acc, Account_isDirty acc)) acc"
    using State_account_spec [OF inv] by blast
  have d: "same_db s s'" and v: "state_inv K s'" "spec_of K s' = spec_of K s"
    using r(2) by (simp_all add: same_view_def)
  then have "accts (spec_of K s) a = accts_of K s' a"
    by (simp add: spec_of_def)
  then have "refines K s' (f (acc, s')) q"
    using f [of s' acc] r v d by (simp add: db_cong [OF d] same_db_def)
  then show ?thesis
    using r(1) refines_db [OF d] by simp
qed

lemma refines_bind:
  assumes "refines K s r q" and "\<And>s'. state_inv K s' \<Longrightarrow> same_db s s' \<Longrightarrow> refines K s' (f s') (g (spec_of K s'))"
  shows "refines K s (sum_bind r f) (sum_bind q g)"
proof (cases r)
  case (Inl e)
  then show ?thesis using assms(1) by (simp add: refines_def)
next
  case (Inr s')
  then have s': "state_inv K s'" "same_db s s'" "q = Inr (spec_of K s')"
    using assms(1) by (simp_all add: refines_def)
  then show ?thesis
    using refines_db [OF s'(2) assms(2) [OF s'(1,2)]] Inr by simp
qed

lemma refines_create:
  assumes inv: "state_inv K s" and "g = ground_of K s" and "\<sigma> = spec_of K s"
    and "g_startNonce g = m_accountStartNonce s"
  shows "refines K s (sum_bind (State_requireAccountStartNonce s)
      (\<lambda>n. Inr (State_createAccount a (Account_alive K (h n) v Changed) s)))
    (sum_bind (spec_startNonce g) (\<lambda>n. Inr (spec_create K g a (h n) v \<sigma>)))"
  using assms
  by (auto simp: State_requireAccountStartNonce_def spec_startNonce_def refines_def spec_of_createAccount
      intro!: state_inv_createAccount)

lemma ground_startNonce [simp]: "g_startNonce (ground_of K s) = m_accountStartNonce s"
  by (simp add: ground_of_def)

lemmas write_simps = spec_of_setAccount spec_of_logged

lemma refine_incNonce:
  assumes "state_inv K s"
  shows "refines K s (State_incNonce K a s) (spec_incNonce K (ground_of K s) a (spec_of K s))"
  unfolding State_incNonce_def
proof (rule refines_account [OF assms])
  fix acc s' assume h: "state_inv K s'" "m_cache s' a = acc" "spec_of K s' = spec_of K s"
    "ground_of K s' = ground_of K s"
    "accts (spec_of K s) a = map_option (\<lambda>acc. (acct_of K s' acc, Account_isDirty acc)) acc"
    "m_accountStartNonce s' = m_accountStartNonce s"
  show "refines K s' (case (acc, s') of (acc, s) \<Rightarrow> case acc of
       Some acc \<Rightarrow> Inr (logged (ChangeNonce a (m_nonce acc)) (setAccount a (Account_incNonce acc) s))
     | None \<Rightarrow> sum_bind (State_requireAccountStartNonce s) (\<lambda>n.
         Inr (State_createAccount a (Account_alive K (n + 1) 0 Changed) s)))
     (spec_incNonce K (ground_of K s) a (spec_of K s))"
  proof (cases acc)
    case None
    then show ?thesis
      using h refines_create [of K s' "ground_of K s" "spec_of K s" a "\<lambda>n. n + 1" 0]
      by (simp add: spec_incNonce_def)
  next
    case (Some ac)
    then show ?thesis
      using h by (auto simp: spec_incNonce_def write_simps state_inv_acct
          intro!: refines_Inr state_inv_logged state_inv_setAccount)
  qed
qed

lemma refine_setNonce:
  assumes "state_inv K s"
  shows "refines K s (State_setNonce K a n s) (spec_setNonce K (ground_of K s) a n (spec_of K s))"
  unfolding State_setNonce_def
  by (rule refines_account [OF assms])
    (auto simp: spec_setNonce_def write_simps state_inv_acct spec_of_createAccount split: option.split
      intro!: refines_Inr state_inv_logged state_inv_setAccount state_inv_createAccount)

lemma refine_createContract:
  assumes "state_inv K s"
  shows "refines K s (State_createContract K a s) (spec_createContract K (ground_of K s) a (spec_of K s))"
  using refines_create [OF assms refl refl, of a "\<lambda>n. n" 0]
  by (simp add: State_createContract_def spec_createContract_def)

lemma refine_addBalance:
  assumes "state_inv K s"
  shows "refines K s (State_addBalance K a v s) (spec_addBalance K (ground_of K s) a v (spec_of K s))"
  unfolding State_addBalance_def spec_addBalance_def
proof (rule refines_bind)
  show "refines K s' (Inr (if v \<noteq> 0 then logged (ChangeBalance a v) s' else s'))
      (Inr (if v \<noteq> 0 then note_change (ChangeBalance a v) (spec_of K s') else spec_of K s'))"
    if "state_inv K s'" for s'
    using that by (auto simp: write_simps intro!: refines_Inr state_inv_logged)
  show "refines K s (sum_bind (State_account K a s) (\<lambda>(acc, s).
        case acc of
          Some acc \<Rightarrow>
            (let s1 = (if \<not> Account_isDirty acc \<and> Account_isEmpty K acc then logged (ChangeTouch a) s else s)
             in Inr (setAccount a (Account_addBalance v acc) s1))
        | None \<Rightarrow> sum_bind (State_requireAccountStartNonce s) (\<lambda>n.
            Inr (State_createAccount a (Account_alive K n v Changed) s))))
     (case accts (spec_of K s) a of
        Some (x, d) \<Rightarrow> Inr (put a (x\<lparr>a_balance := a_balance x + v\<rparr>, True)
            (if \<not> d \<and> a_empty K x then note_change (ChangeTouch a) (spec_of K s) else spec_of K s))
      | None \<Rightarrow> sum_bind (spec_startNonce (ground_of K s))
          (\<lambda>n. Inr (spec_create K (ground_of K s) a n v (spec_of K s))))"
  proof (rule refines_account [OF assms], goal_cases)
    case (1 acc s')
    show ?case
    proof (cases acc)
      case None
      then show ?thesis
        using 1 refines_create [of K s' "ground_of K s" "spec_of K s" a "\<lambda>n. n" v] by simp
    next
      case (Some ac)
      then show ?thesis
        using 1 by (auto simp: write_simps state_inv_acct Let_def
            intro!: refines_Inr state_inv_logged state_inv_setAccount)
    qed
  qed
qed

lemma refine_subBalance:
  assumes "state_inv K s"
  shows "refines K s (State_subBalance K a v s) (spec_subBalance K (ground_of K s) a v (spec_of K s))"
proof (cases "v = 0")
  case True
  then show ?thesis
    using assms by (simp add: State_subBalance_def spec_subBalance_def refines_Inr)
next
  case False
  have "refines K s (sum_bind (State_account K a s) (\<lambda>(acc, s).
        case acc of
          None \<Rightarrow> Inl NotEnoughCash
        | Some acc \<Rightarrow> if m_balance acc < v then Inl NotEnoughCash else State_addBalance K a (0 - v) s))
      (spec_subBalance K (ground_of K s) a v (spec_of K s))"
  proof (rule refines_account [OF assms], goal_cases)
    case (1 acc s')
    then show ?case
      using False refine_addBalance [of K s' a "- v"]
      by (cases acc) (auto simp: spec_subBalance_def refines_def [of _ _ "Inl _"])
  qed
  with False show ?thesis
    by (simp add: State_subBalance_def)
qed

lemma refine_setBalance:
  assumes "state_inv K s"
  shows "refines K s (State_setBalance K a v s) (spec_setBalance K (ground_of K s) a v (spec_of K s))"
  unfolding State_setBalance_def
proof (rule refines_account [OF assms], goal_cases)
  case (1 acc s')
  then show ?case
    using refine_addBalance [of K s' a] by (cases acc) (auto simp: spec_setBalance_def Let_def)
qed

lemma refine_transfer:
  assumes "state_inv K s"
  shows "refines K s (State_transferBalance K from to v s)
    (spec_transfer K (ground_of K s) from to v (spec_of K s))"
  unfolding State_transferBalance_def spec_transfer_def
proof (rule refines_bind [OF refine_subBalance [OF assms]])
  fix s' assume "state_inv K s'" and d: "same_db s s'"
  then show "refines K s' (State_addBalance K to v s') (spec_addBalance K (ground_of K s) to v (spec_of K s'))"
    using refine_addBalance [of K s' to v] by (simp add: db_cong [OF d])
qed

lemma refine_kill:
  assumes "state_inv K s"
  shows "refines K s (State_kill K a s) (Inr (spec_kill K (ground_of K s) a (spec_of K s)))"
  unfolding State_kill_def
proof (rule refines_account [OF assms], goal_cases)
  case (1 acc s')
  then have "g_storage (ground_of K s) = baseStorage K s'"
    by (metis ground.select_convs(3) ground_of_def)
  with 1 show ?case
    by (cases acc) (auto simp: spec_kill_def write_simps intro!: refines_Inr state_inv_setAccount)
qed

text \<open>A read through the account leaves it in the cache, if there is one.\<close>

lemma storage_caches:
  assumes inv: "state_inv K s" and r: "State_storage K a k s = Inr (v, s')" and "m_cache s' a = None"
  shows "accts_of K s' a = None"
proof -
  obtain acc t where t: "State_account K a s = Inr (acc, t)" "m_cache t a = acc"
    "accts_of K t a = map_option (\<lambda>acc. (acct_of K t acc, Account_isDirty acc)) acc"
    using State_account_spec [OF inv] by blast
  then show ?thesis
    using r assms(3) by (auto simp: State_storage_def split: option.splits)
qed

lemma code_caches:
  assumes inv: "state_inv K s" and r: "State_code K a s = Inr (v, s')" and "m_cache s' a = None"
  shows "accts_of K s' a = None"
proof -
  obtain acc t where t: "State_account K a s = Inr (acc, t)" "m_cache t a = acc"
    "accts_of K t a = map_option (\<lambda>acc. (acct_of K t acc, Account_isDirty acc)) acc"
    using State_account_spec [OF inv] by blast
  have "m_cache (csc_store h n u) = m_cache u" for h n u
    by (simp add: csc_store_def)
  then show ?thesis
    using r assms(3) t by (auto simp: State_code_def Let_def split: option.splits if_splits)
qed

lemma refine_setStorage:
  assumes inv: "state_inv K s"
  shows "refines K s (State_setStorage K a k v s) (Inr (spec_setStorage K (ground_of K s) a k v (spec_of K s)))"
proof -
  obtain s' where r: "State_storage K a k s = Inr (read_acct (spec_of K s) a (\<lambda>x. a_storage x k) 0, s')"
    "same_view K s s'"
    using read_storage [OF inv] by (auto simp: reads_def)
  then have s': "state_inv K s'" "same_db s s'" "spec_of K s' = spec_of K s" "accts_of K s' = accts_of K s"
    by (simp_all add: same_view_def spec_of_def)
  show ?thesis
  proof (cases "m_cache s' a")
    case None
    then have "accts_of K s a = None"
      using storage_caches [OF inv r(1)] s' by simp
    then show ?thesis
      using None r(1) s' state_inv_root [OF inv] by (auto simp: State_setStorage_def Let_def cacheSlot_def spec_setStorage_def
          write_simps read_acct_def ground_of_def db_cong [OF s'(2)] spec_of_def [of K s]
          intro!: refines_Inr state_inv_setAccount state_inv_logged)
  next
    case (Some acc)
    then have "accts_of K s a = Some (acct_of K s acc, Account_isDirty acc)"
      using s' by (simp add: accts_of_def [of K s'] db_cong [OF s'(2)] flip: s'(4))
    moreover have "acct_ok K s acc"
      using state_inv_acct [OF s'(1) Some] by (simp add: db_cong [OF s'(2)])
    ultimately show ?thesis
      using Some r(1) s' by (auto simp: State_setStorage_def Let_def cacheSlot_def spec_setStorage_def
          write_simps read_acct_def state_inv_acct db_cong [OF s'(2)] spec_of_def [of K s]
          intro!: refines_Inr state_inv_setAccount state_inv_logged)
  qed
qed

lemma refine_setCode:
  assumes inv: "state_inv K s" and A: "accts_of K s a = Some (x, True)"
  shows "refines K s (State_setCode K a c s) (Inr (spec_setCode K a c (x, True) (spec_of K s)))"
proof -
  obtain s' where r: "State_code K a s = Inr (read_acct (spec_of K s) a a_code [], s')"
    "same_view K s s'"
    using read_code [OF inv] by (auto simp: reads_def)
  then have s': "state_inv K s'" "same_db s s'" "spec_of K s' = spec_of K s" "accts_of K s' = accts_of K s"
    by (simp_all add: same_view_def spec_of_def)
  then obtain acc where acc: "m_cache s' a = Some acc"
    using code_caches [OF inv r(1)] A by fastforce
  then have "acct_of K s acc = x" "Account_isDirty acc"
    using s' A by (simp_all add: accts_of_def [of K s'] db_cong [OF s'(2)] flip: s'(4))
  moreover have "acct_ok K s acc"
    using state_inv_acct [OF s'(1) acc] by (simp add: db_cong [OF s'(2)])
  ultimately show ?thesis
    using acc r(1) s' A by (auto simp: State_setCode_def Let_def cacheSlot_def spec_setCode_def
        write_simps read_acct_def state_inv_acct db_cong [OF s'(2)] spec_of_def [of K s]
        intro!: refines_Inr state_inv_setAccount state_inv_logged)
qed

section \<open>Undoing one change\<close>

text \<open>An account that has not changed is the one of the trie, and what is not there is not in it.\<close>

definition clean_ok :: "ground \<Rightarrow> accts \<Rightarrow> bool" where
  "clean_ok g A \<longleftrightarrow> (\<forall>a. (A a = None \<longrightarrow> g_leaf g a = None) \<and> (\<forall>x. A a = Some (x, False) \<longrightarrow> g_leaf g a = Some x))"

lemma clean_ok_accts: "state_inv K s \<Longrightarrow> clean_ok (ground_of K s) (accts_of K s)"
  by (auto simp: clean_ok_def accts_of_def ground_of_def state_inv_def split: option.splits)

text \<open>
  An entry of the log can be undone: its account has changed, so it is in the cache, and what
  undoing it leaves behind is again consistent with the trie.
\<close>

definition undo_ok :: "keccak \<Rightarrow> ground \<Rightarrow> Change \<Rightarrow> accts \<Rightarrow> bool" where
  "undo_ok K g c A \<longleftrightarrow> (\<exists>x. A (Change_address c) = Some (x, True)) \<and> clean_ok g (spec_undo K g c A)"

lemma dirty_cached:
  "accts_of K s a = Some (x, True) \<Longrightarrow> \<exists>acc. m_cache s a = Some acc \<and> acct_of K s acc = x \<and> Account_isDirty acc"
  by (auto simp: accts_of_def split: option.splits)

lemma fun_upd_twice_map: "m(a \<mapsto> x, a := y) = m(a := y)"
  by simp

lemma undoChange_spec:
  assumes inv: "state_inv K s" and u: "undo_ok K (ground_of K s) c (accts_of K s)"
    and c: "c \<in> set (m_changeLog s)"
  shows "state_inv K (undoChange K c s) \<and> accts_of K (undoChange K c s) = spec_undo K (ground_of K s) c (accts_of K s)"
proof -
  let ?a = "Change_address c"
  obtain acc where acc: "m_cache s ?a = Some acc" "Account_isDirty acc"
      "accts_of K s ?a = Some (acct_of K s acc, True)"
    using u dirty_cached by (fastforce simp: undo_ok_def)
  have ok: "acct_ok K s acc"
    using inv acc(1) by (rule state_inv_acct)
  have slot: "cacheSlot K ?a s = acc" "setAccount ?a acc s = s"
    using acc(1) by (simp_all add: cacheSlot_def setAccount_def fun_upd_idem)
  have d: "same_db s (undoChange K c s)" by simp
  have nx: "m_nonExistingAccountsCache (undoChange K c s) = m_nonExistingAccountsCache s"
    by (simp add: undoChange_def Let_def setAccount_def split: Change.split)
  have leaf: "map_option (acct_of K s) (leafAccount K s a) = Some (acct_of K s acc)" if "c = ChangeTouch a" for a
    using u that acc(3) by (auto simp: undo_ok_def spec_undo_def clean_ok_def ground_of_def split: if_splits)
  have set: "state_inv K (setAccount ?a acc' s) \<and>
      accts_of K (setAccount ?a acc' s) = (accts_of K s)(?a \<mapsto> (acct_of K s acc', Account_isDirty acc'))"
    if "acct_ok K s acc'" "Account_isDirty acc'" for acc'
    using inv that by (auto intro!: state_inv_setAccount)
  show ?thesis
  proof (cases c)
    case (ChangeCreate a)
    have m: "m_cache (undoChange K c s) = (m_cache s)(a := None)"
      using slot ChangeCreate by (simp add: undoChange_def)
    have "state_inv K (undoChange K c s)"
      using inv unfolding state_inv_def db_cong [OF d] nx m m_changeLog_undoChange by simp
    moreover have "accts_of K (undoChange K c s) = spec_undo K (ground_of K s) c (accts_of K s)"
      unfolding accts_of_def db_cong [OF d] m using ChangeCreate
      by (auto simp: spec_undo_def Let_def ground_of_def option.map_comp o_def split: option.split)
    ultimately show ?thesis by simp
  next
    case (ChangeTouch a)
    let ?u = "Account_untouch acc"
    have m: "m_cache (undoChange K c s) = (m_cache s)(a \<mapsto> ?u)"
      using slot ChangeTouch by (simp add: undoChange_def)
    have "state_inv K (setAccount a ?u s)"
      using inv ok leaf [OF ChangeTouch] by (intro state_inv_setAccount) simp_all
    then have "state_inv K (undoChange K c s)"
      unfolding state_inv_def db_cong [OF d] nx m m_changeLog_undoChange by simp
    moreover have "accts_of K (undoChange K c s) = spec_undo K (ground_of K s) c (accts_of K s)"
      unfolding accts_of_def db_cong [OF d] m using ChangeTouch acc
      by (auto simp: spec_undo_def Let_def split: option.split)
    ultimately show ?thesis by simp
  next
    case (ChangeStorageRoot a r)
    then have "root_ok K s r"
      using inv c by (auto simp: state_inv_def)
    then show ?thesis
      using set [of "Account_setStorageRoot r acc"] ok slot acc ChangeStorageRoot
      by (simp add: undoChange_def Let_def spec_undo_def ground_of_def)
  next
    case (ChangeBalance a v)
    then show ?thesis
      using set [of "Account_addBalance (- v) acc"] ok slot acc
      by (simp add: undoChange_def Let_def spec_undo_def)
  next
    case (ChangeStorage a k v)
    then show ?thesis
      using set [of "Account_setStorage k v acc"] ok slot acc
      by (simp add: undoChange_def Let_def spec_undo_def)
  next
    case (ChangeNonce a n)
    then show ?thesis
      using set [of "Account_setNonce n acc"] ok slot acc
      by (simp add: undoChange_def Let_def spec_undo_def)
  next
    case (ChangeCode a code)
    then show ?thesis
      using set [of "Account_setCode K code acc"] ok slot acc
      by (simp add: undoChange_def Let_def spec_undo_def)
  qed
qed

end
