(* ===== verification/State_Journal.thy ===== *)
theory State_Journal
  imports State_Refine
begin

text \<open>
  The change log as an undo log: whatever a run of operations does, nested rollbacks included,
  \<^verbatim>\<open>rollback\<close> to the savepoint taken before it gives every account back.
\<close>

section \<open>Undo logs\<close>

text \<open>All entries, the last one first, can be undone one after the other.\<close>

fun undoable :: "('c \<Rightarrow> 'a \<Rightarrow> bool) \<Rightarrow> ('c \<Rightarrow> 'a \<Rightarrow> 'a) \<Rightarrow> 'c list \<Rightarrow> 'a \<Rightarrow> bool" where
  "undoable ok undo [] A \<longleftrightarrow> True"
| "undoable ok undo (c # cs) A \<longleftrightarrow> ok c A \<and> undoable ok undo cs (undo c A)"

text \<open>Undoing the entries \<open>cs\<close> takes \<open>A'\<close> back to \<open>A\<close>, up to what \<open>le\<close> ignores.\<close>

definition journaled :: "('a \<Rightarrow> 'a \<Rightarrow> bool) \<Rightarrow> ('c \<Rightarrow> 'a \<Rightarrow> bool) \<Rightarrow> ('c \<Rightarrow> 'a \<Rightarrow> 'a) \<Rightarrow> 'a \<Rightarrow> 'c list \<Rightarrow> 'a \<Rightarrow> bool" where
  "journaled le ok undo A cs A' \<longleftrightarrow> undoable ok undo (rev cs) A' \<and> le A (fold undo (rev cs) A')"

lemma undoable_append:
  "undoable ok undo (cs @ ds) A \<longleftrightarrow> undoable ok undo cs A \<and> undoable ok undo ds (fold undo cs A)"
  by (induction cs arbitrary: A) auto

locale undo_log =
  fixes le :: "'a \<Rightarrow> 'a \<Rightarrow> bool" and ok :: "'c \<Rightarrow> 'a \<Rightarrow> bool" and undo :: "'c \<Rightarrow> 'a \<Rightarrow> 'a"
  assumes le_refl: "le A A"
    and le_trans: "le A B \<Longrightarrow> le B C \<Longrightarrow> le A C"
    and undo_mono: "le A B \<Longrightarrow> ok c A \<Longrightarrow> le (undo c A) (undo c B)"
    and ok_mono: "le A B \<Longrightarrow> ok c A \<Longrightarrow> ok c B"
begin

lemma undoable_mono: "le A B \<Longrightarrow> undoable ok undo cs A \<Longrightarrow> undoable ok undo cs B \<and> le (fold undo cs A) (fold undo cs B)"
  by (induction cs arbitrary: A B) (auto dest: undo_mono ok_mono)

lemma journaled_refl: "journaled le ok undo A [] A"
  by (simp add: journaled_def le_refl)

lemma journaled_trans:
  assumes "journaled le ok undo A cs B" and "journaled le ok undo B ds C"
  shows "journaled le ok undo A (cs @ ds) C"
proof -
  have b: "undoable ok undo (rev cs) B" "le A (fold undo (rev cs) B)"
    and c: "undoable ok undo (rev ds) C" "le B (fold undo (rev ds) C)"
    using assms by (simp_all add: journaled_def)
  have "undoable ok undo (rev cs) (fold undo (rev ds) C)"
    "le (fold undo (rev cs) B) (fold undo (rev cs) (fold undo (rev ds) C))"
    using undoable_mono [OF c(2) b(1)] by simp_all
  then show ?thesis
    using b c le_trans by (auto simp: journaled_def undoable_append)
qed

lemma journaled_single:
  "ok c A' \<Longrightarrow> le A (undo c A') \<Longrightarrow> journaled le ok undo A [c] A'"
  by (simp add: journaled_def)

text \<open>Rolling back to a point in the middle keeps the entries before it good.\<close>

lemma journaled_rollback:
  assumes "journaled le ok undo A (cs @ ds) C"
  shows "journaled le ok undo A cs (fold undo (rev ds) C)"
  using assms by (simp add: journaled_def undoable_append)

end

section \<open>The change log is one\<close>

text \<open>
  The same accounts, and none clean that was not; the accounts that satisfy \<open>P\<close> are exactly as
  clean as before.
\<close>

definition accts_le :: "(acct \<Rightarrow> bool) \<Rightarrow> accts \<Rightarrow> accts \<Rightarrow> bool" where
  "accts_le P A B \<longleftrightarrow> (\<forall>a. case (A a, B a) of
       (None, None) \<Rightarrow> True
     | (Some (x, d), Some (y, e)) \<Rightarrow> x = y \<and> (d \<longrightarrow> e) \<and> (P x \<longrightarrow> d = e)
     | _ \<Rightarrow> False)"

definition entry_le :: "(acct \<Rightarrow> bool) \<Rightarrow> (acct \<times> bool) option \<Rightarrow> (acct \<times> bool) option \<Rightarrow> bool" where
  "entry_le P u v \<longleftrightarrow> (case (u, v) of
       (None, None) \<Rightarrow> True
     | (Some (x, d), Some (y, e)) \<Rightarrow> x = y \<and> (d \<longrightarrow> e) \<and> (P x \<longrightarrow> d = e)
     | _ \<Rightarrow> False)"

lemma accts_le_entry: "accts_le P A B \<longleftrightarrow> (\<forall>a. entry_le P (A a) (B a))"
  by (simp add: accts_le_def entry_le_def)

lemma entry_le_simps [simp]:
  "entry_le P None v \<longleftrightarrow> v = None" "entry_le P u None \<longleftrightarrow> u = None"
  "entry_le P (Some (x, d)) (Some (y, e)) \<longleftrightarrow> x = y \<and> (d \<longrightarrow> e) \<and> (P x \<longrightarrow> d = e)"
  by (auto simp: entry_le_def split: option.splits)

lemma entry_le_refl [simp]: "entry_le P u u"
  by (cases u) auto

lemma entry_le_trans: "entry_le P u v \<Longrightarrow> entry_le P v w \<Longrightarrow> entry_le P u w"
  unfolding entry_le_def by (auto split: option.splits prod.splits)

lemma accts_le_upd:
  "entry_le P u v \<Longrightarrow> accts_le P A B \<Longrightarrow> accts_le P (A(a := u)) (B(a := v))"
  by (simp add: accts_le_entry)

lemma accts_le_upd_right: "entry_le P (A a) v \<Longrightarrow> accts_le P A B \<Longrightarrow> accts_le P A (B(a := v))"
  by (simp add: accts_le_entry)

lemma clean_ok_mono:
  assumes "accts_le P A B" and "clean_ok g A"
  shows "clean_ok g B"
  unfolding clean_ok_def
proof (intro allI conjI impI)
  fix a
  have e: "entry_le P (A a) (B a)" using assms(1) by (simp add: accts_le_entry)
  show "g_leaf g a = None" if "B a = None"
    using e that assms(2) by (simp add: clean_ok_def)
  show "g_leaf g a = Some x" if "B a = Some (x, False)" for x
    using e that assms(2) by (cases "A a") (auto simp: clean_ok_def)
qed

lemma spec_undo_mono:
  assumes le: "accts_le P A B" and x: "A (Change_address c) = Some (x, True)"
  shows "accts_le P (spec_undo K g c A) (spec_undo K g c B)"
proof -
  have "entry_le P (A (Change_address c)) (B (Change_address c))"
    using le by (simp add: accts_le_entry)
  then have "B (Change_address c) = Some (x, True)"
    using x by (cases "B (Change_address c)") auto
  then show ?thesis
    using x le by (cases c) (auto simp: spec_undo_def Let_def intro!: accts_le_upd)
qed

interpretation journal: undo_log "accts_le P" "undo_ok K g" "spec_undo K g" for P K g
proof
  show "accts_le P A A" for A
    by (simp add: accts_le_entry)
  show "accts_le P A C" if "accts_le P A B" "accts_le P B C" for A B C
    using that entry_le_trans by (simp add: accts_le_entry) blast
  show "accts_le P (spec_undo K g c A) (spec_undo K g c B)" if "accts_le P A B" "undo_ok K g c A" for A B c
    using that spec_undo_mono by (auto simp: undo_ok_def)
  show "undo_ok K g c B" if le: "accts_le P A B" and u: "undo_ok K g c A" for A B c
  proof -
    obtain x where x: "A (Change_address c) = Some (x, True)" "clean_ok g (spec_undo K g c A)"
      using u by (auto simp: undo_ok_def)
    have "entry_le P (A (Change_address c)) (B (Change_address c))"
      using le by (simp add: accts_le_entry)
    then have "B (Change_address c) = Some (x, True)"
      using x by (cases "B (Change_address c)") auto
    then show ?thesis
      using clean_ok_mono [OF spec_undo_mono [OF le x(1)] x(2)] by (auto simp: undo_ok_def)
  qed
qed

section \<open>Rolling back\<close>

lemma rollback_undoes:
  assumes "state_inv K s" and "m_changeLog s = l @ cs"
    and "undoable (undo_ok K (ground_of K s)) (spec_undo K (ground_of K s)) (rev cs) (accts_of K s)"
  shows "\<exists>s'. State_rollback K (length l) s = Inr s' \<and> state_inv K s' \<and> same_db s s' \<and> m_changeLog s' = l \<and>
    accts_of K s' = fold (spec_undo K (ground_of K s)) (rev cs) (accts_of K s)"
  using assms
proof (induction cs arbitrary: s rule: rev_induct)
  case Nil
  then show ?case by (simp add: State_rollback.simps)
next
  case (snoc c cs)
  let ?u = "undoChange K c s"
  let ?s = "?u\<lparr>m_changeLog := butlast (m_changeLog s)\<rparr>"
  have u: "undo_ok K (ground_of K s) c (accts_of K s)" and c: "c \<in> set (m_changeLog s)"
    using snoc.prems by simp_all
  have inv: "state_inv K ?u" and A: "accts_of K ?u = spec_undo K (ground_of K s) c (accts_of K s)"
    using undoChange_spec [OF snoc.prems(1) u c] by simp_all
  have d: "same_db s ?s" and d': "same_db ?u ?s" by simp_all
  have inv': "state_inv K ?s"
    using inv unfolding state_inv_def db_cong [OF d'] by (auto dest: in_set_butlastD)
  have A': "accts_of K ?s = accts_of K ?u"
    unfolding accts_of_def db_cong [OF d'] by simp
  have step: "State_rollback K (length l) s = State_rollback K (length l) ?s"
    using snoc.prems(2) by (simp add: State_rollback.simps [of K _ s])
  have "m_changeLog ?s = l @ cs"
    using snoc.prems(2) by (simp add: butlast_append)
  with snoc.IH [OF inv'] snoc.prems(3) obtain s' where
    "State_rollback K (length l) ?s = Inr s'" "state_inv K s'" "same_db ?s s'" "m_changeLog s' = l"
    "accts_of K s' = fold (spec_undo K (ground_of K s)) (rev cs) (accts_of K ?s)"
    by (auto simp: db_cong [OF d] A A')
  then show ?case
    using step by (auto simp: A A' intro: same_db_trans [OF d])
qed

section \<open>Every operation journals what it does\<close>

abbreviation jr :: "(acct \<Rightarrow> bool) \<Rightarrow> keccak \<Rightarrow> ground \<Rightarrow> accts \<Rightarrow> Change list \<Rightarrow> accts \<Rightarrow> bool" where
  "jr P K g \<equiv> journaled (accts_le P) (undo_ok K g) (spec_undo K g)"

definition logs_from :: "(acct \<Rightarrow> bool) \<Rightarrow> keccak \<Rightarrow> ground \<Rightarrow> spec \<Rightarrow> spec \<Rightarrow> bool" where
  "logs_from P K g \<sigma> \<sigma>' \<longleftrightarrow> (\<exists>cs. slog \<sigma>' = slog \<sigma> @ cs \<and> jr P K g (accts \<sigma>) cs (accts \<sigma>'))"

lemma logs_from_trans: "logs_from P K g \<sigma> \<sigma>' \<Longrightarrow> logs_from P K g \<sigma>' \<sigma>'' \<Longrightarrow> logs_from P K g \<sigma> \<sigma>''"
  using journal.journaled_trans by (fastforce simp: logs_from_def)

lemma logs_from_same: "\<sigma>' = \<sigma> \<Longrightarrow> logs_from P K g \<sigma> \<sigma>'"
  by (simp add: logs_from_def journal.journaled_refl)

text \<open>One entry and one account: the account is changed, and undoing the entry gives it back.\<close>

lemma logs_from_single:
  assumes clean: "clean_ok g (accts \<sigma>)"
    and c: "Change_address c = a" "slog \<sigma>' = slog \<sigma> @ [c]" "accts \<sigma>' = (accts \<sigma>)(a \<mapsto> (y, True))"
    and u: "spec_undo K g c ((accts \<sigma>)(a \<mapsto> (y, True))) = (accts \<sigma>)(a := w)" "entry_le P (accts \<sigma> a) w"
  shows "logs_from P K g \<sigma> \<sigma>'"
proof -
  have le: "accts_le P (accts \<sigma>) ((accts \<sigma>)(a := w))"
    using u(2) by (intro accts_le_upd_right) (simp_all add: accts_le_entry)
  then have "undo_ok K g c (accts \<sigma>')"
    using clean_ok_mono [OF le clean] c u by (simp add: undo_ok_def)
  then show ?thesis
    using journal.journaled_single [of K g c "accts \<sigma>'" P "accts \<sigma>"] c u le by (auto simp: logs_from_def)
qed

lemma spec_undo_put:
  "spec_undo K g (ChangeStorage a k v) (A(a \<mapsto> (x, d))) = A(a \<mapsto> (x\<lparr>a_storage := (a_storage x)(k := v)\<rparr>, True))"
  "spec_undo K g (ChangeStorageRoot a r) (A(a \<mapsto> (x, d))) = A(a \<mapsto> (x\<lparr>a_root := r, a_storage := g_storage g r\<rparr>, True))"
  "spec_undo K g (ChangeBalance a v) (A(a \<mapsto> (x, d))) = A(a \<mapsto> (x\<lparr>a_balance := a_balance x - v\<rparr>, True))"
  "spec_undo K g (ChangeNonce a n) (A(a \<mapsto> (x, d))) = A(a \<mapsto> (x\<lparr>a_nonce := n\<rparr>, True))"
  "spec_undo K g (ChangeCreate a) (A(a \<mapsto> (x, d))) = A(a := map_option (\<lambda>x. (x, False)) (g_leaf g a))"
  "spec_undo K g (ChangeCode a code) (A(a \<mapsto> (x, d))) = A(a \<mapsto> (a_setCode K code x, d))"
  "spec_undo K g (ChangeTouch a) (A(a \<mapsto> (x, d))) = A(a \<mapsto> (x, False))"
  by (simp_all add: spec_undo_def Let_def)

lemma put_simps [simp]:
  "accts (put a x \<sigma>) = (accts \<sigma>)(a \<mapsto> x)" "slog (put a x \<sigma>) = slog \<sigma>"
  "accts (note_change c \<sigma>) = accts \<sigma>" "slog (note_change c \<sigma>) = slog \<sigma> @ [c]"
  by (simp_all add: put_def note_change_def)

lemma create_logs:
  assumes "clean_ok g (accts \<sigma>)" "accts \<sigma> a = None"
  shows "logs_from P K g \<sigma> (spec_create K g a n v \<sigma>)"
  using assms by (intro logs_from_single [where a = a and w = None])
    (auto simp: spec_create_def spec_undo_put clean_ok_def)

lemma spec_create_clean:
  "clean_ok g (accts \<sigma>) \<Longrightarrow> clean_ok g (accts (spec_create K g a n v \<sigma>))"
  by (simp add: spec_create_def clean_ok_def)

text \<open>The accounts for which an operation that is not logged as a touch is still undone exactly.\<close>

definition touch_safe :: "(acct \<Rightarrow> bool) \<Rightarrow> accts \<Rightarrow> address \<Rightarrow> bool" where
  "touch_safe P A a \<longleftrightarrow> (case A a of Some (x, False) \<Rightarrow> \<not> P x | _ \<Rightarrow> True)"

lemma entry_le_touched: "A a = Some (x, d) \<Longrightarrow> touch_safe P A a \<Longrightarrow> entry_le P (A a) (Some (x, True))"
  by (cases d) (auto simp: touch_safe_def)

lemma incNonce_logs:
  assumes "clean_ok g (accts \<sigma>)" "touch_safe P (accts \<sigma>) a" "spec_incNonce K g a \<sigma> = Inr \<sigma>'"
  shows "logs_from P K g \<sigma> \<sigma>'"
proof (cases "accts \<sigma> a")
  case None
  then show ?thesis
    using assms create_logs by (auto simp: spec_incNonce_def)
next
  case (Some xd)
  then obtain x d where x: "accts \<sigma> a = Some (x, d)" by (cases xd) auto
  have "entry_le P (accts \<sigma> a) (Some (x, True))"
    using x assms(2) by (rule entry_le_touched)
  then show ?thesis
    using assms x by (intro logs_from_single [where a = a and w = "Some (x, True)"])
      (auto simp: spec_incNonce_def spec_undo_put)
qed

lemma setNonce_logs:
  assumes "clean_ok g (accts \<sigma>)" "touch_safe P (accts \<sigma>) a" "spec_setNonce K g a n \<sigma> = Inr \<sigma>'"
  shows "logs_from P K g \<sigma> \<sigma>'"
proof (cases "accts \<sigma> a")
  case None
  then show ?thesis
    using assms create_logs by (auto simp: spec_setNonce_def)
next
  case (Some xd)
  then obtain x d where x: "accts \<sigma> a = Some (x, d)" by (cases xd) auto
  have "entry_le P (accts \<sigma> a) (Some (x, True))"
    using x assms(2) by (rule entry_le_touched)
  then show ?thesis
    using assms x by (intro logs_from_single [where a = a and w = "Some (x, True)"])
      (auto simp: spec_setNonce_def spec_undo_put)
qed

lemma setStorage_logs:
  assumes "clean_ok g (accts \<sigma>)" "touch_safe P (accts \<sigma>) a" "accts \<sigma> a = Some (x, d)"
  shows "logs_from P K g \<sigma> (spec_setStorage K g a k v \<sigma>)"
proof -
  have "entry_le P (accts \<sigma> a) (Some (x, True))"
    using assms(3,2) by (rule entry_le_touched)
  then show ?thesis
    using assms by (intro logs_from_single [where a = a and w = "Some (x, True)"])
      (auto simp: spec_setStorage_def Let_def spec_undo_put)
qed

lemma setCode_logs:
  assumes "clean_ok g (accts \<sigma>)" "accts \<sigma> a = Some (x, True)" "a_setCode K (a_code x) x = x"
  shows "logs_from P K g \<sigma> (spec_setCode K a code (x, True) \<sigma>)"
proof -
  have "a_setCode K (a_code x) (a_setCode K code x) = x"
    using assms(3) by (cases x) (simp add: a_setCode_def)
  then show ?thesis
    using assms by (intro logs_from_single [where a = a and w = "Some (x, True)"])
      (auto simp: spec_setCode_def spec_undo_put)
qed

lemma addBalance_logs:
  assumes clean: "clean_ok g (accts \<sigma>)" and P: "\<And>x. P x \<Longrightarrow> a_empty K x"
    and r: "spec_addBalance K g a v \<sigma> = Inr \<sigma>'"
  shows "logs_from P K g \<sigma> \<sigma>'"
proof -
  have balance: "logs_from P K g \<tau> (if v \<noteq> 0 then note_change (ChangeBalance a v) (put a (y\<lparr>a_balance := a_balance y + v\<rparr>, True) \<tau>)
      else \<tau>)" if "clean_ok g (accts \<tau>)" "accts \<tau> a = Some (y, True)" for \<tau> y
  proof (cases "v = 0")
    case False
    then show ?thesis
      using that by (auto intro!: logs_from_single [where a = a and w = "Some (y, True)"] simp: spec_undo_put)
  qed (simp add: logs_from_same)
  show ?thesis
  proof (cases "accts \<sigma> a")
    case None
    then obtain n where n: "spec_startNonce g = Inr n"
      using r by (auto simp: spec_addBalance_def)
    let ?\<tau> = "spec_create K g a n 0 \<sigma>" and ?y = "a_fresh K (g_storage g) True n 0"
    have eq: "\<sigma>' = (if v \<noteq> 0 then note_change (ChangeBalance a v)
        (put a (?y\<lparr>a_balance := a_balance ?y + v\<rparr>, True) ?\<tau>) else ?\<tau>)"
      using r None n by (auto simp: spec_addBalance_def spec_create_def put_def note_change_def a_fresh_def)
    have "accts ?\<tau> a = Some (?y, True)" "clean_ok g (accts ?\<tau>)"
      using spec_create_clean [OF clean] by (simp_all add: spec_create_def)
    then have "logs_from P K g ?\<tau> \<sigma>'"
      unfolding eq by (intro balance)
    then show ?thesis
      using create_logs [OF clean None] logs_from_trans by blast
  next
    case (Some xd)
    then obtain x d where x: "accts \<sigma> a = Some (x, d)" by (cases xd) auto
    let ?\<tau> = "put a (x, True) (if \<not> d \<and> a_empty K x then note_change (ChangeTouch a) \<sigma> else \<sigma>)"
    have clean': "clean_ok g (accts ?\<tau>)"
      using clean by (auto simp: clean_ok_def)
    have "logs_from P K g \<sigma> ?\<tau>"
    proof (cases "\<not> d \<and> a_empty K x")
      case True
      then show ?thesis
        using clean x by (intro logs_from_single [where a = a and w = "Some (x, False)"]) (auto simp: spec_undo_put)
    next
      case False
      then have "entry_le P (accts \<sigma> a) (Some (x, True))"
        using x P by auto
      then have "jr P K g (accts \<sigma>) [] (accts ?\<tau>)"
        using False by (auto simp: journaled_def accts_le_entry)
      then show ?thesis
        using False by (auto simp: logs_from_def intro!: exI [of _ "[]"])
    qed
    moreover have eq: "\<sigma>' = (if v \<noteq> 0 then note_change (ChangeBalance a v)
        (put a (x\<lparr>a_balance := a_balance x + v\<rparr>, True) ?\<tau>) else ?\<tau>)"
      using r x by (auto simp: spec_addBalance_def put_def)
    have "logs_from P K g ?\<tau> \<sigma>'"
      unfolding eq using clean' by (intro balance) simp_all
    ultimately show ?thesis
      by (blast intro: logs_from_trans)
  qed
qed

section \<open>Runs\<close>

text \<open>
  The steps of a run that starts at the savepoint \<open>sp\<close>: the logged operations, the reads, and
  rollbacks to later savepoints. The conditions are those the callers establish: a contract is
  created where no account is, storage and code are written to accounts that exist, and storage is
  cleared before anything has been written to it.
\<close>

inductive state_step :: "keccak \<Rightarrow> (acct \<Rightarrow> bool) \<Rightarrow> nat \<Rightarrow> State \<Rightarrow> State \<Rightarrow> bool" for K P sp where
  account: "State_account K a s = Inr (acc, s') \<Longrightarrow> state_step K P sp s s'"
| storage: "State_storage K a k s = Inr (v, s') \<Longrightarrow> state_step K P sp s s'"
| code: "State_code K a s = Inr (c, s') \<Longrightarrow> state_step K P sp s s'"
| addBalance: "State_addBalance K a v s = Inr s' \<Longrightarrow> state_step K P sp s s'"
| subBalance: "State_subBalance K a v s = Inr s' \<Longrightarrow> state_step K P sp s s'"
| setBalance: "State_setBalance K a v s = Inr s' \<Longrightarrow> state_step K P sp s s'"
| transferBalance: "State_transferBalance K a b v s = Inr s' \<Longrightarrow> state_step K P sp s s'"
| incNonce: "State_incNonce K a s = Inr s' \<Longrightarrow> touch_safe P (accts_of K s) a \<Longrightarrow> state_step K P sp s s'"
| setNonce: "State_setNonce K a n s = Inr s' \<Longrightarrow> touch_safe P (accts_of K s) a \<Longrightarrow> state_step K P sp s s'"
| createContract: "State_addressInUse K a s = Inr (False, s1) \<Longrightarrow> State_createContract K a s1 = Inr s' \<Longrightarrow>
    state_step K P sp s s'"
| setStorage: "State_setStorage K a k v s = Inr s' \<Longrightarrow> accts_of K s a \<noteq> None \<Longrightarrow>
    touch_safe P (accts_of K s) a \<Longrightarrow> state_step K P sp s s'"
| setCode: "State_setCode K a c s = Inr s' \<Longrightarrow> accts_of K s a = Some (x, True) \<Longrightarrow> state_step K P sp s s'"
| clearStorage: "s' = State_clearStorage K a s \<Longrightarrow> m_cache s a = Some acc \<Longrightarrow> m_storageOverlay acc = Map.empty \<Longrightarrow>
    touch_safe P (accts_of K s) a \<Longrightarrow> state_step K P sp s s'"
| rollback: "State_rollback K n s = Inr s' \<Longrightarrow> sp \<le> n \<Longrightarrow> n \<le> State_savepoint s \<Longrightarrow> state_step K P sp s s'"

text \<open>One step of a run, seen from the plain map.\<close>

definition advances :: "(acct \<Rightarrow> bool) \<Rightarrow> keccak \<Rightarrow> State \<Rightarrow> State \<Rightarrow> bool" where
  "advances P K s s' \<longleftrightarrow> state_inv K s' \<and> same_db s s' \<and> logs_from P K (ground_of K s) (spec_of K s) (spec_of K s')"

lemma advances_trans:
  assumes "advances P K s s'" "advances P K s' s''"
  shows "advances P K s s''"
proof -
  have d: "same_db s s'" using assms(1) by (simp add: advances_def)
  then show ?thesis
    using assms by (auto simp: advances_def db_cong [OF d] intro: same_db_trans logs_from_trans)
qed

lemma advances_view: "same_view K s s' \<Longrightarrow> advances P K s s'"
  by (simp add: advances_def same_view_def logs_from_same)

lemma advances_reads: "reads K s (Inr (v, s')) w \<Longrightarrow> advances P K s s'"
  by (auto simp: reads_def intro: advances_view)

lemma advances_refines:
  assumes "refines K s (Inr s') q" "\<And>\<sigma>'. q = Inr \<sigma>' \<Longrightarrow> logs_from P K (ground_of K s) (spec_of K s) \<sigma>'"
  shows "advances P K s s'"
  using assms by (simp add: refines_def advances_def)

lemma clean_spec: "state_inv K s \<Longrightarrow> clean_ok (ground_of K s) (accts (spec_of K s))"
  by (simp add: spec_of_def clean_ok_accts)

lemma accts_spec_of [simp]: "accts (spec_of K s) = accts_of K s" "slog (spec_of K s) = m_changeLog s"
  by (simp_all add: spec_of_def)

lemma advances_addBalance:
  assumes inv: "state_inv K s" and P: "\<And>x. P x \<Longrightarrow> a_empty K x" and r: "State_addBalance K a v s = Inr s'"
  shows "advances P K s s'"
  using refine_addBalance [OF inv, of a v] addBalance_logs [OF clean_spec [OF inv] P] r
  by (intro advances_refines) auto

lemma advances_subBalance:
  assumes inv: "state_inv K s" and P: "\<And>x. P x \<Longrightarrow> a_empty K x" and r: "State_subBalance K a v s = Inr s'"
  shows "advances P K s s'"
proof (rule advances_refines)
  show "refines K s (Inr s') (spec_subBalance K (ground_of K s) a v (spec_of K s))"
    using refine_subBalance [OF inv, of a v] r by simp
  show "logs_from P K (ground_of K s) (spec_of K s) \<sigma>'"
    if "spec_subBalance K (ground_of K s) a v (spec_of K s) = Inr \<sigma>'" for \<sigma>'
    using that addBalance_logs [OF clean_spec [OF inv] P]
    by (auto simp: spec_subBalance_def logs_from_same split: if_splits option.splits)
qed

lemma a_setCode_same:
  assumes "state_inv K s" "m_cache s a = Some acc"
  shows "a_setCode K (acct_code K s acc) (acct_of K s acc) = acct_of K s acc"
proof -
  have ok: "acct_ok K s acc"
    using assms by (rule state_inv_acct)
  show ?thesis
  proof (cases "m_codeHash acc = EmptySHA3 K")
    case True
    then show ?thesis
      by (simp add: a_setCode_def acct_of_def acct_code_def EmptySHA3_def)
  next
    case False
    then have "K (acct_code K s acc) = m_codeHash acc"
      using ok by (simp add: acct_ok_def)
    then show ?thesis
      using False by (simp add: a_setCode_def acct_of_def)
  qed
qed

lemma advances_clearStorage:
  assumes inv: "state_inv K s" and acc: "m_cache s a = Some acc" "m_storageOverlay acc = Map.empty"
    and t: "touch_safe P (accts_of K s) a"
  shows "advances P K s (State_clearStorage K a s)"
proof (cases "m_storageRoot acc = EmptyTrie K")
  case True
  then show ?thesis
    using acc inv by (simp add: State_clearStorage_def Let_def cacheSlot_def advances_view same_view_def
        setAccount_def fun_upd_idem)
next
  case False
  let ?x = "acct_of K s acc"
  let ?s = "setAccount a (Account_clearStorage K acc) (logged (ChangeStorageRoot a (m_storageRoot acc)) s)"
  have s': "State_clearStorage K a s = ?s"
    using acc False by (simp add: State_clearStorage_def Let_def cacheSlot_def setAccount_def logged_def fun_upd_idem)
  have ok: "acct_ok K s acc"
    using inv acc(1) by (rule state_inv_acct)
  have "state_inv K ?s"
    using inv ok by (intro state_inv_setAccount state_inv_logged) (auto simp: acct_ok_def [of K s acc])
  have x: "accts_of K s a = Some (?x, Account_isDirty acc)"
    using acc by (simp add: accts_of_def)
  have "?x\<lparr>a_root := m_storageRoot acc, a_storage := baseStorage K s (m_storageRoot acc)\<rparr> = ?x"
    using acc by (simp add: acct_of_def)
  then have "logs_from P K (ground_of K s) (spec_of K s) (spec_of K ?s)"
    using clean_spec [OF inv] entry_le_touched [of "accts_of K s", OF x t] x
    by (intro logs_from_single [where a = a and w = "Some (?x, True)"])
      (auto simp: spec_undo_put ground_of_def)
  with \<open>state_inv K ?s\<close> show ?thesis
    by (simp add: advances_def s')
qed

text \<open>Every step but a rollback only adds to the log.\<close>

lemma step_advances:
  assumes "state_step K P sp s s'" and inv: "state_inv K s" and P: "\<And>x. P x \<Longrightarrow> a_empty K x"
  shows "advances P K s s' \<or> (\<exists>n. State_rollback K n s = Inr s' \<and> sp \<le> n \<and> n \<le> State_savepoint s)"
  using assms(1)
proof cases
  case (account a acc)
  then show ?thesis
    using State_account_spec [OF inv, of a] advances_view by fastforce
next
  case (storage a k v)
  then show ?thesis
    using read_storage [OF inv, of a k] advances_reads by fastforce
next
  case (code a c)
  then show ?thesis
    using read_code [OF inv, of a] advances_reads by fastforce
next
  case (addBalance a v)
  then show ?thesis using advances_addBalance [OF inv P] by blast
next
  case (subBalance a v)
  then show ?thesis using advances_subBalance [OF inv P] by blast
next
  case (setBalance a v)
  then show ?thesis
    using refine_setBalance [OF inv, of a v] addBalance_logs [OF clean_spec [OF inv] P]
    by (intro disjI1 advances_refines) (auto simp: spec_setBalance_def)
next
  case (transferBalance a b v)
  then obtain s1 where s1: "State_subBalance K a v s = Inr s1" "State_addBalance K b v s1 = Inr s'"
    by (auto simp: State_transferBalance_def)
  then have "advances P K s s1"
    using advances_subBalance [OF inv P] by blast
  moreover have "advances P K s1 s'"
    using calculation s1(2) by (intro advances_addBalance [OF _ P]) (simp_all add: advances_def)
  ultimately show ?thesis
    using advances_trans by blast
next
  case (incNonce a)
  then show ?thesis
    using refine_incNonce [OF inv, of a] incNonce_logs [OF clean_spec [OF inv], of P a]
    by (intro disjI1 advances_refines) auto
next
  case (setNonce a n)
  then show ?thesis
    using refine_setNonce [OF inv, of a n] setNonce_logs [OF clean_spec [OF inv], of P a]
    by (intro disjI1 advances_refines) auto
next
  case (createContract a s1)
  then have v: "same_view K s s1" "accts_of K s a = None"
    using read_ops(4) [OF inv, of a] by (auto simp: reads_def read_acct_def split: option.splits)
  then have s1: "state_inv K s1" "accts_of K s1 a = None"
    by (simp_all add: same_view_def spec_of_def)
  have "advances P K s1 s'"
    using refine_createContract [OF s1(1), of a] createContract(2) s1(2)
      create_logs [OF clean_spec [OF s1(1)], of a]
    by (intro advances_refines) (auto simp: spec_createContract_def)
  then show ?thesis
    using advances_view [OF v(1)] advances_trans by blast
next
  case (setStorage a k v)
  then show ?thesis
    using refine_setStorage [OF inv, of a k v] setStorage_logs [OF clean_spec [OF inv], of P a]
    by (intro disjI1 advances_refines) auto
next
  case (setCode a c x)
  then obtain acc where "m_cache s a = Some acc" "acct_of K s acc = x"
    using dirty_cached by blast
  then have "a_setCode K (a_code x) x = x"
    using a_setCode_same [OF inv] by force
  then show ?thesis
    using setCode refine_setCode [OF inv setCode(2), of c] setCode_logs [OF clean_spec [OF inv], of a x]
    by (intro disjI1 advances_refines) auto
next
  case (clearStorage a acc)
  then show ?thesis
    using advances_clearStorage [OF inv] by blast
next
  case (rollback n)
  then show ?thesis by blast
qed

lemma rollback_advances:
  assumes adv: "advances P K s0 s" and n: "State_savepoint s0 \<le> n" "n \<le> State_savepoint s"
  shows "\<exists>s'. State_rollback K n s = Inr s' \<and> advances P K s0 s' \<and> State_savepoint s' = n"
proof -
  have inv: "state_inv K s" and d: "same_db s0 s"
    using adv by (simp_all add: advances_def)
  obtain cs where log: "m_changeLog s = m_changeLog s0 @ cs"
    and j: "jr P K (ground_of K s0) (accts_of K s0) cs (accts_of K s)"
    using adv by (auto simp: advances_def logs_from_def)
  define k where "k = n - length (m_changeLog s0)"
  let ?l = "m_changeLog s0 @ take k cs"
  have len: "length ?l = n" "m_changeLog s = ?l @ drop k cs"
    using n log by (simp_all add: State_savepoint_def k_def)
  have "jr P K (ground_of K s0) (accts_of K s0) (take k cs @ drop k cs) (accts_of K s)"
    using j by simp
  then have u: "undoable (undo_ok K (ground_of K s)) (spec_undo K (ground_of K s)) (rev (drop k cs)) (accts_of K s)"
    and j': "jr P K (ground_of K s0) (accts_of K s0) (take k cs)
      (fold (spec_undo K (ground_of K s0)) (rev (drop k cs)) (accts_of K s))"
    using journal.journaled_rollback
    by (simp_all add: journaled_def undoable_append db_cong [OF d] del: append_take_drop_id)
  obtain s' where s': "State_rollback K n s = Inr s'" "state_inv K s'" "same_db s s'" "m_changeLog s' = ?l"
    "accts_of K s' = fold (spec_undo K (ground_of K s)) (rev (drop k cs)) (accts_of K s)"
    using rollback_undoes [OF inv len(2) u] len(1) by auto
  then have "advances P K s0 s'"
    using j' d by (auto simp: advances_def logs_from_def db_cong [OF d] intro: same_db_trans)
  then show ?thesis
    using s' len by (auto simp: State_savepoint_def)
qed

lemma steps_advance:
  assumes "(state_step K P (State_savepoint s))\<^sup>*\<^sup>* s s'" and "state_inv K s" and "\<And>x. P x \<Longrightarrow> a_empty K x"
  shows "advances P K s s'"
  using assms(1)
proof (induction rule: rtranclp_induct)
  case base
  then show ?case using assms(2) by (simp add: advances_view same_view_refl)
next
  case (step t u)
  then have "state_inv K t" by (simp add: advances_def)
  then have "advances P K t u \<or>
      (\<exists>n. State_rollback K n t = Inr u \<and> State_savepoint s \<le> n \<and> n \<le> State_savepoint t)"
    using step_advances [OF step.hyps(2)] assms(3) by blast
  then show ?case
  proof (elim disjE exE conjE)
    assume "advances P K t u"
    with step.IH show ?case by (rule advances_trans)
  next
    fix n assume "State_rollback K n t = Inr u" "State_savepoint s \<le> n" "n \<le> State_savepoint t"
    then show ?case
      using rollback_advances [OF step.IH] by force
  qed
qed

lemma rollback_to_start:
  assumes "advances P K s s'"
  shows "\<exists>s''. State_rollback K (State_savepoint s) s' = Inr s'' \<and> state_inv K s'' \<and> m_changeLog s'' = m_changeLog s \<and>
    accts_le P (accts_of K s) (accts_of K s'')"
proof -
  have "State_savepoint s \<le> State_savepoint s'"
    using assms by (auto simp: advances_def logs_from_def State_savepoint_def)
  then obtain s'' where r: "State_rollback K (State_savepoint s) s' = Inr s''" "advances P K s s''"
    "State_savepoint s'' = State_savepoint s"
    using rollback_advances [OF assms order.refl] by blast
  then obtain cs where "m_changeLog s'' = m_changeLog s @ cs" "jr P K (ground_of K s) (accts_of K s) cs (accts_of K s'')"
    by (auto simp: advances_def logs_from_def)
  then have "m_changeLog s'' = m_changeLog s" "accts_le P (accts_of K s) (accts_of K s'')"
    using r(3) by (simp_all add: State_savepoint_def journaled_def)
  then show ?thesis
    using r by (auto simp: advances_def)
qed

lemma accts_le_fst: "accts_le P A B \<Longrightarrow> map_option fst (B a) = map_option fst (A a)"
  by (cases "A a"; cases "B a") (force simp: accts_le_entry entry_le_def dest: spec [of _ a])+

lemma accts_removeEmpty:
  "accts_of K (State_removeEmptyAccounts K s) a =
   map_option (\<lambda>(x, d). if d \<and> a_empty K x then (a_fresh K (baseStorage K s) False 0 0, True) else (x, d)) (accts_of K s a)"
proof -
  let ?s = "State_removeEmptyAccounts K s"
  have d: "same_db s ?s"
    by (simp add: State_removeEmptyAccounts_def)
  have "m_cache ?s a = map_option (\<lambda>acc. if Account_isDirty acc \<and> Account_isEmpty K acc then Account_kill K acc else acc) (m_cache s a)"
    by (simp add: State_removeEmptyAccounts_def split: option.split)
  then show ?thesis
    unfolding accts_of_def [of K ?s] db_cong [OF d] by (auto simp: accts_of_def option.map_comp o_def split: option.split)
qed

end
