(* ===== verification/State_Props.thy ===== *)
theory State_Props
  imports State_Journal
begin

text \<open>The properties of the world state, with the state they are evaluated on.\<close>

section \<open>A concrete state\<close>

definition demo_keccak :: keccak where
  "demo_keccak bs = word_of_nat (be_nat bs + length bs)"

definition demo_state :: State where
  "demo_state = \<lparr>m_tries = Map.empty, m_codes = (\<lambda>_. []), m_root = EmptyTrie demo_keccak, m_cache = Map.empty,
     m_unchangedCacheEntries = [], m_nonExistingAccountsCache = {}, m_touched = {}, m_accountStartNonce = 0,
     m_changeLog = [], m_codeSizeCache = [], m_rng = (\<lambda>_. 0)\<rparr>"

lemma openTrie_demo: "openTrie K (s\<lparr>m_tries := Map.empty, m_root := EmptyTrie K\<rparr>) (EmptyTrie K) = Inr (\<lambda>_. [])"
  by (simp add: openTrie_def)

lemma demo_state_inv: "state_inv demo_keccak demo_state"
proof -
  have t: "openTrie demo_keccak demo_state (EmptyTrie demo_keccak) = Inr (\<lambda>_. [])"
    by (simp add: openTrie_def demo_state_def)
  have "storageLookup demo_keccak demo_state (EmptyTrie demo_keccak) k = Inr 0" for k
    by (simp add: storageLookup_def t)
  moreover have "m_root demo_state = EmptyTrie demo_keccak" "m_cache demo_state = Map.empty"
    "m_nonExistingAccountsCache demo_state = {}" "m_changeLog demo_state = []"
    by (simp_all add: demo_state_def)
  ultimately show ?thesis
    by (simp add: state_inv_def db_ok_def root_ok_def t)
qed

section \<open>Properties\<close>


lemma demo_addBalance:
  "\<exists>s'. State_addBalance demo_keccak 7 5 demo_state = Inr s' \<and> length (m_changeLog s') = 2"
  by (simp add: State_addBalance_def State_account_def demo_state_def openTrie_def
      State_requireAccountStartNonce_def Invalid256_def State_createAccount_def logged_def setAccount_def)


text \<open>
  C23. A rollback also restores which accounts the end of the transaction deletes: when the
  operations other than balance changes stayed away from empty accounts nothing had touched yet,
  \<^verbatim>\<open>removeEmptyAccounts\<close> after the rollback leaves the same accounts as at the savepoint.
\<close>

theorem rollback_restores_deletions:
  assumes "state_inv K s" and "(state_step K (a_empty K) (State_savepoint s))\<^sup>*\<^sup>* s s'"
  shows "\<exists>s''. State_rollback K (State_savepoint s) s' = Inr s'' \<and>
    (\<forall>a. map_option fst (accts_of K (State_removeEmptyAccounts K s'') a) =
         map_option fst (accts_of K (State_removeEmptyAccounts K s) a))"
proof -
  have adv: "advances (a_empty K) K s s'"
    using assms by (intro steps_advance) simp_all
  from rollback_to_start [OF adv] obtain s'' where s'':
    "State_rollback K (State_savepoint s) s' = Inr s''" "accts_le (a_empty K) (accts_of K s) (accts_of K s'')"
    by blast
  have d: "same_db s s''"
    using rollback_advances [OF adv order.refl] adv s''(1)
    by (fastforce simp: advances_def logs_from_def State_savepoint_def)
  have "map_option fst (accts_of K (State_removeEmptyAccounts K s'') a) =
      map_option fst (accts_of K (State_removeEmptyAccounts K s) a)" for a
  proof -
    have "entry_le (a_empty K) (accts_of K s a) (accts_of K s'' a)"
      using s''(2) by (simp add: accts_le_entry)
    then show ?thesis
      by (cases "accts_of K s a"; cases "accts_of K s'' a") (auto simp: accts_removeEmpty db_cong [OF d])
  qed
  then show ?thesis using s''(1) by blast
qed

theorem rollback_restores_deletions_witness:
  "\<exists>s' s''. State_addBalance demo_keccak 7 5 demo_state = Inr s' \<and> length (m_changeLog s') = 2 \<and>
     State_rollback demo_keccak 0 s' = Inr s'' \<and>
     map_option fst (accts_of demo_keccak (State_removeEmptyAccounts demo_keccak s'') 7) =
       map_option fst (accts_of demo_keccak (State_removeEmptyAccounts demo_keccak demo_state) 7)"
proof -
  obtain s' where s': "State_addBalance demo_keccak 7 5 demo_state = Inr s'" "length (m_changeLog s') = 2"
    using demo_addBalance by blast
  have sp: "State_savepoint demo_state = 0"
    by (simp add: State_savepoint_def demo_state_def)
  have "(state_step demo_keccak (a_empty demo_keccak) (State_savepoint demo_state))\<^sup>*\<^sup>* demo_state s'"
    using state_step.addBalance [OF s'(1)] by blast
  from rollback_restores_deletions [OF demo_state_inv this] s' show ?thesis
    unfolding sp by blast
qed





text \<open>The balances, and what a transfer does to them.\<close>

definition balance_of :: "keccak \<Rightarrow> State \<Rightarrow> address \<Rightarrow> u256" where
  "balance_of K s a = read_acct (spec_of K s) a a_balance 0"

lemma spec_addBalance_balance:
  assumes "spec_addBalance K g a v \<sigma> = Inr \<sigma>'"
  shows "read_acct \<sigma>' b a_balance 0 = read_acct \<sigma> b a_balance 0 + (if b = a then v else 0)"
proof -
  have other: "accts \<sigma>' b = accts \<sigma> b" if "b \<noteq> a"
    using assms that by (auto simp: spec_addBalance_def spec_create_def split: option.splits if_splits)
  have "read_acct \<sigma>' a a_balance 0 = read_acct \<sigma> a a_balance 0 + v"
    using assms by (auto simp: spec_addBalance_def read_acct_def spec_create_def a_fresh_def
        split: option.splits if_splits)
  with other show ?thesis
    by (cases "b = a") (simp_all add: read_acct_def)
qed

text \<open>
  C22. A transfer moves exactly its amount: it fails with \<^verbatim>\<open>NotEnoughCash\<close> exactly when the amount is
  not zero and the sender's balance is smaller, and otherwise takes the amount from the sender, adds
  it to the receiver (modulo $2^{256}$) and leaves the balance of every other account alone; a
  transfer to oneself changes no balance.
\<close>

theorem transfer_moves_exactly:
  assumes inv: "state_inv K s" and "m_accountStartNonce s \<noteq> Invalid256"
  shows "if v \<noteq> 0 \<and> balance_of K s sender < v
    then State_transferBalance K sender receiver v s = Inl NotEnoughCash
    else \<exists>s'. State_transferBalance K sender receiver v s = Inr s' \<and> state_inv K s' \<and>
      (\<forall>a. balance_of K s' a = balance_of K s a - (if a = sender then v else 0) + (if a = receiver then v else 0))"
proof -
  let ?g = "ground_of K s" and ?\<sigma> = "spec_of K s"
  have nonce: "spec_startNonce ?g = Inr (m_accountStartNonce s)"
    using assms(2) by (simp add: spec_startNonce_def)
  have add: "\<exists>\<sigma>'. spec_addBalance K ?g a w \<sigma> = Inr \<sigma>'" for a w \<sigma>
    using nonce by (auto simp: spec_addBalance_def split: option.split)
  have sub: "if v \<noteq> 0 \<and> balance_of K s sender < v then spec_subBalance K ?g sender v ?\<sigma> = Inl NotEnoughCash
      else \<exists>\<sigma>'. spec_subBalance K ?g sender v ?\<sigma> = Inr \<sigma>' \<and>
        (\<forall>a. read_acct \<sigma>' a a_balance 0 = balance_of K s a - (if a = sender then v else 0))"
  proof (cases "v = 0 \<or> accts ?\<sigma> sender = None")
    case True
    then show ?thesis
      by (auto simp: spec_subBalance_def balance_of_def read_acct_def word_gt_0 split: option.split)
  next
    case False
    then obtain x d where x: "accts ?\<sigma> sender = Some (x, d)" by fastforce
    show ?thesis
      using add [of sender "- v" ?\<sigma>] spec_addBalance_balance [of K ?g sender "- v" ?\<sigma>] x False
      by (auto simp: spec_subBalance_def balance_of_def read_acct_def)
  qed
  show ?thesis
  proof (cases "v \<noteq> 0 \<and> balance_of K s sender < v")
    case True
    then have "spec_transfer K ?g sender receiver v ?\<sigma> = Inl NotEnoughCash"
      using sub by (simp add: spec_transfer_def)
    then show ?thesis
      using refine_transfer [OF inv, of sender receiver v] True
      by (cases "State_transferBalance K sender receiver v s") (auto simp: refines_def)
  next
    case False
    then obtain \<sigma>1 where s1: "spec_subBalance K ?g sender v ?\<sigma> = Inr \<sigma>1"
      "\<And>a. read_acct \<sigma>1 a a_balance 0 = balance_of K s a - (if a = sender then v else 0)"
      using sub by auto
    obtain \<sigma>2 where s2: "spec_addBalance K ?g receiver v \<sigma>1 = Inr \<sigma>2"
      using add by blast
    have "spec_transfer K ?g sender receiver v ?\<sigma> = Inr \<sigma>2"
      using s1 s2 by (simp add: spec_transfer_def)
    then obtain s' where s': "State_transferBalance K sender receiver v s = Inr s'" "state_inv K s'" "spec_of K s' = \<sigma>2"
      using refine_transfer [OF inv, of sender receiver v]
      by (cases "State_transferBalance K sender receiver v s") (auto simp: refines_def)
    have "balance_of K s' a = balance_of K s a - (if a = sender then v else 0) + (if a = receiver then v else 0)" for a
      using spec_addBalance_balance [OF s2, of a] s1(2) [of a] s'(3) by (simp add: balance_of_def)
    then show ?thesis
      using False s' by auto
  qed
qed

theorem transfer_moves_exactly_witness:
  "State_transferBalance demo_keccak 7 8 5 demo_state = Inl NotEnoughCash"
proof -
  have "balance_of demo_keccak demo_state 7 = 0" "m_accountStartNonce demo_state \<noteq> Invalid256"
    by (simp_all add: balance_of_def read_acct_def accts_of_def leafAccount_def openTrie_def demo_state_def
        Invalid256_def)
  then show ?thesis
    using transfer_moves_exactly [OF demo_state_inv, of 5 7 8] by (simp add: word_less_nat_alt)
qed

text \<open>
  C24. What is written to a storage slot is what is read from it: after \<^verbatim>\<open>setStorage\<close> the slot holds
  the new value and every other slot of every account the one it had.
\<close>

theorem storage_write_read:
  assumes inv: "state_inv K s"
  shows "\<exists>s'. State_setStorage K a k v s = Inr s' \<and>
    (\<forall>b j. reads K s' (State_storage K b j s')
       (if b = a \<and> j = k then v else read_acct (spec_of K s) b (\<lambda>x. a_storage x j) (if b = a then baseStorage K s (EmptyTrie K) j else 0)))"
proof -
  obtain s' where s': "State_setStorage K a k v s = Inr s'" "state_inv K s'"
    "spec_of K s' = spec_setStorage K (ground_of K s) a k v (spec_of K s)"
    using refine_setStorage [OF inv, of a k v]
    by (cases "State_setStorage K a k v s") (auto simp: refines_def)
  have eq: "read_acct (spec_of K s') b (\<lambda>x. a_storage x j) 0 =
      (if b = a \<and> j = k then v
       else read_acct (spec_of K s) b (\<lambda>x. a_storage x j) (if b = a then baseStorage K s (EmptyTrie K) j else 0))" for b j
    unfolding s'(3)
    by (auto simp: read_acct_def spec_setStorage_def Let_def a_fresh_def ground_of_def split: option.split)
  show ?thesis
    using s'(1) read_storage [OF s'(2)] unfolding eq by blast
qed

theorem storage_write_read_witness:
  "\<exists>s'. State_setStorage demo_keccak 7 1 2 demo_state = Inr s' \<and>
     reads demo_keccak s' (State_storage demo_keccak 7 1 s') 2"
  using storage_write_read [OF demo_state_inv, of 7 1 2] by (elim exE conjE allE [of _ 7] allE [of _ 1]) auto



section \<open>Where a rollback does not restore\<close>

text \<open>
  \<^verbatim>\<open>clearStorage\<close> logs the storage root only: undoing it empties the overlay, and with it every slot
  that had been written before and not been committed.
\<close>

lemma clearStorage_undo_drops_writes:
  assumes "m_cache s a = Some acc" "m_storageRoot acc \<noteq> EmptyTrie K"
  shows "\<exists>s' acc'. State_rollback K (State_savepoint s) (State_clearStorage K a s) = Inr s' \<and>
    m_cache s' a = Some acc' \<and> m_storageRoot acc' = m_storageRoot acc \<and> m_storageOverlay acc' = Map.empty"
proof -
  let ?s = "setAccount a (Account_clearStorage K acc) (logged (ChangeStorageRoot a (m_storageRoot acc)) s)"
  let ?t = "(undoChange K (ChangeStorageRoot a (m_storageRoot acc)) ?s)\<lparr>m_changeLog := m_changeLog s\<rparr>"
  have s: "State_clearStorage K a s = ?s"
    using assms by (simp add: State_clearStorage_def Let_def cacheSlot_def setAccount_def logged_def fun_upd_idem)
  have "State_rollback K (State_savepoint s) ?s = State_rollback K (State_savepoint s) ?t"
    by (subst State_rollback.simps) (simp add: State_savepoint_def)
  also have "\<dots> = Inr ?t"
    by (subst State_rollback.simps) (simp add: State_savepoint_def)
  finally show ?thesis
    unfolding s by (simp add: undoChange_def Let_def cacheSlot_def Account_defs setAccount_def)
qed

text \<open>
  \<^verbatim>\<open>incNonce\<close> marks an empty account nobody has touched without logging the touch: undoing it leaves
  the account marked, and \<^verbatim>\<open>removeEmptyAccounts\<close> deletes it.
\<close>

lemma incNonce_undo_leaves_touched:
  assumes "m_cache s a = Some acc" "\<not> Account_isDirty acc" "Account_isEmpty K acc"
  shows "\<exists>s1 s2 acc'. State_incNonce K a s = Inr s1 \<and> State_rollback K (State_savepoint s) s1 = Inr s2 \<and>
    m_cache s2 a = Some acc' \<and> Account_isEmpty K acc' \<and> Account_isDirty acc'"
proof -
  let ?s = "logged (ChangeNonce a (m_nonce acc)) (setAccount a (Account_incNonce acc) s)"
  let ?t = "(undoChange K (ChangeNonce a (m_nonce acc)) ?s)\<lparr>m_changeLog := m_changeLog s\<rparr>"
  have s: "State_incNonce K a s = Inr ?s"
    using assms by (simp add: State_incNonce_def State_account_def)
  have "State_rollback K (State_savepoint s) ?s = State_rollback K (State_savepoint s) ?t"
    by (subst State_rollback.simps) (simp add: State_savepoint_def)
  also have "\<dots> = Inr ?t"
    by (subst State_rollback.simps) (simp add: State_savepoint_def)
  finally show ?thesis
    using assms unfolding s
    by (simp add: undoChange_def Let_def cacheSlot_def Account_defs setAccount_def logged_def)
qed

end
