(* ===== verification/Transaction.thy ===== *)
theory Transaction
  imports RLP_Fields EVM_Instruction Account
begin

text \<open>
  Transactions (\<^verbatim>\<open>libaeccore/TransactionBase.h\<close>, \<^verbatim>\<open>TransactionBase.cpp\<close>): their RLP form with the
  replay protection of EIP-155, the sender, and the gas a transaction costs before it runs.

  Recovering the public key from a signature is a function of a package outside the repository, the
  parameter \<open>recover\<close>. An \<^verbatim>\<open>int\<close> is an integer of 32 bits here and is written to the stream through
  its unsigned value.
\<close>

section \<open>Signatures\<close>

record SignatureStruct =
  sig_r :: h256
  sig_s :: h256
  sig_v :: byte

definition c_secp256k1n :: u256 where
  "c_secp256k1n = 115792089237316195423570985008687907852837564279074904382605163141518161494337"

definition SignatureStruct_isValid :: "SignatureStruct \<Rightarrow> bool" where
  "SignatureStruct_isValid sg \<longleftrightarrow> sig_v sg \<le> 1 \<and> sig_r sg > 0 \<and> sig_s sg > 0 \<and>
     sig_r sg < 0xfffffffffffffffffffffffffffffffebaaedce6af48a03bbfd25e8cd0364141 \<and>
     sig_s sg < 0xfffffffffffffffffffffffffffffffebaaedce6af48a03bbfd25e8cd0364141"

definition isZeroSignature :: "u256 \<Rightarrow> u256 \<Rightarrow> bool" where
  "isZeroSignature r s \<longleftrightarrow> r = 0 \<and> s = 0"

section \<open>Transactions\<close>

datatype TransactionType = NullTransaction | ContractCreation | MessageCall

datatype CheckTransaction = CheckNone | CheckCheap | CheckEverything

datatype tx_error = TxRLP rlp_error | InvalidTransactionFormat | InvalidSignature | TransactionIsUnsigned

record Transaction =
  t_type :: TransactionType
  t_nonce :: u256
  t_value :: u256
  t_receiveAddress :: address
  t_gasPrice :: u256
  t_gas :: u256
  t_data :: bytes
  t_vrs :: "SignatureStruct option"
  t_chainId :: int
  t_hashWith :: h256
  t_sender :: address

definition Transaction_null :: Transaction where
  "Transaction_null = \<lparr>t_type = NullTransaction, t_nonce = 0, t_value = 0, t_receiveAddress = 0,
     t_gasPrice = 0, t_gas = 0, t_data = [], t_vrs = None, t_chainId = - 4,
     t_hashWith = 0, t_sender = 0\<rparr>"

definition isNonNull :: "Transaction \<Rightarrow> bool" where
  "isNonNull t \<longleftrightarrow> t_type t \<noteq> NullTransaction"

definition isCreation_tx :: "Transaction \<Rightarrow> bool" where
  "isCreation_tx t \<longleftrightarrow> t_type t = ContractCreation"

definition hasSignature :: "Transaction \<Rightarrow> bool" where
  "hasSignature t \<longleftrightarrow> t_vrs t \<noteq> None"

definition hasZeroSignature :: "Transaction \<Rightarrow> bool" where
  "hasZeroSignature t \<longleftrightarrow> (case t_vrs t of Some sg \<Rightarrow> isZeroSignature (sig_r sg) (sig_s sg) | None \<Rightarrow> False)"

definition isReplayProtected :: "Transaction \<Rightarrow> bool" where
  "isReplayProtected t \<longleftrightarrow> t_chainId t \<noteq> - 4"

section \<open>Writing\<close>

text \<open>An \<^verbatim>\<open>int\<close> goes to the overload \<^verbatim>\<open>append(unsigned)\<close>.\<close>

definition appendInt32 :: "int \<Rightarrow> rlp_stream \<Rightarrow> rlp_error + rlp_stream" where
  "appendInt32 i st = appendInt (unat (word_of_int i :: u32)) st"

definition streamRLP :: "Transaction \<Rightarrow> bool \<Rightarrow> bool \<Rightarrow> rlp_stream \<Rightarrow> tx_error + rlp_stream" where
  "streamRLP t sig forEip155hash st =
     (if t_type t = NullTransaction then Inr st
      else
        sum_bind (map_err TxRLP (
          sum_bind (appendList ((if sig \<or> forEip155hash then 3 else 0) + 6) st) (\<lambda>s.
          sum_bind (appendInt (unat (t_nonce t)) s) (\<lambda>s.
          sum_bind (appendInt (unat (t_gasPrice t)) s) (\<lambda>s.
          sum_bind (appendInt (unat (t_gas t)) s) (\<lambda>s.
          sum_bind (if t_type t = MessageCall then appendBytes (toBigEndian 20 (unat (t_receiveAddress t))) False s
                    else appendBytes [] False s) (\<lambda>s.
          sum_bind (appendInt (unat (t_value t)) s) (\<lambda>s. appendBytes (t_data t) False s))))))))
        (\<lambda>s.
          if sig then
            (case t_vrs t of
               None \<Rightarrow> Inl TransactionIsUnsigned
             | Some sg \<Rightarrow> map_err TxRLP (
                 sum_bind (appendInt32 (if hasZeroSignature t then t_chainId t
                                        else int (unat (sig_v sg)) + (t_chainId t * 2 + 35)) s) (\<lambda>s.
                 sum_bind (appendInt (unat (sig_r sg)) s) (\<lambda>s. appendInt (unat (sig_s sg)) s))))
          else if forEip155hash then map_err TxRLP (
            sum_bind (appendInt32 (t_chainId t) s) (\<lambda>s. sum_bind (appendInt32 0 s) (\<lambda>s. appendInt32 0 s)))
          else Inr s))"

definition rlp_tx :: "Transaction \<Rightarrow> bool \<Rightarrow> bool \<Rightarrow> tx_error + bytes" where
  "rlp_tx t sig forEip155hash = sum_bind (streamRLP t sig forEip155hash RLPStream)
     (\<lambda>s. map_err TxRLP (out_stream s))"

text \<open>The hash with signature is computed once and kept in \<^verbatim>\<open>m_hashWith\<close>.\<close>

definition sha3_tx :: "keccak \<Rightarrow> Transaction \<Rightarrow> bool \<Rightarrow> tx_error + h256 \<times> Transaction" where
  "sha3_tx K t sig =
     (if sig \<and> t_hashWith t \<noteq> 0 then Inr (t_hashWith t, t)
      else sum_bind (rlp_tx t sig (t_chainId t > 0 \<and> \<not> sig)) (\<lambda>bs.
        Inr (K bs, if sig then t\<lparr>t_hashWith := K bs\<rparr> else t)))"

section \<open>The sender and the signature\<close>

definition MaxAddress :: address where
  "MaxAddress = - 1"

text \<open>The sender is kept in \<^verbatim>\<open>m_sender\<close>; the address zero stands for unknown.\<close>

definition sender_tx :: "keccak \<Rightarrow> (SignatureStruct \<Rightarrow> h256 \<Rightarrow> bytes option) \<Rightarrow> Transaction \<Rightarrow>
    tx_error + address \<times> Transaction" where
  "sender_tx K recover t =
     (if t_sender t \<noteq> 0 then Inr (t_sender t, t)
      else if hasZeroSignature t then Inr (MaxAddress, t\<lparr>t_sender := MaxAddress\<rparr>)
      else case t_vrs t of
        None \<Rightarrow> Inl TransactionIsUnsigned
      | Some sg \<Rightarrow> sum_bind (sha3_tx K t False) (\<lambda>(h, t).
          case recover sg h of
            None \<Rightarrow> Inl InvalidSignature
          | Some p \<Rightarrow> Inr (ucast (K p), t\<lparr>t_sender := ucast (K p)\<rparr>)))"

definition signature_tx :: "Transaction \<Rightarrow> tx_error + SignatureStruct" where
  "signature_tx t = (case t_vrs t of None \<Rightarrow> Inl TransactionIsUnsigned | Some sg \<Rightarrow> Inr sg)"

text \<open>Signing (the parameter \<open>signer\<close> is the package's signer under the secret key) keeps a valid result only.\<close>

definition sign_tx :: "keccak \<Rightarrow> (h256 \<Rightarrow> SignatureStruct) \<Rightarrow> Transaction \<Rightarrow> tx_error + Transaction" where
  "sign_tx K signer t = sum_bind (sha3_tx K t False) (\<lambda>(h, t).
     Inr (if SignatureStruct_isValid (signer h) then t\<lparr>t_vrs := Some (signer h)\<rparr> else t))"

definition clearSignature :: "Transaction \<Rightarrow> Transaction" where
  "clearSignature t = t\<lparr>t_vrs := Some \<lparr>sig_r = 0, sig_s = 0, sig_v = 0\<rparr>\<rparr>"

definition setNonce_tx :: "u256 \<Rightarrow> Transaction \<Rightarrow> Transaction" where
  "setNonce_tx n t = (clearSignature t)\<lparr>t_nonce := n\<rparr>"

definition forceSender :: "address \<Rightarrow> Transaction \<Rightarrow> Transaction" where
  "forceSender a t = t\<lparr>t_sender := a\<rparr>"

definition safeSender :: "keccak \<Rightarrow> (SignatureStruct \<Rightarrow> h256 \<Rightarrow> bytes option) \<Rightarrow> Transaction \<Rightarrow> address \<times> Transaction" where
  "safeSender K recover t = (case sender_tx K recover t of Inr r \<Rightarrow> r | Inl _ \<Rightarrow> (0, t))"

definition checkLowS :: "Transaction \<Rightarrow> tx_error + unit" where
  "checkLowS t = (case t_vrs t of
       None \<Rightarrow> Inl TransactionIsUnsigned
     | Some sg \<Rightarrow> if sig_s sg > c_secp256k1n div 2 then Inl InvalidSignature else Inr ())"

definition checkChainId :: "Transaction \<Rightarrow> int \<Rightarrow> tx_error + unit" where
  "checkChainId t chainId =
     (if t_chainId t \<noteq> chainId \<and> t_chainId t \<noteq> - 4 then Inl InvalidSignature else Inr ())"

section \<open>Reading\<close>

text \<open>\<^verbatim>\<open>toInt<int>\<close> keeps four bytes and reads them as a signed number.\<close>

definition toInt32 :: "bytes \<Rightarrow> rlp_error + int" where
  "toInt32 i = sum_bind (toInt i Strict :: rlp_error + u32) (\<lambda>w. Inr (sint w))"

definition signature_of :: "int \<Rightarrow> u256 \<Rightarrow> u256 \<Rightarrow> CheckTransaction \<Rightarrow> tx_error + int \<times> SignatureStruct" where
  "signature_of v r s check =
     (if isZeroSignature r s then Inr (v, \<lparr>sig_r = r, sig_s = s, sig_v = 0\<rparr>)
      else sum_bind
        (if v > 36 then Inr ((v - 35) div 2) else if v = 27 \<or> v = 28 then Inr (- 4) else Inl InvalidSignature)
        (\<lambda>chainId.
          (let sg = \<lparr>sig_r = r, sig_s = s, sig_v = word_of_int (v - (chainId * 2 + 35))\<rparr> in
           if check \<noteq> CheckNone \<and> \<not> SignatureStruct_isValid sg then Inl InvalidSignature
           else Inr (chainId, sg))))"

definition TransactionBase :: "keccak \<Rightarrow> (SignatureStruct \<Rightarrow> h256 \<Rightarrow> bytes option) \<Rightarrow> CheckTransaction \<Rightarrow> bytes \<Rightarrow>
    tx_error + Transaction" where
  "TransactionBase K recover check rlpData =
     sum_bind (map_err TxRLP (RLP rlpData VeryStrict)) (\<lambda>d.
     if \<not> isList d then Inl InvalidTransactionFormat else
     sum_bind (map_err TxRLP (rlp_field 0 (\<lambda>i. toInt i Strict) (rlp_obj_of d))) (\<lambda>(nonce, r).
     sum_bind (map_err TxRLP (rlp_field 1 (\<lambda>i. toInt i Strict) r)) (\<lambda>(gasPrice, r).
     sum_bind (map_err TxRLP (rlp_field 2 (\<lambda>i. toInt i Strict) r)) (\<lambda>(gas, r).
     sum_bind (map_err TxRLP (rlp_field 3 (\<lambda>i. Inr (isEmpty i)) r)) (\<lambda>(creation, r).
     sum_bind (map_err TxRLP (rlp_field 3 (\<lambda>i. if isEmpty i then Inr (replicate 20 0) else toHash 20 i VeryStrict) r))
       (\<lambda>(dest, r).
     sum_bind (map_err TxRLP (rlp_field 4 (\<lambda>i. toInt i Strict) r)) (\<lambda>(val, r).
     sum_bind (map_err TxRLP (rlp_field 5 (\<lambda>i. Inr (isData i)) r)) (\<lambda>(isdata, r).
     if \<not> isdata then Inl InvalidTransactionFormat else
     sum_bind (map_err TxRLP (rlp_field 5 (\<lambda>i. toBytes i LaissezFaire) r)) (\<lambda>(data, r).
     sum_bind (map_err TxRLP (rlp_field 6 toInt32 r)) (\<lambda>(v, r).
     sum_bind (map_err TxRLP (rlp_field 7 (\<lambda>i. toInt i Strict) r)) (\<lambda>(sr, r).
     sum_bind (map_err TxRLP (rlp_field 8 (\<lambda>i. toInt i Strict) r)) (\<lambda>(ss, r).
     sum_bind (signature_of v sr ss check) (\<lambda>(chainId, vrs).
       (let t = \<lparr>t_type = (if creation then ContractCreation else MessageCall), t_nonce = nonce, t_value = val,
                 t_receiveAddress = fromBigEndian dest, t_gasPrice = gasPrice, t_gas = gas, t_data = data,
                 t_vrs = Some vrs, t_chainId = chainId, t_hashWith = 0, t_sender = 0\<rparr>
        in sum_bind (if check = CheckEverything then sum_bind (sender_tx K recover t) (\<lambda>(a, t). Inr (t\<lparr>t_sender := a\<rparr>))
                     else Inr t) (\<lambda>t.
           sum_bind (map_err TxRLP (items d)) (\<lambda>n.
             if n > 9 then Inl InvalidTransactionFormat else Inr t))))))))))))))))"

section \<open>Intrinsic gas\<close>

text \<open>\<^verbatim>\<open>int64_t\<close> arithmetic, here on the 64-bit words.\<close>

definition baseGasRequired :: "bool \<Rightarrow> bytes \<Rightarrow> EVMSchedule \<Rightarrow> u64" where
  "baseGasRequired contractCreation data es =
     foldl (\<lambda>g i. g + (if i \<noteq> 0 then ucast (txDataNonZeroGas es) else ucast (txDataZeroGas es)))
       (if contractCreation then ucast (txCreateGas es) else ucast (txGas es)) data"

section \<open>The round trip\<close>

definition tx_v :: "Transaction \<Rightarrow> SignatureStruct \<Rightarrow> int" where
  "tx_v t sg = (if hasZeroSignature t then t_chainId t else int (unat (sig_v sg)) + (t_chainId t * 2 + 35))"

definition txItems :: "Transaction \<Rightarrow> SignatureStruct \<Rightarrow> item list" where
  "txItems t sg =
     [Data (toCompactBigEndian (unat (t_nonce t)) 0), Data (toCompactBigEndian (unat (t_gasPrice t)) 0),
      Data (toCompactBigEndian (unat (t_gas t)) 0),
      Data (if t_type t = MessageCall then toBigEndian 20 (unat (t_receiveAddress t)) else []),
      Data (toCompactBigEndian (unat (t_value t)) 0), Data (t_data t),
      Data (toCompactBigEndian (unat (word_of_int (tx_v t sg) :: u32)) 0),
      Data (toCompactBigEndian (unat (sig_r sg)) 0), Data (toCompactBigEndian (unat (sig_s sg)) 0)]"

text \<open>
  A signed transaction as the code makes them: a creation has no receiver, and the signature is
  either the zero signature with the chain in \<^verbatim>\<open>v\<close>, or valid, for no chain (\<open>- 4\<close>) or a positive one
  whose \<^verbatim>\<open>v\<close> fits an \<^verbatim>\<open>int\<close>.
\<close>

definition tx_wf :: "Transaction \<Rightarrow> SignatureStruct \<Rightarrow> bool" where
  "tx_wf t sg \<longleftrightarrow> t_vrs t = Some sg \<and> length (t_data t) < 2 ^ 60 \<and>
     (t_type t = MessageCall \<or> t_type t = ContractCreation \<and> t_receiveAddress t = 0) \<and>
     (if isZeroSignature (sig_r sg) (sig_s sg)
      then sig_v sg = 0 \<and> 0 \<le> t_chainId t \<and> t_chainId t < 2 ^ 31
      else SignatureStruct_isValid sg \<and>
           (t_chainId t = - 4 \<or> 0 < t_chainId t \<and> 2 * t_chainId t + 36 < 2 ^ 31))"

lemma map_err_bind: "map_err h (sum_bind m f) = sum_bind (map_err h m) (\<lambda>x. map_err h (f x))"
  by (cases m) simp_all

lemma unat_word_bound: "LENGTH('a::len) \<le> 256 \<Longrightarrow> unat (w :: 'a word) < 256 ^ 32"
proof -
  assume "LENGTH('a) \<le> 256"
  then have "(2 :: nat) ^ LENGTH('a) \<le> 2 ^ 256"
    by (rule power_increasing) simp
  moreover have "unat w < 2 ^ LENGTH('a)"
    by (rule unsigned_less)
  ultimately have "unat w < 2 ^ 256"
    by (rule less_le_trans [rotated])
  then show ?thesis by simp
qed

lemma length_txItems:
  assumes "length (t_data t) < 2 ^ 60"
  shows "length (concat (map enc (txItems t sg))) < max_field" "list_all readable (txItems t sg)"
proof -
  have small: "length (enc (Data (toCompactBigEndian (unat (w :: 'a word)) 0))) \<le> 33"
    "length (toCompactBigEndian (unat w) 0) \<le> 32" if "LENGTH('a::len) \<le> 256" for w
    using length_compact_le [OF unat_word_bound [OF that, of w]] by (auto intro: length_enc_Data_small simp del: enc.simps)
  have addr: "length (enc (Data (if t_type t = MessageCall then toBigEndian 20 (unat (t_receiveAddress t)) else []))) \<le> 33"
    by (rule length_enc_Data_small) simp
  have data: "length (enc (Data (t_data t))) \<le> 9 + length (t_data t)"
    using assms bytesRequired_bounds [of "length (t_data t)"] by (auto simp: enc_data_def enc_length_def)
  show "length (concat (map enc (txItems t sg))) < max_field"
    using small(1) [of "t_nonce t"] small(1) [of "t_gasPrice t"] small(1) [of "t_gas t"] small(1) [of "t_value t"]
      small(1) [of "word_of_int (tx_v t sg) :: u32"] small(1) [of "sig_r sg"] small(1) [of "sig_s sg"] addr data assms
    by (simp add: txItems_def max_field_def del: enc.simps)
  show "list_all readable (txItems t sg)"
    using small(2) [of "t_nonce t"] small(2) [of "t_gasPrice t"] small(2) [of "t_gas t"] small(2) [of "t_value t"]
      small(2) [of "word_of_int (tx_v t sg) :: u32"] small(2) [of "sig_r sg"] small(2) [of "sig_s sg"] assms
    by (simp add: txItems_def max_field_def)
qed

lemma readable_txItems: "length (t_data t) < 2 ^ 60 \<Longrightarrow> readable (Lst (txItems t sg))"
  using length_txItems by simp

lemma rlp_tx_eq:
  assumes "t_vrs t = Some sg" "length (t_data t) < 2 ^ 60" "t_type t \<noteq> NullTransaction"
  shows "rlp_tx t True f = Inr (enc (Lst (txItems t sg)))"
proof -
  have int: "appendInt (unat w) st = appendItem (Data (toCompactBigEndian (unat w) 0)) st"
    if "LENGTH('a) \<le> 256" for w :: "'a::len word" and st
    by (rule appendInt_item [OF unat_word_bound [OF that]])
  have dest: "(if t_type t = MessageCall then appendBytes (toBigEndian 20 (unat (t_receiveAddress t))) False s
      else appendBytes [] False s) =
      appendItem (Data (if t_type t = MessageCall then toBigEndian 20 (unat (t_receiveAddress t)) else [])) s" for s
    by simp
  have "rlp_tx t True f = map_err TxRLP (rlp (Lst (txItems t sg)))"
    using assms(1,3)
    by (simp add: rlp_tx_def streamRLP_def rlp_def map_err_bind int appendInt32_def dest txItems_def tx_v_def
        eval_nat_numeral del: toBigEndian.simps)
  then show ?thesis
    using rlp_enc [OF readable_fits [OF readable_txItems [OF assms(2)]]] by simp
qed

lemma isEmpty_enc_data: "isEmpty (enc_data [])" "length bs = 20 \<Longrightarrow> \<not> isEmpty (enc_data bs)"
  by (simp_all add: isEmpty_def isNull_def enc_data_def enc_length_def)

lemma toInt32_item:
  assumes "0 \<le> i" "i < 2 ^ 31"
  shows "toInt32 (enc (Data (toCompactBigEndian (unat (word_of_int i :: u32)) 0))) = Inr i"
proof -
  have "sint (word_of_int i :: u32) = i"
    using assms by (simp add: signed_of_int signed_take_bit_int_eq_self)
  then show ?thesis
    by (simp add: toInt32_def toInt_item del: enc.simps)
qed

lemma signature_of_eq:
  assumes "tx_wf t sg" "check \<noteq> CheckEverything"
  shows "signature_of (tx_v t sg) (sig_r sg) (sig_s sg) check = Inr (t_chainId t, sg)"
    "0 \<le> tx_v t sg" "tx_v t sg < 2 ^ 31"
proof -
  have z: "hasZeroSignature t \<longleftrightarrow> isZeroSignature (sig_r sg) (sig_s sg)"
    using assms by (simp add: tx_wf_def hasZeroSignature_def)
  have v: "sig_v sg = 0 \<or> sig_v sg = 1" if "\<not> isZeroSignature (sig_r sg) (sig_s sg)"
  proof -
    have "unat (sig_v sg) \<le> 1"
      using assms that by (auto simp: tx_wf_def SignatureStruct_isValid_def word_le_nat_alt)
    then have "unat (sig_v sg) = unat (0 :: byte) \<or> unat (sig_v sg) = unat (1 :: byte)"
      by auto
    then show ?thesis
      by (simp only: word_unat_eq_iff)
  qed
  have w: "word_of_int (int (unat (sig_v sg))) = sig_v sg"
    by simp
  show "0 \<le> tx_v t sg" "tx_v t sg < 2 ^ 31"
    using assms(1) z v by (auto simp: tx_wf_def tx_v_def)
  show "signature_of (tx_v t sg) (sig_r sg) (sig_s sg) check = Inr (t_chainId t, sg)"
  proof (cases "isZeroSignature (sig_r sg) (sig_s sg)")
    case True
    then show ?thesis
      using assms(1) z by (cases sg) (simp add: signature_of_def tx_v_def tx_wf_def)
  next
    case False
    then have chain: "(if tx_v t sg > 36 then Inr ((tx_v t sg - 35) div 2)
        else if tx_v t sg = 27 \<or> tx_v t sg = 28 then Inr (- 4) else Inl InvalidSignature) = Inr (t_chainId t)"
      using assms(1) z v [OF False] by (auto simp: tx_v_def tx_wf_def)
    have diff: "word_of_int (tx_v t sg - (t_chainId t * 2 + 35)) = sig_v sg"
      using z False by (simp add: tx_v_def)
    have valid: "SignatureStruct_isValid sg"
      using assms(1) False by (simp add: tx_wf_def)
    have eta: "\<lparr>sig_r = sig_r sg, sig_s = sig_s sg, sig_v = sig_v sg\<rparr> = sg"
      by simp
    show ?thesis
      unfolding signature_of_def Let_def chain
      by (simp only: False if_False sum_bind.simps diff eta valid simp_thms)
  qed
qed

lemma fromBigEndian_zeros: "fromBigEndian (replicate n 0) = (0 :: 'a::len word)"
  by (induction n) (simp_all add: fromBigEndian_def)

lemma TransactionBase_enc:
  assumes wf: "tx_wf t sg" and check: "check \<noteq> CheckEverything"
  shows "TransactionBase K recover check (enc (Lst (txItems t sg))) = Inr (t\<lparr>t_hashWith := 0, t_sender := 0\<rparr>)"
proof -
  let ?xs = "txItems t sg" and ?I = "\<lambda>i. toInt i Strict :: rlp_error + u256"
  have data: "length (t_data t) < 2 ^ 60"
    using wf by (simp add: tx_wf_def)
  have rd: "readable (Lst ?xs)"
    using data by (rule readable_txItems)
  have ch: "RLP (enc (Lst ?xs)) VeryStrict = Inr (enc (Lst ?xs))"
    by (rule RLP_chunk [OF chunk_enc [OF rd]])
  have loc: "list_of_chunks (map enc ?xs)"
    using rd by (rule list_of_chunks_enc)
  have lst: "isList (enc (Lst ?xs))" "items (enc (Lst ?xs)) = Inr 9"
    using isList_list_bytes [OF loc, of "[]"] items_list_bytes [OF loc, of "[]"]
    by (simp_all add: enc_Lst txItems_def del: enc.simps)
  let ?to = "if t_type t = MessageCall then toBigEndian 20 (unat (t_receiveAddress t)) else []"
  have len: "length ?xs = 9"
    by (simp add: txItems_def)
  have item: "?xs ! 0 = Data (toCompactBigEndian (unat (t_nonce t)) 0)"
    "?xs ! 1 = Data (toCompactBigEndian (unat (t_gasPrice t)) 0)" "?xs ! 2 = Data (toCompactBigEndian (unat (t_gas t)) 0)"
    "?xs ! 3 = Data ?to" "?xs ! 4 = Data (toCompactBigEndian (unat (t_value t)) 0)" "?xs ! 5 = Data (t_data t)"
    "?xs ! 6 = Data (toCompactBigEndian (unat (word_of_int (tx_v t sg) :: u32)) 0)"
    "?xs ! 7 = Data (toCompactBigEndian (unat (sig_r sg)) 0)" "?xs ! 8 = Data (toCompactBigEndian (unat (sig_s sg)) 0)"
    by (simp_all add: txItems_def)
  have field: "\<exists>r'. rlp_field i f r = Inr (v, r') \<and> over ?xs r'"
    if "over ?xs r" "i < 9" "f (enc (?xs ! i)) = Inr v" for r i f and v :: 'z
    using field_enc [of ?xs r i f v] that len by simp
  obtain r0 where r0: "rlp_field 0 ?I (rlp_obj_of (enc (Lst ?xs))) = Inr (t_nonce t, r0)" "over ?xs r0"
    using field [OF over_start [OF rd], of 0 ?I "t_nonce t"] by (auto simp: item toInt_item simp del: enc.simps)
  obtain r1 where r1: "rlp_field 1 ?I r0 = Inr (t_gasPrice t, r1)" "over ?xs r1"
    using field [OF r0(2), of 1 ?I "t_gasPrice t"] by (auto simp: item toInt_item simp del: enc.simps One_nat_def)
  obtain r2 where r2: "rlp_field 2 ?I r1 = Inr (t_gas t, r2)" "over ?xs r2"
    using field [OF r1(2), of 2 ?I "t_gas t"] by (auto simp: item toInt_item simp del: enc.simps)
  have empty: "isEmpty (enc (Data ?to)) \<longleftrightarrow> t_type t \<noteq> MessageCall"
    by (simp add: isEmpty_enc_data)
  obtain r3 where r3: "rlp_field 3 (\<lambda>i. Inr (isEmpty i)) r2 = Inr (t_type t \<noteq> MessageCall, r3)" "over ?xs r3"
    using field [OF r2(2), of 3 "\<lambda>i. Inr (isEmpty i)" "t_type t \<noteq> MessageCall"] by (auto simp: item empty simp del: enc.simps)
  let ?bs = "if t_type t = MessageCall then toBigEndian 20 (unat (t_receiveAddress t)) else replicate 20 0"
  have dest: "(if isEmpty (enc (Data ?to)) then Inr (replicate 20 0) else toHash 20 (enc (Data ?to)) VeryStrict) = Inr ?bs"
    unfolding empty by (simp add: toHash_item max_field_def del: enc.simps)
  have dest': "(\<lambda>i. if isEmpty i then Inr (replicate 20 0) else toHash 20 i VeryStrict) (enc (?xs ! 3)) = Inr ?bs"
    using dest by (simp only: item(4))
  obtain r4 where r4: "rlp_field 3 (\<lambda>i. if isEmpty i then Inr (replicate 20 0) else toHash 20 i VeryStrict) r3 = Inr (?bs, r4)"
    "over ?xs r4"
    using field [OF r3(2), of 3 "\<lambda>i. if isEmpty i then Inr (replicate 20 0) else toHash 20 i VeryStrict" ?bs, OF _ dest']
    by auto
  obtain r5 where r5: "rlp_field 4 ?I r4 = Inr (t_value t, r5)" "over ?xs r5"
    using field [OF r4(2), of 4 ?I "t_value t"] by (auto simp: item toInt_item simp del: enc.simps)
  have d: "isData (enc (Data (t_data t)))" "toBytes (enc (Data (t_data t))) LaissezFaire = Inr (t_data t)"
    using data isData_enc_data [of "t_data t"] payload_enc_data [of "t_data t"]
      toBytes_strict [OF RLP_chunk [OF chunk_enc [of "Data (t_data t)"]]]
    by (simp_all add: max_field_def)
  obtain r6 where r6: "rlp_field 5 (\<lambda>i. Inr (isData i)) r5 = Inr (True, r6)" "over ?xs r6"
    using field [OF r5(2), of 5 "\<lambda>i. Inr (isData i)" True] d by (auto simp: item simp del: enc.simps)
  obtain r7 where r7: "rlp_field 5 (\<lambda>i. toBytes i LaissezFaire) r6 = Inr (t_data t, r7)" "over ?xs r7"
    using field [OF r6(2), of 5 "\<lambda>i. toBytes i LaissezFaire" "t_data t"] d by (auto simp: item simp del: enc.simps)
  note s = signature_of_eq [OF wf check]
  obtain r8 where r8: "rlp_field 6 toInt32 r7 = Inr (tx_v t sg, r8)" "over ?xs r8"
    using field [OF r7(2), of 6 toInt32 "tx_v t sg"] toInt32_item [OF s(2,3)] by (auto simp: item simp del: enc.simps)
  obtain r9 where r9: "rlp_field 7 ?I r8 = Inr (sig_r sg, r9)" "over ?xs r9"
    using field [OF r8(2), of 7 ?I "sig_r sg"] by (auto simp: item toInt_item simp del: enc.simps)
  obtain ra where ra: "rlp_field 8 ?I r9 = Inr (sig_s sg, ra)"
    using field [OF r9(2), of 8 ?I "sig_s sg"] by (auto simp: item toInt_item simp del: enc.simps)
  have dst: "fromBigEndian ?bs = t_receiveAddress t"
  proof (cases "t_type t = MessageCall")
    case True
    then show ?thesis by (simp add: fromBigEndian_toBigEndian_word)
  next
    case False
    then have "t_receiveAddress t = 0"
      using wf by (simp add: tx_wf_def)
    then show ?thesis using False by (simp add: fromBigEndian_zeros)
  qed
  have t: "\<lparr>t_type = (if t_type t \<noteq> MessageCall then ContractCreation else MessageCall), t_nonce = t_nonce t,
      t_value = t_value t, t_receiveAddress = t_receiveAddress t, t_gasPrice = t_gasPrice t, t_gas = t_gas t,
      t_data = t_data t, t_vrs = Some sg, t_chainId = t_chainId t, t_hashWith = 0, t_sender = 0\<rparr> =
      t\<lparr>t_hashWith := 0, t_sender := 0\<rparr>"
    using wf by (cases t) (auto simp: tx_wf_def)
  show ?thesis
    unfolding TransactionBase_def ch
    using check
    by (simp add: lst r0 r1 r2 r3 r4 r5 r6 r7 r8 r9 ra s(1) dst Let_def t
        del: sum_bind_eq_Inr enc.simps One_nat_def)
qed

text \<open>
  C27. A signed transaction is read back from its RLP form exactly as it was written, for
  creations and calls, with the zero signature, with the signatures of old (\<^verbatim>\<open>v\<close> = 27, 28) and with
  those that carry the chain identifier of EIP-155; only the cached hash and sender are gone.
\<close>

theorem transaction_rlp_roundtrip:
  assumes "tx_wf t sg" and "check \<noteq> CheckEverything"
  shows "\<exists>bs. rlp_tx t True f = Inr bs \<and> TransactionBase K recover check bs = Inr (t\<lparr>t_hashWith := 0, t_sender := 0\<rparr>)"
proof -
  have "t_vrs t = Some sg" "length (t_data t) < 2 ^ 60" "t_type t \<noteq> NullTransaction"
    using assms(1) by (auto simp: tx_wf_def)
  from rlp_tx_eq [OF this] TransactionBase_enc [OF assms] show ?thesis
    by blast
qed

definition demo_tx :: Transaction where
  "demo_tx = \<lparr>t_type = MessageCall, t_nonce = 3, t_value = 10, t_receiveAddress = 0xabc, t_gasPrice = 1,
     t_gas = 21000, t_data = [1, 2], t_vrs = Some \<lparr>sig_r = 5, sig_s = 6, sig_v = 1\<rparr>, t_chainId = 1, t_hashWith = 8, t_sender = 9\<rparr>"

theorem transaction_rlp_roundtrip_witness:
  "\<exists>bs. rlp_tx demo_tx True False = Inr bs \<and>
     TransactionBase (\<lambda>_. 0) (\<lambda>_ _. None) CheckCheap bs = Inr (demo_tx\<lparr>t_hashWith := 0, t_sender := 0\<rparr>)"
  by (rule transaction_rlp_roundtrip [where sg = "\<lparr>sig_r = 5, sig_s = 6, sig_v = 1\<rparr>"])
    (simp_all add: tx_wf_def demo_tx_def isZeroSignature_def SignatureStruct_isValid_def word_less_nat_alt)

text \<open>
  C28. The gas a transaction pays before it runs is the base price plus the price of each byte of
  data, and for data below $2^{30}$ bytes and any schedule the sum stays positive as a signed
  64-bit number: there is no wrap-around.
\<close>

theorem intrinsic_gas_exact:
  assumes "length data < 2 ^ 30"
  shows "unat (baseGasRequired c data es) =
    unat (if c then txCreateGas es else txGas es) +
    length (filter (\<lambda>b. b \<noteq> 0) data) * unat (txDataNonZeroGas es) +
    length (filter (\<lambda>b. b = 0) data) * unat (txDataZeroGas es) \<and>
    unat (baseGasRequired c data es) < 2 ^ 63"
proof -
  have u: "unat (ucast (w :: u32) :: u64) = unat w" "unat w < 2 ^ 32" for w
    using unsigned_less [of w, where 'a = nat] by (simp_all add: unsigned_ucast_eq take_bit_nat_eq_self_iff)
  have "unat (foldl (\<lambda>g i. g + (if i \<noteq> 0 then ucast (txDataNonZeroGas es) else ucast (txDataZeroGas es))) (g :: u64) xs) =
      unat g + length (filter (\<lambda>b. b \<noteq> 0) xs) * unat (txDataNonZeroGas es) + length (filter (\<lambda>b. b = 0) xs) * unat (txDataZeroGas es)
    \<and> unat (foldl (\<lambda>g i. g + (if i \<noteq> 0 then ucast (txDataNonZeroGas es) else ucast (txDataZeroGas es))) (g :: u64) xs)
      \<le> unat g + length xs * 2 ^ 32" if "unat g + length xs * 2 ^ 32 < 2 ^ 63" for g and xs :: bytes
    using that
  proof (induction xs arbitrary: g)
    case (Cons b xs)
    let ?p = "if b \<noteq> 0 then ucast (txDataNonZeroGas es) else ucast (txDataZeroGas es) :: u64"
    have p: "unat ?p < 2 ^ 32"
      using u by simp
    then have "unat (g + ?p) = unat g + unat ?p"
      using Cons.prems by (subst unat_add_lem [THEN iffD1]) auto
    with Cons.IH [of "g + ?p"] Cons.prems p show ?case
      by (auto simp: u(1) split: if_splits)
  qed simp
  from this [of "if c then ucast (txCreateGas es) else ucast (txGas es)" data] show ?thesis
    using assms u(2) [of "txCreateGas es"] u(2) [of "txGas es"] by (auto simp: baseGasRequired_def u(1))
qed

theorem intrinsic_gas_exact_witness:
  "unat (baseGasRequired False [1, 0, 2] FrontierSchedule) = 21140"
  using intrinsic_gas_exact [of "[1, 0, 2]" False FrontierSchedule]
  by (simp add: FrontierSchedule_def EVMSchedule_of_def DefaultSchedule_def)

end
