(* ===== verification/ChainParams.thy ===== *)
theory ChainParams
  imports Transaction State LegacyVM_State
begin

text \<open>
  The parameters of a chain (\<^verbatim>\<open>libaeccore/ChainOperationParams.h\<close>, \<^verbatim>\<open>ChainOperationParams.cpp\<close>), the
  part of the seal engine that executing a transaction asks (\<^verbatim>\<open>libaeccore/SealEngine.h\<close>,
  \<^verbatim>\<open>SealEngine.cpp\<close>, \<^verbatim>\<open>libaecashseal/Ethash.cpp\<close>) and the exceptions of an execution
  (\<^verbatim>\<open>libaecereum/Transaction.h\<close>, \<^verbatim>\<open>Transaction.cpp\<close>).

  Block numbers are \<^verbatim>\<open>int64_t\<close> in a header and \<^verbatim>\<open>u256\<close> in the parameters; comparing the two compares
  the numbers they stand for.
\<close>

unbundle bit_operations_syntax

section \<open>Parameters\<close>

record PrecompiledContract =
  pc_cost :: "bytes \<Rightarrow> int"
  pc_execute :: "bytes \<Rightarrow> bool \<times> bytes"
  pc_startingBlock :: u256

definition PrecompiledContract_linear :: "u32 \<Rightarrow> u32 \<Rightarrow> (bytes \<Rightarrow> bool \<times> bytes) \<Rightarrow> u256 \<Rightarrow> PrecompiledContract" where
  "PrecompiledContract_linear base word exec startingBlock =
     \<lparr>pc_cost = (\<lambda>inp. uint base + (int (length inp) + 31) div 32 * uint word), pc_execute = exec,
      pc_startingBlock = startingBlock\<rparr>"

definition c_infiniteBlockNumer :: u256 where
  "c_infiniteBlockNumer = 0x7fffffffffffffff"

record ChainOperationParams =
  p_blockReward :: u256
  p_maximumExtraDataSize :: u256
  p_accountStartNonce :: u256
  p_tieBreakingGas :: bool
  p_minGasLimit :: u256
  p_maxGasLimit :: u256
  p_gasLimitBoundDivisor :: u256
  p_homesteadForkBlock :: u256
  p_EIP150ForkBlock :: u256
  p_EIP158ForkBlock :: u256
  p_byzantiumForkBlock :: u256
  p_eWASMForkBlock :: u256
  p_constantinopleForkBlock :: u256
  p_daoHardforkBlock :: u256
  p_chainID :: int
  p_networkID :: int
  p_minimumDifficulty :: u256
  p_difficultyBoundDivisor :: u256
  p_durationLimit :: u256
  p_allowFutureBlocks :: bool
  p_precompiled :: "address \<rightharpoonup> PrecompiledContract"

definition ChainOperationParams_default :: ChainOperationParams where
  "ChainOperationParams_default = \<lparr>p_blockReward = 0x4563918244F40000, p_maximumExtraDataSize = 1024,
     p_accountStartNonce = 0, p_tieBreakingGas = True, p_minGasLimit = 0x1388,
     p_maxGasLimit = 0x7fffffffffffffff, p_gasLimitBoundDivisor = 0x0400,
     p_homesteadForkBlock = c_infiniteBlockNumer, p_EIP150ForkBlock = c_infiniteBlockNumer,
     p_EIP158ForkBlock = c_infiniteBlockNumer, p_byzantiumForkBlock = c_infiniteBlockNumer,
     p_eWASMForkBlock = c_infiniteBlockNumer, p_constantinopleForkBlock = c_infiniteBlockNumer,
     p_daoHardforkBlock = c_infiniteBlockNumer, p_chainID = 0, p_networkID = 0,
     p_minimumDifficulty = 0x020000, p_difficultyBoundDivisor = 0x0800, p_durationLimit = 0x0d,
     p_allowFutureBlocks = False, p_precompiled = Map.empty\<rparr>"

definition ChainOperationParams_valid :: "ChainOperationParams \<Rightarrow> bool" where
  "ChainOperationParams_valid p \<longleftrightarrow> p_accountStartNonce p \<noteq> Invalid256"

definition scheduleForBlockNumber :: "ChainOperationParams \<Rightarrow> u256 \<Rightarrow> EVMSchedule" where
  "scheduleForBlockNumber p n =
     (if n \<ge> p_constantinopleForkBlock p then ConstantinopleSchedule
      else if n \<ge> p_eWASMForkBlock p then EWASMSchedule
      else if n \<ge> p_byzantiumForkBlock p then ByzantiumSchedule
      else if n \<ge> p_EIP158ForkBlock p then EIP158Schedule
      else if n \<ge> p_EIP150ForkBlock p then EIP150Schedule
      else if n \<ge> p_homesteadForkBlock p then HomesteadSchedule
      else FrontierSchedule)"

definition blockReward_params :: "ChainOperationParams \<Rightarrow> EVMSchedule \<Rightarrow> u256" where
  "blockReward_params p es = (case blockRewardOverwrite es of Some r \<Rightarrow> r | None \<Rightarrow> p_blockReward p)"

definition setBlockReward :: "u256 \<Rightarrow> ChainOperationParams \<Rightarrow> ChainOperationParams" where
  "setBlockReward r p = p\<lparr>p_blockReward := r\<rparr>"

section \<open>Seal engines\<close>

text \<open>The engines that override functions an execution calls: proof of work does, the others do not.\<close>

datatype engineKind = NoProof | Ethash

record SealEngine =
  se_kind :: engineKind
  se_params :: ChainOperationParams

definition isPrecompiled :: "SealEngine \<Rightarrow> address \<Rightarrow> u256 \<Rightarrow> bool" where
  "isPrecompiled E a n = (case p_precompiled (se_params E) a of
       Some c \<Rightarrow> n \<ge> pc_startingBlock c | None \<Rightarrow> False)"

text \<open>\<^verbatim>\<open>at\<close> on the map throws where the address has no contract: the result \<open>None\<close>.\<close>

definition costOfPrecompiled :: "SealEngine \<Rightarrow> address \<Rightarrow> bytes \<Rightarrow> int option" where
  "costOfPrecompiled E a inp = map_option (\<lambda>c. pc_cost c inp) (p_precompiled (se_params E) a)"

definition executePrecompiled :: "SealEngine \<Rightarrow> address \<Rightarrow> bytes \<Rightarrow> (bool \<times> bytes) option" where
  "executePrecompiled E a inp = map_option (\<lambda>c. pc_execute c inp) (p_precompiled (se_params E) a)"

definition evmSchedule_se :: "SealEngine \<Rightarrow> u256 \<Rightarrow> EVMSchedule" where
  "evmSchedule_se E n = scheduleForBlockNumber (se_params E) n"

definition blockReward_se :: "SealEngine \<Rightarrow> u256 \<Rightarrow> u256" where
  "blockReward_se E n = blockReward_params (se_params E) (evmSchedule_se E n)"

section \<open>Exceptions of an execution\<close>

datatype TransactionException =
    TE_None | TE_Unknown | TE_BadRLP | TE_InvalidFormat | TE_OutOfGasIntrinsic | TE_InvalidSignature
  | TE_InvalidNonce | TE_NotEnoughCash | TE_OutOfGasBase | TE_BlockGasLimitReached | TE_BadInstruction
  | TE_BadJumpDestination | TE_OutOfGas | TE_OutOfStack | TE_StackUnderflow | TE_RevertInstruction
  | TE_InvalidZeroSignatureFormat | TE_AddressAlreadyUsed

text \<open>
  The exceptions that leave an operation of the executive. \<open>ExitProcess\<close> is the call of \<^verbatim>\<open>exit(1)\<close>
  after an unexpected exception; \<open>OutOfRange\<close> is the one of \<^verbatim>\<open>at\<close> and of an index past the end.
\<close>

datatype exec_error =
    ExVM vm_exception | ExState state_error | ExTx tx_error | InvalidZeroSignatureTransaction
  | OutOfGasIntrinsic | OutOfGasBase | BlockGasLimitReached | InvalidNonce | AddressAlreadyUsed
  | OutOfRange | ExitProcess

fun toTransactionException :: "exec_error \<Rightarrow> TransactionException" where
  "toTransactionException (ExTx (TxRLP _)) = TE_BadRLP"
| "toTransactionException (ExState (BadLeaf _)) = TE_BadRLP"
| "toTransactionException OutOfGasIntrinsic = TE_OutOfGasIntrinsic"
| "toTransactionException (ExTx InvalidSignature) = TE_InvalidSignature"
| "toTransactionException OutOfGasBase = TE_OutOfGasBase"
| "toTransactionException InvalidNonce = TE_InvalidNonce"
| "toTransactionException (ExState NotEnoughCash) = TE_NotEnoughCash"
| "toTransactionException BlockGasLimitReached = TE_BlockGasLimitReached"
| "toTransactionException AddressAlreadyUsed = TE_AddressAlreadyUsed"
| "toTransactionException (ExVM BadInstruction) = TE_BadInstruction"
| "toTransactionException (ExVM BadJumpDestination) = TE_BadJumpDestination"
| "toTransactionException (ExVM OutOfGas) = TE_OutOfGas"
| "toTransactionException (ExVM OutOfStack) = TE_OutOfStack"
| "toTransactionException (ExVM StackUnderflow) = TE_StackUnderflow"
| "toTransactionException _ = TE_Unknown"

section \<open>Checking a transaction\<close>

definition ValidSeal :: u32 where "ValidSeal = 1"
definition UncleBasic :: u32 where "UncleBasic = 4"
definition TransactionBasic :: u32 where "TransactionBasic = 8"
definition UncleSeals :: u32 where "UncleSeals = 16"
definition TransactionSignatures :: u32 where "TransactionSignatures = 32"
definition Parent_req :: u32 where "Parent_req = 64"
definition UncleParent :: u32 where "UncleParent = 128"
definition PostGenesis :: u32 where "PostGenesis = 256"
definition CheckUncles :: u32 where "CheckUncles = UncleBasic OR UncleSeals"
definition CheckTransactions :: u32 where "CheckTransactions = TransactionBasic OR TransactionSignatures"
definition OutOfOrderChecks :: u32 where "OutOfOrderChecks = ValidSeal OR CheckUncles OR CheckTransactions"
definition InOrderChecks :: u32 where "InOrderChecks = Parent_req OR UncleParent"
definition Everything :: u32 where
  "Everything = ValidSeal OR CheckUncles OR CheckTransactions OR Parent_req OR UncleParent"

definition requires :: "u32 \<Rightarrow> u32 \<Rightarrow> bool" where
  "requires ir flag \<longleftrightarrow> ir AND flag \<noteq> 0"

definition when_err :: "bool \<Rightarrow> 'e \<Rightarrow> 'e + unit" where
  "when_err c e = (if c then Inl e else Inr ())"

definition verifyTransaction_base :: "SealEngine \<Rightarrow> u32 \<Rightarrow> Transaction \<Rightarrow> EnvInfo \<Rightarrow> u256 \<Rightarrow> exec_error + unit" where
  "verifyTransaction_base E ir t header used =
     (let p = se_params E; n = sint (env_number header) in
      sum_bind (when_err (requires ir TransactionSignatures \<and> n < uint (p_EIP158ForkBlock p) \<and> isReplayProtected t)
        (ExTx InvalidSignature)) (\<lambda>_.
      sum_bind (when_err (requires ir TransactionSignatures \<and> n < uint (p_constantinopleForkBlock p) \<and>
        hasZeroSignature t) (ExTx InvalidSignature)) (\<lambda>_.
      sum_bind (when_err (requires ir TransactionBasic \<and> n \<ge> uint (p_constantinopleForkBlock p) \<and>
        hasZeroSignature t \<and> (t_value t \<noteq> 0 \<or> t_gasPrice t \<noteq> 0 \<or> t_nonce t \<noteq> 0))
        InvalidZeroSignatureTransaction) (\<lambda>_.
      sum_bind (if n \<ge> uint (p_homesteadForkBlock p) \<and> requires ir TransactionSignatures \<and> hasSignature t
                then map_err ExTx (checkLowS t) else Inr ()) (\<lambda>_.
      sum_bind (when_err (requires ir TransactionBasic \<and>
        sint (baseGasRequired (isCreation_tx t) (t_data t) (evmSchedule_se E (scast (env_number header)))) > uint (t_gas t))
        OutOfGasIntrinsic) (\<lambda>_.
      when_err (uint used + uint (t_gas t) > uint (env_gasLimit header)) BlockGasLimitReached))))))"

text \<open>\<^verbatim>\<open>aecash::verifyTransaction\<close> checks the chain identifier as well.\<close>

definition verifyTransaction :: "SealEngine \<Rightarrow> u32 \<Rightarrow> Transaction \<Rightarrow> EnvInfo \<Rightarrow> u256 \<Rightarrow> exec_error + unit" where
  "verifyTransaction E ir t header used =
     sum_bind (verifyTransaction_base E ir t header used) (\<lambda>_.
       if se_kind E = Ethash \<and> requires ir TransactionSignatures
       then map_err ExTx (checkChainId t
              (if sint (env_number header) \<ge> uint (p_EIP158ForkBlock (se_params E)) then p_chainID (se_params E) else - 4))
       else Inr ())"

section \<open>Facts\<close>

text \<open>Every schedule a chain can choose is one the interpreter's guarantees hold for.\<close>

lemma sane_scheduleForBlockNumber: "sane_schedule (scheduleForBlockNumber p n)"
  by (simp add: scheduleForBlockNumber_def sane_schedules)

lemma map_err_Inr [simp]: "map_err h r = Inr v \<longleftrightarrow> r = Inr v"
  by (cases r) simp_all

lemma when_err_Inr [simp]: "when_err c e = Inr u \<longleftrightarrow> \<not> c"
  by (simp add: when_err_def)

lemma requires_Everything [simp]: "requires Everything TransactionSignatures" "requires Everything TransactionBasic"
  by (simp_all add: requires_def Everything_def CheckUncles_def CheckTransactions_def ValidSeal_def UncleBasic_def
      TransactionBasic_def UncleSeals_def TransactionSignatures_def Parent_req_def UncleParent_def)

end
