(* ===== verification/State_Commit.thy ===== *)
theory State_Commit
  imports State
begin

text \<open>
  Writing the changed accounts to the tries: \<^verbatim>\<open>dev::aec::commit\<close> and \<^verbatim>\<open>State::commit\<close> of
  \<^verbatim>\<open>libaecereum/State.cpp\<close>.

  The tries are the maps they store, so the root hash of a trie is a function of its contents, the
  first field of \<open>committer\<close>; the other two are the orders in which the hash maps \<^verbatim>\<open>m_cache\<close> and
  \<^verbatim>\<open>m_storageOverlay\<close> are iterated, which the standard leaves open.
\<close>

record committer =
  rootOf :: "trie \<Rightarrow> h256"
  accountOrder :: "(address \<rightharpoonup> Account) \<Rightarrow> address list"
  slotOrder :: "(u256 \<rightharpoonup> u256) \<Rightarrow> u256 list"

section \<open>The storage of an account\<close>

definition rlp_word :: "u256 \<Rightarrow> rlp_error + bytes" where
  "rlp_word v = sum_bind (appendInt (unat v) RLPStream) out_stream"

text \<open>Removing a key and storing the empty payload are the same for a map.\<close>

definition writeSlot :: "keccak \<Rightarrow> u256 \<Rightarrow> u256 \<Rightarrow> trie \<Rightarrow> rlp_error + trie" where
  "writeSlot K k v t =
     (if v \<noteq> 0 then sum_bind (rlp_word v) (\<lambda>bs. Inr (t(storageKey K k := bs))) else Inr (t(storageKey K k := [])))"

fun writeSlots :: "keccak \<Rightarrow> (u256 \<rightharpoonup> u256) \<Rightarrow> u256 list \<Rightarrow> trie \<Rightarrow> rlp_error + trie" where
  "writeSlots K ov [] t = Inr t"
| "writeSlots K ov (k # ks) t = (case ov k of
     Some v \<Rightarrow> sum_bind (writeSlot K k v t) (writeSlots K ov ks)
   | None \<Rightarrow> writeSlots K ov ks t)"

definition addTrie :: "committer \<Rightarrow> trie \<Rightarrow> State \<Rightarrow> State" where
  "addTrie C t s = s\<lparr>m_tries := (m_tries s)(rootOf C t \<mapsto> t)\<rparr>"

definition commitStorage :: "keccak \<Rightarrow> committer \<Rightarrow> Account \<Rightarrow> State \<Rightarrow> state_error + h256 \<times> State" where
  "commitStorage K C acc s =
     (if m_storageOverlay acc = Map.empty then Inr (m_storageRoot acc, s)
      else sum_bind (openTrie K s (m_storageRoot acc)) (\<lambda>t.
        case writeSlots K (m_storageOverlay acc) (slotOrder C (m_storageOverlay acc)) t of
          Inl e \<Rightarrow> Inl (BadLeaf e)
        | Inr t' \<Rightarrow> Inr (rootOf C t', addTrie C t' s)))"

section \<open>The accounts\<close>

definition commitCode :: "Account \<Rightarrow> State \<Rightarrow> State" where
  "commitCode acc s =
     (if m_hasNewCode acc
      then (csc_store (m_codeHash acc) (length (m_codeCache acc)) s)
             \<lparr>m_codes := (m_codes s)(m_codeHash acc := m_codeCache acc)\<rparr>
      else s)"

text \<open>One account: the trie \<open>t\<close> of the accounts is the one under construction.\<close>

definition commitAccount :: "keccak \<Rightarrow> committer \<Rightarrow> address \<Rightarrow> trie \<times> State \<Rightarrow> state_error + trie \<times> State" where
  "commitAccount K C a ts = (case ts of (t, s) \<Rightarrow>
     (case m_cache s a of
        None \<Rightarrow> Inr (t, s)
      | Some acc \<Rightarrow>
          if \<not> Account_isDirty acc then Inr (t, s)
          else if \<not> m_isAlive acc
          then Inr (t(addressKey K a := []), s\<lparr>m_touched := insert a (m_touched s)\<rparr>)
          else sum_bind (commitStorage K C acc s) (\<lambda>(root, s).
            (let s = commitCode acc s in
             case encodeLeaf (m_nonce acc) (m_balance acc) root (m_codeHash acc) of
               Inl e \<Rightarrow> Inl (BadLeaf e)
             | Inr leaf \<Rightarrow> Inr (t(addressKey K a := leaf), s\<lparr>m_touched := insert a (m_touched s)\<rparr>)))))"

fun commitAccounts :: "keccak \<Rightarrow> committer \<Rightarrow> address list \<Rightarrow> trie \<times> State \<Rightarrow> state_error + trie \<times> State" where
  "commitAccounts K C [] ts = Inr ts"
| "commitAccounts K C (a # as) ts = sum_bind (commitAccount K C a ts) (commitAccounts K C as)"

datatype CommitBehaviour = KeepEmptyAccounts | RemoveEmptyAccounts

definition dirtyAt :: "State \<Rightarrow> address \<Rightarrow> bool" where
  "dirtyAt s a = (case m_cache s a of Some acc \<Rightarrow> Account_isDirty acc | None \<Rightarrow> False)"

text \<open>The root moves only if an account is written or removed.\<close>

definition State_commit :: "keccak \<Rightarrow> committer \<Rightarrow> CommitBehaviour \<Rightarrow> State \<Rightarrow> state_error + State" where
  "State_commit K C behaviour s0 =
     (let s = (if behaviour = RemoveEmptyAccounts then State_removeEmptyAccounts K s0 else s0);
          as = accountOrder C (m_cache s) in
      sum_bind (openTrie K s (m_root s)) (\<lambda>t.
      sum_bind (commitAccounts K C as (t, s)) (\<lambda>(t, s1).
        Inr ((if list_ex (dirtyAt s) as then (addTrie C t s1)\<lparr>m_root := rootOf C t\<rparr> else s1)
               \<lparr>m_changeLog := [], m_cache := Map.empty, m_unchangedCacheEntries := []\<rparr>))))"

end
