(* ===== verification/Executive.thy ===== *)
theory Executive
  imports ChainParams State_Commit LegacyVM
begin

text \<open>
  Executing messages and transactions (\<^verbatim>\<open>libaecereum/Executive.h\<close>, \<^verbatim>\<open>Executive.cpp\<close>), the functions
  behind the interpreter's face (\<^verbatim>\<open>libaecereum/ExtVM.h\<close>, \<^verbatim>\<open>ExtVM.cpp\<close>) and \<^verbatim>\<open>State::execute\<close>.

  \<^verbatim>\<open>Executive\<close> and \<^verbatim>\<open>ExtVM\<close> call each other through the interpreter: \<^verbatim>\<open>go\<close> runs the interpreter on an
  \<^verbatim>\<open>ExtVM\<close>, whose \<^verbatim>\<open>call\<close> and \<^verbatim>\<open>create\<close> make an \<^verbatim>\<open>Executive\<close> one level deeper. The interpreter is a
  parameter \<open>vm\<close> of the operations here, and the knot is tied at the end by \<open>runVM\<close>, which takes the
  number of levels it may go down as its fuel.

  Executive and face refer to one state object: the state is in \<open>e_s\<close> while the executive works, and
  is handed to the face (its field \<open>world\<close>) for the time the interpreter runs. Loggers, the trace
  callback, and the second thread that provides a larger stack at some depth are left out.
\<close>

section \<open>The environment\<close>

text \<open>
  What the functions use of the world outside: the hash, the recovery of a public key, the seal
  engine and what committing needs.
\<close>

record ctx =
  x_keccak :: keccak
  x_recover :: "SignatureStruct \<Rightarrow> h256 \<Rightarrow> bytes option"
  x_engine :: SealEngine
  x_committer :: committer

abbreviation x_params :: "ctx \<Rightarrow> ChainOperationParams" where
  "x_params X \<equiv> se_params (x_engine X)"

type_synonym vm_fun = "u256 \<Rightarrow> State ExtVMFace \<Rightarrow> ((vm_exception + bytes) \<times> u256 \<times> State ExtVMFace) option"

definition env_number256 :: "EnvInfo \<Rightarrow> u256" where
  "env_number256 env = scast (env_number env)"

text \<open>\<^verbatim>\<open>m_envInfo.number() >= block\<close>.\<close>

definition reached :: "EnvInfo \<Rightarrow> u256 \<Rightarrow> bool" where
  "reached env block \<longleftrightarrow> sint (env_number env) \<ge> uint block"

section \<open>State\<close>

datatype CodeDeposit = CD_None | CD_Failed | CD_Success

record ExecutionResult =
  r_gasUsed :: u256
  r_excepted :: TransactionException
  r_newAddress :: address
  r_output :: bytes
  r_codeDeposit :: CodeDeposit
  r_gasRefunded :: u256
  r_depositSize :: u32
  r_gasForDeposit :: u256

definition ExecutionResult_new :: ExecutionResult where
  "ExecutionResult_new = \<lparr>r_gasUsed = 0, r_excepted = TE_Unknown, r_newAddress = 0, r_output = [],
     r_codeDeposit = CD_None, r_gasRefunded = 0, r_depositSize = 0, r_gasForDeposit = 0\<rparr>"

record Executive =
  e_s :: State
  e_envInfo :: EnvInfo
  e_ext :: "State ExtVMFace option"
  e_output :: bytes
  e_res :: "ExecutionResult option"
  e_depth :: nat
  e_excepted :: TransactionException
  e_baseGasRequired :: u64
  e_gas :: u256
  e_refunded :: u256
  e_t :: Transaction
  e_logs :: "LogEntry list"
  e_gasCost :: u256
  e_isCreation :: bool
  e_newAddress :: address
  e_savepoint :: nat

definition newExecutive :: "State \<Rightarrow> EnvInfo \<Rightarrow> nat \<Rightarrow> Executive" where
  "newExecutive s env level = \<lparr>e_s = s, e_envInfo = env, e_ext = None, e_output = [], e_res = None,
     e_depth = level, e_excepted = TE_None, e_baseGasRequired = 0, e_gas = 0, e_refunded = 0,
     e_t = Transaction_null, e_logs = [], e_gasCost = 0, e_isCreation = False, e_newAddress = 0, e_savepoint = 0\<rparr>"

definition gasUsed_ex :: "Executive \<Rightarrow> u256" where
  "gasUsed_ex e = t_gas (e_t e) - e_gas e"

definition accrueSubState :: "Executive \<Rightarrow> SubState \<Rightarrow> SubState" where
  "accrueSubState e parent = (case e_ext e of Some x \<Rightarrow> SubState_add parent (sub x) | None \<Rightarrow> parent)"

text \<open>An operation of the state, on the state of the executive.\<close>

definition on_state :: "(State \<Rightarrow> state_error + State) \<Rightarrow> Executive \<Rightarrow> exec_error + Executive" where
  "on_state f e = sum_bind (map_err ExState (f (e_s e))) (\<lambda>s. Inr (e\<lparr>e_s := s\<rparr>))"

definition ask_state :: "(State \<Rightarrow> state_error + 'a \<times> State) \<Rightarrow> Executive \<Rightarrow> exec_error + 'a \<times> Executive" where
  "ask_state f e = sum_bind (map_err ExState (f (e_s e))) (\<lambda>(v, s). Inr (v, e\<lparr>e_s := s\<rparr>))"

definition revert_ex :: "ctx \<Rightarrow> Executive \<Rightarrow> exec_error + Executive" where
  "revert_ex X e =
     on_state (State_rollback (x_keccak X) (e_savepoint e))
       (e\<lparr>e_ext := map_option (\<lambda>x. x\<lparr>sub := SubState_clear\<rparr>) (e_ext e), e_newAddress := 0\<rparr>)"

section \<open>Message calls\<close>

definition newFace :: "ctx \<Rightarrow> Executive \<Rightarrow> address \<Rightarrow> address \<Rightarrow> address \<Rightarrow> u256 \<Rightarrow> u256 \<Rightarrow> bytes \<Rightarrow> bytes \<Rightarrow>
    bool \<Rightarrow> bool \<Rightarrow> State ExtVMFace" where
  "newFace X e me from orig val price data code create static =
     \<lparr>envInfo = e_envInfo e, evmSchedule = evmSchedule_se (x_engine X) (env_number256 (e_envInfo e)),
      myAddress = me, caller = from, origin = orig, ext_value = val, gasPrice = price, ext_data = data,
      ext_code = code, sub = SubState_clear, depth = e_depth e, isCreate = create, staticCall = static,
      world = e_s e\<rparr>"

text \<open>
  The branch for a precompiled contract. The first component of the result says that nothing is
  left to be done: with too little gas, or when the contract fails.
\<close>

definition callPrecompiled :: "ctx \<Rightarrow> CallParameters \<Rightarrow> Executive \<Rightarrow> exec_error + bool \<times> Executive" where
  "callPrecompiled X p e =
     (case (costOfPrecompiled (x_engine X) (codeAddress p) (call_data p),
            executePrecompiled (x_engine X) (codeAddress p) (call_data p)) of
        (Some g, Some (success, output)) \<Rightarrow>
          if uint (gas p) < g
          then (let e = e\<lparr>e_excepted := TE_OutOfGasBase\<rparr> in
                if reached (e_envInfo e) (p_EIP158ForkBlock (x_params X))
                then sum_bind (on_state (State_addBalance (x_keccak X) (codeAddress p) 0) e) (\<lambda>e. Inr (True, e))
                else Inr (True, e))
          else (let e = e\<lparr>e_gas := word_of_int (uint (gas p) - g), e_output := output\<rparr> in
                if \<not> success then Inr (True, e\<lparr>e_gas := 0, e_excepted := TE_OutOfGas\<rparr>) else Inr (False, e))
      | _ \<Rightarrow> Inl OutOfRange)"

definition callAccount :: "ctx \<Rightarrow> CallParameters \<Rightarrow> u256 \<Rightarrow> address \<Rightarrow> Executive \<Rightarrow> exec_error + bool \<times> Executive" where
  "callAccount X p price orig e =
     (let K = x_keccak X; e = e\<lparr>e_gas := gas p\<rparr> in
      sum_bind (ask_state (State_addressHasCode K (codeAddress p)) e) (\<lambda>(has, e).
        if has
        then sum_bind (ask_state (State_code K (codeAddress p)) e) (\<lambda>(c, e).
               sum_bind (ask_state (State_codeHash K (codeAddress p)) e) (\<lambda>(_, e).
                 Inr (False, e\<lparr>e_ext := Some (newFace X e (receiveAddress p) (senderAddress p) orig
                                (apparentValue p) price (call_data p) c False (call_static p))\<rparr>)))
        else Inr (False, e)))"

text \<open>\<^verbatim>\<open>call\<close>: the result is true if \<^verbatim>\<open>go\<close> need not be called.\<close>

definition call_ex :: "ctx \<Rightarrow> CallParameters \<Rightarrow> u256 \<Rightarrow> address \<Rightarrow> Executive \<Rightarrow> exec_error + bool \<times> Executive" where
  "call_ex X p price orig e =
     (let K = x_keccak X in
      sum_bind
        (if isNonNull (e_t e) \<and>
            (senderAddress p \<noteq> MaxAddress \<or> \<not> reached (e_envInfo e) (p_constantinopleForkBlock (x_params X)))
         then on_state (State_incNonce K (senderAddress p)) e else Inr e) (\<lambda>e.
      (let e = e\<lparr>e_savepoint := State_savepoint (e_s e)\<rparr> in
       sum_bind
         (if isPrecompiled (x_engine X) (codeAddress p) (env_number256 (e_envInfo e))
          then callPrecompiled X p e else callAccount X p price orig e) (\<lambda>(finished, e).
       if finished then Inr (True, e)
       else sum_bind (on_state (State_transferBalance K (senderAddress p) (receiveAddress p) (valueTransfer p)) e)
              (\<lambda>e. Inr (e_ext e = None, e))))))"

definition call_tx :: "ctx \<Rightarrow> address \<Rightarrow> address \<Rightarrow> u256 \<Rightarrow> u256 \<Rightarrow> bytes \<Rightarrow> u256 \<Rightarrow> Executive \<Rightarrow> exec_error + bool \<times> Executive" where
  "call_tx X to from val price data g e =
     call_ex X \<lparr>senderAddress = from, codeAddress = to, receiveAddress = to, valueTransfer = val,
       apparentValue = val, gas = g, call_data = data, call_static = False\<rparr> price from e"

section \<open>Creations\<close>

definition executeCreate :: "ctx \<Rightarrow> address \<Rightarrow> u256 \<Rightarrow> u256 \<Rightarrow> u256 \<Rightarrow> bytes \<Rightarrow> address \<Rightarrow> Executive \<Rightarrow>
    exec_error + bool \<times> Executive" where
  "executeCreate X sender endowment price g init orig e =
     (let K = x_keccak X in
      sum_bind
        (if sender \<noteq> MaxAddress \<or> \<not> reached (e_envInfo e) (p_constantinopleForkBlock (x_params X))
         then on_state (State_incNonce K sender) e else Inr e) (\<lambda>e.
      (let e = e\<lparr>e_savepoint := State_savepoint (e_s e), e_isCreation := True, e_gas := g\<rparr> in
       sum_bind (ask_state (State_addressHasCode K (e_newAddress e)) e) (\<lambda>(has, e).
       sum_bind (if has then Inr (True, e)
                 else sum_bind (ask_state (State_getNonce K (e_newAddress e)) e) (\<lambda>(n, e). Inr (n > 0, e)))
         (\<lambda>(exists, e).
       if exists
       then sum_bind (revert_ex X (e\<lparr>e_gas := 0, e_excepted := TE_AddressAlreadyUsed\<rparr>)) (\<lambda>e.
              Inr (True, e\<lparr>e_ext := None\<rparr>))
       else
         sum_bind (on_state (State_transferBalance K sender (e_newAddress e) endowment) e) (\<lambda>e.
         sum_bind (map_err ExState (State_requireAccountStartNonce (e_s e))) (\<lambda>start.
         sum_bind (on_state (State_setNonce K (e_newAddress e)
             (if reached (e_envInfo e) (p_EIP158ForkBlock (x_params X)) then start + 1 else start)) e) (\<lambda>e.
           (let e = (if init \<noteq> []
                     then e\<lparr>e_ext := Some (newFace X e (e_newAddress e) sender orig endowment price [] init True False)\<rparr>
                     else e)
            in Inr (e_ext e = None, e))))))))))"

text \<open>The address of a new contract: the hash of the list of creator and nonce.\<close>

definition createAddress :: "keccak \<Rightarrow> address \<Rightarrow> u256 \<Rightarrow> rlp_error + address" where
  "createAddress K sender nonce =
     sum_bind (appendList 2 RLPStream) (\<lambda>st.
     sum_bind (appendBytes (toBigEndian 20 (unat sender)) False st) (\<lambda>st.
     sum_bind (appendInt (unat nonce) st) (\<lambda>st.
     sum_bind (out_stream st) (\<lambda>bs. Inr (ucast (K bs))))))"

definition createOpcode :: "ctx \<Rightarrow> address \<Rightarrow> u256 \<Rightarrow> u256 \<Rightarrow> u256 \<Rightarrow> bytes \<Rightarrow> address \<Rightarrow> Executive \<Rightarrow>
    exec_error + bool \<times> Executive" where
  "createOpcode X sender endowment price g init orig e =
     sum_bind (ask_state (State_getNonce (x_keccak X) sender) e) (\<lambda>(nonce, e).
     sum_bind (map_err (\<lambda>r. ExTx (TxRLP r)) (createAddress (x_keccak X) sender nonce)) (\<lambda>a.
       executeCreate X sender endowment price g init orig (e\<lparr>e_newAddress := a\<rparr>)))"

definition create2Opcode :: "ctx \<Rightarrow> address \<Rightarrow> u256 \<Rightarrow> u256 \<Rightarrow> u256 \<Rightarrow> bytes \<Rightarrow> address \<Rightarrow> u256 \<Rightarrow> Executive \<Rightarrow>
    exec_error + bool \<times> Executive" where
  "create2Opcode X sender endowment price g init orig salt e =
     (let K = x_keccak X in
      executeCreate X sender endowment price g init orig
        (e\<lparr>e_newAddress := ucast (K (toBigEndian 20 (unat sender) @ toBigEndian 32 (unat salt) @
                                       toBigEndian 32 (unat (K init))))\<rparr>))"

definition create_ex :: "ctx \<Rightarrow> address \<Rightarrow> u256 \<Rightarrow> u256 \<Rightarrow> u256 \<Rightarrow> bytes \<Rightarrow> address \<Rightarrow> Executive \<Rightarrow>
    exec_error + bool \<times> Executive" where
  "create_ex = createOpcode"

section \<open>Running code\<close>

text \<open>
  The handlers of \<^verbatim>\<open>go\<close>. An exception of the host is not a \<^verbatim>\<open>VMException\<close>: the process exits. An access
  outside an array has no behaviour; it stays what it is.
\<close>

definition handle_go :: "ctx \<Rightarrow> vm_exception \<Rightarrow> Executive \<Rightarrow> exec_error + Executive" where
  "handle_go X ex e = (case ex of
       RevertInstruction out \<Rightarrow>
         sum_bind (revert_ex X e) (\<lambda>e. Inr (e\<lparr>e_output := out, e_excepted := TE_RevertInstruction\<rparr>))
     | HostException \<Rightarrow> Inl ExitProcess
     | UndefinedBehaviour \<Rightarrow> Inl (ExVM UndefinedBehaviour)
     | _ \<Rightarrow> revert_ex X (e\<lparr>e_gas := 0, e_excepted := toTransactionException (ExVM ex)\<rparr>))"

definition with_res :: "(ExecutionResult \<Rightarrow> ExecutionResult) \<Rightarrow> Executive \<Rightarrow> Executive" where
  "with_res f e = e\<lparr>e_res := map_option f (e_res e)\<rparr>"

text \<open>What follows the run of the initialisation code: paying for the code and storing it.\<close>

definition depositCode :: "ctx \<Rightarrow> State ExtVMFace \<Rightarrow> bytes \<Rightarrow> Executive \<Rightarrow> exec_error + Executive" where
  "depositCode X ext out e =
     (let es = evmSchedule ext;
          cost = (of_nat (length out) :: u64) * ucast (createDataGas es);
          e = with_res (\<lambda>r. r\<lparr>r_gasForDeposit := e_gas e, r_depositSize := of_nat (length out)\<rparr>) e;
          store = (\<lambda>out e. on_state (State_setCode (x_keccak X) (myAddress ext) out)
                     (with_res (\<lambda>r. r\<lparr>r_output := out\<rparr>) e))
      in if length out > unat (maxCodeSize es) then handle_go X OutOfGas e
         else if unat cost \<le> unat (e_gas e)
         then store out ((with_res (\<lambda>r. r\<lparr>r_codeDeposit := CD_Success\<rparr>) e)\<lparr>e_gas := e_gas e - ucast cost\<rparr>)
         else if exceptionalFailedCodeDeposit es then handle_go X OutOfGas e
         else store [] (with_res (\<lambda>r. r\<lparr>r_codeDeposit := CD_Failed\<rparr>) e))"

definition go_ex :: "ctx \<Rightarrow> vm_fun \<Rightarrow> Executive \<Rightarrow> exec_error + Executive" where
  "go_ex X vm e = (case e_ext e of
       None \<Rightarrow> Inr e
     | Some x \<Rightarrow>
         (let s = (if e_isCreation e then State_clearStorage (x_keccak X) (myAddress x) (e_s e) else e_s e) in
          case vm (e_gas e) (x\<lparr>world := s\<rparr>) of
            None \<Rightarrow> Inl ExitProcess
          | Some (r, g, x') \<Rightarrow>
              (let e = e\<lparr>e_gas := g, e_ext := Some x', e_s := world x'\<rparr> in
               sum_bind
                 (case r of
                    Inl ex \<Rightarrow> handle_go X ex e
                  | Inr out \<Rightarrow> if e_isCreation e then depositCode X x' out e else Inr (e\<lparr>e_output := out\<rparr>))
                 (\<lambda>e. Inr (if e_output e \<noteq> [] then with_res (\<lambda>r. r\<lparr>r_output := e_output e\<rparr>) e else e)))))"

section \<open>Transactions\<close>

definition sender_ex :: "ctx \<Rightarrow> Executive \<Rightarrow> exec_error + address \<times> Executive" where
  "sender_ex X e = sum_bind (map_err ExTx (sender_tx (x_keccak X) (x_recover X) (e_t e)))
     (\<lambda>(a, t). Inr (a, e\<lparr>e_t := t\<rparr>))"

text \<open>
  \<^verbatim>\<open>initialize\<close>; before it passes an exception on, \<^verbatim>\<open>m_excepted\<close> becomes the code of that exception.
\<close>

definition initialize_ex :: "ctx \<Rightarrow> Transaction \<Rightarrow> Executive \<Rightarrow> exec_error + Executive" where
  "initialize_ex X t e =
     (let K = x_keccak X; env = e_envInfo e;
          e = e\<lparr>e_t := t, e_baseGasRequired := baseGasRequired (isCreation_tx t) (t_data t)
                  (evmSchedule_se (x_engine X) (env_number256 env))\<rparr> in
      sum_bind (verifyTransaction (x_engine X) Everything t env (env_gasUsed env)) (\<lambda>_.
      if hasZeroSignature t then Inr e
      else
        sum_bind (sender_ex X e) (\<lambda>(from, e).
        sum_bind (ask_state (State_getNonce K from) e) (\<lambda>(nonceReq, e).
        if t_nonce t \<noteq> nonceReq then Inl InvalidNonce
        else
          (let cost = uint (t_gas t) * uint (t_gasPrice t); total = uint (t_value t) + cost in
           sum_bind (ask_state (State_balance K from) e) (\<lambda>(bal, e).
             if uint bal < total then Inl (ExState NotEnoughCash)
             else Inr (e\<lparr>e_gasCost := word_of_int cost\<rparr>)))))))"

text \<open>\<^verbatim>\<open>execute\<close>; the base gas is converted from a signed number.\<close>

definition execute_ex :: "ctx \<Rightarrow> Executive \<Rightarrow> exec_error + bool \<times> Executive" where
  "execute_ex X e =
     sum_bind (sender_ex X e) (\<lambda>(from, e).
     sum_bind (on_state (State_subBalance (x_keccak X) from (e_gasCost e)) e) (\<lambda>e.
       (let t = e_t e; g = t_gas t - scast (e_baseGasRequired e) in
        if isCreation_tx t then create_ex X from (t_value t) (t_gasPrice t) g (t_data t) from e
        else call_tx X (t_receiveAddress t) from (t_value t) (t_gasPrice t) (t_data t) g e)))"

fun killAll :: "keccak \<Rightarrow> address list \<Rightarrow> State \<Rightarrow> state_error + State" where
  "killAll K [] s = Inr s"
| "killAll K (a # as) s = sum_bind (State_kill K a s) (killAll K as)"

text \<open>The refund for suicides is a product of \<^verbatim>\<open>unsigned\<close> and \<^verbatim>\<open>size_t\<close>; the set is iterated in order.\<close>

definition suicideRefund :: "State ExtVMFace \<Rightarrow> u256" where
  "suicideRefund x = ucast ((ucast (suicideRefundGas (evmSchedule x)) :: u64) * of_nat (card (suicides (sub x))))"

definition accumulateRefunds :: "Executive \<Rightarrow> Executive" where
  "accumulateRefunds e =
     (let e = e\<lparr>e_ext := map_option (\<lambda>x. x\<lparr>sub := (sub x)\<lparr>refunds := refunds (sub x) + suicideRefund x\<rparr>\<rparr>) (e_ext e)\<rparr>;
          refunded = (case e_ext e of Some x \<Rightarrow> min ((t_gas (e_t e) - e_gas e) div 2) (refunds (sub x)) | None \<Rightarrow> 0)
      in e\<lparr>e_refunded := refunded, e_gas := e_gas e + refunded\<rparr>)"

definition payFees :: "ctx \<Rightarrow> Executive \<Rightarrow> exec_error + Executive" where
  "payFees X e =
     (if isNonNull (e_t e)
      then sum_bind (sender_ex X e) (\<lambda>(from, e).
           sum_bind (on_state (State_addBalance (x_keccak X) from (e_gas e * t_gasPrice (e_t e))) e) (\<lambda>e.
             on_state (State_addBalance (x_keccak X) (env_author (e_envInfo e))
               ((t_gas (e_t e) - e_gas e) * t_gasPrice (e_t e))) e))
      else Inr e)"

definition killSuicides :: "ctx \<Rightarrow> Executive \<Rightarrow> exec_error + Executive" where
  "killSuicides X e = (case e_ext e of
       Some x \<Rightarrow> on_state (killAll (x_keccak X) (sorted_list_of_set (suicides (sub x)))) e
     | None \<Rightarrow> Inr e)"

definition collectResult :: "Executive \<Rightarrow> Executive" where
  "collectResult e =
     (let e = (case e_ext e of Some x \<Rightarrow> e\<lparr>e_logs := logs (sub x)\<rparr> | None \<Rightarrow> e) in
      with_res (\<lambda>r. r\<lparr>r_gasUsed := gasUsed_ex e, r_excepted := e_excepted e, r_newAddress := e_newAddress e,
        r_gasRefunded := (case e_ext e of Some x \<Rightarrow> refunds (sub x) | None \<Rightarrow> 0)\<rparr>) e)"

definition finalize_ex :: "ctx \<Rightarrow> Executive \<Rightarrow> exec_error + bool \<times> Executive" where
  "finalize_ex X e =
     sum_bind (payFees X (accumulateRefunds e)) (\<lambda>e.
     sum_bind (killSuicides X e) (\<lambda>e.
       Inr (e_excepted e = TE_None, collectResult e)))"

definition executeTransaction :: "ctx \<Rightarrow> vm_fun \<Rightarrow> Transaction \<Rightarrow> Executive \<Rightarrow> exec_error + bool \<times> Executive" where
  "executeTransaction X vm t e =
     sum_bind (initialize_ex X t e) (\<lambda>e.
     sum_bind (execute_ex X e) (\<lambda>(finished, e).
     sum_bind (if finished then Inr e else go_ex X vm e) (finalize_ex X)))"

datatype Permanence = Reverted | Committed | Uncommitted

text \<open>
  \<^verbatim>\<open>State::execute\<close>, with the executive in place of the receipt that is computed from its gas and
  logs.
\<close>

definition State_execute :: "ctx \<Rightarrow> vm_fun \<Rightarrow> EnvInfo \<Rightarrow> Transaction \<Rightarrow> Permanence \<Rightarrow> State \<Rightarrow>
    exec_error + ExecutionResult \<times> bool \<times> Executive \<times> State" where
  "State_execute X vm env t perm s =
     sum_bind (executeTransaction X vm t ((newExecutive s env 0)\<lparr>e_res := Some ExecutionResult_new\<rparr>)) (\<lambda>(status, e).
     sum_bind
       (case perm of
          Reverted \<Rightarrow> Inr ((e_s e)\<lparr>m_cache := Map.empty\<rparr>)
        | Committed \<Rightarrow> map_err ExState (State_commit (x_keccak X) (x_committer X)
            (if reached env (p_EIP158ForkBlock (x_params X)) then RemoveEmptyAccounts else KeepEmptyAccounts) (e_s e))
        | Uncommitted \<Rightarrow> Inr (e_s e)) (\<lambda>s.
       Inr (case e_res e of Some r \<Rightarrow> r | None \<Rightarrow> ExecutionResult_new, status, e, s)))"

section \<open>The functions behind the face\<close>

datatype evmc_status_code =
    EVMC_SUCCESS | EVMC_REVERT | EVMC_OUT_OF_GAS | EVMC_UNDEFINED_INSTRUCTION | EVMC_STACK_OVERFLOW
  | EVMC_STACK_UNDERFLOW | EVMC_BAD_JUMP_DESTINATION | EVMC_FAILURE

definition transactionExceptionToEvmcStatusCode :: "TransactionException \<Rightarrow> evmc_status_code" where
  "transactionExceptionToEvmcStatusCode ex = (case ex of
       TE_None \<Rightarrow> EVMC_SUCCESS
     | TE_RevertInstruction \<Rightarrow> EVMC_REVERT
     | TE_OutOfGas \<Rightarrow> EVMC_OUT_OF_GAS
     | TE_BadInstruction \<Rightarrow> EVMC_UNDEFINED_INSTRUCTION
     | TE_OutOfStack \<Rightarrow> EVMC_STACK_OVERFLOW
     | TE_StackUnderflow \<Rightarrow> EVMC_STACK_UNDERFLOW
     | TE_BadJumpDestination \<Rightarrow> EVMC_BAD_JUMP_DESTINATION
     | _ \<Rightarrow> EVMC_FAILURE)"

text \<open>An exception of these functions passes through the interpreter: \<open>None\<close>.\<close>

definition to_option :: "'e + 'a \<Rightarrow> 'a option" where
  "to_option r = (case r of Inl _ \<Rightarrow> None | Inr v \<Rightarrow> Some v)"

definition ExtVM_call :: "ctx \<Rightarrow> vm_fun \<Rightarrow> State ExtVMFace \<Rightarrow> CallParameters \<Rightarrow> exec_error + CallResult \<times> u256 \<times> State ExtVMFace" where
  "ExtVM_call X vm x p =
     sum_bind (call_ex X p (gasPrice x) (origin x) (newExecutive (world x) (envInfo x) (depth x + 1))) (\<lambda>(finished, e).
     sum_bind (if finished then Inr (e, x)
               else sum_bind (go_ex X vm e) (\<lambda>e. Inr (e, x\<lparr>sub := accrueSubState e (sub x)\<rparr>))) (\<lambda>(e, x).
       Inr (\<lparr>call_success = (transactionExceptionToEvmcStatusCode (e_excepted e) = EVMC_SUCCESS),
             call_output = e_output e\<rparr>, e_gas e, x\<lparr>world := e_s e\<rparr>)))"

definition ExtVM_create :: "ctx \<Rightarrow> vm_fun \<Rightarrow> State ExtVMFace \<Rightarrow> u256 \<Rightarrow> u256 \<Rightarrow> bytes \<Rightarrow> Instruction \<Rightarrow> u256 \<Rightarrow>
    exec_error + CreateResult \<times> u256 \<times> State ExtVMFace" where
  "ExtVM_create X vm x endowment io_gas code op salt =
     (let e = newExecutive (world x) (envInfo x) (depth x + 1) in
      sum_bind
        (if op = CREATE then createOpcode X (myAddress x) endowment (gasPrice x) io_gas code (origin x) e
         else create2Opcode X (myAddress x) endowment (gasPrice x) io_gas code (origin x) salt e) (\<lambda>(finished, e).
      sum_bind (if finished then Inr (e, x)
                else sum_bind (go_ex X vm e) (\<lambda>e. Inr (e, x\<lparr>sub := accrueSubState e (sub x)\<rparr>))) (\<lambda>(e, x).
        Inr (\<lparr>create_success = (transactionExceptionToEvmcStatusCode (e_excepted e) = EVMC_SUCCESS),
              create_output = e_output e, create_address = e_newAddress e\<rparr>, e_gas e, x\<lparr>world := e_s e\<rparr>))))"

definition ExtVM_setStore :: "ctx \<Rightarrow> State ExtVMFace \<Rightarrow> u256 \<Rightarrow> u256 \<Rightarrow> state_error + State ExtVMFace" where
  "ExtVM_setStore X x n v = sum_bind (State_setStorage (x_keccak X) (myAddress x) n v (world x))
     (\<lambda>s. Inr (x\<lparr>world := s\<rparr>))"

text \<open>\<^verbatim>\<open>suicide\<close> with \<^verbatim>\<open>ExtVMFace::suicide\<close>, which notes the account in the sub-state.\<close>

definition ExtVM_suicide :: "ctx \<Rightarrow> State ExtVMFace \<Rightarrow> address \<Rightarrow> state_error + State ExtVMFace" where
  "ExtVM_suicide X x a =
     (let K = x_keccak X in
      sum_bind (State_balance K (myAddress x) (world x)) (\<lambda>(bal, s).
      sum_bind (State_addBalance K a bal s) (\<lambda>s.
      sum_bind (State_setBalance K (myAddress x) 0 s) (\<lambda>s.
        Inr (x\<lparr>world := s, sub := (sub x)\<lparr>suicides := insert (myAddress x) (suicides (sub x))\<rparr>\<rparr>)))))"

definition ExtVM_log :: "State ExtVMFace \<Rightarrow> h256 list \<Rightarrow> bytes \<Rightarrow> State ExtVMFace" where
  "ExtVM_log x topics data =
     x\<lparr>sub := (sub x)\<lparr>logs := logs (sub x) @ [\<lparr>log_address = myAddress x, log_topics = topics, log_data = data\<rparr>]\<rparr>\<rparr>"

definition c_blockhashContractAddress :: address where
  "c_blockhashContractAddress = 0xf0"

text \<open>
  \<^verbatim>\<open>blockHash\<close>; \<^verbatim>\<open>h256(res.output)\<close> copies the bytes only if there are exactly 32.
\<close>

definition ExtVM_blockHash :: "ctx \<Rightarrow> vm_fun \<Rightarrow> State ExtVMFace \<Rightarrow> u256 \<Rightarrow> exec_error + h256 \<times> State ExtVMFace" where
  "ExtVM_blockHash X vm x number =
     (let K = x_keccak X; env = envInfo x; current = env_number256 env in
      if number \<ge> current \<or> number < max 256 current - 256 then Inr (0, x)
      else if current < p_constantinopleForkBlock (x_params X) + 256
      then (let i = unat (ucast (current - 1 - number) :: u32) in
            if i < length (env_lastHashes env) then Inr (env_lastHashes env ! i, x) else Inl OutOfRange)
      else
        sum_bind (map_err ExState (State_getNonce K (caller x) (world x))) (\<lambda>(nonce, s).
        (let tx = forceSender (caller x) (Transaction_null\<lparr>t_type := MessageCall, t_gas := 1000000,
                    t_receiveAddress := c_blockhashContractAddress, t_data := toBigEndian 32 (unat number),
                    t_nonce := nonce\<rparr>) in
         sum_bind (State_execute X vm env tx Reverted s) (\<lambda>(res, _, _, s).
           Inr (if length (r_output res) = 32 then fromBigEndian (r_output res) else 0, x\<lparr>world := s\<rparr>)))))"

text \<open>
  The face as the interpreter sees it. Reading fills the caches of the state, which no later read or
  write can tell (\<open>reads_are_cache_transparent\<close>), so the functions that only read return the value.
\<close>

definition value_of :: "'b \<Rightarrow> 'e + 'b \<times> State \<Rightarrow> 'b" where
  "value_of d r = (case r of Inr (v, _) \<Rightarrow> v | Inl _ \<Rightarrow> d)"

definition ExtVM_exists :: "ctx \<Rightarrow> State ExtVMFace \<Rightarrow> address \<Rightarrow> bool" where
  "ExtVM_exists X x a =
     (if emptinessIsNonexistence (evmSchedule x)
      then value_of False (State_accountNonemptyAndExisting (x_keccak X) a (world x))
      else value_of False (State_addressInUse (x_keccak X) a (world x)))"

definition extHost :: "ctx \<Rightarrow> vm_fun \<Rightarrow> State host" where
  "extHost X vm = \<lparr>
     h_store = (\<lambda>x n. value_of 0 (State_storage (x_keccak X) (myAddress x) n (world x))),
     h_setStore = (\<lambda>x n v. to_option (ExtVM_setStore X x n v)),
     h_balance = (\<lambda>x a. value_of 0 (State_balance (x_keccak X) a (world x))),
     h_codeAt = (\<lambda>x a. value_of [] (State_code (x_keccak X) a (world x))),
     h_codeSizeAt = (\<lambda>x a. value_of 0 (State_codeSize (x_keccak X) a (world x))),
     h_exists = ExtVM_exists X,
     h_suicide = (\<lambda>x a. to_option (ExtVM_suicide X x a)),
     h_create = (\<lambda>x v g code op salt. to_option (ExtVM_create X vm x v g code op salt)),
     h_call = (\<lambda>x p. to_option (ExtVM_call X vm x p)),
     h_log = ExtVM_log,
     h_blockHash = (\<lambda>x n. to_option (ExtVM_blockHash X vm x n)),
     h_sha3 = x_keccak X\<rparr>"

text \<open>
  The interpreter on these functions. With fuel 0 nothing can be said; each level of calls takes one.
\<close>

fun runVM :: "ctx \<Rightarrow> nat \<Rightarrow> vm_fun" where
  "runVM X 0 = (\<lambda>g x. None)"
| "runVM X (Suc n) = exec (extHost X (runVM X n))"

end
