(* ===== verification/State_Size.thy ===== *)
theory State_Size
  imports State_Commit
begin

text \<open>
  An invariant of the state that needs no assumption on the database beyond the address space: every
  code in the database, in the cache and in the change log fits. The interpreter relies on it.
\<close>

definition codeLimit :: nat where
  "codeLimit = 2 ^ 62"

lemma codeLimit_pos [simp]: "0 < codeLimit"
  by (simp add: codeLimit_def)

definition size_ok :: "State \<Rightarrow> bool" where
  "size_ok s \<longleftrightarrow> (\<forall>h. length (m_codes s h) < codeLimit) \<and>
     (\<forall>a acc. m_cache s a = Some acc \<longrightarrow> length (m_codeCache acc) < codeLimit) \<and>
     (\<forall>a c. ChangeCode a c \<in> set (m_changeLog s) \<longrightarrow> length c < codeLimit)"

lemma size_ok_cache: "size_ok s \<Longrightarrow> m_cache s a = Some acc \<Longrightarrow> length (m_codeCache acc) < codeLimit"
  by (simp add: size_ok_def)

lemma size_ok_codes: "size_ok s \<Longrightarrow> length (m_codes s h) < codeLimit"
  by (simp add: size_ok_def)

lemma size_ok_fields [simp]:
  "size_ok (s\<lparr>m_unchangedCacheEntries := es\<rparr>) = size_ok s"
  "size_ok (s\<lparr>m_nonExistingAccountsCache := A\<rparr>) = size_ok s"
  "size_ok (s\<lparr>m_codeSizeCache := z\<rparr>) = size_ok s"
  "size_ok (s\<lparr>m_rng := r\<rparr>) = size_ok s"
  "size_ok (s\<lparr>m_tries := t\<rparr>) = size_ok s"
  "size_ok (s\<lparr>m_root := h\<rparr>) = size_ok s"
  "size_ok (s\<lparr>m_touched := A\<rparr>) = size_ok s"
  by (simp_all add: size_ok_def)

lemma size_ok_clear:
  "size_ok s \<Longrightarrow> size_ok (s\<lparr>m_cache := Map.empty\<rparr>)" "size_ok s \<Longrightarrow> size_ok (s\<lparr>m_changeLog := []\<rparr>)"
  by (simp_all add: size_ok_def)

lemma size_ok_setAccount:
  "size_ok s \<Longrightarrow> length (m_codeCache acc) < codeLimit \<Longrightarrow> size_ok (setAccount a acc s)"
  by (simp add: size_ok_def setAccount_def)

lemma size_ok_remove: "size_ok s \<Longrightarrow> size_ok (s\<lparr>m_cache := (m_cache s)(a := None)\<rparr>)"
  by (simp add: size_ok_def)

lemma size_ok_logged:
  "size_ok s \<Longrightarrow> (\<And>a c. l = ChangeCode a c \<Longrightarrow> length c < codeLimit) \<Longrightarrow> size_ok (logged l s)"
  by (auto simp: size_ok_def logged_def)

lemma size_ok_csc_store [simp]: "size_ok (csc_store h n s) = size_ok s"
  by (simp add: csc_store_def)

lemma size_ok_evictOne: "size_ok s \<Longrightarrow> size_ok (evictOne s)"
  by (auto simp: evictOne_def Let_def size_ok_def split: option.splits)

lemma size_ok_clearCache: "size_ok s \<Longrightarrow> size_ok (clearCacheIfTooLarge s)"
  by (induction s rule: clearCacheIfTooLarge.induct)
    (subst clearCacheIfTooLarge.simps, auto intro: size_ok_evictOne)

lemma codeCache_ops [simp]:
  "m_codeCache (Account_addBalance v acc) = m_codeCache acc" "m_codeCache (Account_incNonce acc) = m_codeCache acc"
  "m_codeCache (Account_setNonce n acc) = m_codeCache acc" "m_codeCache (Account_setStorage k v acc) = m_codeCache acc"
  "m_codeCache (Account_clearStorage K acc) = m_codeCache acc" "m_codeCache (Account_setStorageRoot r acc) = m_codeCache acc"
  "m_codeCache (Account_setStorageCache k v acc) = m_codeCache acc" "m_codeCache (Account_untouch acc) = m_codeCache acc"
  "m_codeCache (Account_setCode K c acc) = c" "m_codeCache (Account_noteCode c acc) = c"
  "m_codeCache (Account_alive K n v ch) = []" "m_codeCache (Account_dead K) = []" "m_codeCache (Account_kill K acc) = m_codeCache acc"
  "m_codeCache (Account_contract K n v r h ch) = []"
  by (simp_all add: Account_addBalance_def Account_incNonce_def Account_setNonce_def Account_setStorage_def
      Account_clearStorage_def Account_setStorageRoot_def Account_setStorageCache_def Account_untouch_def
      Account_setCode_def Account_noteCode_def Account_alive_def Account_dead_def Account_kill_def
      Account_contract_def Account_changed_def)

section \<open>Operations\<close>

text \<open>What an operation returns, if it returns, satisfies the invariant.\<close>

definition sized :: "'e + State \<Rightarrow> bool" where
  "sized r \<longleftrightarrow> (\<forall>s. r = Inr s \<longrightarrow> size_ok s)"

definition sized_read :: "('a \<Rightarrow> bool) \<Rightarrow> 'e + 'a \<times> State \<Rightarrow> bool" where
  "sized_read Q r \<longleftrightarrow> (\<forall>v s. r = Inr (v, s) \<longrightarrow> size_ok s \<and> Q v)"

lemma sized_simps [simp]:
  "sized (Inr s) = size_ok s" "sized (Inl e)" "sized_read Q (Inr (v, s)) = (size_ok s \<and> Q v)" "sized_read Q (Inl e)"
  by (simp_all add: sized_def sized_read_def)

lemma sized_bind:
  "sized r \<Longrightarrow> (\<And>s. size_ok s \<Longrightarrow> sized (f s)) \<Longrightarrow> sized (sum_bind r f)"
  by (cases r) simp_all

lemma sized_bind_value: "(\<And>v. sized (f v)) \<Longrightarrow> sized (sum_bind r f)"
  by (cases r) simp_all

lemma sized_bind_read:
  "sized_read Q r \<Longrightarrow> (\<And>v s. size_ok s \<Longrightarrow> Q v \<Longrightarrow> sized (f (v, s))) \<Longrightarrow> sized (sum_bind r f)"
  by (cases r) auto

lemma sized_read_bind:
  "sized_read Q r \<Longrightarrow> (\<And>v s. size_ok s \<Longrightarrow> Q v \<Longrightarrow> sized_read R (f (v, s))) \<Longrightarrow> sized_read R (sum_bind r f)"
  by (cases r) auto

lemma sized_read_mono: "sized_read Q r \<Longrightarrow> (\<And>v. Q v \<Longrightarrow> R v) \<Longrightarrow> sized_read R r"
  by (auto simp: sized_read_def)

abbreviation code_fits :: "Account option \<Rightarrow> bool" where
  "code_fits acc \<equiv> \<forall>x. acc = Some x \<longrightarrow> length (m_codeCache x) < codeLimit"

lemma decodeLeaf_codeCache: "decodeLeaf K bs = Inr acc \<Longrightarrow> m_codeCache acc = []"
  by (auto simp: decodeLeaf_def)

lemma sized_account: "size_ok s \<Longrightarrow> sized_read code_fits (State_account K a s)"
  unfolding State_account_def
  by (cases "openTrie K s (m_root s)")
    (auto simp: size_ok_cache Let_def decodeLeaf_codeCache split: option.split sum.split
      intro!: size_ok_setAccount size_ok_clearCache)

lemma sized_reads:
  assumes "size_ok s"
  shows "sized_read (\<lambda>_. True) (State_addressInUse K a s)" "sized_read (\<lambda>_. True) (State_accountNonemptyAndExisting K a s)"
    "sized_read (\<lambda>_. True) (State_addressHasCode K a s)" "sized_read (\<lambda>_. True) (State_balance K a s)"
    "sized_read (\<lambda>_. True) (State_getNonce K a s)" "sized_read (\<lambda>_. True) (State_codeHash K a s)"
  unfolding State_addressInUse_def State_accountNonemptyAndExisting_def State_addressHasCode_def State_balance_def
    State_getNonce_def State_codeHash_def
  by (auto intro!: sized_read_bind [OF sized_account [OF assms]])

lemma sized_storage:
  assumes "size_ok s"
  shows "sized_read (\<lambda>_. True) (State_storage K a k s)"
  unfolding State_storage_def
proof (rule sized_read_bind [OF sized_account [OF assms]])
  fix acc t
  assume t: "size_ok t" "code_fits acc"
  have "sized_read (\<lambda>_. True) (sum_bind (storageLookup K t (m_storageRoot x) k)
      (\<lambda>ret. Inr (ret, setAccount a (Account_setStorageCache k ret x) t)))" if "acc = Some x" for x
    using t that by (cases "storageLookup K t (m_storageRoot x) k") (auto intro: size_ok_setAccount)
  then show "sized_read (\<lambda>_. True) (case (acc, t) of (acc, s) \<Rightarrow> case acc of None \<Rightarrow> Inr (0, s)
      | Some acc \<Rightarrow> (case m_storageOverlay acc k of Some v \<Rightarrow> Inr (v, s)
          | None \<Rightarrow> sum_bind (storageLookup K s (m_storageRoot acc) k)
              (\<lambda>ret. Inr (ret, setAccount a (Account_setStorageCache k ret acc) s))))"
    using t by (simp split: option.split)
qed

lemma sized_code: "size_ok s \<Longrightarrow> sized_read (\<lambda>c. length c < codeLimit) (State_code K a s)"
  unfolding State_code_def
  by (rule sized_read_bind [OF sized_account])
    (auto simp: Let_def size_ok_codes split: option.split intro!: size_ok_setAccount)

lemma sized_cacheSlot: "size_ok s \<Longrightarrow> length (m_codeCache (cacheSlot K a s)) < codeLimit"
  by (auto simp: cacheSlot_def size_ok_cache split: option.split)

lemma sized_createAccount: "size_ok s \<Longrightarrow> length (m_codeCache acc) < codeLimit \<Longrightarrow> size_ok (State_createAccount a acc s)"
  by (auto simp: State_createAccount_def intro!: size_ok_logged size_ok_setAccount)

lemma sized_incNonce: "size_ok s \<Longrightarrow> sized (State_incNonce K a s)"
  unfolding State_incNonce_def
  by (erule sized_bind_read [OF sized_account])
    (auto split: option.split intro!: sized_bind_value size_ok_setAccount size_ok_logged sized_createAccount)

lemma sized_setNonce: "size_ok s \<Longrightarrow> sized (State_setNonce K a n s)"
  unfolding State_setNonce_def
  by (erule sized_bind_read [OF sized_account])
    (auto split: option.split intro!: size_ok_setAccount size_ok_logged sized_createAccount)

lemma sized_addBalance: "size_ok s \<Longrightarrow> sized (State_addBalance K a v s)"
  unfolding State_addBalance_def
  by (rule sized_bind, erule sized_bind_read [OF sized_account])
    (auto simp: Let_def split: option.split
      intro!: sized_bind_value size_ok_setAccount size_ok_logged sized_createAccount)

lemma sized_createContract: "size_ok s \<Longrightarrow> sized (State_createContract K a s)"
  unfolding State_createContract_def by (auto intro!: sized_bind_value sized_createAccount)

lemma sized_kill: "size_ok s \<Longrightarrow> sized (State_kill K a s)"
  unfolding State_kill_def
  by (erule sized_bind_read [OF sized_account]) (auto split: option.split intro!: size_ok_setAccount)

lemmas sized_writes = sized_incNonce sized_setNonce sized_addBalance sized_createContract sized_kill

lemma sized_balances:
  assumes "size_ok s"
  shows "sized (State_subBalance K a v s)" "sized (State_setBalance K a v s)" "sized (State_transferBalance K a b v s)"
proof -
  show 1: "sized (State_subBalance K a v s)"
    unfolding State_subBalance_def
    by (auto simp: assms split: option.split intro!: sized_bind_read [OF sized_account [OF assms]] sized_writes)
  show "sized (State_setBalance K a v s)"
    unfolding State_setBalance_def
    by (auto simp: Let_def intro!: sized_bind_read [OF sized_account [OF assms]] sized_writes)
  show "sized (State_transferBalance K a b v s)"
    unfolding State_transferBalance_def by (rule sized_bind [OF 1 sized_writes(3)])
qed

lemma sized_setStorage: "size_ok s \<Longrightarrow> sized (State_setStorage K a k v s)"
  unfolding State_setStorage_def
  by (rule sized_bind_read [OF sized_storage])
    (auto simp: Let_def intro!: size_ok_setAccount size_ok_logged sized_cacheSlot)

lemma sized_setCode: "size_ok s \<Longrightarrow> length c < codeLimit \<Longrightarrow> sized (State_setCode K a c s)"
  unfolding State_setCode_def
  by (rule sized_bind_read [OF sized_code]) (auto simp: Let_def intro!: size_ok_setAccount size_ok_logged)

lemma sized_clearStorage: "size_ok s \<Longrightarrow> size_ok (State_clearStorage K a s)"
  by (auto simp: State_clearStorage_def Let_def intro!: size_ok_setAccount size_ok_logged sized_cacheSlot)

lemma sized_undoChange:
  assumes "size_ok s" "c \<in> set (m_changeLog s)"
  shows "size_ok (undoChange K c s)"
proof -
  have "size_ok (setAccount (Change_address c) (cacheSlot K (Change_address c) s) s)"
    using assms(1) by (intro size_ok_setAccount sized_cacheSlot)
  moreover have "length (m_codeCache (cacheSlot K (Change_address c) s)) < codeLimit"
    using assms(1) by (rule sized_cacheSlot)
  ultimately show ?thesis
    using assms by (cases c) (auto simp: undoChange_def Let_def size_ok_def [of s]
      intro!: size_ok_setAccount size_ok_remove)
qed

lemma sized_rollback: "size_ok s \<Longrightarrow> sized (State_rollback K sp s)"
proof (induction K sp s rule: State_rollback.induct)
  case (1 K sp s)
  show ?case
  proof (cases "sp = length (m_changeLog s) \<or> m_changeLog s = []")
    case True
    then show ?thesis using 1 by (auto simp: State_rollback.simps [of K sp s])
  next
    case False
    then have "size_ok (undoChange K (last (m_changeLog s)) s)"
      using "1.prems" by (intro sized_undoChange) simp_all
    then have "size_ok ((undoChange K (last (m_changeLog s)) s)\<lparr>m_changeLog := butlast (m_changeLog s)\<rparr>)"
      by (auto simp: size_ok_def dest: in_set_butlastD)
    then show ?thesis
      using False 1 by (simp add: State_rollback.simps [of K sp s])
  qed
qed

lemma sized_removeEmpty: "size_ok s \<Longrightarrow> size_ok (State_removeEmptyAccounts K s)"
  by (auto simp: State_removeEmptyAccounts_def size_ok_def split: option.splits)

section \<open>Committing\<close>

lemma sized_commitStorage: "size_ok s \<Longrightarrow> sized_read (\<lambda>_. True) (commitStorage K C acc s)"
  unfolding commitStorage_def
  by (cases "openTrie K s (m_storageRoot acc)") (auto simp: addTrie_def split: sum.split)

lemma sized_commitCode: "size_ok s \<Longrightarrow> length (m_codeCache acc) < codeLimit \<Longrightarrow> size_ok (commitCode acc s)"
  using size_ok_csc_store [of "m_codeHash acc" "length (m_codeCache acc)" s] by (auto simp: commitCode_def size_ok_def)

lemma sized_commitAccount:
  "size_ok (snd ts) \<Longrightarrow> commitAccount K C a ts = Inr ts' \<Longrightarrow> size_ok (snd ts')"
  using sized_commitStorage [of "snd ts" K C]
  by (auto simp: commitAccount_def Let_def size_ok_cache sized_read_def encodeLeaf_eq intro!: sized_commitCode
      split: prod.splits option.splits if_splits sum.splits)

lemma sized_commitAccounts:
  "size_ok (snd ts) \<Longrightarrow> commitAccounts K C as ts = Inr ts' \<Longrightarrow> size_ok (snd ts')"
  by (induction as arbitrary: ts) (auto dest: sized_commitAccount)

lemma sized_commit:
  assumes "size_ok s"
  shows "sized (State_commit K C b s)"
proof -
  define s1 where "s1 = (if b = RemoveEmptyAccounts then State_removeEmptyAccounts K s else s)"
  have s1: "size_ok s1"
    using assms by (simp add: s1_def sized_removeEmpty)
  have "size_ok s2" if "commitAccounts K C as (t, s1) = Inr (t', s2)" for as t t' s2
    using sized_commitAccounts [OF _ that] s1 by simp
  then show ?thesis
    unfolding State_commit_def sized_def s1_def [symmetric]
    by (auto simp: Let_def addTrie_def intro!: size_ok_clear)
qed

end
