(* ===== verification/Executive_Safety.thy ===== *)
theory Executive_Safety
  imports Executive State_Size LegacyVM_Exec
begin

text \<open>
  Calls and creations never give back more gas than they got and never reach undefined behaviour, at
  any depth: the interpreter's contract with its host, interpreted on the functions of \<^verbatim>\<open>ExtVM\<close>.
\<close>

section \<open>Results of the executive\<close>

definition yields :: "('a \<Rightarrow> bool) \<Rightarrow> exec_error + 'a \<Rightarrow> bool" where
  "yields Q r \<longleftrightarrow> (case r of Inl e \<Rightarrow> e \<noteq> ExVM UndefinedBehaviour | Inr v \<Rightarrow> Q v)"

lemma yields_simps [simp]:
  "yields Q (Inr v) = Q v" "yields Q (Inl e) = (e \<noteq> ExVM UndefinedBehaviour)"
  by (simp_all add: yields_def)

lemma yields_bind: "yields Q r \<Longrightarrow> (\<And>v. Q v \<Longrightarrow> yields R (f v)) \<Longrightarrow> yields R (sum_bind r f)"
  by (cases r) simp_all

lemma yields_bind_any: "(\<And>e. r = Inl e \<Longrightarrow> e \<noteq> ExVM UndefinedBehaviour) \<Longrightarrow> (\<And>v. yields R (f v)) \<Longrightarrow> yields R (sum_bind r f)"
  by (cases r) simp_all

lemma yields_mono: "yields Q r \<Longrightarrow> (\<And>v. Q v \<Longrightarrow> R v) \<Longrightarrow> yields R r"
  by (cases r) simp_all

lemma map_err_Inl: "map_err h r = Inl e \<longleftrightarrow> (\<exists>e'. r = Inl e' \<and> e = h e')"
  by (cases r) auto

section \<open>The invariant\<close>

text \<open>
  Precompiled contracts cost something, and the vectors they return are vectors of the address space.
\<close>

definition precompiled_ok :: "ctx \<Rightarrow> bool" where
  "precompiled_ok X \<longleftrightarrow> (\<forall>a c inp. p_precompiled (x_params X) a = Some c \<longrightarrow>
     0 \<le> pc_cost c inp \<and> length (snd (pc_execute c inp)) < 2 ^ 64)"

definition face_sized :: "'w ExtVMFace \<Rightarrow> bool" where
  "face_sized x \<longleftrightarrow> sane_schedule (evmSchedule x) \<and> length (ext_data x) < 2 ^ 64 \<and> length (ext_code x) + 33 < 2 ^ 63"

definition ex_ok :: "u256 \<Rightarrow> Executive \<Rightarrow> bool" where
  "ex_ok G e \<longleftrightarrow> size_ok (e_s e) \<and> e_gas e \<le> G \<and> length (e_output e) < 2 ^ 64 \<and>
     (\<forall>x. e_ext e = Some x \<longrightarrow> face_sized x)"

text \<open>What is asked of the interpreter one level down.\<close>

definition out_sized :: "vm_exception + bytes \<Rightarrow> bool" where
  "out_sized out \<longleftrightarrow> out \<noteq> Inl UndefinedBehaviour \<and>
     (case out of Inl (RevertInstruction bs) \<Rightarrow> length bs < 2 ^ 43 | Inl _ \<Rightarrow> True | Inr bs \<Rightarrow> length bs < 2 ^ 43)"

definition vm_ok :: "vm_fun \<Rightarrow> bool" where
  "vm_ok vm \<longleftrightarrow> (\<forall>g x out g' x'. face_sized x \<longrightarrow> size_ok (world x) \<longrightarrow> vm g x = Some (out, g', x') \<longrightarrow>
     out_sized out \<and> g' \<le> g \<and> same_face x x' \<and> size_ok (world x'))"

lemma face_sized_upd [simp]:
  "face_sized (x\<lparr>sub := y\<rparr>) = face_sized x" "face_sized (x\<lparr>world := w\<rparr>) = face_sized x"
  by (simp_all add: face_sized_def)

lemma same_face_sized: "same_face x x' \<Longrightarrow> face_sized x' = face_sized x"
  by (cases x; cases x') (simp add: same_face_def face_sized_def)

lemma same_face_world_right [simp]: "same_face e (e'\<lparr>world := w\<rparr>) \<longleftrightarrow> same_face e e'"
  by (cases e; cases e') (auto simp: same_face_def)

lemma ex_ok_newExecutive: "size_ok s \<Longrightarrow> ex_ok G (newExecutive s env level)"
  by (simp add: ex_ok_def newExecutive_def)

lemma face_sized_newFace:
  "length data < 2 ^ 64 \<Longrightarrow> length code < codeLimit \<Longrightarrow> face_sized (newFace X e me sndr orig v p data code c s)"
  by (simp add: face_sized_def newFace_def evmSchedule_se_def sane_scheduleForBlockNumber codeLimit_def)

lemma ex_ok_upd [simp]:
  "ex_ok G (e\<lparr>e_savepoint := n\<rparr>) = ex_ok G e" "ex_ok G (e\<lparr>e_excepted := t\<rparr>) = ex_ok G e"
  "ex_ok G (e\<lparr>e_newAddress := a\<rparr>) = ex_ok G e" "ex_ok G (e\<lparr>e_isCreation := b\<rparr>) = ex_ok G e"
  "ex_ok G (e\<lparr>e_res := r\<rparr>) = ex_ok G e" "ex_ok G (e\<lparr>e_t := tx\<rparr>) = ex_ok G e"
  "ex_ok G (e\<lparr>e_logs := l\<rparr>) = ex_ok G e" "ex_ok G (e\<lparr>e_gasCost := c\<rparr>) = ex_ok G e"
  "ex_ok G (e\<lparr>e_baseGasRequired := q\<rparr>) = ex_ok G e" "ex_ok G (e\<lparr>e_refunded := f\<rparr>) = ex_ok G e"
  "ex_ok G (with_res h e) = ex_ok G e"
  by (simp_all add: ex_ok_def with_res_def)

lemma with_res_fields [simp]:
  "e_s (with_res h e) = e_s e" "e_gas (with_res h e) = e_gas e" "e_ext (with_res h e) = e_ext e"
  "e_output (with_res h e) = e_output e" "e_excepted (with_res h e) = e_excepted e" "e_t (with_res h e) = e_t e"
  "e_envInfo (with_res h e) = e_envInfo e" "e_isCreation (with_res h e) = e_isCreation e"
  "e_newAddress (with_res h e) = e_newAddress e" "e_savepoint (with_res h e) = e_savepoint e"
  by (simp_all add: with_res_def)

lemma ex_ok_state: "ex_ok G e \<Longrightarrow> size_ok s \<Longrightarrow> ex_ok G (e\<lparr>e_s := s\<rparr>)"
  by (simp add: ex_ok_def)

lemma ex_ok_gas: "ex_ok G e \<Longrightarrow> g \<le> G \<Longrightarrow> ex_ok G (e\<lparr>e_gas := g\<rparr>)"
  by (simp add: ex_ok_def)

lemma ex_ok_size: "ex_ok G e \<Longrightarrow> size_ok (e_s e)"
  by (simp add: ex_ok_def)

section \<open>Operations\<close>

lemma on_state_ok:
  assumes "ex_ok G e" "\<And>s. size_ok s \<Longrightarrow> sized (f s)"
  shows "yields (ex_ok G) (on_state f e)"
  using assms(2) [OF ex_ok_size [OF assms(1)]] assms(1)
  by (cases "f (e_s e)") (auto simp: on_state_def intro: ex_ok_state)

lemma ask_state_ok:
  assumes "ex_ok G e" "\<And>s. size_ok s \<Longrightarrow> sized_read Q (f s)"
  shows "yields (\<lambda>(v, e'). ex_ok G e' \<and> Q v) (ask_state f e)"
  using assms(2) [OF ex_ok_size [OF assms(1)]] assms(1)
  by (cases "f (e_s e)") (auto simp: ask_state_def intro: ex_ok_state)

lemma revert_ok: "ex_ok G e \<Longrightarrow> yields (ex_ok G) (revert_ex X e)"
  unfolding revert_ex_def
  by (rule on_state_ok) (auto simp: ex_ok_def sized_rollback)

lemma word_of_int_le: "0 \<le> n \<Longrightarrow> n \<le> uint w \<Longrightarrow> word_of_int n \<le> (w :: 'a::len word)"
  using zmod_le_nonneg_dividend [of n "2 ^ LENGTH('a)"] by (simp add: word_le_def uint_word_of_int)

lemma callPrecompiled_ok:
  assumes "precompiled_ok X" "ex_ok (gas p) e"
  shows "yields (\<lambda>(_, e'). ex_ok (gas p) e') (callPrecompiled X p e)"
proof (cases "p_precompiled (x_params X) (codeAddress p)")
  case None
  then show ?thesis by (simp add: callPrecompiled_def costOfPrecompiled_def)
next
  case (Some c)
  obtain ok out where r: "pc_execute c (call_data p) = (ok, out)" by (cases "pc_execute c (call_data p)")
  have c: "0 \<le> pc_cost c (call_data p)" "length out < 2 ^ 64"
    using assms(1) Some r unfolding precompiled_ok_def by (metis snd_conv)+
  have g: "word_of_int (uint (gas p) - pc_cost c (call_data p)) \<le> gas p" if "pc_cost c (call_data p) \<le> uint (gas p)"
    using that c(1) by (intro word_of_int_le) auto
  have add: "yields (\<lambda>(_, e'). ex_ok (gas p) e')
      (sum_bind (on_state (State_addBalance (x_keccak X) a 0) (e\<lparr>e_excepted := t\<rparr>)) (\<lambda>e. Inr (True, e)))" for a t
    by (rule yields_bind [OF on_state_ok]) (auto simp: assms(2) sized_addBalance)
  show ?thesis
    using Some r c g add assms(2) by (auto simp: callPrecompiled_def costOfPrecompiled_def executePrecompiled_def
        Let_def ex_ok_def not_less)
qed

lemma callAccount_ok:
  assumes e: "ex_ok (gas p) e" and d: "length (call_data p) < 2 ^ 64"
  shows "yields (\<lambda>(_, e'). ex_ok (gas p) e') (callAccount X p price orig e)"
proof -
  let ?K = "x_keccak X" and ?G = "gas p"
  have code: "yields (\<lambda>(_, e'). ex_ok ?G e')
      (sum_bind (ask_state (State_code ?K a) e1) (\<lambda>(c, e).
         sum_bind (ask_state (State_codeHash ?K a) e) (\<lambda>(_, e).
           Inr (False, e\<lparr>e_ext := Some (newFace X e me sndr orig v price (call_data p) c False st)\<rparr>))))"
    if "ex_ok ?G e1" for e1 a me sndr v st
  proof (rule yields_bind [OF ask_state_ok [OF that sized_code]], assumption, clarsimp)
    fix c :: bytes and e2 assume c: "ex_ok ?G e2" "length c < codeLimit"
    show "yields (\<lambda>(_, e'). ex_ok ?G e') (sum_bind (ask_state (State_codeHash ?K a) e2) (\<lambda>(_, e).
         Inr (False, e\<lparr>e_ext := Some (newFace X e me sndr orig v price (call_data p) c False st)\<rparr>)))"
      by (rule yields_bind [OF ask_state_ok [OF c(1) sized_reads(6)]])
        (auto simp: ex_ok_def intro!: face_sized_newFace c d)
  qed
  show ?thesis
    unfolding callAccount_def Let_def
    by (rule yields_bind [OF ask_state_ok [OF ex_ok_gas [OF e order.refl] sized_reads(3)]])
      (auto intro: code)
qed

lemma call_ok:
  assumes P: "precompiled_ok X" and e: "ex_ok (gas p) e" and d: "length (call_data p) < 2 ^ 64"
  shows "yields (\<lambda>(_, e'). ex_ok (gas p) e') (call_ex X p price orig e)"
proof -
  let ?K = "x_keccak X" and ?G = "gas p"
  have transfer: "yields (\<lambda>(_, e'). ex_ok ?G e')
      (sum_bind (on_state (State_transferBalance ?K a b v) e1) (\<lambda>e. Inr (e_ext e = None, e)))"
    if "ex_ok ?G e1" for e1 a b v
    by (rule yields_bind [OF on_state_ok [OF that sized_balances(3)]]) auto
  have rest: "yields (\<lambda>(_, e'). ex_ok ?G e')
      (sum_bind (if c then callPrecompiled X p e1 else callAccount X p price orig e1)
        (\<lambda>(finished, e). if finished then Inr (True, e)
          else sum_bind (on_state (State_transferBalance ?K a b v) e) (\<lambda>e. Inr (e_ext e = None, e))))"
    if "ex_ok ?G e1" for e1 c a b v
    by (rule yields_bind [where Q = "\<lambda>(_, e'). ex_ok ?G e'"])
      (auto simp: callPrecompiled_ok [OF P] callAccount_ok [OF _ d] that intro: transfer)
  have "yields (ex_ok ?G) (if c then on_state (State_incNonce ?K a) e else Inr e)" for c a
    using e by (auto intro!: on_state_ok sized_incNonce)
  then show ?thesis
    unfolding call_ex_def Let_def by (rule yields_bind) (rule rest, simp)
qed

lemma executeCreate_ok:
  assumes e: "ex_ok g e" and d: "length init < codeLimit"
  shows "yields (\<lambda>(_, e'). ex_ok g e') (executeCreate X sender endowment price g init orig e)"
proof -
  let ?K = "x_keccak X"
  let ?new = "\<lambda>e. if init \<noteq> [] then e\<lparr>e_ext := Some (newFace X e (e_newAddress e) sender orig endowment price [] init True False)\<rparr> else e"
  let ?make = "\<lambda>e. sum_bind (on_state (State_transferBalance ?K sender (e_newAddress e) endowment) e) (\<lambda>e.
         sum_bind (map_err ExState (State_requireAccountStartNonce (e_s e))) (\<lambda>start.
         sum_bind (on_state (State_setNonce ?K (e_newAddress e)
             (if reached (e_envInfo e) (p_EIP158ForkBlock (x_params X)) then start + 1 else start)) e) (\<lambda>e.
           (let e = ?new e in Inr (e_ext e = None, e)))))"
  have make: "yields (\<lambda>(_, e'). ex_ok g e') (?make e1)" if "ex_ok g e1" for e1
  proof (rule yields_bind [OF on_state_ok [OF that sized_balances(3)]], assumption)
    fix e2 assume e2: "ex_ok g e2"
    have "ex_ok g (?new e3)" if "ex_ok g e3" for e3
      using that face_sized_newFace [OF _ d, of "[]" X e3] by (simp add: ex_ok_def)
    then have "yields (\<lambda>(_, e'). ex_ok g e') (sum_bind (on_state (State_setNonce ?K a n) e2) (\<lambda>e.
        (let e = ?new e in Inr (e_ext e = None, e))))" for a n
      by (intro yields_bind [OF on_state_ok [OF e2 sized_setNonce]]) (simp_all add: Let_def)
    then show "yields (\<lambda>(_, e'). ex_ok g e') (sum_bind (map_err ExState (State_requireAccountStartNonce (e_s e2))) (\<lambda>start.
         sum_bind (on_state (State_setNonce ?K (e_newAddress e2)
             (if reached (e_envInfo e2) (p_EIP158ForkBlock (x_params X)) then start + 1 else start)) e2) (\<lambda>e.
           (let e = ?new e in Inr (e_ext e = None, e)))))"
      by (rule yields_bind_any [rotated]) (auto simp: map_err_Inl)
  qed
  have clash: "yields (\<lambda>(_, e'). ex_ok g e') (sum_bind (revert_ex X e1) (\<lambda>e. Inr (True, e\<lparr>e_ext := None\<rparr>)))"
    if "ex_ok g e1" for e1
    by (rule yields_bind [OF revert_ok [OF that]]) (simp add: ex_ok_def)
  have taken: "yields (\<lambda>(_, e'). ex_ok g e' \<and> True) (if has then Inr (True, e1)
      else sum_bind (ask_state (State_getNonce ?K a) e1) (\<lambda>(n, e). Inr (n > 0, e)))"
    if "ex_ok g e1" for e1 has a
    using ask_state_ok [OF that sized_reads(5)] that by (auto intro!: yields_bind [OF ask_state_ok [OF that sized_reads(5)]])
  let ?tail = "\<lambda>ex e. if ex
      then sum_bind (revert_ex X (e\<lparr>e_gas := 0, e_excepted := TE_AddressAlreadyUsed\<rparr>)) (\<lambda>e. Inr (True, e\<lparr>e_ext := None\<rparr>))
      else ?make e"
  have tail: "yields (\<lambda>(_, e'). ex_ok g e') (?tail ex e1)" if "ex_ok g e1" for ex e1
  proof (cases ex)
    case True
    then show ?thesis using clash [of "e1\<lparr>e_gas := 0, e_excepted := TE_AddressAlreadyUsed\<rparr>"] that by (simp add: ex_ok_gas)
  next
    case False
    then show ?thesis using make [OF that] by simp
  qed
  have body: "yields (\<lambda>(_, e'). ex_ok g e') (sum_bind (if has then Inr (True, e1)
      else sum_bind (ask_state (State_getNonce ?K a) e1) (\<lambda>(n, e). Inr (n > 0, e))) (\<lambda>(exists, e). ?tail exists e))"
    if "ex_ok g e1" for has a e1
    by (rule yields_bind [OF taken [OF that]]) (use tail in \<open>simp add: case_prod_beta\<close>)
  have rest: "yields (\<lambda>(_, e'). ex_ok g e')
      (sum_bind (ask_state (State_addressHasCode ?K a) e1) (\<lambda>(has, e).
       sum_bind (if has then Inr (True, e)
                 else sum_bind (ask_state (State_getNonce ?K (e_newAddress e)) e) (\<lambda>(n, e). Inr (n > 0, e)))
         (\<lambda>(exists, e). ?tail exists e)))" if "ex_ok g e1" for e1 a
    by (rule yields_bind [OF ask_state_ok [OF that sized_reads(3)]], assumption)
      (use body in \<open>simp add: case_prod_beta\<close>)
  have "yields (ex_ok g) (if c then on_state (State_incNonce ?K a) e else Inr e)" for c a
    using e by (auto intro!: on_state_ok sized_incNonce)
  then show ?thesis
    unfolding executeCreate_def Let_def
    by (rule yields_bind) (rule rest [unfolded Let_def], simp add: ex_ok_gas)
qed

lemma createOpcode_ok:
  assumes e: "ex_ok g e" and d: "length init < codeLimit"
  shows "yields (\<lambda>(_, e'). ex_ok g e') (createOpcode X sender endowment price g init orig e)"
    "yields (\<lambda>(_, e'). ex_ok g e') (create2Opcode X sender endowment price g init orig salt e)"
proof -
  have c: "yields (\<lambda>(_, e'). ex_ok g e') (executeCreate X sender endowment price g init orig (e1\<lparr>e_newAddress := a\<rparr>))"
    if "ex_ok g e1" for e1 a
    using that by (intro executeCreate_ok d) simp
  have "yields (\<lambda>(_, e'). ex_ok g e') (sum_bind (map_err (\<lambda>r. ExTx (TxRLP r)) (createAddress K sender n)) (\<lambda>a.
      executeCreate X sender endowment price g init orig (e1\<lparr>e_newAddress := a\<rparr>)))" if "ex_ok g e1" for e1 K n
    by (rule yields_bind_any) (auto simp: map_err_Inl c that)
  then show "yields (\<lambda>(_, e'). ex_ok g e') (createOpcode X sender endowment price g init orig e)"
    unfolding createOpcode_def
    by (intro yields_bind [OF ask_state_ok [OF e sized_reads(5)]]) (simp_all add: case_prod_beta)
  show "yields (\<lambda>(_, e'). ex_ok g e') (create2Opcode X sender endowment price g init orig salt e)"
    unfolding create2Opcode_def Let_def by (rule c [OF e])
qed

lemma handle_go_ok:
  assumes "ex_ok G e" and "out_sized (Inl ex)"
  shows "yields (ex_ok G) (handle_go X ex e)"
proof -
  have r: "yields (ex_ok G) (revert_ex X (e\<lparr>e_gas := 0, e_excepted := t\<rparr>))" for t
    using assms(1) by (intro revert_ok) (simp add: ex_ok_gas)
  have "yields (ex_ok G) (sum_bind (revert_ex X e) (\<lambda>e. Inr (e\<lparr>e_output := bs, e_excepted := t\<rparr>)))"
    if "length bs < 2 ^ 64" for bs t
    by (rule yields_bind [OF revert_ok [OF assms(1)]]) (use that in \<open>simp add: ex_ok_def\<close>)
  then show ?thesis
    using assms(2) r by (cases ex) (auto simp: handle_go_def out_sized_def)
qed

lemma depositCode_ok:
  assumes e: "ex_ok G e" and out: "length out < 2 ^ 43"
  shows "yields (ex_ok G) (depositCode X ext out e)"
proof -
  have store: "yields (ex_ok G) (on_state (State_setCode (x_keccak X) a bs) (with_res h e1))"
    if "ex_ok G e1" "length bs < 2 ^ 43" for a bs h e1
    using that by (intro on_state_ok sized_setCode) (auto simp: codeLimit_def)
  have oog: "yields (ex_ok G) (handle_go X OutOfGas e1)" if "ex_ok G e1" for e1
    using that by (intro handle_go_ok) (simp_all add: out_sized_def)
  let ?cost = "(of_nat (length out) :: u64) * ucast (createDataGas (evmSchedule ext))"
  have g: "e_gas e - ucast ?cost \<le> G" if "unat ?cost \<le> unat (e_gas e)"
  proof -
    have "(ucast ?cost :: u256) \<le> e_gas e"
      using that by (simp add: word_le_nat_alt unsigned_ucast_eq take_bit_nat_eq_self_iff) 
    then have "e_gas e - ucast ?cost \<le> e_gas e"
      by (rule word_sub_le)
    then show ?thesis using e unfolding ex_ok_def by (blast intro: order.trans)
  qed
  show ?thesis
    unfolding depositCode_def Let_def
    by (auto simp: e g intro!: store oog ex_ok_gas out)
qed

lemma go_ok:
  assumes vm: "vm_ok vm" and e: "ex_ok G e"
  shows "yields (ex_ok G) (go_ex X vm e)"
proof (cases "e_ext e")
  case None
  then show ?thesis using e by (simp add: go_ex_def)
next
  case (Some x)
  define s where "s = (if e_isCreation e then State_clearStorage (x_keccak X) (myAddress x) (e_s e) else e_s e)"
  have s: "size_ok s" "face_sized (x\<lparr>world := s\<rparr>)"
    using e Some by (simp_all add: s_def ex_ok_def sized_clearStorage)
  show ?thesis
  proof (cases "vm (e_gas e) (x\<lparr>world := s\<rparr>)")
    case None
    then show ?thesis using Some by (simp add: go_ex_def Let_def s_def [symmetric])
  next
    case run: (Some r)
    then obtain out g' x' where r: "vm (e_gas e) (x\<lparr>world := s\<rparr>) = Some (out, g', x')" by (cases r) auto
    have v: "out_sized out" "g' \<le> e_gas e" "same_face (x\<lparr>world := s\<rparr>) x'" "size_ok (world x')"
      using vm [unfolded vm_ok_def, rule_format, OF s(2) _ r] s(1) by simp_all
    have x': "face_sized x'"
      using same_face_sized [OF v(3)] s(2) by simp
    let ?e = "e\<lparr>e_gas := g', e_ext := Some x', e_s := world x'\<rparr>"
    have e': "ex_ok G ?e"
      using e v(2,4) x' by (auto simp: ex_ok_def)
    have "yields (ex_ok G) (case out of Inl ex \<Rightarrow> handle_go X ex ?e
        | Inr bs \<Rightarrow> if e_isCreation ?e then depositCode X x' bs ?e else Inr (?e\<lparr>e_output := bs\<rparr>))"
    proof (cases out)
      case (Inl ex)
      then show ?thesis using handle_go_ok [OF e', of ex X] v(1) by simp
    next
      case (Inr bs)
      then have "length bs < 2 ^ 43" using v(1) by (simp add: out_sized_def)
      then show ?thesis using depositCode_ok [OF e', of bs X x'] e' Inr by (auto simp: ex_ok_def)
    qed
    then show ?thesis
      unfolding go_ex_def Some option.case Let_def s_def [symmetric] r prod.case
      by (rule yields_bind) simp
  qed
qed

section \<open>Transactions\<close>

lemma ex_ok_mono: "ex_ok G e \<Longrightarrow> G \<le> G' \<Longrightarrow> ex_ok G' e"
  by (auto simp: ex_ok_def)

definition tx_ok :: "u256 \<Rightarrow> Executive \<Rightarrow> bool" where
  "tx_ok G e \<longleftrightarrow> ex_ok G e \<and> length (t_data (e_t e)) < codeLimit"

lemma sender_ok: "tx_ok G e \<Longrightarrow> yields (\<lambda>(_, e'). tx_ok G e') (sender_ex X e)"
  unfolding sender_ex_def sender_tx_def sha3_tx_def
  by (auto simp: map_err_def tx_ok_def split: sum.split option.split)

lemma sender_ex_ok: "ex_ok G e \<Longrightarrow> yields (\<lambda>(_, e'). ex_ok G e') (sender_ex X e)"
  unfolding sender_ex_def sender_tx_def sha3_tx_def
  by (auto simp: map_err_def split: sum.split option.split)

lemma tx_ok_on_state: "tx_ok G e \<Longrightarrow> (\<And>s. size_ok s \<Longrightarrow> sized (f s)) \<Longrightarrow> yields (tx_ok G) (on_state f e)"
  using on_state_ok [of G e f] by (cases "f (e_s e)") (auto simp: tx_ok_def on_state_def)

lemma tx_ok_ask_state: "tx_ok G e \<Longrightarrow> (\<And>s. size_ok s \<Longrightarrow> sized_read Q (f s)) \<Longrightarrow> yields (\<lambda>(_, e'). tx_ok G e') (ask_state f e)"
  using ask_state_ok [of G e Q f] by (cases "f (e_s e)") (auto simp: tx_ok_def ask_state_def)

lemma verifyTransaction_ok: "verifyTransaction E ir t h u \<noteq> Inl (ExVM UndefinedBehaviour)"
  by (auto simp: verifyTransaction_def verifyTransaction_base_def Let_def when_err_def map_err_Inl split: if_splits)

lemma initialize_ok:
  assumes "ex_ok G e" "length (t_data t) < codeLimit"
  shows "yields (tx_ok G) (initialize_ex X t e)"
proof -
  have bal: "yields (tx_ok G) (sum_bind (ask_state (State_balance K a) e1) (\<lambda>(bal, e).
      if uint bal < total then Inl (ExState NotEnoughCash) else Inr (e\<lparr>e_gasCost := c\<rparr>)))"
    if "tx_ok G e1" for e1 K a total c
    by (rule yields_bind [OF tx_ok_ask_state [OF that sized_reads(4)]]) (auto simp: tx_ok_def)
  have nonce: "yields (tx_ok G) (sum_bind (ask_state (State_getNonce K a) e1) (\<lambda>(n, e).
      if t_nonce t \<noteq> n then Inl InvalidNonce
      else sum_bind (ask_state (State_balance K a) e) (\<lambda>(bal, e).
        if uint bal < total then Inl (ExState NotEnoughCash) else Inr (e\<lparr>e_gasCost := c\<rparr>))))"
    if "tx_ok G e1" for e1 K a total c
    by (rule yields_bind [OF tx_ok_ask_state [OF that sized_reads(5)]], assumption) (auto intro: bal)
  have "tx_ok G (e\<lparr>e_t := t, e_baseGasRequired := b\<rparr>)" for b
    using assms by (simp add: tx_ok_def)
  then show ?thesis
    unfolding initialize_ex_def Let_def
    by (intro yields_bind_any) (auto simp: verifyTransaction_ok intro!: yields_bind [OF sender_ok] nonce)
qed

lemma call_tx_ok:
  assumes "precompiled_ok X" "ex_ok g e" "length data < codeLimit"
  shows "yields (\<lambda>(_, e'). ex_ok (- 1) e') (call_tx X to sndr v price data g e)"
  unfolding call_tx_def
  by (rule yields_mono [OF call_ok]) (use assms in \<open>auto simp: codeLimit_def intro: ex_ok_mono\<close>)

lemma execute_ok:
  assumes P: "precompiled_ok X" and e: "tx_ok 0 e"
  shows "yields (\<lambda>(_, e'). ex_ok (- 1) e') (execute_ex X e)"
proof -
  have g: "ex_ok g e1" if "tx_ok 0 e1" for g e1
    using that by (auto simp: tx_ok_def intro: ex_ok_mono)
  have create: "yields (\<lambda>(_, e'). ex_ok (- 1) e') (create_ex X a v price g data orig e1)"
    if "tx_ok 0 e1" "length data < codeLimit" for a v price g data orig e1
    unfolding create_ex_def
    by (rule yields_mono [OF createOpcode_ok(1) [OF g [OF that(1)] that(2)]]) (auto intro: ex_ok_mono)
  have "yields (\<lambda>(_, e'). ex_ok (- 1) e') (sum_bind (on_state (State_subBalance (x_keccak X) a (e_gasCost e1)) e1) (\<lambda>e.
      if isCreation_tx (e_t e) then create_ex X a (t_value (e_t e)) (t_gasPrice (e_t e)) (t_gas (e_t e) - scast (e_baseGasRequired e)) (t_data (e_t e)) a e
      else call_tx X (t_receiveAddress (e_t e)) a (t_value (e_t e)) (t_gasPrice (e_t e)) (t_data (e_t e)) (t_gas (e_t e) - scast (e_baseGasRequired e)) e))"
    if "tx_ok 0 e1" for a e1
    by (rule yields_bind [OF tx_ok_on_state [OF that sized_balances(1)]])
      (auto intro!: create call_tx_ok [OF P] g simp: tx_ok_def)
  then show ?thesis
    unfolding execute_ex_def Let_def by (intro yields_bind [OF sender_ok [OF e]]) auto
qed

lemma sized_killAll: "size_ok s \<Longrightarrow> sized (killAll K as s)"
  by (induction as arbitrary: s) (auto intro: sized_bind [OF sized_kill])

lemma accumulateRefunds_ok: "ex_ok (- 1) e \<Longrightarrow> ex_ok (- 1) (accumulateRefunds e)"
  by (auto simp: accumulateRefunds_def Let_def ex_ok_def)

lemma payFees_ok:
  assumes "ex_ok (- 1) e"
  shows "yields (ex_ok (- 1)) (payFees X e)"
proof -
  have "yields (ex_ok (- 1)) (sum_bind (on_state (State_addBalance K a v) e2)
        (\<lambda>e. on_state (State_addBalance K (b e) (w e)) e))" if "ex_ok (- 1) e2" for K a v e2 b w
    using that by (intro yields_bind [OF on_state_ok] on_state_ok sized_addBalance)
  then have "yields (ex_ok (- 1)) (sum_bind (sender_ex X e) (\<lambda>(a, e).
      sum_bind (on_state (State_addBalance K a (v e)) e) (\<lambda>e. on_state (State_addBalance K (b e) (w e)) e)))" for K v b w
    by (intro yields_bind [OF sender_ex_ok [OF assms]]) auto
  then show ?thesis
    using assms by (simp add: payFees_def)
qed

lemma killSuicides_ok: "ex_ok (- 1) e \<Longrightarrow> yields (ex_ok (- 1)) (killSuicides X e)"
  by (auto simp: killSuicides_def split: option.split intro!: on_state_ok sized_killAll)

lemma finalize_ok:
  assumes "ex_ok (- 1) e"
  shows "yields (\<lambda>(_, e'). size_ok (e_s e')) (finalize_ex X e)"
proof -
  have "yields (\<lambda>(_, e'). size_ok (e_s e')) (sum_bind (killSuicides X e1) (\<lambda>e. Inr (e_excepted e = TE_None, collectResult e)))"
    if "ex_ok (- 1) e1" for e1
    by (rule yields_bind [OF killSuicides_ok [OF that]])
      (auto simp: ex_ok_def collectResult_def Let_def split: option.split)
  then show ?thesis
    unfolding finalize_ex_def by (rule yields_bind [OF payFees_ok [OF accumulateRefunds_ok [OF assms]]])
qed

lemma executeTransaction_ok:
  assumes P: "precompiled_ok X" and vm: "vm_ok vm" and e: "ex_ok 0 e" and t: "length (t_data t) < codeLimit"
  shows "yields (\<lambda>(_, e'). size_ok (e_s e')) (executeTransaction X vm t e)"
proof -
  have go: "yields (ex_ok (- 1)) (if f then Inr e1 else go_ex X vm e1)" if "ex_ok (- 1) e1" for f e1
    using that go_ok [OF vm that] by simp
  have "yields (\<lambda>(_, e'). size_ok (e_s e')) (sum_bind (execute_ex X e1) (\<lambda>(f, e).
      sum_bind (if f then Inr e else go_ex X vm e) (finalize_ex X)))" if "tx_ok 0 e1" for e1
    by (rule yields_bind [OF execute_ok [OF P that]]) (auto intro!: yields_bind [OF go] finalize_ok)
  then show ?thesis
    unfolding executeTransaction_def by (rule yields_bind [OF initialize_ok [OF e t]])
qed

lemma State_execute_ok:
  assumes "precompiled_ok X" "vm_ok vm" "size_ok s" "length (t_data t) < codeLimit"
  shows "yields (\<lambda>(_, _, _, s'). size_ok s') (State_execute X vm env t perm s)"
proof -
  have "ex_ok 0 ((newExecutive s env 0)\<lparr>e_res := Some ExecutionResult_new\<rparr>)"
    using assms(3) ex_ok_newExecutive by simp
  note run = executeTransaction_ok [OF assms(1,2) this assms(4)]
  have "yields size_ok (case perm of Reverted \<Rightarrow> Inr ((e_s e)\<lparr>m_cache := Map.empty\<rparr>)
        | Committed \<Rightarrow> map_err ExState (State_commit K C b (e_s e)) | Uncommitted \<Rightarrow> Inr (e_s e))"
    if "size_ok (e_s e)" for e K C b
    using that sized_commit [OF that, of K C b]
    by (cases perm; cases "State_commit K C b (e_s e)") (auto simp: size_ok_clear)
  note commit = this
  show ?thesis
    unfolding State_execute_def
    by (rule yields_bind [OF run]) (auto intro!: yields_bind [OF commit])
qed

section \<open>The contract of the interpreter\<close>

definition host_ok :: "ctx \<Rightarrow> State ExtVMFace \<Rightarrow> bool" where
  "host_ok X x \<longleftrightarrow> precompiled_ok X \<and> size_ok (world x)"

lemma ExtVM_call_ok:
  assumes P: "precompiled_ok X" and vm: "vm_ok vm" and s: "size_ok (world x)" and d: "length (call_data p) < 2 ^ 64"
  shows "yields (\<lambda>(r, g, x'). same_face x x' \<and> size_ok (world x') \<and> g \<le> gas p \<and> length (call_output r) < 2 ^ 64)
    (ExtVM_call X vm x p)"
proof -
  let ?Q = "\<lambda>(r, g, x'). same_face x x' \<and> size_ok (world x') \<and> g \<le> gas p \<and> length (call_output r) < 2 ^ 64"
  have go: "yields (\<lambda>(e', x'). ex_ok (gas p) e' \<and> same_face x x') (if f then Inr (e1, x)
      else sum_bind (go_ex X vm e1) (\<lambda>e. Inr (e, x\<lparr>sub := accrueSubState e (sub x)\<rparr>)))" if "ex_ok (gas p) e1" for f e1
    using that by (auto intro!: yields_bind [OF go_ok [OF vm that]])
  have "yields ?Q (sum_bind (if f then Inr (e1, x)
      else sum_bind (go_ex X vm e1) (\<lambda>e. Inr (e, x\<lparr>sub := accrueSubState e (sub x)\<rparr>))) (\<lambda>(e, x).
       Inr (\<lparr>call_success = b e, call_output = e_output e\<rparr>, e_gas e, x\<lparr>world := e_s e\<rparr>)))" if "ex_ok (gas p) e1" for f e1 b
    by (rule yields_bind [OF go [OF that]]) (auto simp: ex_ok_def)
  then show ?thesis
    unfolding ExtVM_call_def
    by (intro yields_bind [OF call_ok [OF P ex_ok_newExecutive [OF s] d]]) auto
qed

lemma ExtVM_create_ok:
  assumes vm: "vm_ok vm" and s: "size_ok (world x)" and d: "length code < codeLimit"
  shows "yields (\<lambda>(r, g', x'). same_face x x' \<and> size_ok (world x') \<and> g' \<le> g \<and> length (create_output r) < 2 ^ 64)
    (ExtVM_create X vm x v g code op salt)"
proof -
  let ?Q = "\<lambda>(r, g', x'). same_face x x' \<and> size_ok (world x') \<and> g' \<le> g \<and> length (create_output r) < 2 ^ 64"
  have go: "yields (\<lambda>(e', x'). ex_ok g e' \<and> same_face x x') (if f then Inr (e1, x)
      else sum_bind (go_ex X vm e1) (\<lambda>e. Inr (e, x\<lparr>sub := accrueSubState e (sub x)\<rparr>)))" if "ex_ok g e1" for f e1
    using that by (auto intro!: yields_bind [OF go_ok [OF vm that]])
  have rest: "yields ?Q (sum_bind (if f then Inr (e1, x)
      else sum_bind (go_ex X vm e1) (\<lambda>e. Inr (e, x\<lparr>sub := accrueSubState e (sub x)\<rparr>))) (\<lambda>(e, x).
       Inr (\<lparr>create_success = b e, create_output = e_output e, create_address = e_newAddress e\<rparr>, e_gas e, x\<lparr>world := e_s e\<rparr>)))"
    if "ex_ok g e1" for f e1 b
    by (rule yields_bind [OF go [OF that]]) (auto simp: ex_ok_def)
  have "yields (\<lambda>(_, e'). ex_ok g e')
      (if op = CREATE then createOpcode X (myAddress x) v (gasPrice x) g code (origin x) (newExecutive (world x) (envInfo x) n)
       else create2Opcode X (myAddress x) v (gasPrice x) g code (origin x) salt (newExecutive (world x) (envInfo x) n))" for n
    using createOpcode_ok [OF ex_ok_newExecutive [OF s] d] by simp
  then show ?thesis
    unfolding ExtVM_create_def Let_def by (rule yields_bind) (use rest in auto)
qed

lemma ExtVM_blockHash_ok:
  assumes P: "precompiled_ok X" and vm: "vm_ok vm" and s: "size_ok (world x)"
  shows "yields (\<lambda>(_, x'). same_face x x' \<and> size_ok (world x')) (ExtVM_blockHash X vm x n)"
proof -
  have run: "yields (\<lambda>(_, x'). same_face x x' \<and> size_ok (world x')) (sum_bind (State_execute X vm env t Reverted s1)
      (\<lambda>(res, _, _, s). Inr (h res, x\<lparr>world := s\<rparr>)))" if "size_ok s1" "length (t_data t) < codeLimit" for env t s1 h
    by (rule yields_bind [OF State_execute_ok [OF P vm that]]) auto
  have nonce: "yields (\<lambda>(_, s). size_ok s) (map_err ExState (State_getNonce (x_keccak X) (caller x) (world x)))"
    using sized_reads(5) [OF s, of "x_keccak X" "caller x"]
    by (cases "State_getNonce (x_keccak X) (caller x) (world x)") auto
  show ?thesis
    unfolding ExtVM_blockHash_def Let_def
    by (auto simp: s intro!: yields_bind [OF nonce] run) (simp_all add: forceSender_def codeLimit_def)
qed

lemma yields_option: "yields Q r \<Longrightarrow> to_option r = Some v \<Longrightarrow> Q v"
  by (cases r) (simp_all add: to_option_def)

lemma ExtVM_setStore_ok:
  assumes "size_ok (world x)" "ExtVM_setStore X x k v = Inr x'"
  shows "same_face x x' \<and> size_ok (world x')"
  using assms sized_setStorage [OF assms(1)] by (auto simp: ExtVM_setStore_def sized_def)

lemma ExtVM_suicide_ok:
  assumes s: "size_ok (world x)" and r: "ExtVM_suicide X x a = Inr x'"
  shows "same_face x x' \<and> size_ok (world x')"
proof -
  let ?K = "x_keccak X"
  have "sized (sum_bind (State_balance ?K (myAddress x) (world x)) (\<lambda>(bal, s).
      sum_bind (State_addBalance ?K a bal s) (State_setBalance ?K (myAddress x) 0)))"
    by (rule sized_bind_read [OF sized_reads(4) [OF s]]) (auto intro: sized_bind [OF sized_addBalance] sized_balances)
  with r show ?thesis
    by (auto simp: ExtVM_suicide_def Let_def sized_def)
qed

lemma extHost_is_host:
  assumes "vm_ok vm \<or> \<not> precompiled_ok X"
  shows "vm_host (extHost X vm) (host_ok X, False)"
proof
  fix e e' :: "State ExtVMFace" and k v g g' :: u256 and a ts bs i salt r p c h and n :: u256
  assume "holds (host_ok X, False) e"
  then have P: "precompiled_ok X" and s: "size_ok (world e)"
    by (simp_all add: holds_def host_ok_def)
  have vm: "vm_ok vm" using assms P by simp
  have keep: "keeps (host_ok X, False) e e'" if "same_face e e'" "size_ok (world e')" for e'
    using that P by (simp add: keeps_def holds_def host_ok_def)
  show "keeps (host_ok X, False) e e'" if "h_setStore (extHost X vm) e k v = Some e'"
    using that ExtVM_setStore_ok [OF s, of X k v] by (auto simp: extHost_def to_option_def split: sum.splits intro: keep)
  show "keeps (host_ok X, False) e e'" if "h_suicide (extHost X vm) e a = Some e'"
    using that ExtVM_suicide_ok [OF s, of X a] by (auto simp: extHost_def to_option_def split: sum.splits intro: keep)
  show "keeps (host_ok X, False) e (h_log (extHost X vm) e ts bs)"
    by (simp add: extHost_def ExtVM_log_def)
  show "keeps (host_ok X, False) e e'" if "h_blockHash (extHost X vm) e n = Some (h, e')"
    using yields_option [OF ExtVM_blockHash_ok [OF P vm s]] that by (auto simp: extHost_def intro: keep)
  show "length (h_codeAt (extHost X vm) e a) < 2 ^ 64"
    using sized_code [OF s, of "x_keccak X" a]
    by (auto simp: extHost_def value_of_def sized_read_def codeLimit_def split: sum.splits)
  show "keeps (host_ok X, False) e e'" "g' \<le> g" "length (create_output r) < 2 ^ 64"
    if "create_shape (extHost X vm) e v bs" "h_create (extHost X vm) e v g bs i salt = Some (r, g', e')"
    using yields_option [OF ExtVM_create_ok [OF vm s], of bs X v g i salt "(r, g', e')"] that
    by (auto simp: extHost_def codeLimit_def create_shape_def intro: keep)
  show "keeps (host_ok X, False) e e'" "g' \<le> gas p" "length (call_output c) < 2 ^ 64"
    if "call_shape (extHost X vm) e p" "h_call (extHost X vm) e p = Some (c, g', e')"
    using yields_option [OF ExtVM_call_ok [OF P vm s], of p "(c, g', e')"] that
    by (auto simp: extHost_def call_shape_def intro: keep)
qed simp_all

lemma vm_ok_exec:
  assumes "vm_ok vm" "precompiled_ok X"
  shows "vm_ok (exec (extHost X vm))"
proof -
  have host: "vm_host (extHost X vm) (host_ok X, False)"
    using assms by (intro extHost_is_host) simp
  show ?thesis
    unfolding vm_ok_def
  proof (intro allI impI)
    fix g out g' x' and x :: "State ExtVMFace"
    assume x: "face_sized x" "size_ok (world x)" and r: "exec (extHost X vm) g x = Some (out, g', x')"
    have "holds (host_ok X, False) x"
      using x(2) assms(2) by (simp add: holds_def host_ok_def)
    from vm_host.exec_ends [OF host _ _ _ this, of g] x(1) r
    show "out_sized out \<and> g' \<le> g \<and> same_face x x' \<and> size_ok (world x')"
      by (auto simp: face_sized_def out_sized_def holds_def host_ok_def)
  qed
qed

lemma vm_ok_run: "precompiled_ok X \<Longrightarrow> vm_ok (runVM X n)"
proof (induction n)
  case 0
  then show ?case by (simp add: vm_ok_def)
next
  case (Suc n)
  then show ?case using vm_ok_exec by simp
qed

text \<open>The functions of \<^verbatim>\<open>ExtVM\<close> keep the contract at every depth.\<close>

interpretation ext: vm_host "extHost X (runVM X n)" "(host_ok X, False)" for X n
  by (rule extHost_is_host) (use vm_ok_run in blast)

end
