(* ===== verification/Executive_Fees.thy ===== *)
theory Executive_Fees
  imports Executive_Safety State_Props
begin

text \<open>
  What a transaction pays and to whom. The effect of an operation on the accounts is the change of
  every balance and of every nonce; effects of operations in sequence add up.
\<close>

section \<open>Effects\<close>

definition nonce_of :: "keccak \<Rightarrow> State \<Rightarrow> address \<Rightarrow> u256" where
  "nonce_of K s a = read_acct (spec_of K s) a a_nonce (m_accountStartNonce s)"

definition hasCode_of :: "keccak \<Rightarrow> State \<Rightarrow> address \<Rightarrow> bool" where
  "hasCode_of K s a = read_acct (spec_of K s) a (\<lambda>x. a_codeHash x \<noteq> EmptySHA3 K) False"

definition effect :: "keccak \<Rightarrow> (address \<Rightarrow> u256) \<Rightarrow> (address \<Rightarrow> u256) \<Rightarrow> State \<Rightarrow> State \<Rightarrow> bool" where
  "effect K d n s s' \<longleftrightarrow> state_inv K s' \<and> same_db s s' \<and> (\<forall>a. hasCode_of K s' a = hasCode_of K s a) \<and>
     (\<forall>a. balance_of K s' a = balance_of K s a + d a) \<and> (\<forall>a. nonce_of K s' a = nonce_of K s a + n a)"

abbreviation only :: "address \<Rightarrow> u256 \<Rightarrow> address \<Rightarrow> u256" where
  "only a v \<equiv> (\<lambda>b. if b = a then v else 0)"

lemma effect_inv: "effect K d n s s' \<Longrightarrow> state_inv K s'"
  by (simp add: effect_def)

lemma effect_trans:
  "effect K d n s s' \<Longrightarrow> effect K d' n' s' s'' \<Longrightarrow> effect K (\<lambda>a. d a + d' a) (\<lambda>a. n a + n' a) s s''"
  by (auto simp: effect_def add.assoc intro: same_db_trans)

lemma effect_refl: "state_inv K s \<Longrightarrow> effect K (\<lambda>_. 0) (\<lambda>_. 0) s s"
  by (simp add: effect_def)

lemma same_db_startNonce: "same_db s s' \<Longrightarrow> m_accountStartNonce s' = m_accountStartNonce s"
  by (simp add: same_db_def)

lemma effect_startNonce: "effect K d n s s' \<Longrightarrow> m_accountStartNonce s' = m_accountStartNonce s"
  by (simp add: effect_def same_db_startNonce)

lemma effect_view: "same_view K s s' \<Longrightarrow> effect K (\<lambda>_. 0) (\<lambda>_. 0) s s'"
  by (auto simp: effect_def same_view_def balance_of_def nonce_of_def hasCode_of_def same_db_startNonce)

text \<open>An operation that refines one on the plain map has the effect that one has.\<close>

lemma refines_effect:
  assumes "refines K s r (Inr \<sigma>')"
    and "\<And>a. read_acct \<sigma>' a a_balance 0 = read_acct (spec_of K s) a a_balance 0 + d a"
    and "\<And>a z. z = m_accountStartNonce s \<Longrightarrow> read_acct \<sigma>' a a_nonce z = read_acct (spec_of K s) a a_nonce z + n a"
    and "\<And>a. read_acct \<sigma>' a (\<lambda>x. a_codeHash x \<noteq> EmptySHA3 K) False =
      read_acct (spec_of K s) a (\<lambda>x. a_codeHash x \<noteq> EmptySHA3 K) False"
  shows "\<exists>s'. r = Inr s' \<and> effect K d n s s'"
  using assms by (cases r)
    (auto simp: refines_def effect_def balance_of_def nonce_of_def hasCode_of_def fun_eq_iff same_db_startNonce)

lemma effect_addBalance:
  assumes inv: "state_inv K s" and st: "m_accountStartNonce s \<noteq> Invalid256"
  shows "\<exists>s'. State_addBalance K a v s = Inr s' \<and> effect K (only a v) (\<lambda>_. 0) s s'"
proof -
  let ?g = "ground_of K s" and ?s = "spec_of K s"
  have nonce: "spec_startNonce ?g = Inr (m_accountStartNonce s)"
    using st by (simp add: spec_startNonce_def)
  obtain \<sigma>' where r: "spec_addBalance K ?g a v ?s = Inr \<sigma>'"
    using nonce by (cases "accts ?s a") (auto simp: spec_addBalance_def)
  have other: "accts \<sigma>' b = accts ?s b" if "b \<noteq> a" for b
    using r nonce that by (auto simp: spec_addBalance_def spec_create_def split: option.splits if_splits)
  have same: "read_acct \<sigma>' b f z = read_acct ?s b f z"
    if "\<And>x. f (x\<lparr>a_balance := a_balance x + v\<rparr>) = f x" "f (a_fresh K (g_storage ?g) True (m_accountStartNonce s) v) = z" for b f z
    using r nonce that other [of b]
    by (cases "b = a") (auto simp: read_acct_def spec_addBalance_def spec_create_def split: option.splits if_splits)
  show ?thesis
    using refine_addBalance [OF inv, of a v] unfolding r
    by (rule refines_effect) (auto simp: spec_addBalance_balance [OF r] same a_fresh_def)
qed

lemma effect_subBalance:
  assumes inv: "state_inv K s" and st: "m_accountStartNonce s \<noteq> Invalid256" and v: "v \<le> balance_of K s a"
  shows "\<exists>s'. State_subBalance K a v s = Inr s' \<and> effect K (only a (- v)) (\<lambda>_. 0) s s'"
proof (cases "v = 0")
  case True
  then show ?thesis using effect_refl [OF inv] by (simp add: State_subBalance_def cong: if_cong)
next
  case False
  let ?g = "ground_of K s" and ?s = "spec_of K s"
  obtain s1 where add: "State_addBalance K a (- v) s = Inr s1" "effect K (only a (- v)) (\<lambda>_. 0) s s1"
    using effect_addBalance [OF inv st] by blast
  have r: "spec_addBalance K ?g a (- v) ?s = Inr (spec_of K s1)"
    using refine_addBalance [OF inv, of a "- v"] by (simp add: add(1) refines_def)
  have "spec_subBalance K ?g a v ?s = spec_addBalance K ?g a (- v) ?s"
    using v False by (cases "accts ?s a")
      (auto simp: spec_subBalance_def balance_of_def read_acct_def not_less [symmetric] word_gt_0 split: option.splits)
  then have "refines K s (State_subBalance K a v s) (Inr (spec_of K s1))"
    using refine_subBalance [OF inv, of a v] by (simp add: r)
  then show ?thesis
    using add(2) by (cases "State_subBalance K a v s")
      (auto simp: refines_def effect_def balance_of_def nonce_of_def hasCode_of_def same_db_startNonce)
qed

lemma effect_transfer:
  assumes inv: "state_inv K s" and st: "m_accountStartNonce s \<noteq> Invalid256" and v: "v \<le> balance_of K s a"
  shows "\<exists>s'. State_transferBalance K a b v s = Inr s' \<and>
    effect K (\<lambda>c. only a (- v) c + only b v c) (\<lambda>_. 0) s s'"
proof -
  obtain s1 where s1: "State_subBalance K a v s = Inr s1" "effect K (only a (- v)) (\<lambda>_. 0) s s1"
    using effect_subBalance [OF assms] by blast
  obtain s2 where s2: "State_addBalance K b v s1 = Inr s2" "effect K (only b v) (\<lambda>_. 0) s1 s2"
    using effect_addBalance [OF effect_inv [OF s1(2)], of b v] st effect_startNonce [OF s1(2)] by auto
  show ?thesis
    using effect_trans [OF s1(2) s2(2)] s1(1) s2(1) by (simp add: State_transferBalance_def)
qed

lemma effect_incNonce:
  assumes inv: "state_inv K s" and st: "m_accountStartNonce s \<noteq> Invalid256"
  shows "\<exists>s'. State_incNonce K a s = Inr s' \<and> effect K (\<lambda>_. 0) (only a 1) s s'"
proof -
  let ?g = "ground_of K s" and ?s = "spec_of K s"
  have nonce: "spec_startNonce ?g = Inr (m_accountStartNonce s)"
    using st by (simp add: spec_startNonce_def)
  obtain \<sigma>' where r: "spec_incNonce K ?g a ?s = Inr \<sigma>'"
    using nonce by (cases "accts ?s a") (auto simp: spec_incNonce_def)
  show ?thesis
    using refine_incNonce [OF inv, of a] unfolding r
    by (rule refines_effect)
      (use r nonce in \<open>auto simp: spec_incNonce_def spec_create_def read_acct_def a_fresh_def split: option.splits if_splits\<close>)
qed

section \<open>The parts of a transaction\<close>

lemma on_state_step: "f (e_s e) = Inr s' \<Longrightarrow> on_state f e = Inr (e\<lparr>e_s := s'\<rparr>)"
  by (simp add: on_state_def)

lemma ask_reads:
  assumes "reads K (e_s e) (f (e_s e)) v"
  obtains s' where "ask_state f e = Inr (v, e\<lparr>e_s := s'\<rparr>)" "effect K (\<lambda>_. 0) (\<lambda>_. 0) (e_s e) s'" "state_inv K s'"
  using assms effect_view by (auto simp: reads_def ask_state_def same_view_def)

lemma sender_tx_fields:
  assumes "sender_tx K R t = Inr (a, t')"
  shows "t_sender t' = a" "t_type t' = t_type t" "t_gas t' = t_gas t" "t_gasPrice t' = t_gasPrice t" "t_value t' = t_value t"
    "t_data t' = t_data t" "t_receiveAddress t' = t_receiveAddress t"
  using assms by (cases t; auto simp: sender_tx_def sha3_tx_def split: if_splits option.splits)+

lemma sender_again: "t_sender t = a \<Longrightarrow> a \<noteq> 0 \<Longrightarrow> e_t e = t \<Longrightarrow> sender_ex X e = Inr (a, e)"
  by (simp add: sender_ex_def sender_tx_def)

text \<open>Fees: what is left of the gas goes back to the sender, the rest to the author of the block.\<close>

lemma payFees_effect:
  assumes inv: "state_inv (x_keccak X) (e_s e)" and st: "m_accountStartNonce (e_s e) \<noteq> Invalid256"
    and t: "isNonNull (e_t e)" "t_sender (e_t e) = a" "a \<noteq> 0"
    and e: "e_gas e = g" "gasUsed_ex e = used" "t_gasPrice (e_t e) = price" "env_author (e_envInfo e) = author"
  shows "\<exists>s'. payFees X e = Inr (e\<lparr>e_s := s'\<rparr>) \<and>
    effect (x_keccak X) (\<lambda>b. only a (g * price) b + only author (used * price) b) (\<lambda>_. 0) (e_s e) s'"
proof -
  obtain s1 where s1: "State_addBalance (x_keccak X) a (g * price) (e_s e) = Inr s1"
    "effect (x_keccak X) (only a (g * price)) (\<lambda>_. 0) (e_s e) s1"
    using effect_addBalance [OF inv st] by blast
  obtain s2 where s2: "State_addBalance (x_keccak X) author (used * price) s1 = Inr s2"
    "effect (x_keccak X) (only author (used * price)) (\<lambda>_. 0) s1 s2"
    using effect_addBalance [OF effect_inv [OF s1(2)]] st effect_startNonce [OF s1(2)] by metis
  show ?thesis
    using effect_trans [OF s1(2) s2(2)] s1(1) s2(1) t e
    by (auto simp: payFees_def sender_again [OF t(2,3)] on_state_step gasUsed_ex_def)
qed

text \<open>Where no code has run there are no refunds, no suicides and no logs.\<close>

lemma finalize_plain:
  assumes inv: "state_inv (x_keccak X) (e_s e)" and st: "m_accountStartNonce (e_s e) \<noteq> Invalid256"
    and x: "e_ext e = None" and t: "isNonNull (e_t e)" "t_sender (e_t e) = a" "a \<noteq> 0"
    and e: "e_gas e = g" "gasUsed_ex e = used" "t_gasPrice (e_t e) = price" "env_author (e_envInfo e) = author"
  shows "\<exists>s'. finalize_ex X e = Inr (e_excepted e = TE_None, collectResult (e\<lparr>e_refunded := 0, e_s := s'\<rparr>)) \<and>
    effect (x_keccak X) (\<lambda>b. only a (g * price) b + only author (used * price) b) (\<lambda>_. 0) (e_s e) s'"
proof -
  have acc: "accumulateRefunds e = e\<lparr>e_refunded := 0\<rparr>"
    using x by (simp add: accumulateRefunds_def Let_def)
  obtain s' where s': "payFees X (e\<lparr>e_refunded := 0\<rparr>) = Inr (e\<lparr>e_refunded := 0, e_s := s'\<rparr>)"
    "effect (x_keccak X) (\<lambda>b. only a (g * price) b + only author (used * price) b) (\<lambda>_. 0) (e_s e) s'"
    using payFees_effect [of X "e\<lparr>e_refunded := 0\<rparr>" a g used price author] assms by (auto simp: gasUsed_ex_def)
  then show ?thesis
    using x by (auto simp: finalize_ex_def acc killSuicides_def)
qed

lemma uint_cost:
  "unat v + unat g * unat p \<le> unat b \<Longrightarrow> uint v + uint g * uint p \<le> uint (b :: u256)" for v g p :: u256
  using of_nat_le_iff [of "unat v + unat g * unat p" "unat b", where 'a = int] by simp

text \<open>An accepted transaction: the cost is the product of gas and price, without wrap-around.\<close>

lemma initialize_effect:
  assumes inv: "state_inv (x_keccak X) (e_s e)"
    and ver: "verifyTransaction (x_engine X) Everything t (e_envInfo e) (env_gasUsed (e_envInfo e)) = Inr ()"
    and t: "\<not> hasZeroSignature t" "sender_tx (x_keccak X) (x_recover X) t = Inr (a, t')"
    and nonce: "t_nonce t = nonce_of (x_keccak X) (e_s e) a"
    and funds: "unat (t_value t) + unat (t_gas t) * unat (t_gasPrice t) \<le> unat (balance_of (x_keccak X) (e_s e) a)"
  shows "\<exists>s'. initialize_ex X t e = Inr (e\<lparr>e_baseGasRequired := baseGasRequired (isCreation_tx t) (t_data t)
        (evmSchedule_se (x_engine X) (env_number256 (e_envInfo e))), e_t := t', e_s := s',
      e_gasCost := t_gas t * t_gasPrice t\<rparr>) \<and>
    effect (x_keccak X) (\<lambda>_. 0) (\<lambda>_. 0) (e_s e) s'"
proof -
  let ?K = "x_keccak X"
  let ?e = "e\<lparr>e_baseGasRequired := baseGasRequired (isCreation_tx t) (t_data t)
        (evmSchedule_se (x_engine X) (env_number256 (e_envInfo e))), e_t := t'\<rparr>"
  obtain s1 where s1: "ask_state (State_getNonce ?K a) ?e = Inr (nonce_of ?K (e_s e) a, ?e\<lparr>e_s := s1\<rparr>)"
    "effect ?K (\<lambda>_. 0) (\<lambda>_. 0) (e_s e) s1" "state_inv ?K s1"
    using read_ops(2) [OF inv, of a] by (auto simp: nonce_of_def elim: ask_reads [of ?K ?e, simplified])
  have bal: "balance_of ?K s1 a = balance_of ?K (e_s e) a"
    using s1(2) by (simp add: effect_def)
  obtain s2 where s2: "ask_state (State_balance ?K a) (?e\<lparr>e_s := s1\<rparr>) = Inr (balance_of ?K (e_s e) a, ?e\<lparr>e_s := s2\<rparr>)"
    "effect ?K (\<lambda>_. 0) (\<lambda>_. 0) s1 s2"
    using read_ops(1) [OF s1(3), of a] bal
    by (auto simp: balance_of_def elim: ask_reads [of ?K "?e\<lparr>e_s := s1\<rparr>", simplified])
  have fit: "\<not> uint (balance_of ?K (e_s e) a) < uint (t_value t) + uint (t_gas t) * uint (t_gasPrice t)"
    using uint_cost [OF funds] by simp
  have cost: "word_of_int (uint (t_gas t) * uint (t_gasPrice t)) = t_gas t * t_gasPrice t"
    by simp
  have "initialize_ex X t e = Inr (?e\<lparr>e_s := s2, e_gasCost := t_gas t * t_gasPrice t\<rparr>)"
    using t(1) s1(1) s2(1) fit
    by (simp add: initialize_ex_def Let_def sender_ex_def cost ver t(2) nonce)
  then show ?thesis
    using effect_trans [OF s1(2) s2(2)] by auto
qed

lemma initialize_nonce:
  assumes inv: "state_inv (x_keccak X) (e_s e)"
    and ver: "verifyTransaction (x_engine X) Everything t (e_envInfo e) (env_gasUsed (e_envInfo e)) = Inr ()"
    and t: "\<not> hasZeroSignature t" "sender_tx (x_keccak X) (x_recover X) t = Inr (a, t')"
    and bad: "t_nonce t \<noteq> nonce_of (x_keccak X) (e_s e) a"
  shows "initialize_ex X t e = Inl InvalidNonce"
proof -
  let ?K = "x_keccak X"
  let ?e = "e\<lparr>e_baseGasRequired := baseGasRequired (isCreation_tx t) (t_data t)
        (evmSchedule_se (x_engine X) (env_number256 (e_envInfo e))), e_t := t'\<rparr>"
  obtain s1 where "ask_state (State_getNonce ?K a) ?e = Inr (nonce_of ?K (e_s e) a, ?e\<lparr>e_s := s1\<rparr>)"
    using read_ops(2) [OF inv, of a] by (auto simp: nonce_of_def elim: ask_reads [of ?K ?e, simplified])
  then show ?thesis
    using bad t(1) by (simp add: initialize_ex_def Let_def sender_ex_def ver t(2))
qed

lemma initialize_poor:
  assumes inv: "state_inv (x_keccak X) (e_s e)"
    and ver: "verifyTransaction (x_engine X) Everything t (e_envInfo e) (env_gasUsed (e_envInfo e)) = Inr ()"
    and t: "\<not> hasZeroSignature t" "sender_tx (x_keccak X) (x_recover X) t = Inr (a, t')"
    and nonce: "t_nonce t = nonce_of (x_keccak X) (e_s e) a"
    and poor: "uint (balance_of (x_keccak X) (e_s e) a) < uint (t_value t) + uint (t_gas t) * uint (t_gasPrice t)"
  shows "initialize_ex X t e = Inl (ExState NotEnoughCash)"
proof -
  let ?K = "x_keccak X"
  let ?e = "e\<lparr>e_baseGasRequired := baseGasRequired (isCreation_tx t) (t_data t)
        (evmSchedule_se (x_engine X) (env_number256 (e_envInfo e))), e_t := t'\<rparr>"
  obtain s1 where s1: "ask_state (State_getNonce ?K a) ?e = Inr (nonce_of ?K (e_s e) a, ?e\<lparr>e_s := s1\<rparr>)"
    "effect ?K (\<lambda>_. 0) (\<lambda>_. 0) (e_s e) s1" "state_inv ?K s1"
    using read_ops(2) [OF inv, of a] by (auto simp: nonce_of_def elim: ask_reads [of ?K ?e, simplified])
  have bal: "balance_of ?K s1 a = balance_of ?K (e_s e) a"
    using s1(2) by (simp add: effect_def)
  obtain s2 where s2: "ask_state (State_balance ?K a) (?e\<lparr>e_s := s1\<rparr>) = Inr (balance_of ?K (e_s e) a, ?e\<lparr>e_s := s2\<rparr>)"
    using read_ops(1) [OF s1(3), of a] bal
    by (auto simp: balance_of_def elim: ask_reads [of ?K "?e\<lparr>e_s := s1\<rparr>", simplified])
  show ?thesis
    using t(1) s1(1) s2(1) poor by (simp add: initialize_ex_def Let_def sender_ex_def ver t(2) nonce)
qed

text \<open>
  C10. What is rejected and why: a signed transaction from \<open>a\<close> is refused with the reason of the seal
  engine's check, else for a nonce that is not the sender's, else when the balance does not cover
  value and gas at the offered price, a sum computed without wrap-around; any other is accepted, and
  accepting it changes no balance and no nonce.
\<close>

theorem invalid_transactions_rejected:
  assumes inv: "state_inv (x_keccak X) (e_s e)"
    and t: "\<not> hasZeroSignature t" "sender_tx (x_keccak X) (x_recover X) t = Inr (a, t')"
  shows "case verifyTransaction (x_engine X) Everything t (e_envInfo e) (env_gasUsed (e_envInfo e)) of
      Inl err \<Rightarrow> initialize_ex X t e = Inl err
    | Inr _ \<Rightarrow>
        if t_nonce t \<noteq> nonce_of (x_keccak X) (e_s e) a then initialize_ex X t e = Inl InvalidNonce
        else if unat (balance_of (x_keccak X) (e_s e) a) < unat (t_value t) + unat (t_gas t) * unat (t_gasPrice t)
        then initialize_ex X t e = Inl (ExState NotEnoughCash)
        else \<exists>e'. initialize_ex X t e = Inr e' \<and> unat (e_gasCost e') = unat (t_gas t) * unat (t_gasPrice t) \<and>
          effect (x_keccak X) (\<lambda>_. 0) (\<lambda>_. 0) (e_s e) (e_s e')"
proof (cases "verifyTransaction (x_engine X) Everything t (e_envInfo e) (env_gasUsed (e_envInfo e))")
  case (Inl err)
  then show ?thesis by (simp add: initialize_ex_def Let_def)
next
  case (Inr u)
  let ?b = "balance_of (x_keccak X) (e_s e) a"
  have poor: "uint ?b < uint (t_value t) + uint (t_gas t) * uint (t_gasPrice t)"
    if "unat ?b < unat (t_value t) + unat (t_gas t) * unat (t_gasPrice t)"
    using that of_nat_less_iff [of "unat ?b" "unat (t_value t) + unat (t_gas t) * unat (t_gasPrice t)", where 'a = int] by simp
  have cost: "unat (t_gas t * t_gasPrice t) = unat (t_gas t) * unat (t_gasPrice t)"
    if "unat (t_value t) + unat (t_gas t) * unat (t_gasPrice t) \<le> unat ?b"
    using that unsigned_less [of ?b, where 'a = nat] by (intro unat_mult_lem [THEN iffD1]) simp
  show ?thesis
    using Inr initialize_nonce [OF inv _ t] initialize_poor [OF inv _ t _ poor] initialize_effect [OF inv _ t] cost
    by (auto simp: not_less)
qed

text \<open>A call of an account without code: the nonce, and the value that moves.\<close>

definition nonce_step :: "ctx \<Rightarrow> EnvInfo \<Rightarrow> address \<Rightarrow> address \<Rightarrow> u256" where
  "nonce_step X env a = (if a \<noteq> MaxAddress \<or> \<not> reached env (p_constantinopleForkBlock (x_params X)) then only a 1 else (\<lambda>_. 0))"

lemma call_tx_effect:
  assumes inv: "state_inv (x_keccak X) (e_s e)" and st: "m_accountStartNonce (e_s e) \<noteq> Invalid256"
    and t: "isNonNull (e_t e)" and x: "e_ext e = None"
    and v: "v \<le> balance_of (x_keccak X) (e_s e) a"
    and r: "\<not> isPrecompiled (x_engine X) b (env_number256 (e_envInfo e))" "\<not> hasCode_of (x_keccak X) (e_s e) b"
  shows "\<exists>s' sp. call_tx X b a v price data g e = Inr (True, e\<lparr>e_savepoint := sp, e_gas := g, e_s := s'\<rparr>) \<and>
    effect (x_keccak X) (\<lambda>c. only a (- v) c + only b v c) (nonce_step X (e_envInfo e) a) (e_s e) s'"
proof -
  let ?K = "x_keccak X"
  let ?go = "a \<noteq> MaxAddress \<or> \<not> reached (e_envInfo e) (p_constantinopleForkBlock (x_params X))"
  obtain s1 where s1: "(if ?go then on_state (State_incNonce ?K a) e else Inr e) = Inr (e\<lparr>e_s := s1\<rparr>)"
    "effect ?K (\<lambda>_. 0) (nonce_step X (e_envInfo e) a) (e_s e) s1"
  proof (cases ?go)
    case True
    then show ?thesis
      using effect_incNonce [OF inv st, of a] that by (auto simp: nonce_step_def on_state_step)
  next
    case False
    then show ?thesis
      using effect_refl [OF inv] that [of "e_s e"] by (simp add: nonce_step_def)
  qed
  let ?e = "e\<lparr>e_s := s1, e_savepoint := State_savepoint s1, e_gas := g\<rparr>"
  have s1_facts: "state_inv ?K s1" "m_accountStartNonce s1 = m_accountStartNonce (e_s e)"
    "hasCode_of ?K s1 b = hasCode_of ?K (e_s e) b" "balance_of ?K s1 a = balance_of ?K (e_s e) a"
    using s1(2) by (simp_all add: effect_def same_db_startNonce)
  have "reads ?K s1 (State_addressHasCode ?K b s1) False"
    using read_ops(5) [OF s1_facts(1), of b] r(2) s1_facts(3) by (simp add: hasCode_of_def)
  then obtain s2 where s2: "ask_state (State_addressHasCode ?K b) ?e = Inr (False, ?e\<lparr>e_s := s2\<rparr>)"
    "effect ?K (\<lambda>_. 0) (\<lambda>_. 0) s1 s2" "state_inv ?K s2"
    by (auto elim: ask_reads [of ?K ?e, simplified])
  have "v \<le> balance_of ?K s2 a" "m_accountStartNonce s2 \<noteq> Invalid256"
    using effect_startNonce [OF s2(2)] s2(2) v st s1_facts by (simp_all add: effect_def)
  then obtain s3 where s3: "State_transferBalance ?K a b v s2 = Inr s3"
    "effect ?K (\<lambda>c. only a (- v) c + only b v c) (\<lambda>_. 0) s2 s3"
    using effect_transfer [OF s2(3)] by blast
  let ?p = "\<lparr>senderAddress = a, codeAddress = b, receiveAddress = b, valueTransfer = v,
      apparentValue = v, gas = g, call_data = data, call_static = False\<rparr>"
  have pre: "(if isNonNull (e_t e) \<and> ?go then on_state (State_incNonce ?K a) e else Inr e) = Inr (e\<lparr>e_s := s1\<rparr>)"
    using s1(1) t by simp
  have acc: "callAccount X ?p price a (e\<lparr>e_s := s1, e_savepoint := State_savepoint s1\<rparr>) = Inr (False, ?e\<lparr>e_s := s2\<rparr>)"
    using s2(1) by (simp add: callAccount_def Let_def)
  have move: "on_state (State_transferBalance ?K a b v) (?e\<lparr>e_s := s2\<rparr>) = Inr (?e\<lparr>e_s := s3\<rparr>)"
    using s3(1) by (simp add: on_state_step)
  have "call_tx X b a v price data g e = Inr (e_ext (?e\<lparr>e_s := s3\<rparr>) = None, ?e\<lparr>e_s := s3\<rparr>)"
    using r(1) acc move unfolding call_tx_def call_ex_def Let_def CallParameters.simps pre sum_bind.simps
    by (simp del: sum_bind_eq_Inr)
  then have "call_tx X b a v price data g e = Inr (True, ?e\<lparr>e_s := s3\<rparr>)"
    using x by simp
  then show ?thesis
    using effect_trans [OF s1(2) effect_trans [OF s2(2) s3(2)]] by auto
qed

section \<open>Transactions that move value\<close>

text \<open>
  C6. A transaction to an account without code settles exactly: it is executed, uses its intrinsic
  gas, increments the sender's nonce, moves the value to the receiver and the fee, the intrinsic gas
  at the offered price, to the author of the block; no other account changes its balance or its nonce.
\<close>

theorem transfer_transaction_settles:
  assumes inv: "state_inv (x_keccak X) s" and st: "m_accountStartNonce s \<noteq> Invalid256"
    and ver: "verifyTransaction (x_engine X) Everything t env (env_gasUsed env) = Inr ()"
    and t: "t_type t = MessageCall" "\<not> hasZeroSignature t" "sender_tx (x_keccak X) (x_recover X) t = Inr (a, t')" "a \<noteq> 0"
    and nonce: "t_nonce t = nonce_of (x_keccak X) s a"
    and funds: "unat (t_value t) + unat (t_gas t) * unat (t_gasPrice t) \<le> unat (balance_of (x_keccak X) s a)"
    and r: "\<not> isPrecompiled (x_engine X) (t_receiveAddress t) (env_number256 env)"
      "\<not> hasCode_of (x_keccak X) s (t_receiveAddress t)"
  defines "used \<equiv> scast (baseGasRequired False (t_data t) (evmSchedule_se (x_engine X) (env_number256 env))) :: u256"
  shows "\<exists>res e s'. State_execute X vm env t Uncommitted s = Inr (res, True, e, s') \<and>
    r_gasUsed res = used \<and> r_excepted res = TE_None \<and>
    effect (x_keccak X)
      (\<lambda>b. only a (- (t_value t + used * t_gasPrice t)) b + only (t_receiveAddress t) (t_value t) b +
        only (env_author env) (used * t_gasPrice t) b) (nonce_step X env a) s s'"
proof -
  let ?K = "x_keccak X"
  let ?e0 = "(newExecutive s env 0)\<lparr>e_res := Some ExecutionResult_new\<rparr>"
  let ?cost = "t_gas t * t_gasPrice t"
  have ms: "isNonNull t'" "\<not> isCreation_tx t'" "t_sender t' = a" "t_gas t' = t_gas t" "t_gasPrice t' = t_gasPrice t" "t_value t' = t_value t"
    "t_data t' = t_data t" "t_receiveAddress t' = t_receiveAddress t"
    using sender_tx_fields [OF t(3)] t(1) by (auto simp: isNonNull_def isCreation_tx_def)
  have t0: "\<not> isCreation_tx t"
    using t(1) by (simp add: isCreation_tx_def)
  have e0: "e_s ?e0 = s" "e_envInfo ?e0 = env" "e_ext ?e0 = None" "e_excepted ?e0 = TE_None"
    by (simp_all add: newExecutive_def)
  obtain s1 where s1: "initialize_ex X t ?e0 = Inr (?e0\<lparr>e_baseGasRequired := baseGasRequired False (t_data t) (evmSchedule_se (x_engine X) (env_number256 env)),
      e_t := t', e_s := s1, e_gasCost := ?cost\<rparr>)"
    "effect ?K (\<lambda>_. 0) (\<lambda>_. 0) s s1"
    using initialize_effect [of X ?e0 t a t'] inv ver t nonce funds t0 unfolding e0 by auto
  let ?e1 = "?e0\<lparr>e_baseGasRequired := baseGasRequired False (t_data t) (evmSchedule_se (x_engine X) (env_number256 env)),
      e_t := t', e_s := s1, e_gasCost := ?cost\<rparr>"
  have cost: "unat ?cost = unat (t_gas t) * unat (t_gasPrice t)"
    using funds unsigned_less [of "balance_of ?K s a", where 'a = nat] by (intro unat_mult_lem [THEN iffD1]) simp
  have s1_facts: "state_inv ?K s1" "m_accountStartNonce s1 = m_accountStartNonce s" "balance_of ?K s1 a = balance_of ?K s a"
    using s1(2) by (simp_all add: effect_def same_db_startNonce)
  have "?cost \<le> balance_of ?K s1 a"
    using funds cost s1_facts(3) by (simp add: word_le_nat_alt)
  then obtain s2 where s2: "State_subBalance ?K a ?cost s1 = Inr s2" "effect ?K (only a (- ?cost)) (\<lambda>_. 0) s1 s2"
    using effect_subBalance [OF s1_facts(1)] st s1_facts(2) by metis
  let ?e2 = "?e1\<lparr>e_s := s2\<rparr>"
  have s2_facts: "state_inv ?K s2" "m_accountStartNonce s2 \<noteq> Invalid256" "balance_of ?K s2 a = balance_of ?K s a - ?cost"
    "\<not> hasCode_of ?K s2 (t_receiveAddress t)"
    using effect_startNonce [OF s2(2)] s2(2) s1_facts st r(2) s1(2) by (simp_all add: effect_def)
  have left: "t_value t \<le> balance_of ?K s2 a"
    using funds cost unfolding s2_facts(3) by (simp add: word_le_nat_alt unat_sub)
  obtain s3 sp where s3: "call_tx X (t_receiveAddress t) a (t_value t) (t_gasPrice t) (t_data t) (t_gas t - used) ?e2 =
      Inr (True, ?e2\<lparr>e_savepoint := sp, e_gas := t_gas t - used, e_s := s3\<rparr>)"
    "effect ?K (\<lambda>c. only a (- t_value t) c + only (t_receiveAddress t) (t_value t) c) (nonce_step X env a) s2 s3"
    using call_tx_effect [of X ?e2 "t_value t" a "t_receiveAddress t" "t_gasPrice t" "t_data t" "t_gas t - used"] s2_facts left r(1) ms(1) e0 by auto
  let ?e3 = "?e2\<lparr>e_savepoint := sp, e_gas := t_gas t - used, e_s := s3\<rparr>"
  have ex: "execute_ex X ?e1 = Inr (True, ?e3)"
    using s2(1) s3(1) ms(2-8) t(4) by (simp add: execute_ex_def sender_again Let_def on_state_step used_def)
  have s3_facts: "state_inv ?K s3" "m_accountStartNonce s3 \<noteq> Invalid256"
    using effect_startNonce [OF s3(2)] s3(2) s2_facts by (simp_all add: effect_def)
  obtain s4 where s4: "finalize_ex X ?e3 = Inr (True, collectResult (?e3\<lparr>e_refunded := 0, e_s := s4\<rparr>))"
    "effect ?K (\<lambda>b. only a ((t_gas t - used) * t_gasPrice t) b + only (env_author env) (used * t_gasPrice t) b) (\<lambda>_. 0) s3 s4"
    using finalize_plain [of X ?e3 a "t_gas t - used" used "t_gasPrice t" "env_author env"] s3_facts ms t(4) e0
    by (auto simp: gasUsed_ex_def)
  have total: "effect ?K (\<lambda>b. only a (- (t_value t + used * t_gasPrice t)) b + only (t_receiveAddress t) (t_value t) b +
        only (env_author env) (used * t_gasPrice t) b) (nonce_step X env a) s s4"
    using effect_trans [OF s1(2) effect_trans [OF s2(2) effect_trans [OF s3(2) s4(2)]]]
    unfolding effect_def by (auto simp: algebra_simps)
  have run: "executeTransaction X vm t ?e0 = Inr (True, collectResult (?e3\<lparr>e_refunded := 0, e_s := s4\<rparr>))"
    using s1(1) ex s4(1) by (simp add: executeTransaction_def)
  have "e_ext (?e3\<lparr>e_refunded := 0, e_s := s4\<rparr>) = None" "e_res (?e3\<lparr>e_refunded := 0, e_s := s4\<rparr>) = Some ExecutionResult_new"
    by (simp_all add: newExecutive_def)
  then show ?thesis
    using total ms(4) e0(4) unfolding State_execute_def run by (simp add: collectResult_def Let_def gasUsed_ex_def with_res_def)
qed

end
