(* ===== verification/LegacyVM_Twin.thy ===== *)
theory LegacyVM_Twin
  imports LegacyVM_Exec
begin

text \<open>
  Two hosts that differ only in how they create, call and read block hashes, and do not differ where
  the interpreter asks them: its runs are the same on both.
\<close>

section \<open>Congruences\<close>

lemma bind_res_cong_wp: "wp r P E \<Longrightarrow> (\<And>s. P s \<Longrightarrow> f s = f' s) \<Longrightarrow> bind_res r f = bind_res r f'"
  by (cases r) simp_all

lemma operands_cong: "(\<And>a. k a s = k' a s) \<Longrightarrow> operands n k s = operands n k' s"
  by (simp add: operands_def)

lemma toInt63_cong: "(\<And>w. k w s = k' w s) \<Longrightarrow> toInt63 v k s = toInt63 v k' s"
  by (simp add: toInt63_def)

lemma toInt63_u32: "toInt63 (unat (g :: u32)) k s = k (ucast g) s"
  using unat_u32_less [of g] by (simp add: toInt63_def)

lemma memNeed_cong:
  "(\<And>need. unat need \<le> 0x7FFFFFFFFFFFFFFF \<Longrightarrow> k need s = k' need s) \<Longrightarrow> memNeed off siz k s = memNeed off siz k' s"
  by (simp add: memNeed_def toInt63_def toInt63_unat)

lemma readMem_cong:
  "(\<And>bs. length bs \<le> length (m_mem s) \<Longrightarrow> k bs s = k' bs s) \<Longrightarrow> readMem off n k s = readMem off n k' s"
  by (simp add: readMem_def readBytes_def)

lemma pay_cong:
  assumes s: "mem_ok s" "meter_sane (m_schedule s)" "unat need < 2 ^ 63 + 32"
      "unat (m_copyMemSize s) \<le> 0x7FFFFFFFFFFFFFFF"
      "unat (m_runGas s) < 2 ^ 33 \<or> unat (m_runGas s) < 2 ^ 63 \<and> m_copyMemSize s = 0"
    and k: "\<And>s'. paid (unat need) s s' \<Longrightarrow> k s' = k' s'"
  shows "bind_res (updateMem need s) (\<lambda>s. bind_res (updateIOGas s) k) =
    bind_res (updateMem need s) (\<lambda>s. bind_res (updateIOGas s) k')"
proof -
  have "wp (bind_res (updateMem need s) (\<lambda>s. bind_res (updateIOGas s) Ok)) (paid (unat need) s) (\<lambda>_ _. True)"
    using s by (rule wp_pay) simp_all
  then have "wp (updateMem need s) (\<lambda>s1. wp (updateIOGas s1) (paid (unat need) s) (\<lambda>_ _. True)) (\<lambda>_ _. True)"
    by simp
  then show ?thesis
    by (rule bind_res_cong_wp) (rule bind_res_cong_wp, assumption, rule k)
qed

section \<open>Twin hosts\<close>

text \<open>
  \<open>Q\<close> describes the faces on which the hosts have to agree; it speaks of the call's own data only.
\<close>

locale vm_twin = vm_host H ok for H :: "'w host" and ok +
  fixes H' :: "'w host" and Q :: "'w ExtVMFace \<Rightarrow> bool"
  assumes others: "H' = H\<lparr>h_create := h_create H', h_call := h_call H', h_blockHash := h_blockHash H'\<rparr>"
    and Q_face: "Q e \<Longrightarrow> same_face e e' \<Longrightarrow> Q e'"
    and create_twin: "holds ok e \<Longrightarrow> Q e \<Longrightarrow> create_shape H e v bs \<Longrightarrow>
      h_create H' e v g bs i salt = h_create H e v g bs i salt"
    and call_twin: "holds ok e \<Longrightarrow> Q e \<Longrightarrow> call_shape H e p \<Longrightarrow> h_call H' e p = h_call H e p"
    and blockHash_twin: "holds ok e \<Longrightarrow> Q e \<Longrightarrow> h_blockHash H' e n = h_blockHash H e n"
begin

lemma same_fields:
  "h_store H' = h_store H" "h_setStore H' = h_setStore H" "h_balance H' = h_balance H" "h_codeAt H' = h_codeAt H"
  "h_codeSizeAt H' = h_codeSizeAt H" "h_exists H' = h_exists H" "h_suicide H' = h_suicide H" "h_log H' = h_log H"
  "h_sha3 H' = h_sha3 H"
  by (subst others, simp)+

lemma BLOCKHASH_twin:
  assumes "holds ok (m_ext s)" "Q (m_ext s)"
  shows "op_BLOCKHASH H' s = op_BLOCKHASH H s"
  using assms unfolding op_BLOCKHASH_def
  by (intro operands_cong toInt63_cong bind_res_cong_wp [where P = "\<lambda>s'. m_ext s' = m_ext s" and E = "\<lambda>_ _. True"])
    (simp_all add: blockHash_twin)

lemma interpretCases_twin:
  assumes "holds ok (m_ext s)" "Q (m_ext s)"
  shows "interpretCases H' s = interpretCases H s"
  unfolding interpretCases_def op_SUICIDE_def op_SHA3_def op_LOG_def op_BALANCE_def op_EXTCODESIZE_def
    op_EXTCODECOPY_def op_SLOAD_def op_SSTORE_def updateSSGas_def same_fields BLOCKHASH_twin [OF assms] ..

lemma createPaid_twin:
  assumes "mem_ok s" "holds ok (m_ext s)" "Q (m_ext s)"
  shows "createPaid H' v salt off siz s = createPaid H v salt off siz s"
  using assms unfolding createPaid_def Let_def same_fields
  by (auto intro!: readMem_cong simp: create_twin create_shape_def mem_ok_def)

lemma caseCreate_twin:
  assumes f: "fetched s" and w: "holds ok (m_ext s)" "Q (m_ext s)"
  shows "caseCreate H' s = caseCreate H s"
proof -
  note ff = fetched_facts [OF f]
  have pay: "bind_res (updateMem need t) (\<lambda>s. bind_res (updateIOGas s) (createPaid H' v salt off siz)) =
      bind_res (updateMem need t) (\<lambda>s. bind_res (updateIOGas s) (createPaid H v salt off siz))"
    if "unat need \<le> 0x7FFFFFFFFFFFFFFF" "t = s\<lparr>m_bounce := InterpretCases, m_runGas := ucast (createGas (m_schedule s))\<rparr>"
    for need t v salt off siz
    using that ff unat_u32_less [of "createGas (m_schedule s)"] w
    by (intro pay_cong createPaid_twin) (auto simp: mem_ok_def paid_def)
  show ?thesis
    unfolding caseCreate_def Let_def toInt63_u32
    by (intro operands_cong memNeed_cong pay) simp_all
qed

lemma callSetupPaid_twin:
  assumes "mem_ok s" "holds ok (m_ext s)" "Q (m_ext s)" "m_OP s \<in> {CALL, CALLCODE, DELEGATECALL, STATICCALL}"
  shows "callSetupPaid H' (callBody H') a so s = callSetupPaid H (callBody H) a so s"
proof -
  have body: "callBody H' go p off siz t = callBody H go p off siz t"
    if "m_ext t = m_ext s" "go \<Longrightarrow> call_shape H (m_ext s) p" for go p off siz t
    using that assms by (simp add: callBody_def call_twin)
  show ?thesis
    unfolding callSetupPaid_def
  proof (intro toInt63_cong bind_res_cong_wp)
    fix g
    show "wp (updateIOGas (s\<lparr>m_runGas := g\<rparr>)) (\<lambda>t. m_ext t = m_ext s \<and> m_mem t = m_mem s \<and> m_OP t = m_OP s) (\<lambda>_ _. True)"
      by simp
    fix t :: "'w vm" assume t: "m_ext t = m_ext s \<and> m_mem t = m_mem s \<and> m_OP t = m_OP s"
    show "(let e = m_ext t; p = callParamsFor a (callGasFor (a 0) s) t; outOff = unat (ucast (a (so + 2)) :: u64);
              outSize = unat (ucast (a (so + 3)) :: u64)
          in if h_balance H' e (myAddress e) \<ge> valueTransfer p \<and> depth e < 1024
             then readMem (unat (ucast (a so) :: u64)) (unat (ucast (a (so + 1)) :: u64))
                    (\<lambda>input. callBody H' True (p\<lparr>
                      senderAddress := (if m_OP t = DELEGATECALL then caller e else myAddress e),
                      receiveAddress := (if m_OP t = CALL \<or> m_OP t = STATICCALL
                                         then codeAddress p else myAddress e),
                      call_data := input\<rparr>) outOff outSize) t
             else callBody H' False p outOff outSize t) =
        (let e = m_ext t; p = callParamsFor a (callGasFor (a 0) s) t; outOff = unat (ucast (a (so + 2)) :: u64);
              outSize = unat (ucast (a (so + 3)) :: u64)
          in if h_balance H e (myAddress e) \<ge> valueTransfer p \<and> depth e < 1024
             then readMem (unat (ucast (a so) :: u64)) (unat (ucast (a (so + 1)) :: u64))
                    (\<lambda>input. callBody H True (p\<lparr>
                      senderAddress := (if m_OP t = DELEGATECALL then caller e else myAddress e),
                      receiveAddress := (if m_OP t = CALL \<or> m_OP t = STATICCALL
                                         then codeAddress p else myAddress e),
                      call_data := input\<rparr>) outOff outSize) t
             else callBody H False p outOff outSize t)"
      unfolding Let_def same_fields using t assms
      by (auto intro!: readMem_cong body simp: call_shape_def callParamsFor_def Let_def mem_ok_def)
  qed
qed

lemma caseCall_twin:
  assumes f: "fetched s" and w: "holds ok (m_ext s)" "Q (m_ext s)" and op: "m_OP s \<in> {CALL, CALLCODE, DELEGATECALL, STATICCALL}"
  shows "caseCall H' s = caseCall H s"
proof -
  note ff = fetched_facts [OF f]
  have ch: "callCharges H' = callCharges H"
    by (intro ext) (simp add: callCharges_def same_fields)
  have pay: "bind_res (updateMem (max i j) t) (\<lambda>s. bind_res (updateIOGas s) (callSetupPaid H' (callBody H') a so)) =
      bind_res (updateMem (max i j) t) (\<lambda>s. bind_res (updateIOGas s) (callSetupPaid H (callBody H) a so))"
    if "unat i \<le> 0x7FFFFFFFFFFFFFFF" "unat j \<le> 0x7FFFFFFFFFFFFFFF"
      "t = s\<lparr>m_bounce := InterpretCases, m_returnData := [], m_runGas := callCharges H a' (s\<lparr>m_bounce := InterpretCases, m_returnData := []\<rparr>)\<rparr>"
    for i j t a' a so
    using that ff callCharges_stipend(2) [of "s\<lparr>m_bounce := InterpretCases, m_returnData := []\<rparr>" H a'] w op
    by (intro pay_cong callSetupPaid_twin) (auto simp: mem_ok_def paid_def max_def)
  show ?thesis
    unfolding caseCall_def caseCallSetup_def Let_def ch
    by (intro operands_cong memNeed_cong pay) simp_all
qed

lemma bounceStep_twin:
  assumes "ready s" "holds ok (m_ext s)" "Q (m_ext s)"
  shows "bounceStep H' s = bounceStep H s"
proof (cases "m_bounce s")
  case InterpretCases
  then have "vm_inv s" using assms(1) by (simp add: ready_def)
  from fetch_ok [OF this, of ok] have "bind_res (fetchInstruction s) (interpretCases H') = bind_res (fetchInstruction s) (interpretCases H)"
    by (rule bind_res_cong_wp)
      (use assms in \<open>auto intro!: interpretCases_twin simp: same_code_def keeps_def intro: Q_face\<close>)
  then show ?thesis by (simp add: bounceStep_def InterpretCases)
qed (use assms in \<open>simp_all add: bounceStep_def ready_def caseCreate_twin caseCall_twin\<close>)

lemma trampoline_twin:
  assumes "ready s" "m_bounce s \<noteq> Done" "holds ok (m_ext s)" "Q (m_ext s)"
  shows "trampoline H' s = trampoline H s"
  using assms
proof (induction "2 * unat (m_io_gas s) + rank (m_bounce s)" arbitrary: s rule: less_induct)
  case less
  have step: "wp (bounceStep H s) (progress ok s) (bad ok s)"
    using less.prems by (intro bounceStep_progress)
  have "trampoline H' s' = trampoline H s'" if "bounceStep H s = Ok s'" "m_bounce s' \<noteq> Done" for s'
    using that step less.prems Q_face by (intro less.hyps) (auto simp: progress_def keeps_def)
  then show ?case
    by (simp add: trampoline.simps [of _ s] bounceStep_twin [OF less.prems(1,3,4)] split: res.split)
qed

lemma exec_twin:
  assumes "sane_schedule (evmSchedule x)" and "length (ext_data x) < 2 ^ 64"
    and "length (ext_code x) + 33 < 2 ^ 63" and "holds ok x" and "Q x"
  shows "exec H' g x = exec H g x"
  unfolding exec_def using assms by (subst trampoline_twin) (simp_all add: newVM_def ready_def)

end

end
