(* ===== verification/Executive_Levels.thy ===== *)
theory Executive_Levels
  imports Executive_Safety LegacyVM_Twin
begin

text \<open>
  How many levels of calls are enough: every call is one level deeper, the interpreter makes none at
  depth 1024, and so a run from depth \<open>d\<close> gives the same result with any number of levels that is not
  below \<open>1024 - d\<close>.
\<close>

section \<open>Faces of nested executives\<close>

text \<open>The face made by an executive has the environment and the depth of the executive.\<close>

definition levelled :: "EnvInfo \<Rightarrow> nat \<Rightarrow> Executive \<Rightarrow> bool" where
  "levelled env d e \<longleftrightarrow> e_envInfo e = env \<and> e_depth e = d \<and>
     (\<forall>x. e_ext e = Some x \<longrightarrow> envInfo x = env \<and> depth x = d)"

lemma levelled_new: "levelled env d (newExecutive s env d)"
  by (simp add: levelled_def newExecutive_def)

lemma levelled_upd [simp]:
  "levelled env d (e\<lparr>e_s := s\<rparr>) = levelled env d e" "levelled env d (e\<lparr>e_savepoint := n\<rparr>) = levelled env d e"
  "levelled env d (e\<lparr>e_gas := g\<rparr>) = levelled env d e" "levelled env d (e\<lparr>e_excepted := t\<rparr>) = levelled env d e"
  "levelled env d (e\<lparr>e_output := bs\<rparr>) = levelled env d e" "levelled env d (e\<lparr>e_isCreation := b\<rparr>) = levelled env d e"
  "levelled env d (e\<lparr>e_newAddress := a\<rparr>) = levelled env d e" "levelled env d (e\<lparr>e_t := tx\<rparr>) = levelled env d e"
  "levelled env d (e\<lparr>e_baseGasRequired := q\<rparr>) = levelled env d e" "levelled env d (e\<lparr>e_gasCost := c\<rparr>) = levelled env d e"
  "levelled env d (e\<lparr>e_res := r\<rparr>) = levelled env d e"
  by (simp_all add: levelled_def)

lemma levelled_face: "levelled env d e \<Longrightarrow> levelled env d (e\<lparr>e_ext := Some (newFace X e me sndr orig v p data code c st)\<rparr>)"
  by (simp add: levelled_def newFace_def)

lemma levelled_no_face: "levelled env d e \<Longrightarrow> levelled env d (e\<lparr>e_ext := None\<rparr>)"
  by (simp add: levelled_def)

text \<open>A predicate of every result that is returned.\<close>

definition leads :: "('a \<Rightarrow> bool) \<Rightarrow> 'e + 'a \<Rightarrow> bool" where
  "leads Q r \<longleftrightarrow> (\<forall>v. r = Inr v \<longrightarrow> Q v)"

lemma leads_simps [simp]: "leads Q (Inr v) = Q v" "leads Q (Inl e)"
  by (simp_all add: leads_def)

lemma leads_bind: "leads Q r \<Longrightarrow> (\<And>v. Q v \<Longrightarrow> leads R (f v)) \<Longrightarrow> leads R (sum_bind r f)"
  by (cases r) simp_all

lemma leads_bind_any: "(\<And>v. leads R (f v)) \<Longrightarrow> leads R (sum_bind r f)"
  by (cases r) simp_all

abbreviation at_level :: "EnvInfo \<Rightarrow> nat \<Rightarrow> 'a \<times> Executive \<Rightarrow> bool" where
  "at_level env d r \<equiv> levelled env d (snd r)"

lemma levelled_state:
  assumes "levelled env d e"
  shows "leads (levelled env d) (on_state f e)" "leads (at_level env d) (ask_state h e)"
    "leads (levelled env d) (revert_ex X e)"
  using assms by (auto simp: leads_def revert_ex_def on_state_def ask_state_def levelled_def)

lemma levelled_precompiled:
  assumes "levelled env d e"
  shows "leads (at_level env d) (callPrecompiled X p e)"
  using assms unfolding callPrecompiled_def Let_def
  by (auto split: option.split prod.split intro!: leads_bind [OF levelled_state(1)])

lemma levelled_account:
  assumes "levelled env d e"
  shows "leads (at_level env d) (callAccount X p price orig e)"
  using assms unfolding callAccount_def Let_def
  by (auto split: prod.split intro!: leads_bind [OF levelled_state(2)] levelled_face)

lemma levelled_call:
  assumes e: "levelled env d e"
  shows "leads (at_level env d) (call_ex X p price orig e)"
proof -
  have inc: "leads (levelled env d) (if b then on_state (State_incNonce K a) e else Inr e)" for b K a
    using e levelled_state(1) [OF e] by simp
  have callee: "leads (at_level env d) (if b then callPrecompiled X p e1 else callAccount X p price orig e1)"
    if "levelled env d e1" for b e1
    using levelled_precompiled [OF that] levelled_account [OF that] by simp
  show ?thesis
    unfolding call_ex_def Let_def
    by (rule leads_bind [OF inc], rule leads_bind [OF callee])
      (auto split: prod.split intro!: leads_bind [OF levelled_state(1)])
qed

lemma levelled_create:
  assumes e: "levelled env d e"
  shows "leads (at_level env d) (executeCreate X sender endowment price g init orig e)"
proof -
  have inc: "leads (levelled env d) (if b then on_state (State_incNonce K a) e else Inr e)" for b K a
    using e levelled_state(1) [OF e] by simp
  have taken: "leads (at_level env d) (if has then Inr (True, e1)
      else sum_bind (ask_state (State_getNonce K a) e1) (\<lambda>(n, e). Inr (n > 0, e)))"
    if "levelled env d e1" for has K a e1
    using that by (auto intro!: leads_bind [OF levelled_state(2)] split: prod.split)
  have make: "leads (at_level env d) (sum_bind (on_state (State_transferBalance K a b v) e1) (\<lambda>e.
      sum_bind (r e) (\<lambda>n. sum_bind (on_state (h n e) e) (\<lambda>e. k e))))"
    if "levelled env d e1" "\<And>e2. levelled env d e2 \<Longrightarrow> leads (at_level env d) (k e2)" for K a b v e1 r h k
    using that by (intro leads_bind [OF levelled_state(1)] leads_bind_any)
  have clash: "leads (at_level env d) (sum_bind (revert_ex X e1) (\<lambda>e. Inr (True, e\<lparr>e_ext := None\<rparr>)))"
    if "levelled env d e1" for e1
    using that by (intro leads_bind [OF levelled_state(3)]) (auto intro: levelled_no_face)
  show ?thesis
    unfolding executeCreate_def Let_def
    by (rule leads_bind [OF inc], rule leads_bind [OF levelled_state(2)], simp,
        simp only: case_prod_beta, rule leads_bind [OF taken], assumption)
      (auto simp: case_prod_beta clash intro!: make levelled_face)
qed

lemma levelled_createOpcode:
  assumes e: "levelled env d e"
  shows "leads (at_level env d) (createOpcode X sender endowment price g init orig e)"
    "leads (at_level env d) (create2Opcode X sender endowment price g init orig salt e)"
proof -
  show "leads (at_level env d) (createOpcode X sender endowment price g init orig e)"
    unfolding createOpcode_def
    by (rule leads_bind [OF levelled_state(2) [OF e]])
      (auto split: prod.split intro!: leads_bind_any levelled_create)
  show "leads (at_level env d) (create2Opcode X sender endowment price g init orig salt e)"
    using e unfolding create2Opcode_def Let_def by (intro levelled_create) simp
qed

lemma levelled_sender: "levelled env d e \<Longrightarrow> leads (at_level env d) (sender_ex X e)"
  unfolding sender_ex_def by (intro leads_bind_any) (auto split: prod.split)

lemma levelled_initialize:
  assumes "levelled env d e"
  shows "leads (levelled env d) (initialize_ex X t e)"
proof -
  have checks: "leads (levelled env d) (sum_bind (ask_state f e1) (\<lambda>(n, e).
      if t_nonce t \<noteq> n then Inl InvalidNonce
      else sum_bind (ask_state h e) (\<lambda>(bal, e). if uint bal < total then Inl err else Inr (e\<lparr>e_gasCost := c\<rparr>))))"
    if "levelled env d e1" for f h e1 total err c
    using that by (auto intro!: leads_bind [OF levelled_state(2)])
  show ?thesis
    using assms unfolding initialize_ex_def Let_def
    by (intro leads_bind_any) (auto intro!: leads_bind [OF levelled_sender] checks)
qed

lemma levelled_execute:
  assumes "levelled env d e"
  shows "leads (at_level env d) (execute_ex X e)"
  using assms unfolding execute_ex_def Let_def call_tx_def create_ex_def
  by (auto intro!: leads_bind [OF levelled_sender] leads_bind [OF levelled_state(1)]
      levelled_call levelled_createOpcode(1))

section \<open>Enough levels\<close>

text \<open>Two interpreters that agree on the faces of one level.\<close>

definition vm_agree :: "EnvInfo \<Rightarrow> nat \<Rightarrow> vm_fun \<Rightarrow> vm_fun \<Rightarrow> bool" where
  "vm_agree env d vm vm' \<longleftrightarrow> (\<forall>g x. face_sized x \<longrightarrow> size_ok (world x) \<longrightarrow> envInfo x = env \<longrightarrow> depth x = d \<longrightarrow>
     vm' g x = vm g x)"

lemma go_agree:
  assumes "vm_agree env d vm vm'" "levelled env d e" "ex_ok G e"
  shows "go_ex X vm' e = go_ex X vm e"
proof (cases "e_ext e")
  case None
  then show ?thesis by (simp add: go_ex_def)
next
  case (Some x)
  then have "vm' (e_gas e) (x\<lparr>world := s\<rparr>) = vm (e_gas e) (x\<lparr>world := s\<rparr>)" if "size_ok s" for s
    using assms that by (simp add: vm_agree_def levelled_def ex_ok_def)
  then show ?thesis
    using Some assms(3) by (simp add: go_ex_def Let_def sized_clearStorage ex_ok_def)
qed

lemma rest_agree:
  assumes "vm_agree env d vm vm'" "leads (at_level env d) r" "yields (\<lambda>(_, e). ex_ok G e) r"
  shows "sum_bind r (\<lambda>(finished, e). sum_bind (if finished then Inr (e, x)
        else sum_bind (go_ex X vm' e) (\<lambda>e. Inr (e, x\<lparr>sub := accrueSubState e (sub x)\<rparr>))) f) =
    sum_bind r (\<lambda>(finished, e). sum_bind (if finished then Inr (e, x)
        else sum_bind (go_ex X vm e) (\<lambda>e. Inr (e, x\<lparr>sub := accrueSubState e (sub x)\<rparr>))) f)"
  using assms go_agree [OF assms(1)] by (cases r) (auto simp: case_prod_beta)

lemma ExtVM_call_agree:
  assumes "vm_agree (envInfo x) (depth x + 1) vm vm'" "precompiled_ok X" "size_ok (world x)" "length (call_data p) < 2 ^ 64"
  shows "ExtVM_call X vm' x p = ExtVM_call X vm x p"
  unfolding ExtVM_call_def
  by (rule rest_agree [OF assms(1) levelled_call [OF levelled_new] call_ok [OF assms(2) ex_ok_newExecutive [OF assms(3)] assms(4)]])

lemma ExtVM_create_agree:
  assumes "vm_agree (envInfo x) (depth x + 1) vm vm'" "size_ok (world x)" "length code < codeLimit"
  shows "ExtVM_create X vm' x v g code op salt = ExtVM_create X vm x v g code op salt"
  unfolding ExtVM_create_def Let_def
  by (rule rest_agree [OF assms(1), where G = g])
    (use levelled_createOpcode [OF levelled_new] createOpcode_ok [OF ex_ok_newExecutive [OF assms(2)] assms(3)] in simp_all)

text \<open>
  Before the block hash contract is in use, \<^verbatim>\<open>BLOCKHASH\<close> runs no code. (That contract would run in an
  executive of its own, at depth 0 again.)
\<close>

definition hashes_at_hand :: "ctx \<Rightarrow> EnvInfo \<Rightarrow> bool" where
  "hashes_at_hand X env \<longleftrightarrow> env_number256 env < p_constantinopleForkBlock (x_params X) + 256"

lemma ExtVM_blockHash_agree:
  "hashes_at_hand X (envInfo x) \<Longrightarrow> ExtVM_blockHash X vm' x n = ExtVM_blockHash X vm x n"
  by (simp add: ExtVM_blockHash_def hashes_at_hand_def Let_def)

definition enough_levels :: "ctx \<Rightarrow> nat \<Rightarrow> nat \<Rightarrow> State ExtVMFace \<Rightarrow> bool" where
  "enough_levels X n m x \<longleftrightarrow> n \<le> m \<and> hashes_at_hand X (envInfo x) \<and> 1024 \<le> n + depth x"

lemma extHost_twin:
  assumes "\<And>env d. precompiled_ok X \<Longrightarrow> n \<le> m \<Longrightarrow> hashes_at_hand X env \<Longrightarrow> 1024 \<le> n + d \<Longrightarrow> d < 1024 \<Longrightarrow>
      vm_agree env (d + 1) (runVM X n) (runVM X m)"
  shows "vm_twin (extHost X (runVM X n)) (host_ok X, False) (extHost X (runVM X m)) (enough_levels X n m)"
proof (intro vm_twin.intro vm_twin_axioms.intro)
  show "vm_host (extHost X (runVM X n)) (host_ok X, False)"
    by (rule ext.vm_host_axioms)
  fix e e' :: "State ExtVMFace" and v g bs i salt p k
  show "enough_levels X n m e'" if "enough_levels X n m e" "same_face e e'"
    using that by (cases e; cases e') (simp add: enough_levels_def same_face_def)
  assume w: "holds (host_ok X, False) e" and q: "enough_levels X n m e"
  have P: "precompiled_ok X" "size_ok (world e)"
    using w by (simp_all add: holds_def host_ok_def)
  have vm: "vm_agree (envInfo e) (depth e + 1) (runVM X n) (runVM X m)" if "depth e < 1024"
    using assms P(1) q that by (simp add: enough_levels_def)
  show "h_create (extHost X (runVM X m)) e v g bs i salt = h_create (extHost X (runVM X n)) e v g bs i salt"
    if "create_shape (extHost X (runVM X n)) e v bs"
    using that ExtVM_create_agree [OF vm P(2)] by (simp add: extHost_def create_shape_def codeLimit_def)
  show "h_call (extHost X (runVM X m)) e p = h_call (extHost X (runVM X n)) e p"
    if "call_shape (extHost X (runVM X n)) e p"
    using that ExtVM_call_agree [OF vm P] by (simp add: extHost_def call_shape_def)
  show "h_blockHash (extHost X (runVM X m)) e k = h_blockHash (extHost X (runVM X n)) e k"
    using q by (simp add: extHost_def enough_levels_def ExtVM_blockHash_agree [of X e "runVM X m" k "runVM X n"])
qed (simp add: extHost_def)

lemma twin_run:
  assumes "vm_twin (extHost X (runVM X n)) (host_ok X, False) (extHost X (runVM X m)) (enough_levels X n m)"
    and "precompiled_ok X" "face_sized x" "size_ok (world x)" "enough_levels X n m x"
  shows "runVM X (Suc m) g x = runVM X (Suc n) g x"
  using vm_twin.exec_twin [OF assms(1), of x g] assms(2-)
  by (simp add: face_sized_def holds_def host_ok_def)

lemma levels_twin:
  "vm_twin (extHost X (runVM X n)) (host_ok X, False) (extHost X (runVM X m)) (enough_levels X n m)"
proof (induction n arbitrary: m)
  case 0
  show ?case by (rule extHost_twin) simp
next
  case (Suc n)
  show ?case
  proof (rule extHost_twin)
    fix env d
    assume P: "precompiled_ok X" and a: "Suc n \<le> m" "hashes_at_hand X env" "1024 \<le> Suc n + d" "d < 1024"
    then obtain m' where m: "m = Suc m'" "n \<le> m'" by (cases m) auto
    show "vm_agree env (d + 1) (runVM X (Suc n)) (runVM X m)"
      unfolding vm_agree_def m(1)
      by (intro allI impI twin_run [OF Suc.IH P]) (use a m in \<open>simp_all add: enough_levels_def\<close>)
  qed
qed

text \<open>The interpreters with more and with fewer levels are twins on the faces that have enough of them.\<close>

interpretation levels: vm_twin "extHost X (runVM X n)" "(host_ok X, False)" "extHost X (runVM X m)" "enough_levels X n m" for X n m
  by (rule levels_twin)

lemma runVM_levels:
  assumes "precompiled_ok X" "face_sized x" "size_ok (world x)" "hashes_at_hand X (envInfo x)" "1024 \<le> n + depth x" "n \<le> m"
  shows "runVM X (Suc m) g x = runVM X (Suc n) g x"
  using levels.exec_twin [of x X n m g] assms
  by (simp add: face_sized_def holds_def host_ok_def enough_levels_def)

section \<open>Transactions\<close>

lemma executeTransaction_agree:
  assumes vm: "vm_agree env d vm vm'" and P: "precompiled_ok X" and e: "levelled env d e" "ex_ok 0 e"
    and t: "length (t_data t) < codeLimit"
  shows "executeTransaction X vm' t e = executeTransaction X vm t e"
  unfolding executeTransaction_def
proof (intro sum_bind_cong refl)
  fix e1 assume r: "initialize_ex X t e = Inr e1"
  then have e1: "levelled env d e1" "tx_ok 0 e1"
    using levelled_initialize [OF e(1), of X t] initialize_ok [OF e(2) t, of X] by simp_all
  fix v assume "execute_ex X e1 = Inr v"
  then have "levelled env d (snd v)" "ex_ok (- 1) (snd v)"
    using levelled_execute [OF e1(1), of X] execute_ok [OF P e1(2)] by (simp_all add: case_prod_beta)
  then show "(case v of (f, e) \<Rightarrow> sum_bind (if f then Inr e else go_ex X vm' e) (finalize_ex X)) =
      (case v of (f, e) \<Rightarrow> sum_bind (if f then Inr e else go_ex X vm e) (finalize_ex X))"
    using go_agree [OF vm] by (simp add: case_prod_beta)
qed

lemma State_execute_levels:
  assumes P: "precompiled_ok X" and s: "size_ok s" "length (t_data t) < codeLimit"
    and n: "hashes_at_hand X env" "1024 \<le> n" "n \<le> m"
  shows "State_execute X (runVM X (Suc m)) env t perm s = State_execute X (runVM X (Suc n)) env t perm s"
proof -
  let ?e = "(newExecutive s env 0)\<lparr>e_res := Some ExecutionResult_new\<rparr>"
  have "vm_agree env 0 (runVM X (Suc n)) (runVM X (Suc m))"
    unfolding vm_agree_def by (intro allI impI runVM_levels P) (use n in simp_all)
  moreover have "levelled env 0 ?e" "ex_ok 0 ?e"
    using levelled_new ex_ok_newExecutive [OF s(1)] by simp_all
  ultimately have "executeTransaction X (runVM X (Suc m)) t ?e = executeTransaction X (runVM X (Suc n)) t ?e"
    using P s(2) by (intro executeTransaction_agree)
  then show ?thesis
    by (simp add: State_execute_def)
qed

end
