(* ===== verification/Executive_Props.thy ===== *)
theory Executive_Props
  imports Executive_Fees Executive_Levels
begin

text \<open>
  The properties of executing messages and transactions with the interpreter of \<open>LegacyVM\<close> and the
  functions of \<^verbatim>\<open>ExtVM\<close> behind it.
\<close>

section \<open>A context for the examples\<close>

definition demo_env :: EnvInfo where
  "demo_env = \<lparr>env_number = 5, env_author = 3, env_timestamp = 0, env_difficulty = 0, env_gasLimit = 8000000,
     env_gasUsed = 0, env_lastHashes = replicate 256 0\<rparr>"

text \<open>Proof of work, every fork but the last from the first block, and the identity contract.\<close>

definition demo_params :: ChainOperationParams where
  "demo_params = ChainOperationParams_default\<lparr>p_homesteadForkBlock := 0, p_EIP150ForkBlock := 0,
     p_EIP158ForkBlock := 0, p_byzantiumForkBlock := 0, p_chainID := 1,
     p_precompiled := [4 \<mapsto> PrecompiledContract_linear 15 3 (\<lambda>inp. (True, take 32 inp)) 0]\<rparr>"

definition demo_ctx :: ctx where
  "demo_ctx = \<lparr>x_keccak = demo_keccak, x_recover = (\<lambda>_ _. None), x_engine = \<lparr>se_kind = Ethash, se_params = demo_params\<rparr>,
     x_committer = \<lparr>rootOf = (\<lambda>_. 0), accountOrder = (\<lambda>_. []), slotOrder = (\<lambda>_. [])\<rparr>\<rparr>"

definition demo_ext :: "bytes \<Rightarrow> State ExtVMFace" where
  "demo_ext code = newFace demo_ctx (newExecutive demo_state demo_env 0) 7 8 8 0 1 [] code False False"

lemma demo_ctx_precompiled: "precompiled_ok demo_ctx"
  by (auto simp: precompiled_ok_def demo_ctx_def demo_params_def PrecompiledContract_linear_def split: if_splits)

lemma demo_state_size: "size_ok demo_state"
  by (simp add: size_ok_def demo_state_def codeLimit_def)

lemma demo_ext_sized: "length code < 100 \<Longrightarrow> face_sized (demo_ext code)"
  by (simp add: demo_ext_def face_sized_newFace codeLimit_def)

lemma demo_ext_world: "world (demo_ext code) = demo_state"
  by (simp add: demo_ext_def newFace_def newExecutive_def)

lemma demo_hashes: "hashes_at_hand demo_ctx demo_env" "envInfo (demo_ext code) = demo_env"
  by (simp_all add: hashes_at_hand_def env_number256_def demo_env_def demo_ctx_def demo_params_def
      ChainOperationParams_default_def c_infiniteBlockNumer_def demo_ext_def newFace_def newExecutive_def)

section \<open>Runs\<close>





section \<open>A transfer\<close>

definition demo_transfer :: Transaction where
  "demo_transfer = demo_tx\<lparr>t_gas := 30000, t_nonce := 0\<rparr>"

lemma demo_base: "baseGasRequired False [1, 2] ByzantiumSchedule = 21136"
  by (simp add: baseGasRequired_def schedule_defs)

lemma demo_schedule: "evmSchedule_se (x_engine demo_ctx) (env_number256 demo_env) = ByzantiumSchedule"
  by (simp add: evmSchedule_se_def scheduleForBlockNumber_def demo_ctx_def demo_params_def demo_env_def
      env_number256_def ChainOperationParams_default_def c_infiniteBlockNumer_def)

lemma demo_verify: "verifyTransaction (x_engine demo_ctx) Everything demo_transfer demo_env 0 = Inr ()"
proof -
  have "scast (env_number demo_env) = env_number256 demo_env" by (simp add: env_number256_def)
  then show ?thesis
    using demo_base demo_schedule
    by (simp add: verifyTransaction_def verifyTransaction_base_def demo_transfer_def demo_tx_def isReplayProtected_def hasZeroSignature_def
      isZeroSignature_def checkLowS_def checkChainId_def c_secp256k1n_def isCreation_tx_def when_err_def Let_def hasSignature_def
      demo_ctx_def demo_params_def demo_env_def ChainOperationParams_default_def c_infiniteBlockNumer_def)
qed

theorem transfer_transaction_settles_witness:
  "\<exists>s res e s'. balance_of demo_keccak s 9 = 1000000 \<and>
     State_execute demo_ctx (runVM demo_ctx 0) demo_env demo_transfer Uncommitted s = Inr (res, True, e, s') \<and>
     r_gasUsed res = 21136 \<and> balance_of demo_keccak s' 9 = 1000000 - 10 - 21136"
proof -
  have st: "m_accountStartNonce demo_state \<noteq> Invalid256" "accts_of demo_keccak demo_state = Map.empty"
    by (simp_all add: demo_state_def Invalid256_def accts_of_def leafAccount_def openTrie_def fun_eq_iff)
  obtain s where s: "effect demo_keccak (only 9 1000000) (\<lambda>_. 0) demo_state s"
    using effect_addBalance [OF demo_state_inv st(1)] by blast
  have base: "balance_of demo_keccak demo_state a = 0" "nonce_of demo_keccak demo_state a = 0" "\<not> hasCode_of demo_keccak demo_state a" for a
    using st(2) by (simp_all add: balance_of_def nonce_of_def hasCode_of_def read_acct_def) (simp add: demo_state_def)
  have K: "x_keccak demo_ctx = demo_keccak" "env_gasUsed demo_env = 0" "env_author demo_env = 3"
    by (simp_all add: demo_ctx_def demo_env_def)
  have t: "t_type demo_transfer = MessageCall" "\<not> hasZeroSignature demo_transfer" "t_sender demo_transfer = 9"
    "t_data demo_transfer = [1, 2]" "t_value demo_transfer = 10" "t_gasPrice demo_transfer = 1" "t_gas demo_transfer = 30000"
    "t_receiveAddress demo_transfer = 0xabc" "t_nonce demo_transfer = 0"
    by (simp_all add: demo_transfer_def demo_tx_def hasZeroSignature_def isZeroSignature_def)
  have r: "\<not> isPrecompiled (x_engine demo_ctx) 0xabc (env_number256 demo_env)"
    by (simp add: isPrecompiled_def demo_ctx_def demo_params_def)
  have b: "balance_of demo_keccak s 9 = 1000000" "nonce_of demo_keccak s 9 = 0" "\<not> hasCode_of demo_keccak s 0xabc"
    using s base by (simp_all add: effect_def)
  obtain res e s' where "State_execute demo_ctx (runVM demo_ctx 0) demo_env demo_transfer Uncommitted s = Inr (res, True, e, s')"
    "r_gasUsed res = 21136" "balance_of demo_keccak s' 9 = 1000000 - 10 - 21136"
    using transfer_transaction_settles [of demo_ctx s demo_transfer demo_env 9 demo_transfer "runVM demo_ctx 0"]
      effect_inv [OF s] effect_startNonce [OF s] st(1) demo_verify b r t
    by (auto simp: K sender_tx_def demo_schedule demo_base effect_def)
  then show ?thesis
    using b(1) by blast
qed

theorem invalid_transactions_rejected_witness:
  "initialize_ex demo_ctx demo_transfer (newExecutive demo_state demo_env 0) = Inl (ExState NotEnoughCash)"
proof -
  let ?e = "newExecutive demo_state demo_env 0"
  have st: "accts_of demo_keccak demo_state = Map.empty"
    by (simp_all add: demo_state_def accts_of_def leafAccount_def openTrie_def fun_eq_iff)
  have e: "e_s ?e = demo_state" "e_envInfo ?e = demo_env" "x_keccak demo_ctx = demo_keccak" "env_gasUsed demo_env = 0"
    by (simp_all add: newExecutive_def demo_ctx_def demo_env_def)
  have base: "balance_of demo_keccak demo_state 9 = 0" "nonce_of demo_keccak demo_state 9 = 0"
    using st by (simp_all add: balance_of_def nonce_of_def read_acct_def) (simp add: demo_state_def)
  have t: "\<not> hasZeroSignature demo_transfer" "t_sender demo_transfer = 9"
    "t_value demo_transfer = 10" "t_gasPrice demo_transfer = 1" "t_gas demo_transfer = 30000" "t_nonce demo_transfer = 0"
    by (simp_all add: demo_transfer_def demo_tx_def hasZeroSignature_def isZeroSignature_def)
  show ?thesis
    using invalid_transactions_rejected [of demo_ctx ?e demo_transfer 9 demo_transfer] demo_verify t base demo_state_inv
    by (simp add: e sender_tx_def)
qed

end
