(* ===== verification/FixedHash.thy ===== *)
theory FixedHash
  imports CommonData
begin

text \<open>
  \<^verbatim>\<open>FixedHash<N>\<close> and \<^verbatim>\<open>SecureFixedHash<N>\<close> of \<^verbatim>\<open>libdevcore/FixedHash.h\<close>: arrays of \<^verbatim>\<open>N\<close> bytes, here
  lists of that length, with the operations of the class as the loops they are. The template
  argument is a parameter where the length of an argument does not give it.
\<close>

unbundle bit_operations_syntax

section \<open>Construction\<close>

datatype ConstructFromHashType = AlignLeft | AlignRight | FailIfDifferent

definition fh_zero :: "nat \<Rightarrow> bytes" where
  "fh_zero N = replicate N 0"

text \<open>The loop that fills from the left or from the right.\<close>

definition fh_copy :: "nat \<Rightarrow> bytes \<Rightarrow> ConstructFromHashType \<Rightarrow> bytes" where
  "fh_copy N h t =
     fold (\<lambda>i d. d[(if t = AlignRight then N - 1 - i else i) := h ! (if t = AlignRight then length h - 1 - i else i)])
       [0..<min (length h) N] (fh_zero N)"

definition fh_of_hash :: "nat \<Rightarrow> bytes \<Rightarrow> ConstructFromHashType \<Rightarrow> bytes" where
  "fh_of_hash N h t = fh_copy N h t"

definition fh_of_bytes :: "nat \<Rightarrow> bytes \<Rightarrow> ConstructFromHashType \<Rightarrow> bytes" where
  "fh_of_bytes N b t =
     (if length b = N then b else if t \<noteq> FailIfDifferent then fh_copy N b t else fh_zero N)"

definition fh_of_arith :: "nat \<Rightarrow> nat \<Rightarrow> bytes" where
  "fh_of_arith N v = toBigEndian N v"

text \<open>\<^verbatim>\<open>fromBigEndian\<close> into a number as wide as the array loses nothing: the number is \<open>be_nat\<close>.\<close>

definition fh_arith :: "bytes \<Rightarrow> nat" where
  "fh_arith h = be_nat h"

text \<open>The bytes of a hash and of an address.\<close>

definition h256_bytes :: "h256 \<Rightarrow> bytes" where
  "h256_bytes h = toBigEndian 32 (unat h)"

definition address_bytes :: "address \<Rightarrow> bytes" where
  "address_bytes a = toBigEndian 20 (unat a)"

section \<open>Comparisons and bits\<close>

definition fh_nonzero :: "bytes \<Rightarrow> bool" where
  "fh_nonzero h = list_ex (\<lambda>b. b \<noteq> 0) h"

fun fh_less :: "bytes \<Rightarrow> bytes \<Rightarrow> bool" where
  "fh_less (x # xs) (y # ys) = (if x < y then True else if x > y then False else fh_less xs ys)"
| "fh_less _ _ = False"

definition fh_ge :: "bytes \<Rightarrow> bytes \<Rightarrow> bool" where
  "fh_ge a b = (\<not> fh_less a b)"

definition fh_le :: "bytes \<Rightarrow> bytes \<Rightarrow> bool" where
  "fh_le a b = (a = b \<or> fh_less a b)"

definition fh_greater :: "bytes \<Rightarrow> bytes \<Rightarrow> bool" where
  "fh_greater a b = (\<not> fh_le a b)"

definition fh_xor :: "bytes \<Rightarrow> bytes \<Rightarrow> bytes" where
  "fh_xor a b = map2 (XOR) a b"

definition fh_or :: "bytes \<Rightarrow> bytes \<Rightarrow> bytes" where
  "fh_or a b = map2 (OR) a b"

definition fh_and :: "bytes \<Rightarrow> bytes \<Rightarrow> bytes" where
  "fh_and a b = map2 (AND) a b"

definition fh_not :: "bytes \<Rightarrow> bytes" where
  "fh_not a = map (\<lambda>b. NOT b) a"

text \<open>Big-endian increment: from the last byte on, as long as the byte that was incremented is zero.\<close>

fun fh_incr_loop :: "nat \<Rightarrow> bytes \<Rightarrow> bytes" where
  "fh_incr_loop 0 d = d"
| "fh_incr_loop (Suc i) d =
     (let d' = d[i := d ! i + 1] in if d' ! i = 0 then fh_incr_loop i d' else d')"

definition fh_incr :: "bytes \<Rightarrow> bytes" where
  "fh_incr h = fh_incr_loop (length h) h"

definition fh_contains :: "bytes \<Rightarrow> bytes \<Rightarrow> bool" where
  "fh_contains h c = (fh_and h c = c)"

section \<open>Blooms\<close>

fun StaticLog2 :: "nat \<Rightarrow> nat" where
  "StaticLog2 n = (if n \<le> 1 then 0 else 1 + StaticLog2 (n div 2))"

declare StaticLog2.simps [simp del]

text \<open>The \<open>i\<close>-th index: \<^verbatim>\<open>c_bloomBytes\<close> bytes of the hash, big-endian, reduced to the bits of the bloom.\<close>

definition bloomIndex :: "nat \<Rightarrow> bytes \<Rightarrow> nat \<Rightarrow> u32" where
  "bloomIndex M h i =
     (let c_bloomBits = M * 8; c_bloomBytes = (StaticLog2 c_bloomBits + 7) div 8
      in foldl (\<lambda>index b. push_bit 8 index OR ucast b) 0 (take c_bloomBytes (drop (i * c_bloomBytes) h))
           AND word_of_nat (c_bloomBits - 1))"

definition bloomPart :: "nat \<Rightarrow> nat \<Rightarrow> bytes \<Rightarrow> bytes" where
  "bloomPart P M h =
     fold (\<lambda>i ret. (let index = unat (bloomIndex M h i); p = M - 1 - index div 8
                    in ret[p := ret ! p OR push_bit (index mod 8) 1]))
       [0..<P] (fh_zero M)"

definition shiftBloom :: "nat \<Rightarrow> bytes \<Rightarrow> bytes \<Rightarrow> bytes" where
  "shiftBloom P h bloom = fh_or bloom (bloomPart P (length bloom) h)"

definition containsBloom :: "nat \<Rightarrow> bytes \<Rightarrow> bytes \<Rightarrow> bool" where
  "containsBloom P h bloom = fh_contains bloom (bloomPart P (length bloom) h)"

section \<open>Secure hashes\<close>

text \<open>The assignment operators of \<^verbatim>\<open>SecureFixedHash\<close>: each of them calls \<^verbatim>\<open>operator^=\<close>.\<close>

definition secure_xor_assign :: "bytes \<Rightarrow> bytes \<Rightarrow> bytes" where
  "secure_xor_assign a c = fh_xor a c"

definition secure_or_assign :: "bytes \<Rightarrow> bytes \<Rightarrow> bytes" where
  "secure_or_assign a c = fh_xor a c"

definition secure_and_assign :: "bytes \<Rightarrow> bytes \<Rightarrow> bytes" where
  "secure_and_assign a c = fh_xor a c"

section \<open>Facts\<close>

lemma length_fh [simp]:
  "length (fh_zero N) = N" "length (fh_or a b) = min (length a) (length b)"
  "length (fh_and a b) = min (length a) (length b)" "length (fh_xor a b) = min (length a) (length b)"
  by (simp_all add: fh_zero_def fh_or_def fh_and_def fh_xor_def)

lemma fh_less_nat:
  "length a = length b \<Longrightarrow> fh_less a b \<longleftrightarrow> be_nat a < be_nat b"
proof (induction a b rule: list_induct2)
  case Nil
  then show ?case by simp
next
  case (Cons x xs y ys)
  have bound: "be_nat xs < 256 ^ length xs" "be_nat ys < 256 ^ length xs"
    using be_nat_bound [of xs] be_nat_bound [of ys] Cons.hyps by simp_all
  consider "unat x < unat y" | "unat y < unat x" | "x = y"
    by (metis linorder_neqE_nat word_unat_eq_iff)
  then show ?case
  proof cases
    case 1
    then have "(unat x + 1) * 256 ^ length xs \<le> unat y * 256 ^ length xs" by (intro mult_le_mono1) simp
    then show ?thesis using 1 bound Cons.hyps by (auto simp: be_nat_Cons word_less_nat_alt algebra_simps)
  next
    case 2
    then have "(unat y + 1) * 256 ^ length xs \<le> unat x * 256 ^ length xs" by (intro mult_le_mono1) simp
    then show ?thesis using 2 bound Cons.hyps by (auto simp: be_nat_Cons word_less_nat_alt algebra_simps)
  next
    case 3
    then show ?thesis using Cons by (simp add: be_nat_Cons)
  qed
qed

lemma fh_incr_loop_append: "fh_incr_loop (length xs) (xs @ ys) = fh_incr xs @ ys"
proof (induction xs arbitrary: ys rule: rev_induct)
  case Nil
  then show ?case by (simp add: fh_incr_def)
next
  case (snoc b xs)
  show ?case
    using snoc [of "0 # ys"] snoc [of "[0]"] by (simp add: fh_incr_def Let_def)
qed

lemma fh_incr_snoc: "fh_incr (xs @ [b]) = (if b + 1 = 0 then fh_incr xs @ [0] else xs @ [b + 1])"
  using fh_incr_loop_append [of xs "[0]"] by (simp add: fh_incr_def Let_def)

lemma length_fh_incr [simp]: "length (fh_incr xs) = length xs"
  by (induction xs rule: rev_induct) (simp_all add: fh_incr_snoc, simp add: fh_incr_def)

lemma fh_incr_nat: "be_nat (fh_incr xs) = (be_nat xs + 1) mod 256 ^ length xs"
proof (induction xs rule: rev_induct)
  case Nil
  then show ?case by (simp add: fh_incr_def)
next
  case (snoc b xs)
  show ?case
  proof (cases "b + 1 = 0")
    case True
    then have "b = - 1" by (simp add: eq_neg_iff_add_eq_0)
    then have "unat b = 255" by (simp add: unsigned_minus_1_eq_mask mask_eq_exp_minus_1)
    then show ?thesis
      using True snoc mult_mod_left [of "be_nat xs + 1" "256 ^ length xs" 256]
      by (simp add: fh_incr_snoc algebra_simps)
  next
    case False
    then have "unat (b + 1) = unat b + 1"
      using unatSuc [of b] by (simp add: add.commute)
    then show ?thesis
      using False be_nat_bound [of "xs @ [b + 1]"] by (simp add: fh_incr_snoc)
  qed
qed

text \<open>Containment is containment of the bits.\<close>

lemma fh_contains_iff:
  "length h = length c \<Longrightarrow> fh_contains h c \<longleftrightarrow> (\<forall>i<length c. h ! i AND c ! i = c ! i)"
  by (auto simp: fh_contains_def fh_and_def list_eq_iff_nth_eq)

lemma fh_or_commute: "length a = length b \<Longrightarrow> fh_or a b = fh_or b a"
  by (simp add: fh_or_def list_eq_iff_nth_eq or.commute)

lemma fh_contains_or:
  assumes "length a = length b" "length c = length b"
  shows "fh_contains (fh_or a b) b" "fh_contains a c \<Longrightarrow> fh_contains (fh_or a b) c"
proof -
  have "(x OR y) AND y = y" for x y :: byte
    by (rule bit_eqI) (auto simp: bit_simps)
  then show "fh_contains (fh_or a b) b"
    using assms by (simp add: fh_contains_iff fh_or_def)
  have keep: "(x OR y) AND z = z" if h: "x AND z = z" for x y z :: byte
  proof (rule bit_eqI)
    fix n
    have "bit (x AND z) n = bit z n" by (simp add: h)
    then show "bit ((x OR y) AND z) n = bit z n" by (auto simp: bit_simps)
  qed
  show "fh_contains (fh_or a b) c" if "fh_contains a c"
    using assms that keep by (simp add: fh_contains_iff fh_or_def)
qed

lemma length_bloomPart [simp]: "length (bloomPart P M h) = M"
proof -
  have "length (fold (\<lambda>i (ret :: bytes). (let index = unat (bloomIndex M h i); p = M - 1 - index div 8
      in ret[p := ret ! p OR push_bit (index mod 8) 1])) is r) = length r" for "is" r
    by (induction "is" arbitrary: r) (simp_all add: Let_def)
  then show ?thesis by (simp add: bloomPart_def)
qed

lemma length_shiftBloom [simp]: "length (shiftBloom P h b) = length b"
  by (simp add: shiftBloom_def)

text \<open>What has been added is found, and stays found.\<close>

lemma containsBloom_shiftBloom: "containsBloom P h (shiftBloom P h b)"
  by (simp add: containsBloom_def shiftBloom_def fh_contains_or)

lemma containsBloom_or:
  assumes "length a = length b"
  shows "containsBloom P h a \<Longrightarrow> containsBloom P h (fh_or a b)" "containsBloom P h b \<Longrightarrow> containsBloom P h (fh_or a b)"
  using assms fh_contains_or(2) [of a b "bloomPart P (length b) h"] fh_contains_or(2) [of b a "bloomPart P (length b) h"]
  by (simp_all add: containsBloom_def fh_or_commute [of a b])

section \<open>Hashes as numbers\<close>

lemma copy_left: "c \<le> length h \<Longrightarrow> c \<le> length z \<Longrightarrow> fold (\<lambda>i d. d[i := h ! i]) [0..<c] z = take c h @ drop c z"
proof (induction c)
  case (Suc c)
  then have "(take c h @ drop c z)[c := h ! c] = take (Suc c) h @ drop (Suc c) z"
    by (simp add: list_update_append take_Suc_conv_app_nth Cons_nth_drop_Suc [symmetric])
  with Suc show ?case by simp
qed simp

lemma copy_right:
  "c \<le> length h \<Longrightarrow> c \<le> length z \<Longrightarrow>
   fold (\<lambda>i d. d[length z - 1 - i := h ! (length h - 1 - i)]) [0..<c] z = take (length z - c) z @ drop (length h - c) h"
proof (induction c)
  case (Suc c)
  define k where "k = length z - Suc c"
  define m where "m = length h - Suc c"
  have k: "length z - c = Suc k" "k < length z" "length z - 1 - c = k" and m: "length h - c = Suc m" "m < length h" "length h - 1 - c = m"
    using Suc.prems by (auto simp: k_def m_def)
  have "(take (Suc k) z @ drop (Suc m) h)[k := h ! m] = take k z @ drop m h"
    using k(2) m(2) by (simp add: list_update_append take_Suc_conv_app_nth Cons_nth_drop_Suc)
  with Suc show ?case by (simp add: k m flip: k_def m_def)
qed simp

lemma fh_copy_eq:
  "fh_copy N h AlignRight = replicate (N - length h) 0 @ drop (length h - N) h"
  "t \<noteq> AlignRight \<Longrightarrow> fh_copy N h t = take N h @ replicate (N - length h) 0"
  using copy_right [of "min (length h) N" h "fh_zero N"] copy_left [of "min (length h) N" h "fh_zero N"]
  by (auto simp: fh_copy_def fh_zero_def min_def cong: fold_cong)

lemma be_nat_zeros: "be_nat (replicate n 0) = 0"
  by (induction n) (simp_all add: be_nat_Cons)

lemma be_nat_drop: "n \<le> length h \<Longrightarrow> be_nat (drop (length h - n) h) = be_nat h mod 256 ^ n"
  using be_nat_append [of "take (length h - n) h" "drop (length h - n) h"] be_nat_bound [of "drop (length h - n) h"]
  by simp

lemma fh_nonzero_nat: "fh_nonzero h \<longleftrightarrow> be_nat h \<noteq> 0"
proof -
  have "be_nat h = 0 \<longleftrightarrow> (\<forall>b\<in>set h. b = 0)"
    by (induction h) (auto simp: be_nat_Cons unat_eq_zero)
  then show ?thesis by (auto simp: fh_nonzero_def list_ex_iff)
qed



end
