(* ===== verification/Receipt.thy ===== *)
theory Receipt
  imports Account FixedHash LegacyVM_State
begin

text \<open>
  Log entries and transaction receipts: \<^verbatim>\<open>libaeccore/LogEntry.h\<close>, \<^verbatim>\<open>LogEntry.cpp\<close> and
  \<^verbatim>\<open>libaecereum/TransactionReceipt.h\<close>, \<^verbatim>\<open>TransactionReceipt.cpp\<close>, with their blooms and their RLP form.
\<close>

section \<open>Blooms\<close>

text \<open>\<^verbatim>\<open>LogBloom\<close> is a \<^verbatim>\<open>FixedHash<256>\<close>; \<^verbatim>\<open>shiftBloom<3>(sha3(x))\<close>.\<close>

definition bloom_add :: "keccak \<Rightarrow> bytes \<Rightarrow> bytes \<Rightarrow> bytes" where
  "bloom_add K x b = shiftBloom 3 (h256_bytes (K x)) b"

definition bloom_has :: "keccak \<Rightarrow> bytes \<Rightarrow> bytes \<Rightarrow> bool" where
  "bloom_has K x b = containsBloom 3 (h256_bytes (K x)) b"

definition LogEntry_bloom :: "keccak \<Rightarrow> LogEntry \<Rightarrow> bytes" where
  "LogEntry_bloom K e =
     fold (\<lambda>t b. bloom_add K (h256_bytes t) b) (log_topics e) (bloom_add K (address_bytes (log_address e)) (fh_zero 256))"

definition bloom_logs :: "keccak \<Rightarrow> LogEntry list \<Rightarrow> bytes" where
  "bloom_logs K entries = fold (\<lambda>l ret. fh_or ret (LogEntry_bloom K l)) entries (fh_zero 256)"

section \<open>Receipts\<close>

datatype statusCodeOrStateRoot = StatusCode byte | StateRoot h256

record TransactionReceipt =
  rc_statusCodeOrStateRoot :: statusCodeOrStateRoot
  rc_gasUsed :: u256
  rc_bloom :: bytes
  rc_log :: "LogEntry list"

definition TransactionReceipt_of :: "keccak \<Rightarrow> statusCodeOrStateRoot \<Rightarrow> u256 \<Rightarrow> LogEntry list \<Rightarrow> TransactionReceipt" where
  "TransactionReceipt_of K sr gasUsed entries =
     \<lparr>rc_statusCodeOrStateRoot = sr, rc_gasUsed = gasUsed, rc_bloom = bloom_logs K entries, rc_log = entries\<rparr>"

datatype receipt_error = InvalidTransactionReceiptFormat | TransactionReceiptVersionError | ReceiptRLP rlp_error

definition hasStatusCode :: "TransactionReceipt \<Rightarrow> bool" where
  "hasStatusCode r = (case rc_statusCodeOrStateRoot r of StatusCode _ \<Rightarrow> True | StateRoot _ \<Rightarrow> False)"

definition statusCode :: "TransactionReceipt \<Rightarrow> receipt_error + byte" where
  "statusCode r = (case rc_statusCodeOrStateRoot r of
     StatusCode c \<Rightarrow> Inr c | StateRoot _ \<Rightarrow> Inl TransactionReceiptVersionError)"

definition stateRoot :: "TransactionReceipt \<Rightarrow> receipt_error + h256" where
  "stateRoot r = (case rc_statusCodeOrStateRoot r of
     StatusCode _ \<Rightarrow> Inl TransactionReceiptVersionError | StateRoot h \<Rightarrow> Inr h)"

section \<open>Writing\<close>

fun appendEach :: "('a \<Rightarrow> rlp_stream \<Rightarrow> rlp_error + rlp_stream) \<Rightarrow> 'a list \<Rightarrow> rlp_stream \<Rightarrow> rlp_error + rlp_stream" where
  "appendEach f [] s = Inr s"
| "appendEach f (x # xs) s = sum_bind (f x s) (appendEach f xs)"

definition streamRLP_log :: "LogEntry \<Rightarrow> rlp_stream \<Rightarrow> rlp_error + rlp_stream" where
  "streamRLP_log e s =
     sum_bind (appendList 3 s) (\<lambda>s.
     sum_bind (appendBytes (address_bytes (log_address e)) False s) (\<lambda>s.
     sum_bind (appendList (length (log_topics e)) s) (\<lambda>s.
     sum_bind (appendEach (\<lambda>t. appendBytes (h256_bytes t) False) (log_topics e) s) (\<lambda>s.
       appendBytes (log_data e) False s))))"

definition streamRLP_receipt :: "TransactionReceipt \<Rightarrow> rlp_stream \<Rightarrow> rlp_error + rlp_stream" where
  "streamRLP_receipt r s =
     sum_bind (appendList 4 s) (\<lambda>s.
     sum_bind (case rc_statusCodeOrStateRoot r of
         StatusCode c \<Rightarrow> appendInt (unat c) s
       | StateRoot h \<Rightarrow> appendBytes (h256_bytes h) False s) (\<lambda>s.
     sum_bind (appendInt (unat (rc_gasUsed r)) s) (\<lambda>s.
     sum_bind (appendBytes (rc_bloom r) False s) (\<lambda>s.
     sum_bind (appendList (length (rc_log r)) s) (\<lambda>s.
       appendEach streamRLP_log (rc_log r) s)))))"

definition rlp_receipt :: "TransactionReceipt \<Rightarrow> rlp_error + bytes" where
  "rlp_receipt r = sum_bind (streamRLP_receipt r RLPStream) out_stream"

section \<open>Reading\<close>

text \<open>\<^verbatim>\<open>assert(_r.itemCount() == 3)\<close> is not compiled in; missing fields are null items.\<close>

definition LogEntry_read :: "bytes \<Rightarrow> (rlp_error + LogEntry) option" where
  "LogEntry_read d =
     loop_bind (rlp_field_loop 0 (\<lambda>i. Some (toHash 20 i Strict)) (rlp_obj_of d)) (\<lambda>(a, r).
     loop_bind (rlp_field_loop 1 (\<lambda>i. toVector (toHash 32) i LaissezFaire) r) (\<lambda>(ts, r).
     loop_bind (rlp_field_loop 2 (\<lambda>i. Some (toBytes i LaissezFaire)) r) (\<lambda>(data, _).
       Some (Inr \<lparr>log_address = fromBigEndian a, log_topics = map fromBigEndian ts, log_data = data\<rparr>))))"

definition itemCount :: "bytes \<Rightarrow> rlp_error + nat" where
  "itemCount d = (if isList d then items d else Inr 0)"

definition data_size :: "bytes \<Rightarrow> rlp_error + nat" where
  "data_size d = (if isData d then length_field d else Inr 0)"

text \<open>The field that is a hash if it has 32 bytes and an integer otherwise; \<open>None\<close> is neither.\<close>

definition readStatus :: "bytes \<Rightarrow> rlp_error + statusCodeOrStateRoot option" where
  "readStatus i =
     (if \<not> isData i then Inr None
      else sum_bind (data_size i) (\<lambda>n.
        if n = 32 then sum_bind (toHash 32 i Strict) (\<lambda>h. Inr (Some (StateRoot (fromBigEndian h))))
        else sum_bind (isInt i) (\<lambda>int.
          if int then sum_bind (toInt i Strict) (\<lambda>c. Inr (Some (StatusCode c))) else Inr None)))"

definition TransactionReceipt_read :: "bytes \<Rightarrow> (receipt_error + TransactionReceipt) option" where
  "TransactionReceipt_read bs =
     loop_bind (Some (map_err ReceiptRLP (RLP bs VeryStrict))) (\<lambda>d.
     loop_bind (Some (map_err ReceiptRLP (itemCount d))) (\<lambda>n.
     if \<not> isList d \<or> n \<noteq> 4 then Some (Inl InvalidTransactionReceiptFormat)
     else
       loop_bind (map_option (map_err ReceiptRLP) (rlp_field_loop 0 (\<lambda>i. Some (readStatus i)) (rlp_obj_of d))) (\<lambda>(sr, r).
       case sr of
         None \<Rightarrow> Some (Inl InvalidTransactionReceiptFormat)
       | Some sr \<Rightarrow>
         loop_bind (map_option (map_err ReceiptRLP) (rlp_field_loop 1 (\<lambda>i. Some (toInt i Strict)) r)) (\<lambda>(gasUsed, r).
         loop_bind (map_option (map_err ReceiptRLP) (rlp_field_loop 2 (\<lambda>i. Some (toHash 256 i Strict)) r)) (\<lambda>(bloom, r).
         loop_bind (map_option (map_err ReceiptRLP) (rlp_field_loop 3 (for_items LogEntry_read) r)) (\<lambda>(entries, _).
           Some (Inr \<lparr>rc_statusCodeOrStateRoot = sr, rc_gasUsed = gasUsed, rc_bloom = bloom, rc_log = entries\<rparr>)))))))"

section \<open>Receipts are read back\<close>

text \<open>The values the writer writes.\<close>

definition logItem :: "LogEntry \<Rightarrow> item" where
  "logItem e = Lst [Data (address_bytes (log_address e)), Lst (map (\<lambda>t. Data (h256_bytes t)) (log_topics e)), Data (log_data e)]"

definition statusItem :: "statusCodeOrStateRoot \<Rightarrow> item" where
  "statusItem sr = (case sr of StatusCode c \<Rightarrow> Data (toCompactBigEndian (unat c) 0) | StateRoot h \<Rightarrow> Data (h256_bytes h))"

definition receiptItem :: "TransactionReceipt \<Rightarrow> item" where
  "receiptItem r = Lst [statusItem (rc_statusCodeOrStateRoot r), Data (toCompactBigEndian (unat (rc_gasUsed r)) 0),
     Data (rc_bloom r), Lst (map logItem (rc_log r))]"

lemma appendEach_items:
  assumes "\<And>x s. x \<in> set xs \<Longrightarrow> f x s = appendItem (it x) s"
  shows "appendEach f xs = appendItems (map it xs)"
  using assms
proof (induction xs)
  case (Cons a xs)
  then have "appendEach f xs = appendItems (map it xs)" by simp
  with Cons.prems show ?case by (intro ext) simp
qed (simp add: fun_eq_iff)

lemma streamRLP_log_item: "streamRLP_log e s = appendItem (logItem e) s"
proof -
  have "appendEach (\<lambda>t. appendBytes (h256_bytes t) False) ts s = appendItems (map (\<lambda>t. Data (h256_bytes t)) ts) s" for ts s
    by (subst appendEach_items [where it = "\<lambda>t. Data (h256_bytes t)"]) simp_all
  then show ?thesis
    by (simp add: streamRLP_log_def logItem_def appendItems_fun eval_nat_numeral)
qed

lemma streamRLP_receipt_item: "streamRLP_receipt r s = appendItem (receiptItem r) s"
proof -
  have int: "appendInt (unat w) st = appendItem (Data (toCompactBigEndian (unat w) 0)) st" if "LENGTH('a) \<le> 256"
    for w :: "'a::len word" and st
  proof (rule appendInt_item)
    have "unat w < 2 ^ LENGTH('a)" by (rule unsigned_less)
    also have "\<dots> \<le> 2 ^ 256" using that by (intro power_increasing) simp_all
    finally show "unat w < 256 ^ 32" by simp
  qed
  have sr: "(case sr of StatusCode c \<Rightarrow> appendInt (unat c) s | StateRoot h \<Rightarrow> appendBytes (h256_bytes h) False s) =
      appendItem (statusItem sr) s" for sr s
    by (cases sr) (simp_all add: statusItem_def int)
  have "appendEach streamRLP_log entries s = appendItems (map logItem entries) s" for entries s
    by (subst appendEach_items [where it = logItem]) (simp_all add: streamRLP_log_item)
  then show ?thesis
    by (simp add: streamRLP_receipt_def receiptItem_def int sr appendItems_fun eval_nat_numeral)
qed

lemma rlp_receipt_eq: "readable (receiptItem r) \<Longrightarrow> rlp_receipt r = Inr (enc (receiptItem r))"
  using rlp_enc [OF readable_fits] by (simp add: rlp_receipt_def rlp_def streamRLP_receipt_item)

text \<open>The conversions of the fields.\<close>

lemma fields_bytes [simp]:
  "length (h256_bytes h) = 32" "length (address_bytes a) = 20"
  "fromBigEndian (h256_bytes h) = h" "fromBigEndian (address_bytes a) = a"
  by (simp_all add: h256_bytes_def address_bytes_def fromBigEndian_toBigEndian_word)

lemma toBytes_item: "length bs < max_field \<Longrightarrow> toBytes (enc (Data bs)) flags = Inr bs"
  using toBytes_strict [OF RLP_chunk [OF chunk_enc [of "Data bs"]], of flags] isData_enc_data [of bs] payload_enc_data [of bs]
  by simp

lemma toVector_item:
  assumes "readable (Lst (map (\<lambda>t. Data (h256_bytes t)) ts))"
  shows "toVector (toHash 32) (enc (Lst (map (\<lambda>t. Data (h256_bytes t)) ts))) flags = Some (Inr (map h256_bytes ts))"
proof -
  have "isList (enc (Lst (map (\<lambda>t. Data (h256_bytes t)) ts)))"
    using isList_list_bytes [OF list_of_chunks_enc [OF assms], of "[]"] by (simp add: enc_Lst del: enc.simps map_map)
  then show ?thesis
    using for_items_enc [OF assms, of "\<lambda>i. Some (toHash 32 i flags)" h256_bytes]
    by (simp add: toVector_def toHash_item max_field_def del: enc.simps)
qed

lemma length_field_item:
  assumes "length bs < max_field"
  shows "length_field (enc_data bs) = Inr (length bs)"
  using assms
proof (cases rule: enc_data_cases)
  case (single b)
  then show ?thesis by (simp add: length_field_eq isNull_def requireGood_eq)
next
  case headed
  then show ?thesis using length_field_well_headed [OF headed(1), of "[]"] by simp
qed

lemma readStatus_item: "readStatus (enc (statusItem sr)) = Inr (Some sr)"
proof (cases sr)
  case (StatusCode c)
  let ?bs = "toCompactBigEndian (unat c) 0"
  have n: "length ?bs \<le> 1"
    by (rule length_compact_le) (use unat_byte_less [of c] in simp)
  have d: "isData (enc (Data ?bs))" "length_field (enc (Data ?bs)) = Inr (length ?bs)" "isInt (enc (Data ?bs)) = Inr True"
    using n isData_enc_data [of ?bs] length_field_item [of ?bs] isInt_enc [of "unat c"]
    by (simp_all add: max_field_def compact_toBigEndian)
  show ?thesis
    using StatusCode n d by (simp add: readStatus_def data_size_def statusItem_def toInt_item del: enc.simps)
next
  case (StateRoot h)
  have "isData (enc (Data (h256_bytes h)))" "length_field (enc (Data (h256_bytes h))) = Inr 32"
    using isData_enc_data [of "h256_bytes h"] length_field_item [of "h256_bytes h"] by (simp_all add: max_field_def)
  then show ?thesis
    using StateRoot by (simp add: readStatus_def data_size_def statusItem_def toHash_item max_field_def del: enc.simps)
qed

lemma LogEntry_read_enc:
  assumes "readable (logItem e)"
  shows "LogEntry_read (enc (logItem e)) = Some (Inr e)"
proof -
  let ?ts = "Lst (map (\<lambda>t. Data (h256_bytes t)) (log_topics e))"
  let ?xs = "[Data (address_bytes (log_address e)), ?ts, Data (log_data e)]"
  have r: "readable (Lst ?xs)" "readable ?ts" "length (log_data e) < max_field"
    using assms by (simp_all add: logItem_def)
  have 3: "loop_bind (rlp_field_loop 2 (\<lambda>i. Some (toBytes i LaissezFaire)) r) (\<lambda>(data, _).
      Some (Inr \<lparr>log_address = log_address e, log_topics = log_topics e, log_data = data\<rparr>)) = Some (Inr e)" if "over ?xs r" for r
    by (rule field_loop_bind [OF that, where v = "log_data e"]) (simp_all add: toBytes_item r(3) del: enc.simps)
  have 2: "loop_bind (rlp_field_loop 1 (\<lambda>i. toVector (toHash 32) i LaissezFaire) r) (\<lambda>(ts, r).
     loop_bind (rlp_field_loop 2 (\<lambda>i. Some (toBytes i LaissezFaire)) r) (\<lambda>(data, _).
       Some (Inr \<lparr>log_address = log_address e, log_topics = map fromBigEndian ts, log_data = data\<rparr>))) = Some (Inr e)"
    if "over ?xs r" for r
    by (rule field_loop_bind [OF that, where v = "map h256_bytes (log_topics e)"])
      (simp_all add: toVector_item [OF r(2)] 3 comp_def del: enc.simps)
  show ?thesis
    unfolding LogEntry_read_def logItem_def
    by (rule field_loop_bind [OF over_start [OF r(1)], where v = "address_bytes (log_address e)"])
      (simp_all add: toHash_item max_field_def 2 del: enc.simps One_nat_def)
qed


definition demo_receipt :: TransactionReceipt where
  "demo_receipt = \<lparr>rc_statusCodeOrStateRoot = StatusCode 1, rc_gasUsed = 21000, rc_bloom = fh_zero 256,
     rc_log = [\<lparr>log_address = 7, log_topics = [5], log_data = [1, 2]\<rparr>]\<rparr>"

lemma small_data: "length bs < 1000 \<Longrightarrow> readable (Data bs) \<and> length (enc (Data bs)) \<le> length bs + 9"
  using bytesRequired_bounds [of "length bs"] by (auto simp: enc_data_def enc_length_def max_field_def)

lemma small_list:
  "list_all readable xs \<Longrightarrow> length (concat (map enc xs)) < 1000 \<Longrightarrow>
   readable (Lst xs) \<and> length (enc (Lst xs)) \<le> length (concat (map enc xs)) + 9"
  using bytesRequired_bounds [of "length (concat (map enc xs))"] by (auto simp: enc_length_def max_field_def Let_def)

lemma demo_receipt_readable: "readable (receiptItem demo_receipt)"
proof -
  let ?l = "\<lparr>log_address = 7, log_topics = [5], log_data = [1, 2]\<rparr> :: LogEntry"
  let ?g = "toCompactBigEndian (unat (rc_gasUsed demo_receipt)) 0" and ?c = "toCompactBigEndian (unat (1 :: byte)) 0"
  have n: "length ?g \<le> 32" "length ?c \<le> 1"
    by (rule length_compact_le, simp add: demo_receipt_def) (rule length_compact_le, simp)
  have t: "readable (Lst [Data (h256_bytes 5)]) \<and> length (enc (Lst [Data (h256_bytes 5)])) \<le> 50"
    using small_data [of "h256_bytes 5"] small_list [of "[Data (h256_bytes 5)]"] by (simp del: enc.simps readable.simps)
  have "readable (logItem ?l) \<and> length (enc (logItem ?l)) \<le> 99"
    using small_data [of "address_bytes 7"] small_data [of "[1, 2]"] t
      small_list [of "[Data (address_bytes 7), Lst [Data (h256_bytes 5)], Data [1, 2]]"]
    by (simp add: logItem_def del: enc.simps readable.simps)
  then have l: "readable (Lst [logItem ?l]) \<and> length (enc (Lst [logItem ?l])) \<le> 108"
    using small_list [of "[logItem ?l]"] by (simp del: enc.simps readable.simps)
  show ?thesis
    using small_list [of "[Data ?c, Data ?g, Data (fh_zero 256), Lst [logItem ?l]]"] l n
      small_data [of ?c] small_data [of ?g] small_data [of "fh_zero 256"]
    by (simp add: receiptItem_def demo_receipt_def statusItem_def del: enc.simps readable.simps)
qed


end
