(* ===== verification/LogFilter.thy ===== *)
theory LogFilter
  imports Receipt
begin

text \<open>
  Searching logs: the filter of \<^verbatim>\<open>libaecereum/LogFilter.h\<close>, \<^verbatim>\<open>LogFilter.cpp\<close>. The hash sets of addresses
  and topics are the lists of their elements in the order they are iterated.
\<close>

section \<open>The filter\<close>

record LogFilter =
  m_addresses :: "address list"
  m_topics :: "h256 list list"
  m_earliest :: h256
  m_latest :: h256

definition EarliestBlockHash :: h256 where
  "EarliestBlockHash = 1"

definition PendingBlockHash :: h256 where
  "PendingBlockHash = 0"

definition LogFilter_new :: "h256 \<Rightarrow> h256 \<Rightarrow> LogFilter" where
  "LogFilter_new earliest latest =
     \<lparr>m_addresses = [], m_topics = [[], [], [], []], m_earliest = earliest, m_latest = latest\<rparr>"

definition filter_address :: "address \<Rightarrow> LogFilter \<Rightarrow> LogFilter" where
  "filter_address a f = f\<lparr>m_addresses := List.insert a (m_addresses f)\<rparr>"

definition filter_topic :: "nat \<Rightarrow> h256 \<Rightarrow> LogFilter \<Rightarrow> LogFilter" where
  "filter_topic i t f =
     (if i < 4 then f\<lparr>m_topics := (m_topics f)[i := List.insert t (m_topics f ! i)]\<rparr> else f)"

definition isRangeFilter :: "LogFilter \<Rightarrow> bool" where
  "isRangeFilter f = (m_addresses f = [] \<and> list_all (\<lambda>t. t = []) (m_topics f))"

definition matches_bloom :: "keccak \<Rightarrow> LogFilter \<Rightarrow> bytes \<Rightarrow> bool" where
  "matches_bloom K f b =
     ((m_addresses f = [] \<or> list_ex (\<lambda>i. bloom_has K (address_bytes i) b) (m_addresses f)) \<and>
      list_all (\<lambda>t. t = [] \<or> list_ex (\<lambda>i. bloom_has K (h256_bytes i) b) t) (m_topics f))"

text \<open>
  The test of one entry, position by position. \<^verbatim>\<open>e.topics.size() < i\<close> lets the position after the last
  topic pass: \<^verbatim>\<open>e.topics[i]\<close> is read past the end, which is \<open>None\<close>.
\<close>

fun matches_topics :: "nat \<Rightarrow> h256 list list \<Rightarrow> h256 list \<Rightarrow> bool option" where
  "matches_topics i [] ts = Some True"
| "matches_topics i (w # ws) ts =
     (if w = [] then matches_topics (Suc i) ws ts
      else if length ts < i then Some False
      else if length ts = i then None
      else if ts ! i \<in> set w then matches_topics (Suc i) ws ts else Some False)"

definition matches_entry :: "LogFilter \<Rightarrow> LogEntry \<Rightarrow> bool option" where
  "matches_entry f e =
     (if m_addresses f \<noteq> [] \<and> log_address e \<notin> set (m_addresses f) then Some False
      else matches_topics 0 (m_topics f) (log_topics e))"

fun matching_entries :: "LogFilter \<Rightarrow> LogEntry list \<Rightarrow> LogEntry list option" where
  "matching_entries f [] = Some []"
| "matching_entries f (e # es) = (case matches_entry f e of
     None \<Rightarrow> None
   | Some m \<Rightarrow> (case matching_entries f es of None \<Rightarrow> None | Some r \<Rightarrow> Some (if m then e # r else r)))"

definition matches_receipt :: "keccak \<Rightarrow> LogFilter \<Rightarrow> TransactionReceipt \<Rightarrow> LogEntry list option" where
  "matches_receipt K f r =
     (if isRangeFilter f then Some (rc_log r)
      else if matches_bloom K f (rc_bloom r) then matching_entries f (rc_log r) else Some [])"

text \<open>The blooms a block is looked up with.\<close>

definition topic_bloom :: "keccak \<Rightarrow> h256 list \<Rightarrow> bytes \<Rightarrow> bytes" where
  "topic_bloom K t b = fold (\<lambda>j b. bloom_add K (h256_bytes j) b) t b"

definition bloomPossibilities :: "keccak \<Rightarrow> LogFilter \<Rightarrow> bytes list" where
  "bloomPossibilities K f =
     (let given = filter (\<lambda>t. t \<noteq> []) (m_topics f);
          ret = concat (map (\<lambda>i. map (\<lambda>t. topic_bloom K t (bloom_add K (address_bytes i) (fh_zero 256))) given) (m_addresses f));
          ret = (if ret = [] then map (\<lambda>i. bloom_add K (address_bytes i) (fh_zero 256)) (m_addresses f) else ret)
      in if m_addresses f = [] then ret @ map (\<lambda>t. topic_bloom K t (fh_zero 256)) given else ret)"

section \<open>What a filter selects\<close>

definition selects :: "LogFilter \<Rightarrow> LogEntry \<Rightarrow> bool" where
  "selects f e \<longleftrightarrow> (m_addresses f = [] \<or> log_address e \<in> set (m_addresses f)) \<and>
     (\<forall>i<length (m_topics f). m_topics f ! i = [] \<or> (i < length (log_topics e) \<and> log_topics e ! i \<in> set (m_topics f ! i)))"

lemma length_bloom_add [simp]: "length (bloom_add K x b) = length b"
  by (simp add: bloom_add_def)

lemma bloom_has_add: "bloom_has K x (bloom_add K x b)" "bloom_has K x b \<Longrightarrow> bloom_has K x (bloom_add K y b)"
  by (simp_all add: bloom_has_def bloom_add_def containsBloom_shiftBloom)
    (simp add: shiftBloom_def containsBloom_or)

lemma fold_bloom_add:
  "length (fold (\<lambda>t b. bloom_add K (h256_bytes t) b) ts b) = length b"
  "bloom_has K x b \<Longrightarrow> bloom_has K x (fold (\<lambda>t b. bloom_add K (h256_bytes t) b) ts b)"
  "t \<in> set ts \<Longrightarrow> bloom_has K (h256_bytes t) (fold (\<lambda>t b. bloom_add K (h256_bytes t) b) ts b)"
proof -
  show len: "length (fold (\<lambda>t b. bloom_add K (h256_bytes t) b) ts b) = length b" for ts b
    by (induction ts arbitrary: b) simp_all
  show keep: "bloom_has K x b \<Longrightarrow> bloom_has K x (fold (\<lambda>t b. bloom_add K (h256_bytes t) b) ts b)" for x ts b
    by (induction ts arbitrary: b) (simp_all add: bloom_has_add)
  show "t \<in> set ts \<Longrightarrow> bloom_has K (h256_bytes t) (fold (\<lambda>t b. bloom_add K (h256_bytes t) b) ts b)"
    by (induction ts arbitrary: b) (auto simp: bloom_has_add keep)
qed

lemma LogEntry_bloom_facts:
  "length (LogEntry_bloom K e) = 256" "bloom_has K (address_bytes (log_address e)) (LogEntry_bloom K e)"
  "t \<in> set (log_topics e) \<Longrightarrow> bloom_has K (h256_bytes t) (LogEntry_bloom K e)"
  by (simp_all add: LogEntry_bloom_def fold_bloom_add bloom_has_add)

text \<open>The bloom of a list of entries has every address and every topic in it.\<close>

lemma bloom_logs_facts:
  shows "length (bloom_logs K es) = 256"
    and "e \<in> set es \<Longrightarrow> bloom_has K x (LogEntry_bloom K e) \<Longrightarrow> bloom_has K x (bloom_logs K es)"
proof -
  let ?f = "\<lambda>l ret. fh_or ret (LogEntry_bloom K l)"
  have len: "length (fold ?f es b) = 256" if "length b = 256" for es b
    using that by (induction es arbitrary: b) (simp_all add: LogEntry_bloom_facts)
  have keep: "bloom_has K x (fold ?f es b)" if "bloom_has K x b" "length b = 256" for es b
    using that by (induction es arbitrary: b) (simp_all add: LogEntry_bloom_facts bloom_has_def containsBloom_or)
  have "bloom_has K x (fold ?f es b)" if "e \<in> set es" "bloom_has K x (LogEntry_bloom K e)" "length b = 256" for b
    using that
  proof (induction es arbitrary: b)
    case (Cons a es)
    have "bloom_has K x (fh_or b (LogEntry_bloom K e))"
      using Cons.prems(2,3) by (simp add: bloom_has_def containsBloom_or LogEntry_bloom_facts)
    then show ?case
      using Cons keep [of "fh_or b (LogEntry_bloom K a)" es] by (auto simp: LogEntry_bloom_facts)
  qed simp
  then show "e \<in> set es \<Longrightarrow> bloom_has K x (LogEntry_bloom K e) \<Longrightarrow> bloom_has K x (bloom_logs K es)"
    by (simp add: bloom_logs_def)
  show "length (bloom_logs K es) = 256"
    by (simp add: bloom_logs_def len)
qed

lemma matches_topics_eq:
  "case matches_topics i ws ts of
     Some m \<Rightarrow> m = (\<forall>j<length ws. ws ! j = [] \<or> (i + j < length ts \<and> ts ! (i + j) \<in> set (ws ! j)))
   | None \<Rightarrow> \<exists>j<length ws. ws ! j \<noteq> [] \<and> length ts = i + j"
proof (induction i ws ts rule: matches_topics.induct)
  case (2 i w ws ts)
  have all: "(\<forall>j<length (w # ws). P j) \<longleftrightarrow> P 0 \<and> (\<forall>j<length ws. P (Suc j))" for P
    by (simp add: All_less_Suc2)
  have ex: "(\<exists>j<length (w # ws). P j) \<longleftrightarrow> P 0 \<or> (\<exists>j<length ws. P (Suc j))" for P
    by (simp add: Ex_less_Suc2)
  show ?case
    using 2 unfolding all ex by (cases "matches_topics (Suc i) ws ts") auto
qed simp

lemma matches_entry_eq:
  "case matches_entry f e of
     Some m \<Rightarrow> m = selects f e
   | None \<Rightarrow> \<exists>i<length (m_topics f). m_topics f ! i \<noteq> [] \<and> length (log_topics e) = i"
  using matches_topics_eq [where i = 0 and ws = "m_topics f" and ts = "log_topics e"]
  by (auto simp: matches_entry_def selects_def split: option.splits)

lemma matching_entries_eq:
  "case matching_entries f es of
     Some r \<Rightarrow> r = filter (selects f) es
   | None \<Rightarrow> \<exists>e\<in>set es. \<exists>i<length (m_topics f). m_topics f ! i \<noteq> [] \<and> length (log_topics e) = i"
proof (induction es)
  case (Cons e es)
  then show ?case
    using matches_entry_eq [where f = f and e = e] by (cases "matches_entry f e"; cases "matching_entries f es") auto
qed simp

lemma selects_matches_bloom:
  assumes "selects f e" "e \<in> set es"
  shows "matches_bloom K f (bloom_logs K es)"
proof -
  have "list_ex (\<lambda>i. bloom_has K (h256_bytes i) (bloom_logs K es)) t" if t: "t \<in> set (m_topics f)" "t \<noteq> []" for t
  proof -
    obtain i where "i < length (m_topics f)" "t = m_topics f ! i"
      using t(1) unfolding in_set_conv_nth by blast
    then have i: "i < length (log_topics e)" "log_topics e ! i \<in> set t"
      using assms(1) t(2) by (auto simp: selects_def)
    then have "bloom_has K (h256_bytes (log_topics e ! i)) (bloom_logs K es)"
      using assms(2) LogEntry_bloom_facts(3) bloom_logs_facts(2) by (meson nth_mem)
    with i show ?thesis by (auto simp: list_ex_iff)
  qed
  moreover have "bloom_has K (address_bytes (log_address e)) (bloom_logs K es)"
    using assms(2) LogEntry_bloom_facts(2) bloom_logs_facts(2) by blast
  ultimately show ?thesis
    using assms(1) by (auto simp: matches_bloom_def list_all_iff list_ex_iff selects_def)
qed

text \<open>
  C36. Filtering a receipt is exact: of the entries of a receipt with its own bloom, exactly those the
  filter selects are returned, in order, and the bloom never hides one; the only other outcome is the
  read past the topics of an entry that ends right before a position the filter constrains.
\<close>

theorem log_filter_exact:
  assumes "rc_bloom r = bloom_logs K (rc_log r)"
  shows "case matches_receipt K f r of
      Some es \<Rightarrow> es = filter (selects f) (rc_log r)
    | None \<Rightarrow> \<exists>e\<in>set (rc_log r). \<exists>i<length (m_topics f). m_topics f ! i \<noteq> [] \<and> length (log_topics e) = i"
proof -
  have range: "selects f e" if "isRangeFilter f" for e
    using that by (auto simp: isRangeFilter_def selects_def list_all_length)
  have none: "filter (selects f) (rc_log r) = []" if "\<not> matches_bloom K f (rc_bloom r)"
    using that selects_matches_bloom assms by (metis filter_False)
  show ?thesis
    using matching_entries_eq [where f = f and es = "rc_log r"] range none
    by (auto simp: matches_receipt_def split: option.splits)
qed

theorem log_filter_exact_witness:
  "\<forall>K. \<exists>es. matches_receipt K (filter_address 7 (LogFilter_new 1 0))
       (TransactionReceipt_of K (StatusCode 1) 0 [\<lparr>log_address = 7, log_topics = [], log_data = []\<rparr>]) = Some es \<and> length es = 1"
proof
  fix K
  let ?e = "\<lparr>log_address = 7, log_topics = [], log_data = []\<rparr> :: LogEntry"
  let ?r = "TransactionReceipt_of K (StatusCode 1) 0 [?e]" and ?f = "filter_address 7 (LogFilter_new 1 0)"
  have s: "selects ?f ?e" "m_topics ?f = [[], [], [], []]"
    by (simp_all add: selects_def filter_address_def LogFilter_new_def less_Suc_eq numeral_eq_Suc)
  have "rc_bloom ?r = bloom_logs K (rc_log ?r)" by (simp add: TransactionReceipt_of_def)
  from log_filter_exact [OF this, where f = ?f] s
  show "\<exists>es. matches_receipt K ?f ?r = Some es \<and> length es = 1"
    by (auto simp: TransactionReceipt_of_def less_Suc_eq numeral_eq_Suc split: option.splits)
qed

end
