(* ===== verification/BloomIndex.thy ===== *)
theory BloomIndex
  imports LogFilter
begin

text \<open>
  The two-level index of block blooms in \<^verbatim>\<open>libaecereum/BlockChain.cpp\<close> (with \<^verbatim>\<open>BlockChain.h\<close> and
  \<^verbatim>\<open>BlockDetails.h\<close>): adding a block, clearing the blocks of a chain that is abandoned, looking blocks
  up by bloom, and the search of \<^verbatim>\<open>ClientBase::logs\<close> that uses it.

  The cache \<^verbatim>\<open>m_blocksBlooms\<close> in front of the database is one map; what is not in it has empty blooms.
  \<^verbatim>\<open>unsigned\<close> numbers are naturals with the reduction modulo $2^{32}$ written out where it can matter.
\<close>

section \<open>The index\<close>

type_synonym bloom_index = "nat \<rightharpoonup> bytes list"

definition c_bloomIndexSize :: nat where "c_bloomIndexSize = 16"
definition c_bloomIndexLevels :: nat where "c_bloomIndexLevels = 2"

definition chunkId :: "nat \<Rightarrow> nat \<Rightarrow> nat" where
  "chunkId level idx = (idx * 0xff + level) mod 2 ^ 32"

definition blocksBlooms :: "bloom_index \<Rightarrow> nat \<Rightarrow> bytes list" where
  "blocksBlooms m cid = (case m cid of Some b \<Rightarrow> b | None \<Rightarrow> replicate c_bloomIndexSize (fh_zero 256))"

definition blockBloom :: "bloom_index \<Rightarrow> nat \<Rightarrow> bytes" where
  "blockBloom m number = blocksBlooms m (chunkId 0 (number div c_bloomIndexSize)) ! (number mod c_bloomIndexSize)"

definition setBloom :: "nat \<Rightarrow> nat \<Rightarrow> bytes \<Rightarrow> bloom_index \<Rightarrow> bloom_index" where
  "setBloom cid i b m = m(cid \<mapsto> (blocksBlooms m cid)[i := b])"

function addBlooms :: "nat \<Rightarrow> nat \<Rightarrow> bytes \<Rightarrow> bloom_index \<Rightarrow> bloom_index" where
  "addBlooms level idx b m =
     (if level < c_bloomIndexLevels
      then (let cid = chunkId level (idx div c_bloomIndexSize); i = idx mod c_bloomIndexSize
            in addBlooms (Suc level) (idx div c_bloomIndexSize) b
                 (setBloom cid i (fh_or (blocksBlooms m cid ! i) b) m))
      else m)"
  by pat_completeness auto
termination
  by (relation "measure (\<lambda>(level, _). c_bloomIndexLevels - level)") auto

declare addBlooms.simps [simp del]

text \<open>What inserting a block into the best chain does: the block's own bloom with its author.\<close>

definition indexBlock :: "keccak \<Rightarrow> nat \<Rightarrow> bytes \<Rightarrow> address \<Rightarrow> bloom_index \<Rightarrow> bloom_index" where
  "indexBlock K number logBloom author m =
     addBlooms 0 (number mod 2 ^ 32) (bloom_add K (address_bytes author) logBloom) m"

section \<open>Clearing\<close>

text \<open>The values of a counter that runs from \<open>b\<close> until it equals \<open>e\<close>.\<close>

definition counter :: "nat \<Rightarrow> nat \<Rightarrow> nat list" where
  "counter b e = (if b \<le> e then [b..<e] else [b..<2 ^ 32] @ [0..<e])"

definition clearItem :: "nat \<Rightarrow> nat \<Rightarrow> bloom_index \<Rightarrow> bloom_index" where
  "clearItem level item m =
     setBloom (chunkId level (item div c_bloomIndexSize)) (item mod c_bloomIndexSize)
       (if level \<noteq> 0 then fold (\<lambda>b acc. fh_or acc b) (blocksBlooms m (chunkId (level - 1) item)) (fh_zero 256)
        else fh_zero 256) m"

function clearLevels :: "nat \<Rightarrow> nat \<Rightarrow> nat \<Rightarrow> bloom_index \<Rightarrow> bloom_index" where
  "clearLevels level b e m =
     (if level < c_bloomIndexLevels
      then clearLevels (Suc level) (b div c_bloomIndexSize)
             (((e + (2 ^ 32 - 1)) mod 2 ^ 32) div c_bloomIndexSize + 1) (fold (clearItem level) (counter b e) m)
      else m)"
  by pat_completeness auto
termination
  by (relation "measure (\<lambda>(level, _). c_bloomIndexLevels - level)") auto

declare clearLevels.simps [simp del]

definition clearBlockBlooms :: "nat \<Rightarrow> nat \<Rightarrow> bloom_index \<Rightarrow> bloom_index" where
  "clearBlockBlooms b e m = clearLevels 0 b e m"

section \<open>Looking up\<close>

fun upow_loop :: "nat \<Rightarrow> nat \<Rightarrow> nat" where
  "upow_loop a 0 = a"
| "upow_loop a (Suc n) = upow_loop (a * a mod 2 ^ 32) n"

text \<open>\<^verbatim>\<open>upow\<close> squares its first argument, so it is a power only up to the exponent 2.\<close>

definition upow :: "nat \<Rightarrow> nat \<Rightarrow> nat" where
  "upow a b = (if b = 0 then 1 else upow_loop a (b - 1))"

definition ceilDiv :: "nat \<Rightarrow> nat \<Rightarrow> nat" where
  "ceilDiv n d = ((n + d - 1) mod 2 ^ 32) div d"

definition lookupRange :: "nat \<Rightarrow> nat \<Rightarrow> nat \<Rightarrow> nat \<Rightarrow> nat list" where
  "lookupRange earliest latest level idx =
     (let uCourse = upow c_bloomIndexSize (level + 1); uFine = upow c_bloomIndexSize level;
          obegin = (if idx = earliest div uCourse then earliest div uFine mod c_bloomIndexSize else 0);
          oend = (if idx = latest div uCourse then latest div uFine mod c_bloomIndexSize + 1 else c_bloomIndexSize)
      in [obegin..<oend])"

fun withBlockBloom_level :: "bloom_index \<Rightarrow> bytes \<Rightarrow> nat \<Rightarrow> nat \<Rightarrow> nat \<Rightarrow> nat \<Rightarrow> nat list" where
  "withBlockBloom_level m b earliest latest 0 idx =
     concat (map (\<lambda>i. if fh_contains (blocksBlooms m (chunkId 0 idx) ! i) b
                      then [(i + idx * c_bloomIndexSize) mod 2 ^ 32] else [])
       (lookupRange earliest latest 0 idx))"
| "withBlockBloom_level m b earliest latest (Suc level) idx =
     concat (map (\<lambda>i. if fh_contains (blocksBlooms m (chunkId (Suc level) idx) ! i) b
                      then withBlockBloom_level m b earliest latest level ((i + idx * c_bloomIndexSize) mod 2 ^ 32) else [])
       (lookupRange earliest latest (Suc level) idx))"

definition withBlockBloom :: "bloom_index \<Rightarrow> bytes \<Rightarrow> nat \<Rightarrow> nat \<Rightarrow> nat list" where
  "withBlockBloom m b earliest latest =
     (let u = upow c_bloomIndexSize c_bloomIndexLevels
      in concat (map (withBlockBloom_level m b earliest latest (c_bloomIndexLevels - 1)) [earliest div u..<Suc (ceilDiv latest u)]))"

text \<open>The blocks of the main chain that \<^verbatim>\<open>ClientBase::logs\<close> reads the receipts of.\<close>

definition matchingBlocks :: "keccak \<Rightarrow> LogFilter \<Rightarrow> bloom_index \<Rightarrow> nat \<Rightarrow> nat \<Rightarrow> nat set" where
  "matchingBlocks K f m earliest latest =
     (if \<not> isRangeFilter f
      then set (concat (map (\<lambda>i. withBlockBloom m i earliest latest) (bloomPossibilities K f)))
      else set [earliest..<Suc latest])"

section \<open>Looking up is exact\<close>

text \<open>
  The invariant: chunks have 16 blooms of 256 bytes, and what the lower level has the upper has.
\<close>

definition upperBloom :: "bloom_index \<Rightarrow> nat \<Rightarrow> bytes" where
  "upperBloom m n = blocksBlooms m (chunkId 1 (n div 256)) ! (n div 16 mod 16)"

definition index_shape :: "bloom_index \<Rightarrow> bool" where
  "index_shape m \<longleftrightarrow> (\<forall>c b. m c = Some b \<longrightarrow> length b = 16 \<and> (\<forall>x\<in>set b. length x = 256))"

definition index_ok :: "bloom_index \<Rightarrow> bool" where
  "index_ok m \<longleftrightarrow> index_shape m \<and> (\<forall>n<2 ^ 28. fh_contains (upperBloom m n) (blockBloom m n))"

lemma blocksBlooms_shape:
  assumes "index_shape m"
  shows "length (blocksBlooms m c) = 16" "i < 16 \<Longrightarrow> length (blocksBlooms m c ! i) = 256"
  using assms nth_mem [of i "blocksBlooms m c"]
  by (cases "m c"; simp add: index_shape_def blocksBlooms_def c_bloomIndexSize_def)+

lemma upow_simps [simp]: "upow 16 0 = 1" "upow 16 (Suc 0) = 16" "upow 16 (Suc (Suc 0)) = 256" "upow 16 2 = 256"
  by (simp_all add: upow_def)

lemma mem_if_list: "n \<in> set (if c then xs else []) \<longleftrightarrow> c \<and> n \<in> set xs"
  by simp

lemma lookup_level_0:
  assumes "idx < 2 ^ 27"
  shows "n \<in> set (withBlockBloom_level m b e l 0 idx) \<longleftrightarrow>
    n div 16 = idx \<and> fh_contains (blockBloom m n) b \<and>
    (idx = e div 16 \<longrightarrow> e mod 16 \<le> n mod 16) \<and> (idx = l div 16 \<longrightarrow> n mod 16 \<le> l mod 16)"
proof -
  have wrap: "(i + idx * 16) mod 2 ^ 32 = i + idx * 16" if "i < 16" for i
    using that assms by simp
  have range: "set (lookupRange e l 0 idx) =
      {i. i < 16 \<and> (idx = e div 16 \<longrightarrow> e mod 16 \<le> i) \<and> (idx = l div 16 \<longrightarrow> i \<le> l mod 16)}"
    by (auto simp: lookupRange_def c_bloomIndexSize_def Let_def)
  have "n \<in> set (withBlockBloom_level m b e l 0 idx) \<longleftrightarrow>
      (\<exists>i. i \<in> set (lookupRange e l 0 idx) \<and> fh_contains (blocksBlooms m (chunkId 0 idx) ! i) b \<and> n = i + idx * 16)"
    unfolding range using wrap by (auto simp: c_bloomIndexSize_def range split: if_splits)
  also have "\<dots> \<longleftrightarrow> n div 16 = idx \<and> n mod 16 \<in> set (lookupRange e l 0 idx) \<and> fh_contains (blockBloom m n) b"
    by (auto simp: range blockBloom_def c_bloomIndexSize_def intro!: exI [of _ "n mod 16"])
  finally show ?thesis
    by (auto simp: range)
qed

lemma fh_contains_trans:
  assumes "fh_contains a b" "fh_contains b c" "length a = length b" "length b = length c"
  shows "fh_contains a c"
proof -
  have "x AND z = z" if "x AND y = y" "y AND z = z" for x y z :: byte
    using that by (metis and.assoc)
  then show ?thesis
    using assms by (auto simp: fh_contains_iff)
qed

lemma bex_unique: "(\<And>i. i \<in> R \<Longrightarrow> P i \<longleftrightarrow> D \<and> k = i) \<Longrightarrow> (\<exists>i\<in>R. P i \<and> Q) \<longleftrightarrow> D \<and> k \<in> R \<and> Q"
  by blast

lemma div_256: "(n :: nat) div 16 div 16 = n div 256"
  by (simp add: div_mult2_eq [symmetric])

lemma div_16_iff: "i < 16 \<Longrightarrow> (n :: nat) div 16 = i + idx * 16 \<longleftrightarrow> n div 256 = idx \<and> n div 16 mod 16 = i"
  unfolding div_256 [symmetric] by auto

lemma lookup_level_1:
  assumes ok: "index_ok m" and i: "idx < 2 ^ 20" and b: "length b = 256"
  shows "n \<in> set (withBlockBloom_level m b e l 1 idx) \<longleftrightarrow>
    n div 256 = idx \<and> fh_contains (blockBloom m n) b \<and>
    (idx = e div 256 \<longrightarrow> e div 16 mod 16 \<le> n div 16 mod 16) \<and> (idx = l div 256 \<longrightarrow> n div 16 mod 16 \<le> l div 16 mod 16) \<and>
    (n div 16 = e div 16 \<longrightarrow> e mod 16 \<le> n mod 16) \<and> (n div 16 = l div 16 \<longrightarrow> n mod 16 \<le> l mod 16)"
proof -
  have range: "set (lookupRange e l 1 idx) =
      {i. i < 16 \<and> (idx = e div 256 \<longrightarrow> e div 16 mod 16 \<le> i) \<and> (idx = l div 256 \<longrightarrow> i \<le> l div 16 mod 16)}"
    by (auto simp: lookupRange_def c_bloomIndexSize_def Let_def)
  have sub: "n \<in> set (withBlockBloom_level m b e l 0 ((i + idx * 16) mod 2 ^ 32)) \<longleftrightarrow>
      n div 16 = i + idx * 16 \<and> fh_contains (blockBloom m n) b \<and>
      (i + idx * 16 = e div 16 \<longrightarrow> e mod 16 \<le> n mod 16) \<and> (i + idx * 16 = l div 16 \<longrightarrow> n mod 16 \<le> l mod 16)" if "i < 16" for i
  proof -
    have "(i + idx * 16) mod 2 ^ 32 = i + idx * 16" "i + idx * 16 < 2 ^ 27"
      using that assms(2) by simp_all
    then show ?thesis using lookup_level_0 [of "i + idx * 16" n m b e l] by simp
  qed
  have up: "fh_contains (blocksBlooms m (chunkId 1 idx) ! i) b"
    if "n div 16 = i + idx * 16" "i < 16" "fh_contains (blockBloom m n) b" for i
  proof -
    have "n div 16 div 16 = idx" "n div 16 mod 16 = i" using that by simp_all
    then have n: "n div 256 = idx" "n div 16 mod 16 = i" by (simp_all add: div_mult2_eq [symmetric])
    then have "n < 2 ^ 28" using i by auto
    then have "fh_contains (upperBloom m n) (blockBloom m n)" using ok by (simp add: index_ok_def)
    then show ?thesis
      using fh_contains_trans [of "upperBloom m n" "blockBloom m n" b] that(2,3) n b blocksBlooms_shape [of m] ok
      by (simp add: index_ok_def upperBloom_def blockBloom_def c_bloomIndexSize_def)
  qed
  have "n \<in> set (withBlockBloom_level m b e l 1 idx) \<longleftrightarrow>
      (\<exists>i\<in>set (lookupRange e l 1 idx). fh_contains (blocksBlooms m (chunkId 1 idx) ! i) b \<and>
         n \<in> set (withBlockBloom_level m b e l 0 ((i + idx * 16) mod 2 ^ 32)))"
    by (simp only: One_nat_def withBlockBloom_level.simps(2) c_bloomIndexSize_def set_concat set_map UN_iff bex_simps(7)
        image_iff mem_if_list)
  also have "\<dots> \<longleftrightarrow> (\<exists>i\<in>set (lookupRange e l 1 idx). n div 16 = i + idx * 16 \<and> fh_contains (blockBloom m n) b \<and>
      (n div 16 = e div 16 \<longrightarrow> e mod 16 \<le> n mod 16) \<and> (n div 16 = l div 16 \<longrightarrow> n mod 16 \<le> l mod 16))"
  proof (rule bex_cong [OF refl])
    fix i assume "i \<in> set (lookupRange e l 1 idx)"
    then have "i < 16" unfolding range by simp
    then show "fh_contains (blocksBlooms m (chunkId 1 idx) ! i) b \<and>
         n \<in> set (withBlockBloom_level m b e l 0 ((i + idx * 16) mod 2 ^ 32)) \<longleftrightarrow>
       n div 16 = i + idx * 16 \<and> fh_contains (blockBloom m n) b \<and>
      (n div 16 = e div 16 \<longrightarrow> e mod 16 \<le> n mod 16) \<and> (n div 16 = l div 16 \<longrightarrow> n mod 16 \<le> l mod 16)"
      using sub [of i] up [of i] by metis
  qed
  also have "\<dots> \<longleftrightarrow> n div 256 = idx \<and> n div 16 mod 16 \<in> set (lookupRange e l 1 idx) \<and> fh_contains (blockBloom m n) b \<and>
      (n div 16 = e div 16 \<longrightarrow> e mod 16 \<le> n mod 16) \<and> (n div 16 = l div 16 \<longrightarrow> n mod 16 \<le> l mod 16)"
    using div_16_iff [of _ n idx] unfolding range by (intro bex_unique) blast
  finally show ?thesis unfolding range by auto
qed

lemma digits_order:
  fixes q r p t :: nat
  assumes "r < 16" "t < 16"
  shows "16 * q + r \<le> 16 * p + t \<longleftrightarrow> q < p \<or> q = p \<and> r \<le> t"
    "16 * q + r < 16 * p + t \<longleftrightarrow> q < p \<or> q = p \<and> r < t"
    "16 * q + r = 16 * p + t \<longleftrightarrow> q = p \<and> r = t"
  using assms by presburger+

lemma le_digits: "(a :: nat) \<le> b \<longleftrightarrow> a div 16 < b div 16 \<or> a div 16 = b div 16 \<and> a mod 16 \<le> b mod 16"
  using digits_order(1) [of "a mod 16" "b mod 16" "a div 16" "b div 16"] by simp

lemma less_digits: "(a :: nat) < b \<longleftrightarrow> a div 16 < b div 16 \<or> a div 16 = b div 16 \<and> a mod 16 < b mod 16"
  using digits_order(2) [of "a mod 16" "b mod 16" "a div 16" "b div 16"] by simp

lemma eq_digits: "(a :: nat) = b \<longleftrightarrow> a div 16 = b div 16 \<and> a mod 16 = b mod 16"
  using digits_order(3) [of "a mod 16" "b mod 16" "a div 16" "b div 16"] by simp

lemma le_three_digits:
  "(a :: nat) \<le> b \<longleftrightarrow> a div 256 < b div 256 \<or> a div 256 = b div 256 \<and> (a div 16 mod 16 < b div 16 mod 16 \<or>
     a div 16 = b div 16 \<and> a mod 16 \<le> b mod 16)"
  unfolding le_digits [of a b] less_digits [of "a div 16" "b div 16"] div_256
  using eq_digits [of "a div 16" "b div 16"] by (auto simp: div_256)

lemma lexicographic:
  fixes a b c d u v w x :: nat
  assumes "u = v \<longleftrightarrow> a = b \<and> c = d"
  shows "a < b \<or> a = b \<and> (c < d \<or> u = v \<and> w \<le> x) \<longleftrightarrow> a \<le> b \<and> (b = a \<longrightarrow> c \<le> d) \<and> (v = u \<longrightarrow> w \<le> x)"
  using assms by auto

lemma range_digits:
  "(a :: nat) \<le> b \<longleftrightarrow> a div 256 \<le> b div 256 \<and> (b div 256 = a div 256 \<longrightarrow> a div 16 mod 16 \<le> b div 16 mod 16) \<and>
     (b div 16 = a div 16 \<longrightarrow> a mod 16 \<le> b mod 16)"
proof -
  have "a div 16 = b div 16 \<longleftrightarrow> a div 256 = b div 256 \<and> a div 16 mod 16 = b div 16 mod 16"
    using eq_digits [of "a div 16" "b div 16"] by (simp only: div_256)
  then show ?thesis
    unfolding le_three_digits [of a b] by (rule lexicographic)
qed

lemma ceilDiv_256: "l < 2 ^ 27 \<Longrightarrow> ceilDiv l 256 = (if 256 dvd l then l div 256 else l div 256 + 1)"
proof -
  assume l: "l < 2 ^ 27"
  obtain q r where qr: "l = 256 * q + r" "r < 256" "q = l div 256" "r = l mod 256"
    by (metis mod_less_divisor mult_div_mod_eq zero_less_numeral)
  have "ceilDiv l 256 = (256 * q + (r + 255)) div 256"
    using l qr(1) by (simp add: ceilDiv_def)
  also have "\<dots> = q + (r + 255) div 256" by simp
  also have "(r + 255) div 256 = (if r = 0 then 0 else 1)"
    using qr(2) by (auto intro: div_nat_eqI)
  finally show ?thesis
    using qr(3,4) by (auto simp: dvd_eq_mod_eq_0)
qed

lemma upper_digits:
  assumes "l < 2 ^ 27"
  shows "n \<le> l \<or> \<not> 256 dvd l \<and> n div 256 = l div 256 + 1 \<longleftrightarrow> n div 256 \<le> ceilDiv l 256 \<and>
    (n div 256 = l div 256 \<longrightarrow> n div 16 mod 16 \<le> l div 16 mod 16) \<and> (n div 16 = l div 16 \<longrightarrow> n mod 16 \<le> l mod 16)"
proof (cases "n div 256 \<le> l div 256")
  case True
  then have "n div 256 \<le> ceilDiv l 256" unfolding ceilDiv_256 [OF assms] by (simp split: if_splits)
  moreover have "n div 256 \<noteq> l div 256 + 1" using True by linarith
  moreover note eq_commute [of "n div 256" "l div 256"] eq_commute [of "n div 16" "l div 16"]
  ultimately show ?thesis
    using True unfolding range_digits [of n l] by argo
next
  case False
  then have "\<not> n \<le> l" "n div 256 \<noteq> l div 256" "n div 16 \<noteq> l div 16"
    by (auto simp: div_le_mono simp flip: div_256)
  then show ?thesis
    using False unfolding ceilDiv_256 [OF assms] by auto
qed

lemma lookup_set:
  assumes ok: "index_ok m" and b: "length b = 256" and r: "earliest \<le> latest" "latest < 2 ^ 27"
  shows "set (withBlockBloom m b earliest latest) =
    {n. fh_contains (blockBloom m n) b \<and> earliest \<le> n \<and>
        (n \<le> latest \<or> \<not> 256 dvd latest \<and> n div 256 = latest div 256 + 1)}"
proof (rule set_eqI)
  fix n
  let ?e = earliest and ?l = latest
  have small: "idx < 2 ^ 20" if "idx \<le> ?l div 256 + 1" for idx
    using that r(2) by auto
  have "n \<in> set (withBlockBloom m b ?e ?l) \<longleftrightarrow>
      (\<exists>idx. ?e div 256 \<le> idx \<and> idx \<le> ceilDiv ?l 256 \<and> n \<in> set (withBlockBloom_level m b ?e ?l 1 idx))"
    by (auto simp: withBlockBloom_def c_bloomIndexSize_def c_bloomIndexLevels_def simp del: withBlockBloom_level.simps)
  also have "\<dots> \<longleftrightarrow> ?e div 256 \<le> n div 256 \<and> n div 256 \<le> ceilDiv ?l 256 \<and> fh_contains (blockBloom m n) b \<and>
      (n div 256 = ?e div 256 \<longrightarrow> ?e div 16 mod 16 \<le> n div 16 mod 16) \<and>
      (n div 256 = ?l div 256 \<longrightarrow> n div 16 mod 16 \<le> ?l div 16 mod 16) \<and>
      (n div 16 = ?e div 16 \<longrightarrow> ?e mod 16 \<le> n mod 16) \<and> (n div 16 = ?l div 16 \<longrightarrow> n mod 16 \<le> ?l mod 16)"
  proof -
    have "n \<in> set (withBlockBloom_level m b ?e ?l 1 idx) \<longleftrightarrow> n div 256 = idx \<and> fh_contains (blockBloom m n) b \<and>
        (idx = ?e div 256 \<longrightarrow> ?e div 16 mod 16 \<le> n div 16 mod 16) \<and> (idx = ?l div 256 \<longrightarrow> n div 16 mod 16 \<le> ?l div 16 mod 16) \<and>
        (n div 16 = ?e div 16 \<longrightarrow> ?e mod 16 \<le> n mod 16) \<and> (n div 16 = ?l div 16 \<longrightarrow> n mod 16 \<le> ?l mod 16)"
      if "idx \<le> ceilDiv ?l 256" for idx
      using that small [of idx] by (intro lookup_level_1 [OF ok _ b]) (auto simp: ceilDiv_256 [OF r(2)] split: if_splits)
    then show ?thesis by blast
  qed
  also have "\<dots> \<longleftrightarrow> fh_contains (blockBloom m n) b \<and> ?e \<le> n \<and> (n \<le> ?l \<or> \<not> 256 dvd ?l \<and> n div 256 = ?l div 256 + 1)"
  proof -
    have "n \<le> ?l \<or> \<not> 256 dvd ?l \<and> n div 256 = ?l div 256 + 1 \<longleftrightarrow> n div 256 \<le> ceilDiv ?l 256 \<and>
        (n div 256 = ?l div 256 \<longrightarrow> n div 16 mod 16 \<le> ?l div 16 mod 16) \<and> (n div 16 = ?l div 16 \<longrightarrow> n mod 16 \<le> ?l mod 16)"
      by (rule upper_digits [OF r(2)])
    then show ?thesis using range_digits [of ?e n] by blast
  qed
  finally show "n \<in> set (withBlockBloom m b ?e ?l) \<longleftrightarrow>
      n \<in> {n. fh_contains (blockBloom m n) b \<and> ?e \<le> n \<and> (n \<le> ?l \<or> \<not> 256 dvd ?l \<and> n div 256 = ?l div 256 + 1)}"
    by simp
qed

lemma lookup_sound:
  assumes "index_ok m" "length b = 256" "earliest \<le> n" "n \<le> latest" "latest < 2 ^ 27" "fh_contains (blockBloom m n) b"
  shows "n \<in> set (withBlockBloom m b earliest latest)"
  using lookup_set [of m b earliest latest] assms by auto

end
