(* ===== verification/LogSearch.thy ===== *)
theory LogSearch
  imports BloomIndex
begin

text \<open>
  The index of blooms kept up to date: adding blocks and clearing abandoned ones keep its invariant,
  and a search through it misses no block of the chain, as long as the filter does not offer
  alternatives at every position it constrains.
\<close>

section \<open>The index as two arrays\<close>

text \<open>The bloom of item \<open>i\<close> of a level: a block at level 0, sixteen blocks at level 1.\<close>

definition cell :: "bloom_index \<Rightarrow> nat \<Rightarrow> nat \<Rightarrow> bytes" where
  "cell m level i = blocksBlooms m (chunkId level (i div 16)) ! (i mod 16)"

lemma cell_levels: "blockBloom m n = cell m 0 n" "upperBloom m n = cell m 1 (n div 16)"
  by (simp_all add: cell_def blockBloom_def upperBloom_def c_bloomIndexSize_def div_256)

lemma chunkId_inject:
  assumes "a < 2 ^ 24" "b < 2 ^ 24" "l \<le> 1" "k \<le> 1"
  shows "chunkId l a = chunkId k b \<longleftrightarrow> l = k \<and> a = b"
proof -
  have "a * 255 + l < 2 ^ 32" "b * 255 + k < 2 ^ 32" using assms by simp_all
  then have "chunkId l a = a * 255 + l" "chunkId k b = b * 255 + k" by (simp_all add: chunkId_def)
  moreover have "(a * 255 + l) div 255 = a" "(a * 255 + l) mod 255 = l" "(b * 255 + k) div 255 = b" "(b * 255 + k) mod 255 = k"
    using assms(3,4) by simp_all
  ultimately show ?thesis by metis
qed

lemma blocksBlooms_setBloom:
  "blocksBlooms (setBloom c i v m) d = (if d = c then (blocksBlooms m c)[i := v] else blocksBlooms m d)"
  by (simp add: setBloom_def blocksBlooms_def)

lemma blocksBlooms_member: "index_shape m \<Longrightarrow> x \<in> set (blocksBlooms m c) \<Longrightarrow> length x = 256"
  using blocksBlooms_shape [of m] by (auto simp: in_set_conv_nth)

lemma index_shape_setBloom:
  assumes "index_shape m" "length v = 256"
  shows "index_shape (setBloom c i v m)"
proof -
  have "length x = 256" if "x \<in> set ((blocksBlooms m c)[i := v])" for x
    using that set_update_subset_insert [of "blocksBlooms m c" i v] blocksBlooms_member [OF assms(1), of x c] assms(2) by auto
  then show ?thesis
    using assms blocksBlooms_shape(1) [OF assms(1), of c] by (simp add: index_shape_def setBloom_def)
qed

lemma cell_length: "index_shape m \<Longrightarrow> length (cell m l i) = 256"
  using blocksBlooms_shape(2) [of m "i mod 16"] by (simp add: cell_def)

lemma cell_set:
  assumes "index_shape m" "i < 2 ^ 28" "j < 2 ^ 28" "l \<le> 1" "k \<le> 1"
  shows "cell (setBloom (chunkId l (i div 16)) (i mod 16) v m) k j = (if l = k \<and> i = j then v else cell m k j)"
proof -
  have "i div 16 < 2 ^ 24" "j div 16 < 2 ^ 24" using assms(2,3) by (simp_all add: less_mult_imp_div_less)
  then have "chunkId k (j div 16) = chunkId l (i div 16) \<longleftrightarrow> k = l \<and> j div 16 = i div 16"
    using assms(4,5) by (intro chunkId_inject) simp_all
  then show ?thesis
    using blocksBlooms_shape(1) [OF assms(1)] eq_digits [of i j]
    by (auto simp: cell_def blocksBlooms_setBloom nth_list_update)
qed

section \<open>Containment\<close>

lemma fh_contains_or_both:
  assumes "length h = length a" "length a = length b" "fh_contains h a" "fh_contains h b"
  shows "fh_contains h (fh_or a b)"
proof -
  have "x AND (y OR z) = y OR z" if "x AND y = y" "x AND z = z" for x y z :: byte
    by (simp add: bit.conj_disj_distrib that)
  then show ?thesis using assms by (simp add: fh_contains_iff fh_or_def)
qed

lemma fh_contains_zero: "fh_contains h (fh_zero (length h))"
  by (simp add: fh_contains_iff) (simp add: fh_zero_def)

lemma fh_contains_refl: "fh_contains h h"
  by (simp add: fh_contains_iff)

lemma fh_contains_or_left: "length a = length b \<Longrightarrow> fh_contains (fh_or a b) a"
  using fh_contains_or(2) [of a b a] by (simp add: fh_contains_refl)

lemma fold_or_contains:
  assumes "x \<in> set bs" "\<forall>b\<in>set bs. length b = 256" "length z = 256"
  shows "fh_contains (fold (\<lambda>b acc. fh_or acc b) bs z) x"
proof -
  have len: "length (fold (\<lambda>b acc. fh_or acc b) bs z) = 256" if "\<forall>b\<in>set bs. length b = 256" "length z = 256" for bs z
    using that by (induction bs arbitrary: z) simp_all
  have keep: "fh_contains (fold (\<lambda>b acc. fh_or acc b) bs z) z" if "\<forall>b\<in>set bs. length b = 256" "length z = 256" for bs z
    using that
  proof (induction bs arbitrary: z)
    case (Cons a bs)
    then have "fh_contains (fold (\<lambda>b acc. fh_or acc b) bs (fh_or z a)) (fh_or z a)" by simp
    then show ?case
      using Cons.prems fh_contains_trans [OF _ fh_contains_or_left [of z a]] len [of bs "fh_or z a"] by simp
  qed (simp add: fh_contains_refl)
  show ?thesis
    using assms
  proof (induction bs arbitrary: z)
    case (Cons a bs)
    show ?case
    proof (cases "x = a")
      case True
      have "fh_contains (fold (\<lambda>b acc. fh_or acc b) bs (fh_or z a)) (fh_or z a)" using Cons.prems keep by simp
      moreover have "fh_contains (fh_or z a) a" using Cons.prems by (intro fh_contains_or) simp_all
      ultimately have "fh_contains (fold (\<lambda>b acc. fh_or acc b) bs (fh_or z a)) a"
        by (rule fh_contains_trans) (use Cons.prems len [of bs "fh_or z a"] in simp_all)
      with True show ?thesis by simp
    next
      case False
      then have "x \<in> set bs" using Cons.prems(1) by simp
      then show ?thesis using Cons.IH [of "fh_or z a"] Cons.prems(2,3) by simp
    qed
  qed simp
qed

lemma length_fold_or:
  "\<forall>b\<in>set bs. length b = 256 \<Longrightarrow> length z = 256 \<Longrightarrow> length (fold (\<lambda>b acc. fh_or acc b) bs z) = 256"
  by (induction bs arbitrary: z) simp_all

section \<open>Adding a block\<close>

lemma indexBlock_cells:
  fixes K :: keccak and a :: address
  assumes "index_shape m" "n < 2 ^ 28" "length b = 256"
  defines "v \<equiv> bloom_add K (address_bytes a) b"
  shows "index_shape (indexBlock K n b a m)"
    "j < 2 ^ 28 \<Longrightarrow> cell (indexBlock K n b a m) 0 j = (if j = n then fh_or (cell m 0 n) v else cell m 0 j)"
    "j < 2 ^ 28 \<Longrightarrow> cell (indexBlock K n b a m) 1 j = (if j = n div 16 then fh_or (cell m 1 j) v else cell m 1 j)"
proof -
  define m1 where "m1 = setBloom (chunkId 0 (n div 16)) (n mod 16) (fh_or (cell m 0 n) v) m"
  have v: "length v = 256" using assms(3) by (simp add: v_def)
  have s1: "index_shape m1"
    unfolding m1_def using assms(1) v by (intro index_shape_setBloom) (simp_all add: cell_length)
  have n: "n mod 2 ^ 32 = n" "n div 16 < 2 ^ 28" using assms(2) by (simp_all add: less_mult_imp_div_less)
  have eq: "indexBlock K n b a m =
      setBloom (chunkId 1 (n div 16 div 16)) (n div 16 mod 16) (fh_or (cell m1 1 (n div 16)) v) m1"
    unfolding indexBlock_def n(1) v_def [symmetric] c_bloomIndexSize_def
    by (simp add: addBlooms.simps c_bloomIndexLevels_def c_bloomIndexSize_def Let_def m1_def cell_def)
  show "index_shape (indexBlock K n b a m)"
    unfolding eq using s1 v by (intro index_shape_setBloom) (simp_all add: cell_length)
  have c1: "cell m1 k i = (if 0 = k \<and> n = i then fh_or (cell m 0 n) v else cell m k i)" if "k \<le> 1" "i < 2 ^ 28" for k i
    unfolding m1_def using assms that by (intro cell_set) simp_all
  have c2: "cell (indexBlock K n b a m) k i = (if 1 = k \<and> n div 16 = i then fh_or (cell m1 1 (n div 16)) v else cell m1 k i)"
    if "k \<le> 1" "i < 2 ^ 28" for k i
    unfolding eq using s1 n that by (intro cell_set) simp_all
  show "j < 2 ^ 28 \<Longrightarrow> cell (indexBlock K n b a m) 0 j = (if j = n then fh_or (cell m 0 n) v else cell m 0 j)"
    using c2 [of 0 j] c1 [of 0 j] by auto
  show "j < 2 ^ 28 \<Longrightarrow> cell (indexBlock K n b a m) 1 j = (if j = n div 16 then fh_or (cell m 1 j) v else cell m 1 j)"
    using c2 [of 1 j] c1 [of 1 j] n by auto
qed

lemma indexBlock_ok:
  assumes "index_ok m" "n < 2 ^ 28" "length b = 256"
  shows "index_ok (indexBlock K n b a m)"
proof -
  let ?m = "indexBlock K n b a m" and ?v = "bloom_add K (address_bytes a) b"
  have s: "index_shape m" using assms(1) by (simp add: index_ok_def)
  note cells = indexBlock_cells [OF s assms(2,3), where K = K and a = a]
  have "fh_contains (upperBloom ?m j) (blockBloom ?m j)" if j: "j < 2 ^ 28" for j
  proof -
    have up: "fh_contains (cell m 1 (j div 16)) (cell m 0 j)" and j16: "j div 16 < 2 ^ 28"
      using assms(1) j by (simp_all add: index_ok_def cell_levels less_mult_imp_div_less)
    have len: "length (cell m l i) = 256" "length ?v = 256" for l i
      using s assms(3) by (simp_all add: cell_length)
    have lower: "fh_contains (fh_or (cell m 1 (j div 16)) ?v) (cell m 0 j)"
      using up len by (intro fh_contains_or(2)) simp_all
    have "fh_contains (fh_or (cell m 1 (n div 16)) ?v) ?v"
      using len by (intro fh_contains_or(1)) simp_all
    with lower have "fh_contains (fh_or (cell m 1 (n div 16)) ?v) (fh_or (cell m 0 n) ?v)" if "j = n"
      using that len by (intro fh_contains_or_both) simp_all
    with up lower show ?thesis
      unfolding cell_levels cells(2) [OF j] cells(3) [OF j16] by auto
  qed
  with cells(1) show ?thesis by (simp add: index_ok_def)
qed

section \<open>Clearing blocks\<close>

text \<open>Clearing at level 0 empties the blooms of the blocks and leaves the other blooms alone.\<close>

lemma clear_level_0:
  assumes "index_shape m" "\<forall>i\<in>set xs. i < 2 ^ 28"
  shows "index_shape (fold (clearItem 0) xs m) \<and> (\<forall>k j. k \<le> 1 \<longrightarrow> j < 2 ^ 28 \<longrightarrow>
    cell (fold (clearItem 0) xs m) k j = (if k = 0 \<and> j \<in> set xs then fh_zero 256 else cell m k j))"
  using assms
proof (induction xs arbitrary: m)
  case (Cons i xs)
  let ?m = "clearItem 0 i m"
  have m: "?m = setBloom (chunkId 0 (i div 16)) (i mod 16) (fh_zero 256) m"
    by (simp add: clearItem_def c_bloomIndexSize_def)
  have s: "index_shape ?m" unfolding m using Cons.prems by (intro index_shape_setBloom) simp_all
  have "cell ?m k j = (if 0 = k \<and> i = j then fh_zero 256 else cell m k j)" if "k \<le> 1" "j < 2 ^ 28" for k j
    unfolding m using Cons.prems that by (intro cell_set) simp_all
  with Cons.IH [OF s] Cons.prems show ?case by auto
qed simp

text \<open>Clearing at level 1 computes blooms again from the blooms below them.\<close>

definition below :: "bloom_index \<Rightarrow> nat \<Rightarrow> bytes" where
  "below m i = fold (\<lambda>b acc. fh_or acc b) (blocksBlooms m (chunkId 0 i)) (fh_zero 256)"

lemma below_contains: "index_shape m \<Longrightarrow> fh_contains (below m (j div 16)) (cell m 0 j)"
  using blocksBlooms_shape(1) [of m] blocksBlooms_member [of m] unfolding below_def cell_def
  by (intro fold_or_contains nth_mem) simp_all

lemma clear_level_1:
  assumes "index_shape m" "\<forall>i\<in>set xs. i < 2 ^ 24"
  shows "index_shape (fold (clearItem 1) xs m) \<and> (\<forall>k j. k \<le> 1 \<longrightarrow> j < 2 ^ 28 \<longrightarrow>
    cell (fold (clearItem 1) xs m) k j = (if k = 1 \<and> j \<in> set xs then below m j else cell m k j))"
  using assms
proof (induction xs arbitrary: m)
  case (Cons i xs)
  let ?m = "clearItem 1 i m"
  have i: "i < 2 ^ 24" "i < 2 ^ 28" "i div 16 < 2 ^ 24" using Cons.prems by (auto simp: less_mult_imp_div_less)
  have m: "?m = setBloom (chunkId 1 (i div 16)) (i mod 16) (below m i) m"
    by (simp add: clearItem_def c_bloomIndexSize_def below_def)
  have s: "index_shape ?m"
    unfolding m using Cons.prems blocksBlooms_member [of m]
    by (intro index_shape_setBloom) (simp_all add: below_def length_fold_or)
  have c: "cell ?m k j = (if 1 = k \<and> i = j then below m i else cell m k j)" if "k \<le> 1" "j < 2 ^ 28" for k j
    unfolding m using Cons.prems i that by (intro cell_set) simp_all
  have "below ?m j = below m j" if "j \<in> set xs" for j
    using that Cons.prems i chunkId_inject [of j "i div 16" 0 1]
    unfolding m by (simp add: below_def blocksBlooms_setBloom)
  with Cons.IH [OF s] Cons.prems c show ?case by auto
qed simp

lemma clearBlockBlooms_ok:
  assumes ok: "index_ok m" and r: "b \<le> e" "0 < e" "e \<le> 2 ^ 28"
  shows "index_ok (clearBlockBlooms b e m)"
    "j < 2 ^ 28 \<Longrightarrow> blockBloom (clearBlockBlooms b e m) j = (if b \<le> j \<and> j < e then fh_zero 256 else blockBloom m j)"
proof -
  let ?m = "clearBlockBlooms b e m" and ?e = "(e - 1) div 16 + 1"
  define m0 where "m0 = fold (clearItem 0) [b..<e] m"
  have last: "(e + (2 ^ 32 - 1)) mod 2 ^ 32 = e - 1"
    using r by (simp add: mod_if)
  have range: "b div 16 \<le> ?e" 
    using div_le_mono [of b "e - 1 + 16" 16] r(1) by simp
  have m: "?m = fold (clearItem 1) [b div 16..<?e] m0"
    using r(1) range last
    by (simp add: clearBlockBlooms_def clearLevels.simps c_bloomIndexLevels_def c_bloomIndexSize_def counter_def m0_def)
  have s0: "index_shape m0" and c0: "\<And>k j. k \<le> 1 \<Longrightarrow> j < 2 ^ 28 \<Longrightarrow>
      cell m0 k j = (if k = 0 \<and> b \<le> j \<and> j < e then fh_zero 256 else cell m k j)"
    using clear_level_0 [of m "[b..<e]"] ok r by (auto simp: m0_def index_ok_def)
  have "(e - 1) div 16 < 2 ^ 24" using r by (simp add: less_mult_imp_div_less)
  then have s1: "index_shape ?m" and c1: "\<And>k j. k \<le> 1 \<Longrightarrow> j < 2 ^ 28 \<Longrightarrow>
      cell ?m k j = (if k = 1 \<and> b div 16 \<le> j \<and> j < ?e then below m0 j else cell m0 k j)"
    using clear_level_1 [OF s0, of "[b div 16..<?e]"] by (auto simp: m)
  show block: "j < 2 ^ 28 \<Longrightarrow> blockBloom ?m j = (if b \<le> j \<and> j < e then fh_zero 256 else blockBloom m j)" for j
    by (simp add: cell_levels c0 c1)
  have "fh_contains (upperBloom ?m j) (blockBloom ?m j)" if j: "j < 2 ^ 28" for j
  proof (cases "b div 16 \<le> j div 16 \<and> j div 16 < ?e")
    case True
    then show ?thesis
      using j c1 [of 1 "j div 16"] c1 [of 0 j] below_contains [OF s0, of j]
      by (simp add: cell_levels less_mult_imp_div_less)
  next
    case False
    then have "\<not> (b \<le> j \<and> j < e)"
      using div_le_mono [of b j 16] div_le_mono [of j "e - 1" 16] by auto
    then show ?thesis
      using False j ok c1 [of 1 "j div 16"] c0 [of 1 "j div 16"] c1 [of 0 j] c0 [of 0 j]
      by (auto simp: cell_levels less_mult_imp_div_less index_ok_def)
  qed
  with s1 show "index_ok ?m" by (simp add: index_ok_def)
qed

section \<open>The chain and its index\<close>

text \<open>
  The indices that inserting blocks and abandoning blocks build, with the logs of the blocks that are
  on the chain. The bloom of a header is the bloom of its logs.
\<close>

inductive chain_index :: "keccak \<Rightarrow> (nat \<rightharpoonup> LogEntry list) \<Rightarrow> bloom_index \<Rightarrow> bool" for K where
  genesis: "chain_index K Map.empty Map.empty"
| insert_block: "chain_index K chain m \<Longrightarrow> n < 2 ^ 28 \<Longrightarrow>
    chain_index K (chain(n \<mapsto> es)) (indexBlock K n (bloom_logs K es) author m)"
| abandon: "chain_index K chain m \<Longrightarrow> b \<le> e \<Longrightarrow> 0 < e \<Longrightarrow> e \<le> 2 ^ 28 \<Longrightarrow>
    chain_index K (chain |` (- {b..<e})) (clearBlockBlooms b e m)"

lemma empty_ok: "index_ok Map.empty"
proof -
  have "blocksBlooms Map.empty c ! i = fh_zero 256" if "i < 16" for c i
    using that by (simp add: blocksBlooms_def c_bloomIndexSize_def)
  then show ?thesis
    using fh_contains_refl by (simp add: index_ok_def index_shape_def upperBloom_def blockBloom_def c_bloomIndexSize_def)
qed

lemma chain_index_ok:
  assumes "chain_index K chain m"
  shows "index_ok m \<and> (\<forall>n es. chain n = Some es \<longrightarrow> n < 2 ^ 28 \<and> fh_contains (blockBloom m n) (bloom_logs K es))"
  using assms
proof induction
  case genesis
  then show ?case by (simp add: empty_ok)
next
  case (insert_block chain m n es author)
  let ?b = "bloom_logs K es" and ?v = "bloom_add K (address_bytes author) (bloom_logs K es)"
  have s: "index_shape m" and b: "length ?b = 256"
    using insert_block by (simp_all add: index_ok_def bloom_logs_facts)
  note cells = indexBlock_cells [OF s insert_block(2) b, where K = K and a = author]
  have "fh_contains (indexBlock_bloom) c" if "fh_contains x c" "length c = 256" "length x = 256" "indexBlock_bloom = fh_or x ?v"
    for indexBlock_bloom x c
    using that b by (simp add: fh_contains_or(2))
  moreover have "fh_contains (fh_or (cell m 0 n) ?v) ?b"
  proof (rule fh_contains_trans [where b = ?v])
    show "fh_contains (fh_or (cell m 0 n) ?v) ?v" using s b by (intro fh_contains_or(1)) (simp_all add: cell_length)
    show "fh_contains ?v ?b" unfolding bloom_add_def shiftBloom_def using b by (intro fh_contains_or_left) simp
  qed (use s b in \<open>simp_all add: cell_length\<close>)
  ultimately show ?case
    using insert_block indexBlock_ok [OF _ insert_block(2) b, where K = K and a = author and m = m] cells(2) s
    by (auto simp: cell_levels cell_length bloom_logs_facts)
next
  case (abandon chain m b e)
  then show ?case
    using clearBlockBlooms_ok [of m b e] by (auto simp: restrict_map_def split: if_splits)
qed

section \<open>A search misses no block\<close>

lemma contains_bloom_add:
  assumes "bloom_has K x h" "fh_contains h b" "length h = 256" "length b = 256"
  shows "fh_contains h (bloom_add K x b)"
  using assms unfolding bloom_add_def shiftBloom_def bloom_has_def containsBloom_def
  by (intro fh_contains_or_both) simp_all

lemma possibility_contained:
  assumes "selects f e" "e \<in> set es" and single: "(\<forall>t\<in>set (m_topics f). t = []) \<or> (\<exists>t\<in>set (m_topics f). length t = 1)"
    and "\<not> isRangeFilter f"
  shows "\<exists>p\<in>set (bloomPossibilities K f). length p = 256 \<and> fh_contains (bloom_logs K es) p"
proof -
  let ?h = "bloom_logs K es" and ?a = "address_bytes (log_address e)"
  let ?given = "filter (\<lambda>t. t \<noteq> []) (m_topics f)"
  have zero: "fh_contains ?h (fh_zero 256)" using fh_contains_zero [of ?h] by (simp add: bloom_logs_facts)
  have has: "bloom_has K ?a ?h" "t \<in> set (log_topics e) \<Longrightarrow> bloom_has K (h256_bytes t) ?h" for t
    using assms(2) LogEntry_bloom_facts(2,3) bloom_logs_facts(2) by blast+
  have addr: "fh_contains ?h (bloom_add K ?a (fh_zero 256))"
    using has zero by (intro contains_bloom_add) (simp_all add: bloom_logs_facts)
  have topic: "fh_contains ?h (topic_bloom K t b)" "length (topic_bloom K t b) = 256"
    if t: "t \<in> set (m_topics f)" "length t = 1" and b: "fh_contains ?h b" "length b = 256" for t b
  proof -
    obtain x where x: "t = [x]" using t(2) by (cases t) simp_all
    obtain i where "i < length (m_topics f)" "t = m_topics f ! i" using t(1) unfolding in_set_conv_nth by blast
    then have i: "i < length (m_topics f)" "m_topics f ! i = [x]" using x by simp_all
    then have "i < length (log_topics e)" "log_topics e ! i = x" using assms(1) by (auto simp: selects_def)
    then have "x \<in> set (log_topics e)" by auto
    with has(2) b show "fh_contains ?h (topic_bloom K t b)" "length (topic_bloom K t b) = 256"
      unfolding x topic_bloom_def by (auto intro: contains_bloom_add simp: bloom_logs_facts)
  qed
  show ?thesis
  proof (cases "m_addresses f = []")
    case True
    then obtain t where "t \<in> set (m_topics f)" "length t = 1"
      using single assms(4) by (auto simp: isRangeFilter_def list_all_iff)
    then show ?thesis
      using topic [OF _ _ zero] True by (intro bexI [of _ "topic_bloom K t (fh_zero 256)"]) (auto simp: bloomPossibilities_def)
  next
    case False
    then have a: "log_address e \<in> set (m_addresses f)" using assms(1) by (simp add: selects_def)
    show ?thesis
    proof (cases "?given = []")
      case True
      then show ?thesis
        using a addr False by (intro bexI [of _ "bloom_add K ?a (fh_zero 256)"]) (auto simp: bloomPossibilities_def)
    next
      case given: False
      then obtain t where t: "t \<in> set (m_topics f)" "length t = 1"
        using single by (auto simp: filter_empty_conv)
      then have "t \<in> set ?given" by auto
      with a given have "topic_bloom K t (bloom_add K ?a (fh_zero 256)) \<in> set (bloomPossibilities K f)"
        using False by (auto simp: bloomPossibilities_def Let_def filter_empty_conv)
      with topic [OF t addr] show ?thesis by auto
    qed
  qed
qed

text \<open>
  C16. A search of the logs misses no block: whatever blocks have been inserted into the chain and
  abandoned again, a block in the range that has an entry the filter selects is among the blocks
  whose receipts are read, provided the filter constrains no topic or at least one position by a
  single topic.
\<close>

theorem log_search_complete:
  assumes "chain_index K chain m" "chain n = Some es" "e \<in> set es" "selects f e"
    and "(\<forall>t\<in>set (m_topics f). t = []) \<or> (\<exists>t\<in>set (m_topics f). length t = 1)"
    and "earliest \<le> n" "n \<le> latest" "latest < 2 ^ 27"
  shows "n \<in> matchingBlocks K f m earliest latest"
proof (cases "isRangeFilter f")
  case True
  then show ?thesis using assms(6,7) by (auto simp: matchingBlocks_def)
next
  case False
  have ok: "index_ok m" "fh_contains (blockBloom m n) (bloom_logs K es)" "n < 2 ^ 28"
    using chain_index_ok [OF assms(1)] assms(2) by simp_all
  from possibility_contained [OF assms(4,3,5) False] obtain p where
    p: "p \<in> set (bloomPossibilities K f)" "length p = 256" "fh_contains (bloom_logs K es) p" by blast
  have "length (blockBloom m n) = 256"
    using ok(1) by (simp add: cell_levels cell_length index_ok_def)
  then have "fh_contains (blockBloom m n) p"
    using p(2) by (intro fh_contains_trans [OF ok(2) p(3)]) (simp_all add: bloom_logs_facts)
  then have "n \<in> set (withBlockBloom m p earliest latest)"
    by (intro lookup_sound) (use ok p assms(6-8) in simp_all)
  with p(1) False show ?thesis by (auto simp: matchingBlocks_def)
qed


text \<open>A block with one log entry, and a chain that has only this block.\<close>

definition example_entry :: LogEntry where
  "example_entry = \<lparr>log_address = 7, log_topics = [5], log_data = []\<rparr>"

definition example_index :: "keccak \<Rightarrow> bloom_index" where
  "example_index K = indexBlock K 300 (bloom_logs K [example_entry]) 9 Map.empty"

lemma example_chain: "chain_index K [300 \<mapsto> [example_entry]] (example_index K)"
  unfolding example_index_def by (intro chain_index.intros) simp


theorem log_search_complete_witness:
  "\<forall>K. 300 \<in> matchingBlocks K (filter_topic 0 5 (LogFilter_new 1 0)) (example_index K) 0 1000"
proof
  fix K
  have "selects (filter_topic 0 5 (LogFilter_new 1 0)) example_entry"
    by (simp add: selects_def filter_topic_def LogFilter_new_def example_entry_def less_Suc_eq numeral_eq_Suc List.insert_def)
  moreover have "\<exists>t\<in>set (m_topics (filter_topic 0 5 (LogFilter_new 1 0))). length t = 1"
    by (simp add: filter_topic_def LogFilter_new_def List.insert_def)
  ultimately show "300 \<in> matchingBlocks K (filter_topic 0 5 (LogFilter_new 1 0)) (example_index K) 0 1000"
    using log_search_complete [OF example_chain, where n = 300 and es = "[example_entry]" and e = example_entry
        and f = "filter_topic 0 5 (LogFilter_new 1 0)" and earliest = 0 and latest = 1000 and K = K] by simp
qed

end
