(* ===== verification/TrieCommon.thy ===== *)
theory TrieCommon
  imports RLP_Codec "HOL-Library.Sublist"
begin

text \<open>
  Nibbles, slices of nibbles and the hex-prefix notation of trie keys: \<^verbatim>\<open>libdevcore/TrieCommon.h\<close>,
  \<^verbatim>\<open>TrieCommon.cpp\<close>. Callers keep the indices inside the data and the offset of a slice at most its
  end; \<open>nibble\<close> and \<open>hexPrefixEncode\<close> index without a check, as the code does.
\<close>

unbundle bit_operations_syntax

section \<open>Nibbles\<close>

definition nibble :: "bytes \<Rightarrow> nat \<Rightarrow> byte" where
  "nibble d i = (if odd i then d ! (i div 2) AND 15 else drop_bit 4 (d ! (i div 2)))"

function sharedNibbles :: "bytes \<Rightarrow> nat \<Rightarrow> nat \<Rightarrow> bytes \<Rightarrow> nat \<Rightarrow> nat \<Rightarrow> nat" where
  "sharedNibbles a b e c b' e' =
     (if b < e \<and> b' < e' \<and> nibble a b = nibble c b' then 1 + sharedNibbles a (b + 1) e c (b' + 1) e' else 0)"
  by pat_completeness auto
termination
  by (relation "measure (\<lambda>(a, b, e, _). e - b)") auto

declare sharedNibbles.simps [simp del]

record NibbleSlice =
  ns_data :: bytes
  ns_offset :: nat

definition slice_nth :: "NibbleSlice \<Rightarrow> nat \<Rightarrow> byte" where
  "slice_nth s i = nibble (ns_data s) (ns_offset s + i)"

definition slice_size :: "NibbleSlice \<Rightarrow> nat" where
  "slice_size s = length (ns_data s) * 2 - ns_offset s"

definition slice_empty :: "NibbleSlice \<Rightarrow> bool" where
  "slice_empty s = (slice_size s = 0)"

definition slice_mid :: "NibbleSlice \<Rightarrow> nat \<Rightarrow> NibbleSlice" where
  "slice_mid s i = \<lparr>ns_data = ns_data s, ns_offset = ns_offset s + i\<rparr>"

definition slice_clear :: "NibbleSlice \<Rightarrow> NibbleSlice" where
  "slice_clear s = \<lparr>ns_data = [], ns_offset = 0\<rparr>"

definition slice_shared :: "NibbleSlice \<Rightarrow> NibbleSlice \<Rightarrow> nat" where
  "slice_shared s k = sharedNibbles (ns_data s) (ns_offset s) (ns_offset s + slice_size s)
     (ns_data k) (ns_offset k) (ns_offset k + slice_size k)"

definition slice_contains :: "NibbleSlice \<Rightarrow> NibbleSlice \<Rightarrow> bool" where
  "slice_contains s k = (slice_shared s k = slice_size k)"

definition slice_eq :: "NibbleSlice \<Rightarrow> NibbleSlice \<Rightarrow> bool" where
  "slice_eq s k = (slice_size k = slice_size s \<and> slice_shared s k = slice_size k)"

text \<open>The comparison with a prefix, from position \<open>i\<close> on.\<close>

function earlierFrom :: "NibbleSlice \<Rightarrow> NibbleSlice \<Rightarrow> nat \<Rightarrow> bool" where
  "earlierFrom s k i =
     (if i < slice_size k \<and> i < slice_size s
      then (if slice_nth s i < slice_nth k i then True
            else if slice_nth s i > slice_nth k i then False else earlierFrom s k (i + 1))
      else \<not> i \<ge> slice_size k)"
  by pat_completeness auto
termination
  by (relation "measure (\<lambda>(s, k, i). slice_size k - i)") auto

declare earlierFrom.simps [simp del]

definition isEarlierThan :: "NibbleSlice \<Rightarrow> NibbleSlice \<Rightarrow> bool" where
  "isEarlierThan s k = earlierFrom s k 0"

section \<open>Hex-prefix notation\<close>

definition hpe_flag :: "bool \<Rightarrow> bool \<Rightarrow> byte" where
  "hpe_flag leaf oddLength = ((if leaf then 2 else 0) OR (if oddLength then 1 else 0)) * 16"

text \<open>The loop that takes two nibbles at a time.\<close>

function hpe_pairs :: "bytes \<Rightarrow> nat \<Rightarrow> nat \<Rightarrow> bytes" where
  "hpe_pairs v i e = (if i < e then (v ! i * 16 + v ! (i + 1)) # hpe_pairs v (i + 2) e else [])"
  by pat_completeness auto
termination
  by (relation "measure (\<lambda>(v, i, e). e - i)") auto

declare hpe_pairs.simps [simp del]

text \<open>A negative \<open>e\<close> counts from the end of the vector.\<close>

definition hexPrefixEncode :: "bytes \<Rightarrow> bool \<Rightarrow> nat \<Rightarrow> int \<Rightarrow> bytes" where
  "hexPrefixEncode v leaf b e =
     (let e' = (if e < 0 then nat (int (length v) + 1 + e) else nat e); oddLength = odd (e' + b)
      in if oddLength then (hpe_flag leaf True OR v ! b) # hpe_pairs v (b + 1) e'
         else hpe_flag leaf False # hpe_pairs v b e')"

text \<open>The loop that appends one nibble at a time; \<open>d\<close> tells the two halves of a byte apart.\<close>

definition push_nibble :: "byte \<Rightarrow> bytes \<times> nat \<Rightarrow> bytes \<times> nat" where
  "push_nibble n r = (case r of (ret, d) \<Rightarrow>
     (if odd d then ret[length ret - 1 := last ret OR n] else ret @ [push_bit 4 n], d + 1))"

definition push_nibbles :: "bytes \<Rightarrow> nat \<Rightarrow> nat \<Rightarrow> bytes \<times> nat \<Rightarrow> bytes \<times> nat" where
  "push_nibbles v b e r = fold (\<lambda>i. push_nibble (nibble v i)) [b..<e] r"

definition hexPrefixEncode_ref :: "bytes \<Rightarrow> bool \<Rightarrow> nat \<Rightarrow> int \<Rightarrow> nat \<Rightarrow> bytes" where
  "hexPrefixEncode_ref v leaf beginNibble endNibble off =
     (let b = beginNibble + off;
          e = (if endNibble < 0 then nat (int (length v * 2 - off) + 1 + endNibble) else nat endNibble) + off;
          oddLength = odd (e + b)
      in fst (push_nibbles v b e ([hpe_flag leaf oddLength], if oddLength then 1 else 2)))"

definition hexPrefixEncode_two :: "bytes \<Rightarrow> nat \<Rightarrow> bytes \<Rightarrow> nat \<Rightarrow> bool \<Rightarrow> bytes" where
  "hexPrefixEncode_two d1 o1 d2 o2 leaf =
     (let e1 = length d1 * 2; e2 = length d2 * 2; oddLength = odd (e1 + o1 + e2 + o2)
      in fst (push_nibbles d2 o2 e2 (push_nibbles d1 o1 e1 ([hpe_flag leaf oddLength], if oddLength then 1 else 2))))"

definition hexPrefixEncode_slice :: "NibbleSlice \<Rightarrow> bool \<Rightarrow> nat \<Rightarrow> int \<Rightarrow> bytes" where
  "hexPrefixEncode_slice s leaf b e = hexPrefixEncode_ref (ns_data s) leaf b e (ns_offset s)"

definition hexPrefixEncode_slices :: "NibbleSlice \<Rightarrow> NibbleSlice \<Rightarrow> bool \<Rightarrow> bytes" where
  "hexPrefixEncode_slices s t leaf = hexPrefixEncode_two (ns_data s) (ns_offset s) (ns_data t) (ns_offset t) leaf"

section \<open>Reading a node\<close>

definition keyOf :: "bytes \<Rightarrow> NibbleSlice" where
  "keyOf hpe =
     (if hpe = [] then \<lparr>ns_data = hpe, ns_offset = 0\<rparr>
      else if hpe ! 0 AND 0x10 \<noteq> 0 then \<lparr>ns_data = hpe, ns_offset = 1\<rparr>
      else \<lparr>ns_data = hpe, ns_offset = 2\<rparr>)"

text \<open>\<^verbatim>\<open>isLeaf\<close> and \<^verbatim>\<open>keyOf\<close> of a node of two items.\<close>

definition isLeaf :: "rlp_obj \<Rightarrow> rlp_error + bool \<times> rlp_obj" where
  "isLeaf node = sum_bind (index node 0) (\<lambda>(i, node). sum_bind (payload i) (\<lambda>pl.
     sum_bind (byte_at pl 0) (\<lambda>b. Inr (word_of_nat b AND 0x20 \<noteq> (0 :: byte), node))))"

definition keyOf_node :: "rlp_obj \<Rightarrow> rlp_error + NibbleSlice \<times> rlp_obj" where
  "keyOf_node node = sum_bind (index node 0) (\<lambda>(i, node). sum_bind (payload i) (\<lambda>pl. Inr (keyOf pl, node)))"

text \<open>The only item in use besides \<open>except\<close>; 255 if there is none or more than one.\<close>

fun uniqueFrom :: "nat list \<Rightarrow> nat \<Rightarrow> nat \<Rightarrow> rlp_obj \<Rightarrow> rlp_error + nat \<times> rlp_obj" where
  "uniqueFrom [] ex used r = Inr (used, r)"
| "uniqueFrom (i # is) ex used r =
     (if i = ex then uniqueFrom is ex used r
      else sum_bind (index r i) (\<lambda>(x, r).
        if isEmpty x then uniqueFrom is ex used r
        else if used = 255 then uniqueFrom is ex i r else Inr (255, r)))"

definition uniqueInUse :: "rlp_obj \<Rightarrow> nat \<Rightarrow> rlp_error + nat \<times> rlp_obj" where
  "uniqueInUse orig ex = uniqueFrom [0..<17] ex 255 orig"

section \<open>Slices are lists of nibbles\<close>

definition nibbles :: "NibbleSlice \<Rightarrow> bytes" where
  "nibbles s = drop (ns_offset s) (asNibbles (ns_data s))"

lemma length_asNibbles [simp]: "length (asNibbles d) = 2 * length d"
  by (induction d rule: asNibbles.induct) simp_all

lemma nth_asNibbles: "i < 2 * length d \<Longrightarrow> asNibbles d ! i = nibble d i"
proof (induction d arbitrary: i rule: asNibbles.induct)
  case (2 b bs)
  have lo: "b mod 16 = b AND 15" and hi: "b div 16 = drop_bit 4 b"
    using unat_and_15 [of b] by (simp_all add: drop_bit_eq_div word_unat_eq_iff unat_mod_distrib)
  show ?case
  proof (cases i)
    case 0
    then show ?thesis by (simp add: nibble_def hi)
  next
    case (Suc j)
    show ?thesis
    proof (cases j)
      case 0
      then show ?thesis using Suc by (simp add: nibble_def lo)
    next
      case (Suc l)
      then show ?thesis
        using 2 \<open>i = Suc j\<close> by (simp add: nibble_def)
    qed
  qed
qed simp

lemma length_nibbles: "length (nibbles s) = slice_size s"
  by (simp add: nibbles_def slice_size_def mult.commute)

lemma nth_nibbles: "i < slice_size s \<Longrightarrow> nibbles s ! i = slice_nth s i"
  by (simp add: nibbles_def slice_size_def slice_nth_def nth_asNibbles)

lemma asNibbles_small: "x \<in> set (asNibbles d) \<Longrightarrow> unat x < 16"
  by (induction d rule: asNibbles.induct) (auto simp: unat_div_distrib unat_mod_distrib less_mult_imp_div_less)

section \<open>The notation as a function of the nibbles\<close>

fun pairUp :: "bytes \<Rightarrow> bytes" where
  "pairUp (a # b # r) = (a * 16 + b) # pairUp r"
| "pairUp _ = []"

definition hp :: "bool \<Rightarrow> bytes \<Rightarrow> bytes" where
  "hp leaf ns = (if odd (length ns) then (hpe_flag leaf True OR hd ns) # pairUp (tl ns) else hpe_flag leaf False # pairUp ns)"

definition small_nibbles :: "bytes \<Rightarrow> bool" where
  "small_nibbles ns \<longleftrightarrow> (\<forall>x\<in>set ns. unat x < 16)"

lemma small_nibble_cases:
  assumes "unat (x :: byte) < 16"
  shows "x \<in> {0, 1, 2, 3, 4, 5, 6, 7, 8, 9, 10, 11, 12, 13, 14, 15}"
proof -
  have "\<exists>k<16. x = word_of_nat k" using assms by (intro exI [of _ "unat x"]) simp
  then show ?thesis by (auto simp: less_Suc_eq numeral_eq_Suc)
qed

lemma nibble_bits:
  assumes "unat (x :: byte) < 16"
  shows "(hpe_flag leaf True OR x) mod 16 = x" "(hpe_flag leaf True OR x) AND 0x10 \<noteq> 0"
    "(hpe_flag leaf True OR x) AND 0x20 \<noteq> 0 \<longleftrightarrow> leaf"
    "hpe_flag leaf False AND 0x10 = 0" "hpe_flag leaf False AND 0x20 \<noteq> 0 \<longleftrightarrow> leaf"
  using small_nibble_cases [OF assms] by (auto simp: hpe_flag_def)

lemma nibble_pair:
  assumes "unat (a :: byte) < 16" "unat (b :: byte) < 16"
  shows "(a * 16 + b) div 16 = a" "(a * 16 + b) mod 16 = b" "push_bit 4 a OR b = a * 16 + b"
proof -
  have u: "unat (a * 16 + b) = unat a * 16 + unat b"
    using assms by (simp add: unat_word_ariths)
  show "(a * 16 + b) div 16 = a" "(a * 16 + b) mod 16 = b"
    using assms(2) by (simp_all add: word_unat_eq_iff unat_div_distrib unat_mod_distrib u)
  have "push_bit 4 a AND b = 0"
  proof (rule bit_eqI)
    fix n
    have "take_bit 4 b = b"
      using assms(2) by (simp add: word_unat_eq_iff unsigned_take_bit_eq take_bit_nat_eq_self)
    then have "bit b n \<Longrightarrow> n < 4" by (metis bit_take_bit_iff)
    then show "bit (push_bit 4 a AND b) n = bit 0 n" by (auto simp: bit_simps)
  qed
  then have "push_bit 4 a OR b = push_bit 4 a + b" by (simp add: disjunctive_add_eq_or)
  then show "push_bit 4 a OR b = a * 16 + b" by (simp add: push_bit_eq_mult)
qed

lemma hpe_pairs_eq:
  "i \<le> e \<Longrightarrow> e \<le> length v \<Longrightarrow> even (e - i) \<Longrightarrow> hpe_pairs v i e = pairUp (take (e - i) (drop i v))"
proof (induction v i e rule: hpe_pairs.induct)
  case (1 v i e)
  show ?case
  proof (cases "i < e")
    case True
    then obtain k where k: "e = Suc (Suc (i + k))"
      using 1(4) by (metis Suc_diff_Suc add.commute add_Suc_right even_Suc le_add_diff_inverse2 less_imp_le_nat odd_pos)
    then have "drop i v = v ! i # v ! (i + 1) # drop (i + 2) v"
      using 1(3) by (simp add: Cons_nth_drop_Suc)
    then show ?thesis
      using 1(1) [OF True] 1(3,4) unfolding k by (subst hpe_pairs.simps) simp
  next
    case False
    then show ?thesis using 1(2) by (simp add: hpe_pairs.simps)
  qed
qed

lemma hexPrefixEncode_hp:
  assumes "b \<le> e" "e \<le> length v"
  shows "hexPrefixEncode v leaf b (int e) = hp leaf (take (e - b) (drop b v))"
    "hexPrefixEncode v leaf b (- 1) = hp leaf (drop b v)"
proof -
  have "hexPrefixEncode v leaf b (int e) = hp leaf (take (e - b) (drop b v))" if e: "b \<le> e" "e \<le> length v" for e
  proof (cases "odd (e - b)")
    case True
    then have "b < e" by (cases "b = e") (use e in auto)
    then have "hd (take (e - b) (drop b v)) = v ! b" "tl (take (e - b) (drop b v)) = take (e - Suc b) (drop (Suc b) v)"
      using e by (simp_all add: hd_conv_nth tl_take drop_Suc tl_drop)
    then show ?thesis
      using True e \<open>b < e\<close> hpe_pairs_eq [of "Suc b" e v]
      by (simp add: hexPrefixEncode_def hp_def Let_def even_diff_nat)
  next
    case False
    then show ?thesis
      using e hpe_pairs_eq [of b e v] by (simp add: hexPrefixEncode_def hp_def Let_def even_diff_nat)
  qed
  from this [OF assms] this [of "length v"]
  show "hexPrefixEncode v leaf b (int e) = hp leaf (take (e - b) (drop b v))"
    "hexPrefixEncode v leaf b (- 1) = hp leaf (drop b v)"
    using assms by (simp_all add: hexPrefixEncode_def)
qed

lemma push_pairs:
  "small_nibbles ns \<Longrightarrow> even (length ns) \<Longrightarrow> even d \<Longrightarrow>
   fold push_nibble ns (ret, d) = (ret @ pairUp ns, d + length ns)"
proof (induction ns arbitrary: ret d rule: pairUp.induct)
  case (1 a b r)
  then have "push_bit 4 a OR b = a * 16 + b" by (simp add: nibble_pair small_nibbles_def)
  with 1 show ?case by (simp add: push_nibble_def small_nibbles_def)
qed simp_all

lemma push_hp:
  assumes "small_nibbles ns"
  shows "fst (fold push_nibble ns ([hpe_flag leaf (odd (length ns))], if odd (length ns) then 1 else 2)) = hp leaf ns"
proof (cases "odd (length ns)")
  case True
  then obtain n r where ns: "ns = n # r" by (cases ns) auto
  then show ?thesis
    using True assms push_pairs [of r "Suc (Suc 0)" "[hpe_flag leaf True OR n]"]
    by (simp add: push_nibble_def hp_def small_nibbles_def)
next
  case False
  then show ?thesis
    using assms push_pairs [of ns 2 "[hpe_flag leaf False]"] by (simp add: hp_def)
qed

lemma push_nibbles_eq:
  assumes "e \<le> 2 * length v"
  shows "push_nibbles v b e r = fold push_nibble (take (e - b) (drop b (asNibbles v))) r"
proof -
  have "take (e - b) (drop b (asNibbles v)) = map (nibble v) [b..<e]"
    using assms by (intro nth_equalityI) (auto simp: nth_asNibbles)
  then show ?thesis by (simp add: push_nibbles_def fold_map comp_def)
qed

lemma asNibbles_pairUp: "small_nibbles ns \<Longrightarrow> even (length ns) \<Longrightarrow> asNibbles (pairUp ns) = ns"
  by (induction ns rule: pairUp.induct) (simp_all add: small_nibbles_def nibble_pair)

lemma keyOf_hp:
  assumes "small_nibbles ns"
  shows "nibbles (keyOf (hp leaf ns)) = ns" "hp leaf ns ! 0 AND 0x20 \<noteq> 0 \<longleftrightarrow> leaf"
proof -
  have "nibbles (keyOf (hp leaf ns)) = ns \<and> (hp leaf ns ! 0 AND 0x20 \<noteq> 0 \<longleftrightarrow> leaf)"
  proof (cases "odd (length ns)")
    case True
    then obtain n r where ns: "ns = n # r" by (cases ns) auto
    then show ?thesis
      using True assms asNibbles_pairUp [of r] nibble_bits(1-3) [of n leaf]
      by (simp add: hp_def keyOf_def nibbles_def small_nibbles_def)
  next
    case False
    then show ?thesis
      using assms asNibbles_pairUp [of ns] nibble_bits(4,5) [of 0 leaf]
      by (simp add: hp_def keyOf_def nibbles_def numeral_2_eq_2)
  qed
  then show "nibbles (keyOf (hp leaf ns)) = ns" "hp leaf ns ! 0 AND 0x20 \<noteq> 0 \<longleftrightarrow> leaf" by simp_all
qed

lemma hp_inject:
  assumes "hp l ns = hp k ms" "small_nibbles ns" "small_nibbles ms"
  shows "l = k" "ns = ms"
  using keyOf_hp [OF assms(2), of l] keyOf_hp [OF assms(3), of k] assms(1) by auto

definition slice_ok :: "NibbleSlice \<Rightarrow> bool" where
  "slice_ok s \<longleftrightarrow> ns_offset s \<le> 2 * length (ns_data s)"

lemma small_slice: "small_nibbles (nibbles s)"
  using asNibbles_small by (auto simp: small_nibbles_def nibbles_def dest: in_set_dropD)

lemma slice_end: "slice_ok s \<Longrightarrow> ns_offset s + slice_size s = 2 * length (ns_data s)"
  by (simp add: slice_ok_def slice_size_def)

lemma encode_slice:
  assumes "slice_ok s"
  shows "hexPrefixEncode_slice s leaf 0 (- 1) = hp leaf (nibbles s)"
proof -
  let ?d = "ns_data s" and ?o = "ns_offset s"
  have e: "nat (int (length ?d * 2 - ?o) + 1 + - 1) + ?o = 2 * length ?d" and neg: "(- 1 :: int) < 0"
    using assms by (simp_all add: slice_ok_def)
  have "odd (length (nibbles s)) \<longleftrightarrow> odd ?o"
    using assms by (simp add: nibbles_def slice_ok_def)
  then show ?thesis
    using push_hp [OF small_slice, of s leaf] assms
    unfolding hexPrefixEncode_slice_def hexPrefixEncode_ref_def Let_def if_P [OF neg] e
    by (simp add: push_nibbles_eq nibbles_def)
qed

lemma encode_slices:
  assumes "slice_ok s" "slice_ok t"
  shows "hexPrefixEncode_slices s t leaf = hp leaf (nibbles s @ nibbles t)"
proof -
  have "small_nibbles (nibbles s @ nibbles t)"
    using small_slice [of s] small_slice [of t] by (auto simp: small_nibbles_def)
  from push_hp [OF this, of leaf] assms show ?thesis
    by (simp add: hexPrefixEncode_slices_def hexPrefixEncode_two_def push_nibbles_eq nibbles_def slice_ok_def)
qed

lemma take_nibbles:
  assumes "b < e" "e \<le> 2 * length v"
  shows "take (e - b) (drop b (asNibbles v)) = nibble v b # take (e - Suc b) (drop (Suc b) (asNibbles v))"
  using assms by (simp add: Cons_nth_drop_Suc [symmetric] nth_asNibbles [symmetric] Suc_diff_Suc [symmetric])

lemma shared_prefix:
  "e \<le> 2 * length a \<Longrightarrow> e' \<le> 2 * length c \<Longrightarrow> sharedNibbles a b e c b' e' =
   length (longest_common_prefix (take (e - b) (drop b (asNibbles a))) (take (e' - b') (drop b' (asNibbles c))))"
proof (induction a b e c b' e' rule: sharedNibbles.induct)
  case (1 a b e c b' e')
  show ?case
  proof (cases "b < e \<and> b' < e'")
    case True
    then show ?thesis
      using 1 take_nibbles [of b e a] take_nibbles [of b' e' c] by (subst sharedNibbles.simps) simp
  next
    case False
    then show ?thesis by (subst sharedNibbles.simps) auto
  qed
qed

lemma slice_shared_eq:
  "slice_ok s \<Longrightarrow> slice_ok t \<Longrightarrow> slice_shared s t = length (longest_common_prefix (nibbles s) (nibbles t))"
  using shared_prefix [of "ns_offset s + slice_size s" "ns_data s" "ns_offset t + slice_size t" "ns_data t" "ns_offset s" "ns_offset t"]
  by (simp add: slice_shared_def slice_end nibbles_def)

lemma lcp_prefix: "length (longest_common_prefix xs ys) = length ys \<longleftrightarrow> prefix ys xs"
  by (induction xs ys rule: longest_common_prefix.induct) auto



end
