(* ===== verification/TrieHash.thy ===== *)
theory TrieHash
  imports TrieCommon FixedHash Account "HOL-Library.List_Lexorder"
begin

text \<open>
  The root hash of a Merkle Patricia trie, computed from the whole map: \<^verbatim>\<open>libdevcore/TrieHash.h\<close>,
  \<^verbatim>\<open>TrieHash.cpp\<close>. A \<^verbatim>\<open>std::map\<close> from byte strings to byte strings is the list of its entries in the
  order of the keys, a range of iterators a part of the list. \<open>BadIndex\<close> is a read past the end of a key.
\<close>

section \<open>Maps\<close>

type_synonym bytes_map = "(bytes \<times> bytes) list"

fun map_put :: "bytes \<Rightarrow> bytes \<Rightarrow> bytes_map \<Rightarrow> bytes_map" where
  "map_put k v [] = [(k, v)]"
| "map_put k v ((k', v') # m) =
     (if k < k' then (k, v) # (k', v') # m else if k = k' then (k, v) # m else (k', v') # map_put k v m)"

section \<open>Nodes\<close>

text \<open>The nibbles the first key shares with all others, counted from \<open>p\<close> on.\<close>

function prefixLoop :: "bytes \<Rightarrow> bytes \<Rightarrow> nat \<Rightarrow> nat \<Rightarrow> nat" where
  "prefixLoop k k' n x = (if n < x \<and> k ! n = k' ! n then prefixLoop k k' (n + 1) x else n)"
  by pat_completeness auto
termination
  by (relation "measure (\<lambda>(k, k', n, x). x - n)") auto

declare prefixLoop.simps [simp del]

fun sharedPre :: "bytes \<Rightarrow> nat \<Rightarrow> bytes_map \<Rightarrow> nat \<Rightarrow> nat" where
  "sharedPre k p [] sp = sp"
| "sharedPre k p ((k', v) # m) sp =
     (if sp = 0 then sp
      else sharedPre k p m (min (prefixLoop k k' p (min sp (min (length k) (length k')))) sp))"

text \<open>The keys whose nibble at \<open>p\<close> is \<open>i\<close>, and the rest.\<close>

fun scanNibble :: "nat \<Rightarrow> nat \<Rightarrow> bytes_map \<Rightarrow> rlp_error + bytes_map \<times> bytes_map" where
  "scanNibble p i [] = Inr ([], [])"
| "scanNibble p i ((k, v) # m) =
     (if length k \<le> p then Inl BadIndex
      else if unat (k ! p) = i then sum_bind (scanNibble p i m) (\<lambda>(a, b). Inr ((k, v) # a, b))
      else Inr ([], (k, v) # m))"

definition longest :: "bytes_map \<Rightarrow> nat" where
  "longest m = foldr (\<lambda>(k, _) n. max (length k) n) m 0"

lemma longest_simps [simp]: "longest [] = 0" "longest ((k, v) # m) = max (length k) (longest m)"
  by (simp_all add: longest_def)

lemma prefixLoop_le: "n \<le> x \<Longrightarrow> prefixLoop k k' n x \<le> x"
  by (induction k k' n x rule: prefixLoop.induct) (subst prefixLoop.simps, simp)

lemma prefixLoop_bound: "prefixLoop k k' n x \<le> max n x"
  using prefixLoop_le [of n x k k'] by (cases "n \<le> x") (simp_all add: prefixLoop.simps)

lemma sharedPre_le: "sharedPre k p m sp \<le> sp"
proof (induction m arbitrary: sp)
  case (Cons a m)
  show ?case
    using Cons [of "min (prefixLoop k (fst a) p (min sp (min (length k) (length (fst a))))) sp"] by (cases a) auto
qed simp

lemma sharedPre_bound: "m \<noteq> [] \<Longrightarrow> sharedPre k p m sp \<le> max p (length k)"
proof (cases m)
  case (Cons a m')
  obtain k' v where a: "a = (k', v)" by (cases a)
  let ?x = "min sp (min (length k) (length k'))"
  show ?thesis
    using sharedPre_le [of k p m' "min (prefixLoop k k' p ?x) sp"] prefixLoop_bound [of k k' p ?x]
    by (simp add: Cons a) linarith
qed simp

lemma scanNibble_longest:
  "scanNibble p i m = Inr (a, b) \<Longrightarrow> longest a \<le> longest m \<and> longest b \<le> longest m \<and> (a \<noteq> [] \<longrightarrow> p < longest a)"
  by (induction p i m arbitrary: a b rule: scanNibble.induct) (fastforce split: if_splits)+

function (sequential) hash256rlp :: "keccak \<Rightarrow> bytes_map \<Rightarrow> nat \<Rightarrow> rlp_stream \<Rightarrow> rlp_error + rlp_stream"
and hash256aux :: "keccak \<Rightarrow> bytes_map \<Rightarrow> nat \<Rightarrow> rlp_stream \<Rightarrow> rlp_error + rlp_stream"
and hash256branch :: "keccak \<Rightarrow> nat \<Rightarrow> bytes_map \<Rightarrow> nat \<Rightarrow> rlp_stream \<Rightarrow> rlp_error + rlp_stream" where
  "hash256rlp K [] p s = appendBytes [] False s"
| "hash256rlp K [(k, v)] p s =
     sum_bind (appendList 2 s) (\<lambda>s.
     sum_bind (appendBytes (hexPrefixEncode k True p (- 1)) False s) (appendBytes v False))"
| "hash256rlp K ((k, v) # kv # m) p s =
     (let sp = sharedPre k p (kv # m) (2 ^ 32 - 1)
      in if sp > p
         then sum_bind (appendList 2 s) (\<lambda>s.
              sum_bind (appendBytes (hexPrefixEncode k False p (int sp)) False s)
                (hash256aux K ((k, v) # kv # m) sp))
         else sum_bind (appendList 17 s) (\<lambda>s.
              sum_bind (hash256branch K 0 (if p = length k then kv # m else (k, v) # kv # m) p s)
                (appendBytes (if p = length k then v else []) False)))"
| "hash256aux K m p s =
     sum_bind (hash256rlp K m p RLPStream) (\<lambda>r.
     sum_bind (out_stream r) (\<lambda>bs.
       if length bs < 32 then appendRaw bs 1 s else appendBytes (h256_bytes (K bs)) False s))"
| "hash256branch K i b p s =
     (if i < 16
      then sum_bind (scanNibble p i b) (\<lambda>(here, rest).
           sum_bind (if here = [] then appendBytes [] False s else hash256aux K here (p + 1) s)
             (hash256branch K (i + 1) rest p))
      else Inr s)"
  by pat_completeness auto
termination
proof (relation "inv_image (less_than <*lex*> less_than) (\<lambda>x. case x of
      Inl (K, m, p, s) \<Rightarrow> (longest m - p, 18)
    | Inr (Inl (K, m, p, s)) \<Rightarrow> (longest m - p, 19)
    | Inr (Inr (K, i, b, p, s)) \<Rightarrow> (longest b - p, 16 - i))", goal_cases)
  case 1
  then show ?case by (intro wf_inv_image wf_lex_prod wf_less_than)
next
  case (2 K k v kv m p s sp)
  then have "sp \<le> length k" using sharedPre_bound [of "kv # m" k p "2 ^ 32 - 1"] by simp
  then have "longest ((k, v) # kv # m) - sp < longest ((k, v) # kv # m) - p"
    using 2(2) by (cases kv) auto
  then show ?case by simp
next
  case (3 K k v kv m p s sp)
  have "longest (kv # m) \<le> longest ((k, v) # kv # m)" by simp
  then show ?case by (auto simp del: longest_simps)
next
  case (4 K m p s)
  then show ?case by simp
next
  case (5 K i b p s)
  then show ?case using scanNibble_longest [of p i b] by fastforce
next
  case (6 K i b p s)
  then show ?case using scanNibble_longest [of p i b] by fastforce
qed

declare hash256aux.simps [simp del] hash256branch.simps [simp del]

section \<open>The root\<close>

definition hexMap :: "bytes_map \<Rightarrow> bytes_map" where
  "hexMap s = fold (\<lambda>(k, v). map_put (asNibbles k) v) (rev s) []"

definition rlp256 :: "keccak \<Rightarrow> bytes_map \<Rightarrow> rlp_error + bytes" where
  "rlp256 K s =
     (if s = [] then rlp (Data [])
      else sum_bind (hash256rlp K (hexMap s) 0 RLPStream) out_stream)"

definition hash256 :: "keccak \<Rightarrow> bytes_map \<Rightarrow> rlp_error + h256" where
  "hash256 K s = sum_bind (rlp256 K s) (\<lambda>bs. Inr (K bs))"

definition rlp_unsigned :: "nat \<Rightarrow> rlp_error + bytes" where
  "rlp_unsigned n = sum_bind (appendInt n RLPStream) out_stream"

fun orderedMap :: "nat \<Rightarrow> bytes list \<Rightarrow> bytes_map \<Rightarrow> rlp_error + bytes_map" where
  "orderedMap j [] m = Inr m"
| "orderedMap j (d # ds) m = sum_bind (rlp_unsigned j) (\<lambda>k. orderedMap (j + 1) ds (map_put k d m))"

definition orderedTrieRoot :: "keccak \<Rightarrow> bytes list \<Rightarrow> rlp_error + h256" where
  "orderedTrieRoot K ds = sum_bind (orderedMap 0 ds []) (hash256 K)"

text \<open>\<^verbatim>\<open>trieRootOver\<close>: the functions that give keys and values may change an object they refer to.\<close>

fun overMap :: "nat list \<Rightarrow> (nat \<Rightarrow> rlp_error + bytes) \<Rightarrow> (nat \<Rightarrow> 's \<Rightarrow> rlp_error + bytes \<times> 's) \<Rightarrow> 's \<Rightarrow> bytes_map \<Rightarrow>
    rlp_error + bytes_map" where
  "overMap [] getKey getValue s m = Inr m"
| "overMap (i # is) getKey getValue s m =
     sum_bind (getKey i) (\<lambda>k. sum_bind (getValue i s) (\<lambda>(v, s). overMap is getKey getValue s (map_put k v m)))"

definition trieRootOver :: "keccak \<Rightarrow> nat \<Rightarrow> (nat \<Rightarrow> rlp_error + bytes) \<Rightarrow> (nat \<Rightarrow> 's \<Rightarrow> rlp_error + bytes \<times> 's) \<Rightarrow> 's \<Rightarrow>
    rlp_error + h256" where
  "trieRootOver K n getKey getValue s = sum_bind (overMap [0..<n] getKey getValue s []) (hash256 K)"

end
