(* ===== verification/BlockHeader.thy ===== *)
theory BlockHeader
  imports TrieHash Receipt
begin

text \<open>
  Block headers: \<^verbatim>\<open>libaeccore/BlockHeader.h\<close>, \<^verbatim>\<open>BlockHeader.cpp\<close>. The number and the timestamp are
  \<^verbatim>\<open>int64_t\<close>, words of 64 bits read as signed. \<^verbatim>\<open>_s << m_number\<close> and \<^verbatim>\<open>_s << m_timestamp\<close> choose
  \<^verbatim>\<open>RLPStream::append(unsigned)\<close>, the only overload an \<^verbatim>\<open>int64_t\<close> reaches by a standard conversion, and so
  write the low 32 bits.

  The hashes are memoised: a zero hash is one that has not been computed. Computing the hash of the
  parent while a child is verified only fills the parent's memo, which is not returned.
\<close>

unbundle bit_operations_syntax

section \<open>Data\<close>

datatype IncludeSeal = WithoutSeal | WithSeal | OnlySeal

datatype Strictness = Strict_CheckEverything | JustSeal | QuickNonce | IgnoreSeal | CheckNothingNew

datatype BlockDataType = HeaderData | BlockData

datatype header_error =
    InvalidBlockFormat | InvalidNumber | TooMuchGasUsed | InvalidParentHash | InvalidTimestamp
  | InvalidTransactionsRoot | InvalidUnclesHash | InvalidDifficulty | InvalidGasLimit | ExtraDataTooBig
  | ExtraDataIncorrect | InvalidBlockNonce | GenesisBlockCannotBeCalculated | DivisionByZero | HeaderRLP rlp_error

record BlockHeader =
  h_parentHash :: h256
  h_sha3Uncles :: h256
  h_stateRoot :: h256
  h_transactionsRoot :: h256
  h_receiptsRoot :: h256
  h_logBloom :: bytes
  h_number :: u64
  h_gasLimit :: u256
  h_gasUsed :: u256
  h_extraData :: bytes
  h_timestamp :: u64
  h_author :: address
  h_difficulty :: u256
  h_seal :: "bytes list"
  h_hash :: h256
  h_hashWithout :: h256

definition BasicFields :: nat where
  "BasicFields = 13"

definition EmptyListSHA3 :: "keccak \<Rightarrow> h256" where
  "EmptyListSHA3 K = K [0xc0]"

definition BlockHeader_new :: BlockHeader where
  "BlockHeader_new = \<lparr>h_parentHash = 0, h_sha3Uncles = 0, h_stateRoot = 0, h_transactionsRoot = 0, h_receiptsRoot = 0,
     h_logBloom = fh_zero 256, h_number = 0, h_gasLimit = 0, h_gasUsed = 0, h_extraData = [], h_timestamp = - 1,
     h_author = 0, h_difficulty = 0, h_seal = [], h_hash = 0, h_hashWithout = 0\<rparr>"

text \<open>The comparison with \<^verbatim>\<open>Invalid256\<close> extends the sign of the timestamp to 256 bits.\<close>

definition header_bool :: "BlockHeader \<Rightarrow> bool" where
  "header_bool h = ((scast (h_timestamp h) :: u256) \<noteq> - 1)"

definition header_eq :: "BlockHeader \<Rightarrow> BlockHeader \<Rightarrow> bool" where
  "header_eq a b \<longleftrightarrow> h_parentHash a = h_parentHash b \<and> h_sha3Uncles a = h_sha3Uncles b \<and> h_author a = h_author b \<and>
     h_stateRoot a = h_stateRoot b \<and> h_transactionsRoot a = h_transactionsRoot b \<and> h_receiptsRoot a = h_receiptsRoot b \<and>
     h_logBloom a = h_logBloom b \<and> h_difficulty a = h_difficulty b \<and> h_number a = h_number b \<and>
     h_gasLimit a = h_gasLimit b \<and> h_gasUsed a = h_gasUsed b \<and> h_timestamp a = h_timestamp b \<and> h_extraData a = h_extraData b"

definition noteDirty :: "BlockHeader \<Rightarrow> BlockHeader" where
  "noteDirty h = h\<lparr>h_hash := 0, h_hashWithout := 0\<rparr>"

definition clear_header :: "keccak \<Rightarrow> BlockHeader \<Rightarrow> BlockHeader" where
  "clear_header K h = noteDirty (h\<lparr>h_parentHash := 0, h_sha3Uncles := EmptyListSHA3 K, h_author := 0, h_stateRoot := EmptyTrie K,
     h_transactionsRoot := EmptyTrie K, h_receiptsRoot := EmptyTrie K, h_logBloom := fh_zero 256, h_difficulty := 0,
     h_number := 0, h_gasLimit := 0, h_gasUsed := 0, h_timestamp := - 1, h_extraData := [], h_seal := []\<rparr>)"

section \<open>Setters\<close>

definition setParentHash :: "h256 \<Rightarrow> BlockHeader \<Rightarrow> BlockHeader" where
  "setParentHash v h = noteDirty (h\<lparr>h_parentHash := v\<rparr>)"

definition setSha3Uncles :: "h256 \<Rightarrow> BlockHeader \<Rightarrow> BlockHeader" where
  "setSha3Uncles v h = noteDirty (h\<lparr>h_sha3Uncles := v\<rparr>)"

definition setTimestamp :: "u64 \<Rightarrow> BlockHeader \<Rightarrow> BlockHeader" where
  "setTimestamp v h = noteDirty (h\<lparr>h_timestamp := v\<rparr>)"

definition setAuthor :: "address \<Rightarrow> BlockHeader \<Rightarrow> BlockHeader" where
  "setAuthor v h = noteDirty (h\<lparr>h_author := v\<rparr>)"

definition setRoots :: "h256 \<Rightarrow> h256 \<Rightarrow> h256 \<Rightarrow> h256 \<Rightarrow> BlockHeader \<Rightarrow> BlockHeader" where
  "setRoots t r u s h = noteDirty (h\<lparr>h_transactionsRoot := t, h_receiptsRoot := r, h_stateRoot := s, h_sha3Uncles := u\<rparr>)"

definition setGasUsed :: "u256 \<Rightarrow> BlockHeader \<Rightarrow> BlockHeader" where
  "setGasUsed v h = noteDirty (h\<lparr>h_gasUsed := v\<rparr>)"

definition setNumber :: "u64 \<Rightarrow> BlockHeader \<Rightarrow> BlockHeader" where
  "setNumber v h = noteDirty (h\<lparr>h_number := v\<rparr>)"

definition setGasLimit :: "u256 \<Rightarrow> BlockHeader \<Rightarrow> BlockHeader" where
  "setGasLimit v h = noteDirty (h\<lparr>h_gasLimit := v\<rparr>)"

definition setExtraData :: "bytes \<Rightarrow> BlockHeader \<Rightarrow> BlockHeader" where
  "setExtraData v h = noteDirty (h\<lparr>h_extraData := v\<rparr>)"

definition setLogBloom :: "bytes \<Rightarrow> BlockHeader \<Rightarrow> BlockHeader" where
  "setLogBloom v h = noteDirty (h\<lparr>h_logBloom := v\<rparr>)"

definition setDifficulty :: "u256 \<Rightarrow> BlockHeader \<Rightarrow> BlockHeader" where
  "setDifficulty v h = noteDirty (h\<lparr>h_difficulty := v\<rparr>)"

text \<open>The seal fields are kept encoded; \<open>v\<close> is the encoding of the value.\<close>

definition setSeal :: "nat \<Rightarrow> bytes \<Rightarrow> BlockHeader \<Rightarrow> BlockHeader" where
  "setSeal off v h = (let seal = (if length (h_seal h) \<le> off then h_seal h @ replicate (off + 1 - length (h_seal h)) [] else h_seal h)
     in noteDirty (h\<lparr>h_seal := seal[off := v]\<rparr>))"

text \<open>\<^verbatim>\<open>seal<T>\<close> for a hash of \<open>n\<close> bytes.\<close>

definition seal_field :: "nat \<Rightarrow> nat \<Rightarrow> BlockHeader \<Rightarrow> rlp_error + bytes" where
  "seal_field n off h =
     (if off < length (h_seal h) then sum_bind (RLP (h_seal h ! off) VeryStrict) (\<lambda>d. toHash n d VeryStrict)
      else Inr (fh_zero n))"

definition hasUncles :: "keccak \<Rightarrow> BlockHeader \<Rightarrow> bool" where
  "hasUncles K h = (h_sha3Uncles h \<noteq> EmptyListSHA3 K)"

section \<open>Writing and hashing\<close>

definition appendUnsigned :: "u64 \<Rightarrow> rlp_stream \<Rightarrow> rlp_error + rlp_stream" where
  "appendUnsigned v s = appendInt (unat (ucast v :: u32)) s"

definition streamRLPFields :: "BlockHeader \<Rightarrow> rlp_stream \<Rightarrow> rlp_error + rlp_stream" where
  "streamRLPFields h s =
     sum_bind (appendBytes (h256_bytes (h_parentHash h)) False s) (\<lambda>s.
     sum_bind (appendBytes (h256_bytes (h_sha3Uncles h)) False s) (\<lambda>s.
     sum_bind (appendBytes (address_bytes (h_author h)) False s) (\<lambda>s.
     sum_bind (appendBytes (h256_bytes (h_stateRoot h)) False s) (\<lambda>s.
     sum_bind (appendBytes (h256_bytes (h_transactionsRoot h)) False s) (\<lambda>s.
     sum_bind (appendBytes (h256_bytes (h_receiptsRoot h)) False s) (\<lambda>s.
     sum_bind (appendBytes (h_logBloom h) False s) (\<lambda>s.
     sum_bind (appendInt (unat (h_difficulty h)) s) (\<lambda>s.
     sum_bind (appendUnsigned (h_number h) s) (\<lambda>s.
     sum_bind (appendInt (unat (h_gasLimit h)) s) (\<lambda>s.
     sum_bind (appendInt (unat (h_gasUsed h)) s) (\<lambda>s.
     sum_bind (appendUnsigned (h_timestamp h) s) (\<lambda>s.
       appendBytes (h_extraData h) False s))))))))))))"

definition streamRLP_header :: "IncludeSeal \<Rightarrow> BlockHeader \<Rightarrow> rlp_stream \<Rightarrow> rlp_error + rlp_stream" where
  "streamRLP_header i h s =
     sum_bind (if i \<noteq> OnlySeal
               then sum_bind (appendList (BasicFields + (if i = WithoutSeal then 0 else length (h_seal h))) s) (streamRLPFields h)
               else Inr s) (\<lambda>s.
       if i \<noteq> WithoutSeal then appendEach (\<lambda>x. appendRaw x 1) (h_seal h) s else Inr s)"

text \<open>\<^verbatim>\<open>hash\<close>: the memo if there is one.\<close>

definition computeHash :: "keccak \<Rightarrow> IncludeSeal \<Rightarrow> BlockHeader \<Rightarrow> rlp_error + h256" where
  "computeHash K i h = sum_bind (streamRLP_header i h RLPStream) (\<lambda>s. sum_bind (out_stream s) (\<lambda>bs. Inr (K bs)))"

definition header_hash :: "keccak \<Rightarrow> IncludeSeal \<Rightarrow> BlockHeader \<Rightarrow> rlp_error + h256 \<times> BlockHeader" where
  "header_hash K i h = (case i of
     WithSeal \<Rightarrow> if h_hash h \<noteq> 0 then Inr (h_hash h, h)
       else sum_bind (computeHash K i h) (\<lambda>x. Inr (x, h\<lparr>h_hash := x\<rparr>))
   | WithoutSeal \<Rightarrow> if h_hashWithout h \<noteq> 0 then Inr (h_hashWithout h, h)
       else sum_bind (computeHash K i h) (\<lambda>x. Inr (x, h\<lparr>h_hashWithout := x\<rparr>))
   | OnlySeal \<Rightarrow> sum_bind (computeHash K i h) (\<lambda>x. Inr (x, h)))"

section \<open>Reading\<close>

definition toPositiveInt64 :: "bytes \<Rightarrow> int \<Rightarrow> rlp_error + u64" where
  "toPositiveInt64 d flags = sum_bind (toInt d flags) (\<lambda>i.
     if flags AND ThrowOnFail \<noteq> 0 \<and> sint i < 0 then Inl BadCast else Inr i)"

definition headerHashFromBlock :: "keccak \<Rightarrow> bytes \<Rightarrow> rlp_error + h256" where
  "headerHashFromBlock K block =
     sum_bind (RLP block VeryStrict) (\<lambda>d. sum_bind (index (rlp_obj_of d) 0) (\<lambda>(i, _). Inr (K i)))"

definition extractHeader :: "bytes \<Rightarrow> header_error + bytes" where
  "extractHeader block =
     sum_bind (map_err HeaderRLP (RLP block VeryStrict)) (\<lambda>d.
     if \<not> isList d then Inl InvalidBlockFormat
     else
       sum_bind (map_err HeaderRLP (index (rlp_obj_of d) 0)) (\<lambda>(header, r).
       if \<not> isList header then Inl InvalidBlockFormat
       else
         sum_bind (map_err HeaderRLP (index r 1)) (\<lambda>(txs, r).
         if \<not> isList txs then Inl InvalidBlockFormat
         else
           sum_bind (map_err HeaderRLP (index r 2)) (\<lambda>(uncles, r).
           if \<not> isList uncles then Inl InvalidBlockFormat else Inr header))))"

text \<open>The fields of a header from position 13 on.\<close>

fun sealFields :: "nat list \<Rightarrow> rlp_obj \<Rightarrow> rlp_error + bytes list" where
  "sealFields [] r = Inr []"
| "sealFields (i # is) r =
     sum_bind (rlp_field i Inr r) (\<lambda>(x, r). sum_bind (sealFields is r) (\<lambda>xs. Inr (x # xs)))"

definition populate :: "bytes \<Rightarrow> BlockHeader \<Rightarrow> rlp_error + BlockHeader" where
  "populate d h =
     sum_bind (rlp_field 0 (\<lambda>i. toHash 32 i VeryStrict) (rlp_obj_of d)) (\<lambda>(parentHash, r).
     sum_bind (rlp_field 1 (\<lambda>i. toHash 32 i VeryStrict) r) (\<lambda>(sha3Uncles, r).
     sum_bind (rlp_field 2 (\<lambda>i. toHash 20 i VeryStrict) r) (\<lambda>(author, r).
     sum_bind (rlp_field 3 (\<lambda>i. toHash 32 i VeryStrict) r) (\<lambda>(root, r).
     sum_bind (rlp_field 4 (\<lambda>i. toHash 32 i VeryStrict) r) (\<lambda>(transactionsRoot, r).
     sum_bind (rlp_field 5 (\<lambda>i. toHash 32 i VeryStrict) r) (\<lambda>(receiptsRoot, r).
     sum_bind (rlp_field 6 (\<lambda>i. toHash 256 i VeryStrict) r) (\<lambda>(logBloom, r).
     sum_bind (rlp_field 7 (\<lambda>i. toInt i Strict) r) (\<lambda>(difficulty, r).
     sum_bind (rlp_field 8 (\<lambda>i. toPositiveInt64 i Strict) r) (\<lambda>(number, r).
     sum_bind (rlp_field 9 (\<lambda>i. toInt i Strict) r) (\<lambda>(gasLimit, r).
     sum_bind (rlp_field 10 (\<lambda>i. toInt i Strict) r) (\<lambda>(gasUsed, r).
     sum_bind (rlp_field 11 (\<lambda>i. toPositiveInt64 i Strict) r) (\<lambda>(timestamp, r).
     sum_bind (rlp_field 12 (\<lambda>i. toBytes i LaissezFaire) r) (\<lambda>(extraData, r).
     sum_bind (itemCount d) (\<lambda>n.
     sum_bind (sealFields [13..<n] r) (\<lambda>seal.
       Inr (h\<lparr>h_parentHash := fromBigEndian parentHash, h_sha3Uncles := fromBigEndian sha3Uncles, h_author := fromBigEndian author,
         h_stateRoot := fromBigEndian root, h_transactionsRoot := fromBigEndian transactionsRoot,
         h_receiptsRoot := fromBigEndian receiptsRoot, h_logBloom := logBloom, h_difficulty := difficulty, h_number := number,
         h_gasLimit := gasLimit, h_gasUsed := gasUsed, h_timestamp := timestamp, h_extraData := extraData,
         h_seal := seal\<rparr>))))))))))))))))"

definition BlockHeader_of :: "keccak \<Rightarrow> bytes \<Rightarrow> BlockDataType \<Rightarrow> h256 \<Rightarrow> header_error + BlockHeader" where
  "BlockHeader_of K block bdt hashWith =
     sum_bind (if bdt = BlockData then extractHeader block else map_err HeaderRLP (RLP block VeryStrict)) (\<lambda>d.
       map_err HeaderRLP (populate d (BlockHeader_new\<lparr>h_hash := (if hashWith \<noteq> 0 then hashWith else K d)\<rparr>)))"

definition populateFromParent :: "BlockHeader \<Rightarrow> BlockHeader \<Rightarrow> BlockHeader" where
  "populateFromParent h parent = h\<lparr>h_stateRoot := h_stateRoot parent, h_number := h_number parent + 1,
     h_parentHash := h_hash parent, h_gasLimit := h_gasLimit parent, h_difficulty := h_difficulty parent, h_gasUsed := 0\<rparr>"

section \<open>Verifying\<close>

text \<open>The root over the transactions of a block: \<^verbatim>\<open>rlp(i)\<close> as the key, the item itself as the value.\<close>

definition transactionsRootOf :: "keccak \<Rightarrow> bytes \<Rightarrow> rlp_error + h256" where
  "transactionsRootOf K txList = sum_bind (itemCount txList) (\<lambda>n.
     trieRootOver K n rlp_unsigned (\<lambda>i r. index r i) (rlp_obj_of txList))"

definition verify_header :: "keccak \<Rightarrow> Strictness \<Rightarrow> BlockHeader \<Rightarrow> BlockHeader \<Rightarrow> bytes option \<Rightarrow> header_error + unit" where
  "verify_header K st h parent block =
     (if sint (h_number h) > 2 ^ 32 - 1 then Inl InvalidNumber
      else if st \<noteq> CheckNothingNew \<and> h_gasUsed h > h_gasLimit h then Inl TooMuchGasUsed
      else
        sum_bind
          (if header_bool parent
           then sum_bind
                  (if h_parentHash h \<noteq> 0
                   then sum_bind (map_err HeaderRLP (header_hash K WithSeal parent)) (\<lambda>(x, _).
                          if x \<noteq> h_parentHash h then Inl InvalidParentHash else Inr ())
                   else Inr ()) (\<lambda>_.
                if h_timestamp h \<le>s h_timestamp parent then Inl InvalidTimestamp
                else if h_number h \<noteq> h_number parent + 1 then Inl InvalidNumber
                else Inr ())
           else Inr ()) (\<lambda>_.
        case block of
          None \<Rightarrow> Inr ()
        | Some b \<Rightarrow>
            sum_bind (map_err HeaderRLP (RLP b VeryStrict)) (\<lambda>d.
            sum_bind (map_err HeaderRLP (index (rlp_obj_of d) 1)) (\<lambda>(txList, r).
            sum_bind (map_err HeaderRLP (transactionsRootOf K txList)) (\<lambda>expectedRoot.
              if h_transactionsRoot h \<noteq> expectedRoot then Inl InvalidTransactionsRoot
              else sum_bind (map_err HeaderRLP (index r 2)) (\<lambda>(uncles, r).
                if h_sha3Uncles h \<noteq> K uncles then Inl InvalidUnclesHash else Inr ()))))))"

end
