(* ===== verification/TrieHash_Spec.thy ===== *)
theory TrieHash_Spec
  imports TrieHash
begin

text \<open>
  What \<^verbatim>\<open>hash256rlp\<close> writes, as a function of the entries of the map: the node of a list of entries
  whose keys have lost the nibbles above the node. \<open>tref\<close> is how a node refers to a child.
\<close>

section \<open>The nodes of a trie\<close>

definition strip :: "nat \<Rightarrow> bytes_map \<Rightarrow> bytes_map" where
  "strip n m = map (\<lambda>(k, v). (drop n k, v)) m"

fun shared :: "bytes \<Rightarrow> bytes_map \<Rightarrow> nat" where
  "shared k [] = length k"
| "shared k ((k', v) # m) = min (length (longest_common_prefix k k')) (shared k m)"

definition sub :: "nat \<Rightarrow> bytes_map \<Rightarrow> bytes_map" where
  "sub i m = filter (\<lambda>(k, v). k \<noteq> [] \<and> unat (hd k) = i) m"

definition tref :: "keccak \<Rightarrow> item \<Rightarrow> item" where
  "tref K x = (if length (enc x) < 32 then x else Data (h256_bytes (K (enc x))))"

definition weight :: "bytes_map \<Rightarrow> nat" where
  "weight m = sum_list (map (length \<circ> fst) m)"

lemma strip_simps [simp]:
  "strip n [] = []" "strip n ((k, v) # m) = (drop n k, v) # strip n m" "length (strip n m) = length m"
  "strip n m = [] \<longleftrightarrow> m = []"
  by (simp_all add: strip_def)

lemma weight_simps [simp]: "weight [] = 0" "weight ((k, v) # m) = length k + weight m"
  by (simp_all add: weight_def)

lemma weight_strip_le: "weight (strip n m) \<le> weight m"
  by (induction m) auto

lemma weight_sub: "sub i m \<noteq> [] \<Longrightarrow> weight (strip 1 (sub i m)) < weight m"
proof (induction m)
  case (Cons a m)
  then show ?case
    using weight_strip_le [of 1 "sub i m"]
    by (cases a; cases "fst a"; cases "sub i m = []") (auto simp: sub_def split: if_splits)
qed (simp add: sub_def)

lemma shared_le: "shared k m \<le> length k"
  by (induction k m rule: shared.induct) simp_all

function tnode :: "keccak \<Rightarrow> bytes_map \<Rightarrow> item" where
  "tnode K [] = Data []"
| "tnode K [(k, v)] = Lst [Data (hp True k), Data v]"
| "tnode K ((k, v) # kv # m) =
     (let c = shared k (kv # m); es = (k, v) # kv # m
      in if 0 < c then Lst [Data (hp False (take c k)), tref K (tnode K (strip c es))]
         else Lst (map (\<lambda>i. if sub i es = [] then Data [] else tref K (tnode K (strip 1 (sub i es)))) [0..<16] @
                   [Data (if k = [] then v else [])]))"
  by pat_completeness auto
termination
proof (relation "measure (\<lambda>(K, m). weight m)", goal_cases)
  case (2 K k v kv m c es)
  have "c \<le> length k" unfolding 2(1) by (rule shared_le)
  then show ?case
    using 2 weight_strip_le [of c "kv # m"] by simp
next
  case (3 K k v kv m c es)
  then show ?case using weight_sub [of _ es] by simp
qed simp

declare tnode.simps(3) [simp del]

section \<open>The shared prefix\<close>

lemma prefixLoop_eq:
  "n \<le> x \<Longrightarrow> x \<le> length k \<Longrightarrow> x \<le> length k' \<Longrightarrow>
   prefixLoop k k' n x = min x (n + length (longest_common_prefix (drop n k) (drop n k')))"
proof (induction k k' n x rule: prefixLoop.induct)
  case (1 k k' n x)
  show ?case
  proof (cases "n < x")
    case True
    then have "drop n k = k ! n # drop (Suc n) k" "drop n k' = k' ! n # drop (Suc n) k'"
      using 1(3,4) by (simp_all add: Cons_nth_drop_Suc)
    then show ?thesis
      using True 1 by (subst prefixLoop.simps) auto
  next
    case False
    then show ?thesis using 1(2) by (subst prefixLoop.simps) simp
  qed
qed

lemma lcp_le: "length (longest_common_prefix a b) \<le> length a" "length (longest_common_prefix a b) \<le> length b"
  by (induction a b rule: longest_common_prefix.induct) auto

lemma sharedPre_step:
  assumes "p \<le> length k" "p \<le> length k'" "p \<le> sp"
  shows "min (prefixLoop k k' p (min sp (min (length k) (length k')))) sp =
    min sp (p + length (longest_common_prefix (drop p k) (drop p k')))"
  using assms lcp_le [of "drop p k" "drop p k'"]
  by (subst prefixLoop_eq) (auto simp: min_def)

lemma sharedPre_eq:
  "p \<le> sp \<Longrightarrow> sp \<le> length k \<Longrightarrow> \<forall>(k', v)\<in>set m. p \<le> length k' \<Longrightarrow>
   sharedPre k p m sp = min sp (p + shared (drop p k) (strip p m))"
proof (induction m arbitrary: sp)
  case (Cons a m)
  obtain k' v where a: "a = (k', v)" by (cases a)
  let ?l = "length (longest_common_prefix (drop p k) (drop p k'))"
  have step: "min (prefixLoop k k' p (min sp (min (length k) (length k')))) sp = min sp (p + ?l)"
    using Cons.prems by (intro sharedPre_step) (auto simp: a)
  have "sharedPre k p m (min sp (p + ?l)) = min (min sp (p + ?l)) (p + shared (drop p k) (strip p m))"
    using Cons.prems by (intro Cons.IH) auto
  then show ?case
    using Cons.prems by (auto simp: a step)
qed simp

lemma sharedPre_first:
  assumes "\<forall>(k', v)\<in>set ((k', v') # m). p \<le> length k'" "p \<le> length k" "length k < 2 ^ 32"
  shows "sharedPre k p ((k', v') # m) (2 ^ 32 - 1) = p + shared (drop p k) (strip p ((k', v') # m))"
proof -
  let ?l = "length (longest_common_prefix (drop p k) (drop p k'))"
  have l: "p + ?l \<le> length k" using assms(2) lcp_le(1) [of "drop p k" "drop p k'"] by simp
  have "sharedPre k p ((k', v') # m) (2 ^ 32 - 1) = sharedPre k p m (min (2 ^ 32 - 1) (p + ?l))"
    using assms sharedPre_step [of p k k' "2 ^ 32 - 1"] by simp
  also have "min (2 ^ 32 - 1) (p + ?l) = p + ?l" using l assms(3) by simp
  also have "sharedPre k p m (p + ?l) = min (p + ?l) (p + shared (drop p k) (strip p m))"
    using assms l by (intro sharedPre_eq) auto
  finally show ?thesis by simp
qed

section \<open>Lists of entries\<close>

text \<open>Keys in order, of nibbles; keys and values of a length a machine can hold.\<close>

definition good :: "bytes_map \<Rightarrow> bool" where
  "good m \<longleftrightarrow> sorted_wrt (\<lambda>a b. fst a < fst b) m \<and>
     (\<forall>(k, v)\<in>set m. small_nibbles k \<and> length k < 2 ^ 32 \<and> length v < 2 ^ 60)"

lemma good_Cons: "good ((k, v) # m) \<longleftrightarrow>
    (\<forall>(k', v')\<in>set m. k < k') \<and> small_nibbles k \<and> length k < 2 ^ 32 \<and> length v < 2 ^ 60 \<and> good m"
  by (auto simp: good_def)

lemma small_nibbles_simps [simp]:
  "small_nibbles []" "small_nibbles (a # k) \<longleftrightarrow> unat a < 16 \<and> small_nibbles k"
  by (auto simp: small_nibbles_def)

lemma small_nibbles_part: "small_nibbles k \<Longrightarrow> small_nibbles (take n k)" "small_nibbles k \<Longrightarrow> small_nibbles (drop n k)"
  by (auto simp: small_nibbles_def dest: in_set_takeD in_set_dropD)

lemma lcp_take: "n \<le> length (longest_common_prefix a b) \<Longrightarrow> take n a = take n b"
  by (induction a b arbitrary: n rule: longest_common_prefix.induct) (auto simp: take_Cons' split: if_splits)

lemma shared_common: "(k', v) \<in> set m \<Longrightarrow> take (shared k m) k' = take (shared k m) k \<and> shared k m \<le> length k'"
proof (induction m)
  case (Cons a m)
  obtain k2 v2 where a: "a = (k2, v2)" by (cases a)
  let ?l = "length (longest_common_prefix k k2)"
  show ?case
  proof (cases "(k', v) = a")
    case True
    then have "take (min ?l (shared k m)) k = take (min ?l (shared k m)) k'"
      using a by (intro lcp_take) simp
    then show ?thesis using True a lcp_le(2) [of k k2] by auto
  next
    case False
    then have "take (shared k m) k' = take (shared k m) k" "shared k m \<le> length k'" using Cons by auto
    then have "take ?l (take (shared k m) k') = take ?l (take (shared k m) k)" by simp
    then show ?thesis using \<open>shared k m \<le> length k'\<close> by (simp add: a)
  qed
qed simp

lemma less_drop: "take c x = take c y \<Longrightarrow> c \<le> length x \<Longrightarrow> c \<le> length y \<Longrightarrow> drop c x < drop c y \<longleftrightarrow> x < (y :: bytes)"
proof (induction c arbitrary: x y)
  case (Suc c)
  then show ?case by (cases x; cases y) auto
qed simp

lemma good_strip:
  assumes "good m" "\<forall>(k, v)\<in>set m. c \<le> length k \<and> take c k = pre"
  shows "good (strip c m)"
  using assms
proof (induction m)
  case (Cons a m)
  obtain k v where a: "a = (k, v)" by (cases a)
  have "drop c k < drop c k'" if "(k', v') \<in> set m" for k' v'
  proof -
    have "k < k'" "c \<le> length k" "c \<le> length k'" "take c k = take c k'"
      using that Cons.prems by (fastforce simp: a good_Cons)+
    then show ?thesis by (simp add: less_drop)
  qed
  then show ?case
    using Cons small_nibbles_part(2) [of k c] by (auto simp: a good_Cons strip_def)
qed (simp add: good_def)

lemma good_filter: "good m \<Longrightarrow> good (filter P m)"
  by (auto simp: good_def sorted_wrt_filter)

lemma good_shared:
  assumes "good ((k, v) # m)"
  shows "good (strip (shared k m) ((k, v) # m))"
  using assms shared_common [of _ _ m k] shared_le [of k m]
  by (intro good_strip [where pre = "take (shared k m) k"]) auto

lemma sub_head: "(k, v) \<in> set (sub i m) \<Longrightarrow> \<exists>k'. k = word_of_nat i # k' \<and> i < 256"
  unfolding sub_def by (cases k) (auto simp: unat_byte_less)

lemma good_sub: "good m \<Longrightarrow> good (strip 1 (sub i m))"
  by (rule good_strip [where pre = "[word_of_nat i]"]) (simp add: sub_def good_filter, fastforce dest: sub_head)

section \<open>Sizes\<close>

lemma length_enc_bytes: "length bs < 2 ^ 64 \<Longrightarrow> length (enc (Data bs)) \<le> length bs + 9"
  using bytesRequired_le_8 [of "length bs"] by (simp add: enc_data_def enc_length_def)

lemma length_hp: "length (hp l ns) \<le> length ns + 1"
proof -
  have "length (pairUp ns) \<le> length ns" for ns by (induction ns rule: pairUp.induct) simp_all
  from this [of ns] this [of "tl ns"] show ?thesis by (auto simp: hp_def)
qed

lemma length_hash: "length (h256_bytes h) = 32"
  by (simp add: h256_bytes_def)

lemma tref_small:
  assumes "readable x"
  shows "readable (tref K x)" "length (enc (tref K x)) \<le> 33"
  using assms length_hash by (auto simp: tref_def max_field_def enc_data_def enc_length_def)

definition child :: "keccak \<Rightarrow> bytes_map \<Rightarrow> nat \<Rightarrow> item" where
  "child K m i = (if sub i m = [] then Data [] else tref K (tnode K (strip 1 (sub i m))))"

lemma tnode_more:
  assumes "m \<noteq> []"
  shows "tnode K ((k, v) # m) =
    (if 0 < shared k m then Lst [Data (hp False (take (shared k m) k)), tref K (tnode K (strip (shared k m) ((k, v) # m)))]
     else Lst (map (child K ((k, v) # m)) [0..<16] @ [Data (if k = [] then v else [])]))"
  using assms by (cases m) (simp_all add: tnode.simps(3) child_def Let_def)

lemma sum_list_bound: "(\<And>x. x \<in> set xs \<Longrightarrow> x \<le> (b :: nat)) \<Longrightarrow> sum_list xs \<le> length xs * b"
  by (induction xs) (auto simp: add_mono)

lemma length_encs: "length (concat (map enc xs)) = sum_list (map (length \<circ> enc) xs)"
  by (simp add: length_concat comp_def)

lemma readable_tnode: "good m \<Longrightarrow> readable (tnode K m)"
proof (induction K m rule: tnode.induct)
  case (1 K)
  then show ?case by (simp add: max_field_def)
next
  case (2 K k v)
  then show ?case
    using length_hp [of True k] length_enc_bytes [of "hp True k"] length_enc_bytes [of v]
    by (simp add: good_Cons max_field_def del: enc.simps)
next
  case (3 K k v kv m)
  let ?es = "(k, v) # kv # m" and ?c = "shared k (kv # m)"
  show ?case
  proof (cases "0 < ?c")
    case True
    have "readable (tnode K (strip ?c ?es))"
      by (rule 3(1) [OF refl refl True good_shared [OF 3(3)]])
    note r = tref_small [OF this, of K]
    have h: "length (hp False (take ?c k)) \<le> 2 ^ 32"
      using length_hp [of False "take ?c k"] 3(3) by (simp add: good_Cons min_def split: if_splits)
    then have "length (enc (Data (hp False (take ?c k)))) \<le> 2 ^ 32 + 9"
      using length_enc_bytes [of "hp False (take ?c k)"] by (simp del: enc.simps)
    then show ?thesis
      using True h r by (simp add: tnode_more max_field_def del: enc.simps strip_simps)
  next
    case False
    define ns where "ns = [0..<16 :: nat]"
    let ?cs = "map (child K ?es) ns" and ?v = "Data (if k = [] then v else [])"
    have c: "readable (child K ?es i) \<and> length (enc (child K ?es i)) \<le> 33" if "i \<in> set ns" for i
      using 3(2) [of ?c ?es i] False 3(3) good_sub [of ?es i] tref_small [of "tnode K (strip 1 (sub i ?es))" K] that
      by (auto simp: child_def max_field_def enc_data_def enc_length_def ns_def)
    have "sum_list (map (length \<circ> enc) ?cs) \<le> length (map (length \<circ> enc) ?cs) * 33"
      using c by (intro sum_list_bound) auto
    then have sum: "length (concat (map enc ?cs)) \<le> 16 * 33"
      unfolding length_encs by (simp add: ns_def del: upt_rec_numeral)
    have v: "length (enc ?v) \<le> 2 ^ 60 + 9" "readable ?v"
      using 3(3) length_enc_bytes [of "if k = [] then v else []"] by (auto simp: good_Cons max_field_def simp del: enc.simps)
    have "length (concat (map enc (?cs @ [?v]))) < max_field"
      using sum v(1) by (simp add: max_field_def del: enc.simps)
    moreover have "list_all readable (?cs @ [?v])" using c v(2) by (auto simp: list_all_iff)
    ultimately have "readable (Lst (?cs @ [?v]))" by (simp only: readable.simps simp_thms)
    then show ?thesis
      using False by (simp only: tnode_more list.distinct ns_def if_False simp_thms)
  qed
qed

section \<open>Scanning for a nibble\<close>

definition nib :: "nat \<Rightarrow> bytes \<times> bytes \<Rightarrow> nat" where
  "nib p e = unat (fst e ! p)"

lemma scanNibble_eq:
  "\<forall>e\<in>set b. p < length (fst e) \<and> i \<le> nib p e \<Longrightarrow> sorted_wrt (\<lambda>x y. nib p x \<le> nib p y) b \<Longrightarrow>
   scanNibble p i b = Inr (filter (\<lambda>e. nib p e = i) b, filter (\<lambda>e. nib p e \<noteq> i) b)"
proof (induction p i b rule: scanNibble.induct)
  case (2 p i k v m)
  show ?case
  proof (cases "unat (k ! p) = i")
    case True
    then show ?thesis using 2 by (simp add: nib_def)
  next
    case False
    then have "\<forall>e\<in>set m. nib p e \<noteq> i" using 2(2,3) by (force simp: nib_def)
    then have "filter (\<lambda>e. nib p e = i) m = []" "filter (\<lambda>e. nib p e \<noteq> i) m = m"
      by (simp_all add: filter_empty_conv filter_id_conv)
    then show ?thesis using False 2(2) by (simp add: nib_def)
  qed
qed simp

section \<open>The code computes the nodes\<close>

lemma appendItems_append: "appendItems (xs @ ys) s = sum_bind (appendItems xs s) (appendItems ys)"
proof (induction xs arbitrary: s)
  case (Cons a xs)
  then have "appendItems (xs @ ys) = (\<lambda>x. sum_bind (appendItems xs x) (appendItems ys))" by (intro ext)
  then show ?case by (simp add: sum_bind_assoc)
qed simp

lemma appendItems_append_fun: "appendItems (xs @ ys) = (\<lambda>s. sum_bind (appendItems xs s) (appendItems ys))"
  by (intro ext appendItems_append)

lemma appendItem_raw: "readable x \<Longrightarrow> appendItem x s = appendRaw (enc x) 1 s"
  by (simp add: appendRaw_def appendItem_eq readable_fits)

lemma sub_strip: "\<forall>e\<in>set b. p < length (fst e) \<Longrightarrow> sub i (strip p b) = strip p (filter (\<lambda>e. nib p e = i) b)"
  by (induction b) (auto simp: sub_def nib_def hd_drop_conv_nth strip_def)

lemma sub_strip_other:
  "\<forall>e\<in>set b. p < length (fst e) \<Longrightarrow> j \<noteq> i \<Longrightarrow> sub j (strip p (filter (\<lambda>e. nib p e \<noteq> i) b)) = sub j (strip p b)"
  by (simp add: sub_strip) (rule arg_cong [where f = "strip p"], rule filter_cong, auto)

lemma strip_strip: "strip i (strip p b) = strip (p + i) b"
  by (simp add: strip_def case_prod_unfold add.commute)

lemma strip_filter_mem: "e \<in> set (filter P b) \<Longrightarrow> e \<in> set b"
  by simp

lemma good_nibs:
  assumes "good (strip p b)" "\<forall>e\<in>set b. p < length (fst e)"
  shows "sorted_wrt (\<lambda>x y. nib p x \<le> nib p y) b"
proof -
  have "nib p x \<le> nib p y" if "drop p (fst x) < drop p (fst y)" "p < length (fst x)" "p < length (fst y)" for x y :: "bytes \<times> bytes"
  proof -
    have "fst x ! p # drop (Suc p) (fst x) < fst y ! p # drop (Suc p) (fst y)"
      using that by (simp add: Cons_nth_drop_Suc)
    then show ?thesis by (auto simp: nib_def word_less_nat_alt)
  qed
  then have "sorted_wrt (\<lambda>x y. nib p x \<le> nib p y) b"
    if "sorted_wrt (\<lambda>x y. drop p (fst x) < drop p (fst y)) b"
    using that assms(2) by (elim sorted_wrt_mono_rel [rotated]) auto
  moreover have "sorted_wrt (\<lambda>x y. drop p (fst x) < drop p (fst y)) b"
    using assms(1) by (simp add: good_def strip_def sorted_wrt_map case_prod_unfold)
  ultimately show ?thesis by blast
qed

definition reaches :: "nat \<Rightarrow> bytes_map \<Rightarrow> bool" where
  "reaches p m \<longleftrightarrow> (\<forall>e\<in>set m. p \<le> length (fst e) \<and> length (fst e) < 2 ^ 32) \<and> good (strip p m)"

lemma reaches_shared:
  assumes "reaches p ((k, v) # m)"
  shows "reaches (p + shared (drop p k) (strip p m)) ((k, v) # m)"
proof -
  let ?c = "shared (drop p k) (strip p m)"
  have "good (strip ?c (strip p ((k, v) # m)))"
    using assms good_shared [of "drop p k" v "strip p m"] by (simp add: reaches_def)
  moreover have "p + ?c \<le> length k" using assms shared_le [of "drop p k" "strip p m"] by (auto simp: reaches_def)
  moreover have "p + ?c \<le> length (fst e)" if "e \<in> set m" for e
  proof -
    have "(drop p (fst e), snd e) \<in> set (strip p m)" using that by (force simp: strip_def case_prod_unfold)
    from shared_common [OF this, of "drop p k"] show ?thesis using that assms by (auto simp: reaches_def)
  qed
  ultimately show ?thesis
    using assms unfolding reaches_def strip_strip by auto
qed

lemma good_strip_filter: "good (strip p b) \<Longrightarrow> good (strip p (filter P b))"
  by (auto simp: good_def strip_def sorted_wrt_map sorted_wrt_filter)

lemma scan_good:
  assumes "\<forall>e\<in>set b. p < length (fst e) \<and> length (fst e) < 2 ^ 32 \<and> i \<le> nib p e" "good (strip p b)"
  shows "scanNibble p i b = Inr (filter (\<lambda>e. nib p e = i) b, filter (\<lambda>e. nib p e \<noteq> i) b)"
proof -
  have "\<forall>e\<in>set b. p < length (fst e)" using assms(1) by blast
  from good_nibs [OF assms(2) this] assms(1) show ?thesis by (intro scanNibble_eq) blast+
qed

lemma branch_step:
  assumes "i < 16" and b: "\<forall>e\<in>set b. p < length (fst e) \<and> length (fst e) < 2 ^ 32 \<and> i \<le> nib p e" "good (strip p b)"
    and here: "filter (\<lambda>e. nib p e = i) b \<noteq> [] \<Longrightarrow> reaches (p + 1) (filter (\<lambda>e. nib p e = i) b) \<Longrightarrow>
      hash256aux K (filter (\<lambda>e. nib p e = i) b) (p + 1) s = appendItem (tref K (tnode K (strip (p + 1) (filter (\<lambda>e. nib p e = i) b)))) s"
    and rest: "\<And>s'. (if filter (\<lambda>e. nib p e = i) b = [] then appendBytes [] False s
        else hash256aux K (filter (\<lambda>e. nib p e = i) b) (p + 1) s) = Inr s' \<Longrightarrow>
      hash256branch K (i + 1) (filter (\<lambda>e. nib p e \<noteq> i) b) p s' =
      appendItems (map (child K (strip p (filter (\<lambda>e. nib p e \<noteq> i) b))) [i + 1..<16]) s'"
  shows "hash256branch K i b p s = appendItems (map (child K (strip p b)) [i..<16]) s"
proof -
  let ?h = "filter (\<lambda>e. nib p e = i) b" and ?r = "filter (\<lambda>e. nib p e \<noteq> i) b"
  have len: "\<forall>e\<in>set b. p < length (fst e)" using b(1) by blast
  note scan = scan_good [OF b]
  have sub: "sub i (strip p b) = strip p ?h" using sub_strip [OF len] .
  have "good (strip 1 (sub i (strip p b)))" using b(2) by (rule good_sub)
  then have "reaches (p + 1) ?h"
    using b(1) unfolding reaches_def sub strip_strip by auto
  then have child: "(if ?h = [] then appendBytes [] False s else hash256aux K ?h (p + 1) s) = appendItem (child K (strip p b) i) s"
    using here by (simp add: child_def sub strip_strip)
  have "map (child K (strip p ?r)) [i + 1..<16] = map (child K (strip p b)) [i + 1..<16]"
    using sub_strip_other [OF len] by (intro map_cong) (auto simp: child_def)
  with rest have more: "hash256branch K (i + 1) ?r p s' = appendItems (map (child K (strip p b)) [i + 1..<16]) s'"
    if "appendItem (child K (strip p b) i) s = Inr s'" for s'
    using that unfolding child by (simp only:)
  have "hash256branch K i b p s = sum_bind (appendItem (child K (strip p b) i) s) (hash256branch K (i + 1) ?r p)"
    using assms(1) by (subst hash256branch.simps) (simp add: scan child del: upt_rec_numeral One_nat_def)
  also have "\<dots> = sum_bind (appendItem (child K (strip p b) i) s) (appendItems (map (child K (strip p b)) [i + 1..<16]))"
    by (intro sum_bind_cong refl more)
  finally show ?thesis
    using assms(1) by (simp add: upt_conv_Cons del: upt_rec_numeral)
qed

lemma hash256_nodes:
  "m \<noteq> [] \<Longrightarrow> reaches p m \<Longrightarrow> hash256rlp K m p s = appendItem (tnode K (strip p m)) s"
  "m \<noteq> [] \<Longrightarrow> reaches p m \<Longrightarrow> hash256aux K m p s = appendItem (tref K (tnode K (strip p m))) s"
  "\<forall>e\<in>set b. p < length (fst e) \<and> length (fst e) < 2 ^ 32 \<and> i \<le> nib p e \<Longrightarrow> good (strip p b) \<Longrightarrow>
   hash256branch K i b p s = appendItems (map (child K (strip p b)) [i..<16]) s"
proof (induction K m p s and K m p s and K i b p s rule: hash256rlp_hash256aux_hash256branch.induct)
  case (1 K p s)
  then show ?case by simp
next
  case (2 K k v p s)
  then have "p \<le> length k" by (simp add: reaches_def)
  then show ?case
    using hexPrefixEncode_hp(2) [of p p k True] by (simp add: numeral_2_eq_2 appendItems_fun)
next
  case (3 K k v kv m p s)
  let ?es = "(k, v) # kv # m" and ?c = "shared (drop p k) (strip p (kv # m))"
  have reach: "p \<le> length k" "length k < 2 ^ 32" "\<forall>e\<in>set (kv # m). p \<le> length (fst e) \<and> length (fst e) < 2 ^ 32" "good (strip p ?es)"
    using "3.prems"(2) by (simp_all add: reaches_def)
  have sp: "sharedPre k p (kv # m) (2 ^ 32 - 1) = p + ?c"
  proof -
    obtain k' v' where kv: "kv = (k', v')" by (cases kv)
    show ?thesis unfolding kv by (rule sharedPre_first) (use reach(1-3) in \<open>auto simp: kv\<close>)
  qed
  show ?case
  proof (cases "0 < ?c")
    case True
    have r: "reaches (p + ?c) ?es" by (rule reaches_shared [OF "3.prems"(2)])
    then have "p + ?c \<le> length k" by (simp add: reaches_def)
    then have hpe: "hexPrefixEncode k False p (int (p + ?c)) = hp False (take ?c (drop p k))"
      using hexPrefixEncode_hp(1) [of p "p + ?c" k False] by simp
    have strips: "strip (p + ?c) ?es = strip ?c (strip p ?es)" by (simp only: strip_strip)
    have aux: "hash256aux K ?es (p + ?c) s2 = appendItem (tref K (tnode K (strip ?c (strip p ?es)))) s2"
      if "appendList 2 s = Inr s1" "appendBytes (hp False (take ?c (drop p k))) False s1 = Inr s2" for s1 s2
      using 3(1) [OF refl _ that(1), of s2] that(2) True r unfolding sp hpe strips by simp
    have "hash256rlp K ?es p s = sum_bind (appendList 2 s) (\<lambda>s.
        sum_bind (appendBytes (hp False (take ?c (drop p k))) False s) (hash256aux K ?es (p + ?c)))"
      using True by (simp only: hash256rlp.simps sp Let_def hpe less_add_same_cancel1 if_True)
    also have "\<dots> = sum_bind (appendList 2 s) (\<lambda>s.
        sum_bind (appendBytes (hp False (take ?c (drop p k))) False s) (appendItem (tref K (tnode K (strip ?c (strip p ?es))))))"
      by (intro sum_bind_cong refl aux)
    finally show ?thesis
      using True by (simp add: tnode_more numeral_2_eq_2 appendItems_fun del: hash256rlp.simps)
  next
    case False
    let ?b = "if p = length k then kv # m else ?es"
    have tail: "p < length (fst e)" if "e \<in> set (kv # m)" for e
    proof -
      have "(drop p (fst e), snd e) \<in> set (strip p (kv # m))" using that by (force simp: strip_def case_prod_unfold)
      then have "drop p k < drop p (fst e)" using reach(4) by (auto simp: good_Cons)
      then have "drop p (fst e) \<noteq> []" by auto
      then show ?thesis by simp
    qed
    have b: "\<forall>e\<in>set ?b. p < length (fst e) \<and> length (fst e) < 2 ^ 32 \<and> 0 \<le> nib p e" "good (strip p ?b)"
    proof -
      have "\<forall>e\<in>set (kv # m). p < length (fst e)" using tail by blast
      then show "\<forall>e\<in>set ?b. p < length (fst e) \<and> length (fst e) < 2 ^ 32 \<and> 0 \<le> nib p e" "good (strip p ?b)"
        using reach by (simp_all add: good_Cons, blast+)
    qed
    have "child K (strip p ?b) i = child K (strip p ?es) i" for i
      by (simp add: child_def sub_def)
    then have "map (child K (strip p ?b)) [0..<16] = map (child K (strip p ?es)) [0..<16]" by (intro map_cong refl)
    then have branch: "hash256branch K 0 ?b p s1 = appendItems (map (child K (strip p ?es)) [0..<16]) s1"
      if "appendList 17 s = Inr s1" for s1
      using 3(2) [OF refl _ that] b False unfolding sp by (simp only: simp_thms)
    have nil: "p = length k \<longleftrightarrow> drop p k = []" using reach(1) by auto
    have "hash256rlp K ?es p s = sum_bind (appendList 17 s) (\<lambda>s.
        sum_bind (hash256branch K 0 ?b p s) (appendBytes (if p = length k then v else []) False))"
      using False by (simp only: hash256rlp.simps sp Let_def less_add_same_cancel1 if_False)
    also have "\<dots> = sum_bind (appendList 17 s) (\<lambda>s.
        sum_bind (appendItems (map (child K (strip p ?es)) [0..<16]) s) (appendBytes (if p = length k then v else []) False))"
      by (rule sum_bind_cong [OF refl]) (simp only: branch)
    finally show ?thesis
      using False nil by (simp add: tnode_more appendItems_append_fun appendItems_fun del: hash256rlp.simps upt_rec_numeral)
  qed
next
  case (4 K m p s)
  have r: "readable (tnode K (strip p m))" using 4(3) by (intro readable_tnode) (simp add: reaches_def)
  have out: "sum_bind (hash256rlp K m p RLPStream) out_stream = Inr (enc (tnode K (strip p m)))"
    using 4 rlp_enc [OF readable_fits [OF r]] by (simp add: rlp_def)
  have aux: "hash256aux K m p s = sum_bind (sum_bind (hash256rlp K m p RLPStream) out_stream)
      (\<lambda>bs. if length bs < 32 then appendRaw bs 1 s else appendBytes (h256_bytes (K bs)) False s)"
    by (simp only: hash256aux.simps sum_bind_assoc)
  show ?case
    unfolding aux out using appendItem_raw [OF r] by (simp add: tref_def del: enc.simps)
next
  case (5 K i b p s)
  show ?case
  proof (cases "i < 16")
    case True
    note scan = scan_good [OF 5(3,4)]
    show ?thesis
    proof (rule branch_step [OF True 5(3,4)])
      show "filter (\<lambda>e. nib p e = i) b \<noteq> [] \<Longrightarrow> reaches (p + 1) (filter (\<lambda>e. nib p e = i) b) \<Longrightarrow>
        hash256aux K (filter (\<lambda>e. nib p e = i) b) (p + 1) s =
        appendItem (tref K (tnode K (strip (p + 1) (filter (\<lambda>e. nib p e = i) b)))) s"
        by (rule 5(1) [OF True scan refl])
      have "\<forall>e\<in>set (filter (\<lambda>e. nib p e \<noteq> i) b). p < length (fst e) \<and> length (fst e) < 2 ^ 32 \<and> i + 1 \<le> nib p e"
        using 5(3) by fastforce
      then show "(if filter (\<lambda>e. nib p e = i) b = [] then appendBytes [] False s
          else hash256aux K (filter (\<lambda>e. nib p e = i) b) (p + 1) s) = Inr s' \<Longrightarrow>
        hash256branch K (i + 1) (filter (\<lambda>e. nib p e \<noteq> i) b) p s' =
        appendItems (map (child K (strip p (filter (\<lambda>e. nib p e \<noteq> i) b))) [i + 1..<16]) s'" for s'
        by (intro 5(2) [OF True scan refl] good_strip_filter 5(4))
    qed
  next
    case False
    then show ?thesis by (simp add: hash256branch.simps)
  qed
qed

end
