(* ===== verification/TrieHash_Props.thy ===== *)
theory TrieHash_Props
  imports TrieHash_Spec
begin

text \<open>
  The root hash commits to the map: two maps have the same root only if they are the same map or two
  of their nodes collide under the hash.
\<close>

section \<open>Encodings are injective\<close>

lemma decodes_unique: "decodes d x \<Longrightarrow> decodes d y \<Longrightarrow> x = y"
proof (induction arbitrary: y rule: decodes.induct)
  case (data d bs)
  from data(4) show ?case
    using data(1-3) by cases (auto simp: isData_def isList_def)
next
  case (list d ds xs)
  note outer = list
  from outer(6) show ?case
  proof cases
    case (data bs)
    then show ?thesis using outer(2) by (simp add: isData_def isList_def)
  next
    case (list es ys)
    then have "list_all2 decodes ds ys" using outer(4) by simp
    with outer(5) have "xs = ys"
      by (auto simp: list_all2_conv_all_nth intro!: nth_equalityI)
    with list show ?thesis by simp
  qed
qed

lemma enc_inject: "readable x \<Longrightarrow> readable y \<Longrightarrow> enc x = enc y \<Longrightarrow> x = y"
  using decodes_enc [of x] decodes_enc [of y] decodes_unique by metis

section \<open>Nodes below a node\<close>

function trie_nodes :: "keccak \<Rightarrow> bytes_map \<Rightarrow> bytes set" where
  "trie_nodes K [] = {enc (tnode K [])}"
| "trie_nodes K [(k, v)] = {enc (tnode K [(k, v)])}"
| "trie_nodes K ((k, v) # kv # m) =
     (let c = shared k (kv # m); es = (k, v) # kv # m
      in insert (enc (tnode K es))
        (if 0 < c then trie_nodes K (strip c es)
         else \<Union>i\<in>{0..<16}. if sub i es = [] then {} else trie_nodes K (strip 1 (sub i es))))"
  by pat_completeness auto
termination
proof (relation "measure (\<lambda>(K, m). weight m)", goal_cases)
  case (2 K k v kv m c es)
  have "c \<le> length k" unfolding 2(1) by (rule shared_le)
  then show ?case
    using 2 weight_strip_le [of c "kv # m"] by simp
next
  case (3 K k v kv m c es)
  then show ?case using weight_sub [of _ es] by simp
qed simp

declare trie_nodes.simps(3) [simp del]

lemma trie_nodes_more:
  assumes "m \<noteq> []"
  shows "trie_nodes K ((k, v) # m) = insert (enc (tnode K ((k, v) # m)))
    (if 0 < shared k m then trie_nodes K (strip (shared k m) ((k, v) # m))
     else \<Union>i\<in>{0..<16}. if sub i ((k, v) # m) = [] then {} else trie_nodes K (strip 1 (sub i ((k, v) # m))))"
  using assms by (cases m) (simp_all add: trie_nodes.simps(3) Let_def)

lemma nodes_of_child:
  assumes "m \<noteq> []" "\<not> 0 < shared k m" "i < 16" "sub i ((k, v) # m) \<noteq> []"
  shows "trie_nodes K (strip 1 (sub i ((k, v) # m))) \<subseteq> trie_nodes K ((k, v) # m)"
proof
  fix x assume x: "x \<in> trie_nodes K (strip 1 (sub i ((k, v) # m)))"
  have "i \<in> {0..<16}" using assms(3) by simp
  then have "x \<in> (\<Union>i\<in>{0..<16}. if sub i ((k, v) # m) = [] then {} else trie_nodes K (strip 1 (sub i ((k, v) # m))))"
    by (rule UN_I) (use x assms(4) in simp)
  then show "x \<in> trie_nodes K ((k, v) # m)"
    unfolding trie_nodes_more [OF assms(1)] using assms(2) by simp
qed

lemma node_itself: "enc (tnode K m) \<in> trie_nodes K m"
  by (cases "(K, m)" rule: trie_nodes.cases) (simp_all add: trie_nodes_more)

lemma tnode_list: "m \<noteq> [] \<Longrightarrow> \<exists>xs. tnode K m = Lst xs"
  by (cases "(K, m)" rule: tnode.cases) (simp_all add: tnode_more)

lemma h256_bytes_inject: "h256_bytes a = h256_bytes b \<Longrightarrow> a = b"
proof -
  assume "h256_bytes a = h256_bytes b"
  then have "be_nat (h256_bytes a) = be_nat (h256_bytes b)" by simp
  moreover have "be_nat (h256_bytes h) = unat h" for h
    using be_nat_toBigEndian [of 32 "unat h"] unat_u256_less [of h] by (simp add: h256_bytes_def)
  ultimately show "a = b" by (simp add: word_unat_eq_iff)
qed

lemma tref_inject:
  assumes "tref K (Lst xs) = tref K (Lst ys)" "readable (Lst xs)" "readable (Lst ys)"
    and "inj_on K S" "enc (Lst xs) \<in> S" "enc (Lst ys) \<in> S"
  shows "xs = ys"
proof -
  have "Lst xs = Lst ys" if "h256_bytes (K (enc (Lst xs))) = h256_bytes (K (enc (Lst ys)))"
  proof -
    have "K (enc (Lst xs)) = K (enc (Lst ys))" using that by (rule h256_bytes_inject)
    then have "enc (Lst xs) = enc (Lst ys)" using assms(4-6) by (auto dest: inj_onD)
    then show ?thesis using assms(2,3) by (intro enc_inject)
  qed
  with assms(1) show ?thesis by (auto simp: tref_def simp del: enc.simps split: if_splits)
qed

section \<open>Entries from their parts\<close>

lemma strip_restore:
  assumes "\<forall>(k, v)\<in>set m. take c k = pre"
  shows "m = map (\<lambda>(k, v). (pre @ k, v)) (strip c m)"
  using assms
proof (induction m)
  case (Cons a m)
  then have "fst a = pre @ drop c (fst a)" by (auto simp: case_prod_unfold)
  with Cons show ?case by (cases a) auto
qed simp

lemma sub_restore: "sub i m = map (\<lambda>(k, v). (word_of_nat i # k, v)) (strip 1 (sub i m))"
proof -
  have "\<forall>(k, v)\<in>set (sub i m). take 1 k = [word_of_nat i]" by (auto dest!: sub_head)
  from strip_restore [OF this] show ?thesis by simp
qed

lemma sorted_set_unique:
  assumes "\<And>a b. R a b \<Longrightarrow> \<not> R b a"
  shows "sorted_wrt R xs \<Longrightarrow> sorted_wrt R ys \<Longrightarrow> set xs = set ys \<Longrightarrow> xs = ys"
proof (induction xs arbitrary: ys)
  case (Cons x xs)
  then obtain y ys' where ys: "ys = y # ys'" by (cases ys) auto
  have "x = y"
    using Cons.prems assms unfolding ys by (auto simp: set_eq_iff) metis
  moreover have "x \<notin> set xs" "y \<notin> set ys'"
    using Cons.prems(1,2) assms unfolding ys by (metis sorted_wrt.simps(2))+
  ultimately have "set xs = set ys'" using Cons.prems(3) unfolding ys by auto
  with Cons \<open>x = y\<close> show ?case unfolding ys by simp
qed simp

lemma good_unique: "good m \<Longrightarrow> good n \<Longrightarrow> set m = set n \<Longrightarrow> m = n"
  unfolding good_def by (rule sorted_set_unique [where R = "\<lambda>a b. fst a < fst b"]) auto

lemma branch_set:
  assumes "good ((k, v) # m)"
  shows "set ((k, v) # m) = (if k = [] then {(k, v)} else {}) \<union> (\<Union>i\<in>{0..<16}. set (sub i ((k, v) # m)))"
proof -
  have nz: "k' \<noteq> []" if "(k', v') \<in> set m" for k' v'
    using assms that by (auto simp: good_Cons)
  have "unat (hd k') < 16" if "(k', v') \<in> set ((k, v) # m)" "k' \<noteq> []" for k' v'
    using assms that by (cases k') (auto simp: good_def small_nibbles_def)
  then have "(k', v') \<in> (\<Union>i\<in>{0..<16}. set (sub i ((k, v) # m))) \<longleftrightarrow> (k', v') \<in> set ((k, v) # m) \<and> k' \<noteq> []" for k' v'
    by (force simp: sub_def)
  then show ?thesis using nz by auto
qed

section \<open>Nodes determine the entries\<close>

definition full :: "bytes_map \<Rightarrow> bool" where
  "full m \<longleftrightarrow> good m \<and> (\<forall>(k, v)\<in>set m. v \<noteq> [])"

lemma full_parts:
  assumes "full ((k, v) # m)"
  shows "full (strip (shared k m) ((k, v) # m))" "full (strip 1 (sub i ((k, v) # m)))"
  using assms good_shared [of k v m] good_sub [of "(k, v) # m" i]
  by (auto simp: full_def strip_def sub_def)

lemma leaf_unlike: "m \<noteq> [] \<Longrightarrow> small_nibbles k \<Longrightarrow> good ((k', v') # m) \<Longrightarrow> tnode K [(k, v)] \<noteq> tnode K ((k', v') # m)"
proof
  assume m: "m \<noteq> []" and k: "small_nibbles k" and g: "good ((k', v') # m)" and eq: "tnode K [(k, v)] = tnode K ((k', v') # m)"
  then have "hp True k = hp False (take (shared k' m) k')"
    by (auto simp: tnode_more split: if_splits dest: arg_cong [where f = length])
  from hp_inject(1) [OF this k] g show False by (simp add: good_Cons small_nibbles_part)
qed

lemma tref_tnode_inject:
  assumes "tref K (tnode K a) = tref K (tnode K b)" "a \<noteq> []" "b \<noteq> []" "full a" "full b"
    and "trie_nodes K a \<subseteq> S" "trie_nodes K b \<subseteq> S" "inj_on K S"
  shows "tnode K a = tnode K b"
proof -
  obtain xs ys where l: "tnode K a = Lst xs" "tnode K b = Lst ys"
    using tnode_list assms(2,3) by metis
  have "readable (Lst xs)" "readable (Lst ys)"
    using readable_tnode [of a K] readable_tnode [of b K] assms(4,5) by (simp_all add: full_def l)
  moreover have "enc (Lst xs) \<in> S" "enc (Lst ys) \<in> S"
    using node_itself [of K a] node_itself [of K b] assms(6,7) by (auto simp: l simp del: enc.simps)
  ultimately show ?thesis
    using tref_inject [of K xs ys S] assms(1,8) by (simp add: l)
qed

lemma same_kind:
  assumes "m \<noteq> []" "n \<noteq> []" "tnode K ((k, v) # m) = tnode K ((k', v') # n)"
  shows "0 < shared k m \<longleftrightarrow> 0 < shared k' n"
proof -
  have "\<exists>xs. tnode K ((k, v) # m) = Lst xs \<and> length xs = (if 0 < shared k m then 2 else 17)" if "m \<noteq> []" for k v m
    using that by (simp add: tnode_more del: upt_rec_numeral)
  from this [OF assms(1), of k v] this [OF assms(2), of k' v'] assms(3) show ?thesis by (auto split: if_splits)
qed

lemma tref_not_empty: "a \<noteq> [] \<Longrightarrow> tref K (tnode K a) \<noteq> Data []"
  using tnode_list [of a K] length_hash by (auto simp: tref_def dest: arg_cong [where f = length])

lemma extension_inject:
  assumes f: "full ((k, v) # m)" "full ((k', v') # n)" and pre: "take (shared k m) k = take (shared k' n) k'"
    and eq: "strip (shared k m) ((k, v) # m) = strip (shared k' n) ((k', v') # n)"
  shows "(k, v) # m = (k', v') # n"
proof -
  have "\<forall>(x, y)\<in>set ((k, v) # m). take (shared k m) x = take (shared k m) k"
    "\<forall>(x, y)\<in>set ((k', v') # n). take (shared k' n) x = take (shared k m) k"
    using shared_common [of _ _ m k] shared_common [of _ _ n k'] pre by auto
  from strip_restore [OF this(1)] strip_restore [OF this(2)] show ?thesis unfolding eq by metis
qed

lemma branch_inject:
  assumes f: "full ((k, v) # m)" "full ((k', v') # n)" and val: "(if k = [] then v else []) = (if k' = [] then v' else [])"
    and eq: "\<And>i. i < 16 \<Longrightarrow> sub i ((k, v) # m) = sub i ((k', v') # n)"
  shows "(k, v) # m = (k', v') # n"
proof (rule good_unique)
  show g: "good ((k, v) # m)" "good ((k', v') # n)" using f by (simp_all add: full_def)
  have "v \<noteq> []" "v' \<noteq> []" using f by (simp_all add: full_def)
  with val have "(if k = [] then {(k, v)} else {}) = (if k' = [] then {(k', v')} else {})" by (auto split: if_splits)
  moreover have "(\<Union>i\<in>{0..<16}. set (sub i ((k, v) # m))) = (\<Union>i\<in>{0..<16}. set (sub i ((k', v') # n)))"
    using eq by auto
  ultimately show "set ((k, v) # m) = set ((k', v') # n)"
    unfolding branch_set [OF g(1)] branch_set [OF g(2)] by simp
qed

lemma tnode_inject:
  "full m \<Longrightarrow> full n \<Longrightarrow> m \<noteq> [] \<Longrightarrow> n \<noteq> [] \<Longrightarrow> trie_nodes K m \<subseteq> S \<Longrightarrow> trie_nodes K n \<subseteq> S \<Longrightarrow> inj_on K S \<Longrightarrow>
   tnode K m = tnode K n \<Longrightarrow> m = n"
proof (induction K m arbitrary: n rule: tnode.induct)
  case (2 K k v)
  obtain k' v' r where n: "n = (k', v') # r" using 2(4) by (cases n) auto
  have g: "small_nibbles k" "good ((k', v') # r)" using 2(1,2) by (simp_all add: n full_def good_Cons)
  with leaf_unlike [of r k k' v' K v] 2(8) n have "r = []" by auto
  then have "hp True k = hp True k'" "v = v'" using 2(8) n by simp_all
  then show ?case using hp_inject(2) [of True k True k'] g n \<open>r = []\<close> by (simp add: good_Cons)
next
  case (3 K k v kv m)
  let ?m = "(k, v) # kv # m" and ?c = "shared k (kv # m)"
  obtain k' v' r where n: "n = (k', v') # r" using "3.prems"(4) by (cases n) auto
  have g: "good ?m" "good ((k', v') # r)" using "3.prems"(1,2) by (simp_all add: n full_def)
  have "r \<noteq> []"
    using leaf_unlike [of "kv # m" k' k v K v'] g "3.prems"(8) n by (auto simp: good_Cons)
  note more = tnode_more [OF this] trie_nodes_more [OF this]
  note f = "3.prems"(1) "3.prems"(2) [unfolded n]
  have nodes: "trie_nodes K ?m \<subseteq> S" "trie_nodes K ((k', v') # r) \<subseteq> S" using "3.prems"(5,6) by (simp_all add: n)
  have eq: "tnode K ?m = tnode K ((k', v') # r)" using "3.prems"(8) n by simp
  show ?case
  proof (cases "0 < ?c")
    case True
    then have c': "0 < shared k' r" using same_kind [OF _ \<open>r \<noteq> []\<close> eq] by simp
    let ?a = "strip ?c ?m" and ?b = "strip (shared k' r) ((k', v') # r)"
    have pre: "take ?c k = take (shared k' r) k'" and ref: "tref K (tnode K ?a) = tref K (tnode K ?b)"
      using eq True c' g hp_inject(2) [of False "take ?c k" False "take (shared k' r) k'"]
      by (simp_all add: tnode_more more good_Cons small_nibbles_part del: strip_simps(2))
    have part: "trie_nodes K ?a \<subseteq> S" "trie_nodes K ?b \<subseteq> S"
      using nodes True c' by (simp_all add: trie_nodes_more more del: strip_simps(2))
    have "tnode K ?a = tnode K ?b"
      by (rule tref_tnode_inject [OF ref _ _ full_parts(1) [OF f(1)] full_parts(1) [OF f(2)] part "3.prems"(7)]) simp_all
    then have "?a = ?b"
      using 3(1) [OF refl refl True full_parts(1) [OF f(1)] full_parts(1) [OF f(2)] _ _ part "3.prems"(7)] by simp
    with pre show ?thesis unfolding n by (intro extension_inject f)
  next
    case False
    then have c': "\<not> 0 < shared k' r" using same_kind [OF _ \<open>r \<noteq> []\<close> eq] by simp
    have kids: "map (child K ?m) [0..<16] = map (child K ((k', v') # r)) [0..<16]"
      and val: "(if k = [] then v else []) = (if k' = [] then v' else [])"
      using eq False c' by (simp_all add: tnode_more more del: upt_rec_numeral)
    have "sub i ?m = sub i ((k', v') # r)" if i: "i < 16" for i
    proof -
      let ?a = "strip 1 (sub i ?m)" and ?b = "strip 1 (sub i ((k', v') # r))"
      have same: "child K ?m i = child K ((k', v') # r) i" using kids i by (simp del: upt_rec_numeral)
      show ?thesis
      proof (cases "sub i ?m = [] \<or> sub i ((k', v') # r) = []")
        case True
        then show ?thesis
          using same tref_not_empty [of ?a K] tref_not_empty [of ?b K] by (auto simp: child_def split: if_splits)
      next
        case sub: False
        have part: "trie_nodes K ?a \<subseteq> S" "trie_nodes K ?b \<subseteq> S"
          using subset_trans [OF nodes_of_child [OF _ False i] nodes(1)]
            subset_trans [OF nodes_of_child [OF \<open>r \<noteq> []\<close> c' i] nodes(2)] sub by simp_all
        have "tref K (tnode K ?a) = tref K (tnode K ?b)" using same sub by (simp add: child_def)
        then have "tnode K ?a = tnode K ?b"
          by (rule tref_tnode_inject [OF _ _ _ full_parts(2) [OF f(1)] full_parts(2) [OF f(2)] part "3.prems"(7)]) (use sub in simp_all)
        then have "?a = ?b"
          using 3(2) [OF refl refl False _ _ full_parts(2) [OF f(1)] full_parts(2) [OF f(2)] _ _ part "3.prems"(7)] sub i by simp
        with sub_restore [of i ?m] sub_restore [of i "(k', v') # r"] show ?thesis by simp
      qed
    qed
    with val show ?thesis unfolding n by (intro branch_inject f)
  qed
qed simp

section \<open>The root\<close>

definition nibbled :: "bytes_map \<Rightarrow> bytes_map" where
  "nibbled s = map (\<lambda>(k, v). (asNibbles k, v)) s"

definition map_ok :: "bytes_map \<Rightarrow> bool" where
  "map_ok s \<longleftrightarrow> sorted_wrt (\<lambda>a b. fst a < fst b) s \<and> (\<forall>(k, v)\<in>set s. length k < 2 ^ 31 \<and> v \<noteq> [] \<and> length v < 2 ^ 60)"

lemma digits_less: "(a :: nat) < b \<longleftrightarrow> a div 16 < b div 16 \<or> a div 16 = b div 16 \<and> a mod 16 < b mod 16"
proof -
  have "16 * q + r < 16 * p + t \<longleftrightarrow> q < p \<or> q = p \<and> r < t" if "r < 16" "t < 16" for q r p t :: nat
    using that by presburger
  from this [of "a mod 16" "b mod 16" "a div 16" "b div 16"] show ?thesis by simp
qed

lemma asNibbles_less: "asNibbles a < asNibbles b \<longleftrightarrow> a < b"
proof (induction a arbitrary: b)
  case Nil
  then show ?case by (cases b) simp_all
next
  case (Cons x a)
  show ?case
  proof (cases b)
    case b: (Cons y b')
    have "x < y \<longleftrightarrow> x div 16 < y div 16 \<or> x div 16 = y div 16 \<and> x mod 16 < y mod 16"
      using digits_less [of "unat x" "unat y"]
      by (simp add: word_less_nat_alt unat_div_distrib unat_mod_distrib word_unat_eq_iff)
    moreover have "x = y \<longleftrightarrow> x div 16 = y div 16 \<and> x mod 16 = y mod 16"
      by (metis div_mult_mod_eq)
    ultimately show ?thesis using Cons b by auto
  qed simp
qed

lemma hexMap_eq: "sorted_wrt (\<lambda>a b. fst a < fst b) s \<Longrightarrow> hexMap s = nibbled s"
proof -
  have front: "map_put k v m = (k, v) # m" if "\<forall>(k', v')\<in>set m. k < k'" for k v m
    using that by (cases m) auto
  show "sorted_wrt (\<lambda>a b. fst a < fst b) s \<Longrightarrow> hexMap s = nibbled s"
  proof (induction s)
    case (Cons a s)
    then have "\<forall>(k', v')\<in>set (nibbled s). asNibbles (fst a) < k'"
      by (auto simp: nibbled_def asNibbles_less)
    with Cons front show ?case by (cases a) (simp add: hexMap_def nibbled_def)
  qed (simp add: hexMap_def nibbled_def)
qed

lemma full_nibbled: "map_ok s \<Longrightarrow> full (nibbled s)"
  using asNibbles_small
  by (auto simp: map_ok_def full_def good_def nibbled_def sorted_wrt_map asNibbles_less small_nibbles_def case_prod_unfold)

lemma rlp256_eq:
  assumes "map_ok s"
  shows "rlp256 K s = Inr (enc (tnode K (nibbled s)))"
proof (cases "s = []")
  case True
  then show ?thesis
    using rlp_enc [of "Data []"] by (simp add: rlp256_def nibbled_def)
next
  case False
  have hex: "hexMap s = nibbled s" using assms by (intro hexMap_eq) (simp add: map_ok_def)
  have full: "full (nibbled s)" using assms by (rule full_nibbled)
  have strip: "strip 0 m = m" for m by (simp add: strip_def case_prod_unfold)
  have "reaches 0 (nibbled s)"
    using full by (auto simp: reaches_def strip full_def good_def)
  then have "hash256rlp K (nibbled s) 0 RLPStream = appendItem (tnode K (nibbled s)) RLPStream"
    using False hash256_nodes(1) [of "nibbled s" 0 K RLPStream] by (simp add: nibbled_def strip)
  then show ?thesis
    using False rlp_enc [OF readable_fits [OF readable_tnode]] full by (simp add: rlp256_def hex rlp_def full_def)
qed

lemma nibbled_inject: "map_ok s \<Longrightarrow> map_ok t \<Longrightarrow> nibbled s = nibbled t \<Longrightarrow> s = t"
proof -
  have "k = k'" if "asNibbles k = asNibbles k'" for k k'
    using that
  proof (induction k arbitrary: k')
    case Nil
    then show ?case by (cases k') simp_all
  next
    case (Cons a k)
    then obtain b l where k': "k' = b # l" by (cases k') auto
    with Cons.prems have "a div 16 = b div 16" "a mod 16 = b mod 16" "asNibbles k = asNibbles l" by simp_all
    then have "a = b" by (metis div_mult_mod_eq)
    with Cons.IH [OF \<open>asNibbles k = asNibbles l\<close>] k' show ?case by simp
  qed
  then have "inj (\<lambda>(k, v). (asNibbles k, v :: bytes))" by (auto intro!: injI)
  then show "nibbled s = nibbled t \<Longrightarrow> s = t" by (simp add: nibbled_def)
qed



end
