(* ===== verification/BlockHeader_Props.thy ===== *)
theory BlockHeader_Props
  imports BlockHeader TrieHash_Props
begin

text \<open>
  Headers are read back as they are written, but for the bits of the number and the timestamp that the
  writer drops.
\<close>

section \<open>The items of a header\<close>

definition headerItems :: "BlockHeader \<Rightarrow> item list \<Rightarrow> item list" where
  "headerItems h ss = [Data (h256_bytes (h_parentHash h)), Data (h256_bytes (h_sha3Uncles h)), Data (address_bytes (h_author h)),
     Data (h256_bytes (h_stateRoot h)), Data (h256_bytes (h_transactionsRoot h)), Data (h256_bytes (h_receiptsRoot h)),
     Data (h_logBloom h), Data (toCompactBigEndian (unat (h_difficulty h)) 0),
     Data (toCompactBigEndian (unat (ucast (h_number h) :: u32)) 0), Data (toCompactBigEndian (unat (h_gasLimit h)) 0),
     Data (toCompactBigEndian (unat (h_gasUsed h)) 0), Data (toCompactBigEndian (unat (ucast (h_timestamp h) :: u32)) 0),
     Data (h_extraData h)] @ ss"

definition header_ok :: "BlockHeader \<Rightarrow> item list \<Rightarrow> bool" where
  "header_ok h ss \<longleftrightarrow> h_seal h = map enc ss \<and> length ss < 80 \<and> length (h_logBloom h) = 256 \<and> readable (Lst (headerItems h ss))"

lemma length_headerItems: "length (headerItems h ss) = 13 + length ss"
  by (simp add: headerItems_def)

lemma streamRLP_header_items:
  assumes "header_ok h ss"
  shows "streamRLP_header WithSeal h s = appendItem (Lst (headerItems h ss)) s"
proof -
  have int: "appendInt (unat w) st = appendItem (Data (toCompactBigEndian (unat w) 0)) st" if "LENGTH('a) \<le> 256"
    for w :: "'a::len word" and st
  proof (rule appendInt_item)
    have "unat w < 2 ^ LENGTH('a)" by (rule unsigned_less)
    also have "\<dots> \<le> 2 ^ 256" using that by (intro power_increasing) simp_all
    finally show "unat w < 256 ^ 32" by simp
  qed
  have seals: "appendEach (\<lambda>x. appendRaw x 1) (map enc ss) = appendItems ss" if "list_all readable ss" for ss
    using that
  proof (induction ss)
    case (Cons x ss)
    then show ?case by (intro ext) (simp add: appendItem_raw)
  qed (simp add: fun_eq_iff)
  have "list_all readable ss" using assms by (simp add: header_ok_def headerItems_def)
  moreover have "appendItem (Lst (headerItems h ss)) s = sum_bind (appendList (13 + length ss) s) (appendItems (headerItems h ss))"
    by (simp only: appendItem.simps length_headerItems)
  moreover have "h_seal h = map enc ss" using assms by (simp add: header_ok_def)
  ultimately show ?thesis
    using seals [of ss]
    by (simp add: streamRLP_header_def BasicFields_def streamRLPFields_def appendUnsigned_def int headerItems_def appendItems_fun
        sum_bind_assoc del: appendItem.simps(2))
qed

section \<open>Reading them\<close>

lemma toPositiveInt64_item:
  "toPositiveInt64 (enc (Data (toCompactBigEndian (unat (w :: u32)) 0))) flags = Inr (ucast w)"
proof -
  have u: "unat (ucast w :: u64) = unat w"
    using unsigned_less [of w, where 'a = nat] by (simp add: unsigned_ucast_eq take_bit_nat_eq_self_iff)
  have "sint (ucast w :: u64) = uint w"
  proof -
    have "uint (ucast w :: u64) = uint w"
      using unsigned_less [of w, where 'a = int] by (simp add: unsigned_ucast_eq take_bit_int_eq_self)
    moreover have "signed_take_bit 63 (uint w) = uint w"
      using unsigned_less [of w, where 'a = int] order_trans [OF _ uint_ge_0 [of w], of "- (2 ^ 63)"]
      by (intro signed_take_bit_int_eq_self) simp_all
    ultimately show ?thesis by (simp add: sint_uint)
  qed
  then show ?thesis
    using toInt_item [of "ucast w :: u64" flags] by (simp add: toPositiveInt64_def u del: enc.simps)
qed

lemma sealFields_items:
  "over xs r \<Longrightarrow> length xs < 100 \<Longrightarrow> i \<le> length xs \<Longrightarrow> sealFields [i..<length xs] r = Inr (map enc (drop i xs))"
proof (induction "length xs - i" arbitrary: i r)
  case (Suc n)
  then have i: "i < length xs" by simp
  obtain r' where r': "rlp_field i Inr r = Inr (enc (xs ! i), r')" "over xs r'"
    using field_enc [of xs r i Inr "enc (xs ! i)"] Suc.prems i by auto
  have "sealFields [Suc i..<length xs] r' = Inr (map enc (drop (Suc i) xs))"
    using Suc r' i by (intro Suc.hyps(1)) simp_all
  then show ?case
    using r' i by (simp add: upt_conv_Cons Cons_nth_drop_Suc [symmetric])
qed simp

lemma populate_items:
  assumes "header_ok h ss"
  shows "populate (enc (Lst (headerItems h ss))) g = Inr (h\<lparr>h_number := ucast (ucast (h_number h) :: u32),
    h_timestamp := ucast (ucast (h_timestamp h) :: u32), h_hash := h_hash g, h_hashWithout := h_hashWithout g\<rparr>)"
proof -
  let ?xs = "headerItems h ss"
  have rd: "readable (Lst ?xs)" and ok: "h_seal h = map enc ss" "length ss < 80" "length (h_logBloom h) = 256"
    using assms by (simp_all add: header_ok_def)
  have loc: "list_of_chunks (map enc ?xs)" using rd by (rule list_of_chunks_enc)
  have count: "itemCount (enc (Lst ?xs)) = Inr (length ?xs)"
    using isList_list_bytes [OF loc, of "[]"] items_list_bytes [OF loc, of "[]"] by (simp add: itemCount_def enc_Lst del: enc.simps)
  have extra: "toBytes (enc (Data (h_extraData h))) LaissezFaire = Inr (h_extraData h)"
    using rd by (intro toBytes_item) (simp add: headerItems_def)
  have item: "?xs ! 0 = Data (h256_bytes (h_parentHash h))" "?xs ! 1 = Data (h256_bytes (h_sha3Uncles h))"
    "?xs ! 2 = Data (address_bytes (h_author h))" "?xs ! 3 = Data (h256_bytes (h_stateRoot h))"
    "?xs ! 4 = Data (h256_bytes (h_transactionsRoot h))" "?xs ! 5 = Data (h256_bytes (h_receiptsRoot h))"
    "?xs ! 6 = Data (h_logBloom h)" "?xs ! 7 = Data (toCompactBigEndian (unat (h_difficulty h)) 0)"
    "?xs ! 8 = Data (toCompactBigEndian (unat (ucast (h_number h) :: u32)) 0)"
    "?xs ! 9 = Data (toCompactBigEndian (unat (h_gasLimit h)) 0)" "?xs ! 10 = Data (toCompactBigEndian (unat (h_gasUsed h)) 0)"
    "?xs ! 11 = Data (toCompactBigEndian (unat (ucast (h_timestamp h) :: u32)) 0)" "?xs ! 12 = Data (h_extraData h)"
    by (simp_all add: headerItems_def)
  note conv = toHash_item toInt_item toPositiveInt64_item max_field_def
  have seal: "sealFields [13..<length ?xs] r = Inr (h_seal h)" if "over ?xs r" for r
    using sealFields_items [OF that, of 13] ok by (simp add: length_headerItems) (simp add: headerItems_def)
  have upd: "h\<lparr>h_number := n, h_timestamp := t, h_hash := h_hash g, h_hashWithout := h_hashWithout g\<rparr> =
      g\<lparr>h_parentHash := h_parentHash h, h_sha3Uncles := h_sha3Uncles h, h_author := h_author h, h_stateRoot := h_stateRoot h,
        h_transactionsRoot := h_transactionsRoot h, h_receiptsRoot := h_receiptsRoot h, h_logBloom := h_logBloom h,
        h_difficulty := h_difficulty h, h_number := n, h_gasLimit := h_gasLimit h, h_gasUsed := h_gasUsed h, h_timestamp := t,
        h_extraData := h_extraData h, h_seal := h_seal h\<rparr>" for n t
    by simp
  show ?thesis
    unfolding populate_def
    by (rule field_bind_rlp [OF over_start [OF rd]], simp add: length_headerItems, simp, simp add: item conv del: enc.simps, unfold prod.case)
      ((rule field_bind_rlp, assumption, simp add: length_headerItems, simp,
        simp add: item conv ok extra del: enc.simps One_nat_def, unfold prod.case)+, simp add: count seal upd del: enc.simps sum_bind_eq_Inr)
qed

text \<open>
  C39. A header is read back from its RLP form with all its fields and its seal, and with the hash of
  the form as its hash. Only of the number and the timestamp no more than 32 bits survive: both come
  back unchanged exactly if they are below $2^{32}$.
\<close>

theorem block_header_roundtrip:
  assumes "header_ok h ss"
  shows "\<exists>bs. sum_bind (streamRLP_header WithSeal h RLPStream) out_stream = Inr bs \<and>
    BlockHeader_of K bs HeaderData 0 = Inr (h\<lparr>h_number := ucast (ucast (h_number h) :: u32),
      h_timestamp := ucast (ucast (h_timestamp h) :: u32), h_hash := K bs, h_hashWithout := 0\<rparr>) \<and>
    (ucast (ucast (h_timestamp h) :: u32) = h_timestamp h \<longleftrightarrow> unat (h_timestamp h) < 2 ^ 32)"
proof -
  let ?bs = "enc (Lst (headerItems h ss))"
  have rd: "readable (Lst (headerItems h ss))" using assms by (simp add: header_ok_def)
  have "sum_bind (streamRLP_header WithSeal h RLPStream) out_stream = Inr ?bs"
    using rlp_enc [OF readable_fits [OF rd]] by (simp only: streamRLP_header_items [OF assms] rlp_def)
  moreover have "BlockHeader_of K ?bs HeaderData 0 = Inr (h\<lparr>h_number := ucast (ucast (h_number h) :: u32),
      h_timestamp := ucast (ucast (h_timestamp h) :: u32), h_hash := K ?bs, h_hashWithout := 0\<rparr>)"
    using RLP_chunk [OF chunk_enc [OF rd]] populate_items [OF assms]
    by (simp add: BlockHeader_of_def BlockHeader_new_def del: enc.simps)
  moreover have "ucast (ucast w :: u32) = w \<longleftrightarrow> unat w < 2 ^ 32" for w :: u64
    by (simp add: word_unat_eq_iff unsigned_ucast_eq unsigned_take_bit_eq take_bit_nat_eq_self_iff)
  ultimately show ?thesis by blast
qed

definition demo_header :: BlockHeader where
  "demo_header = BlockHeader_new\<lparr>h_number := 7, h_timestamp := 0x100000005, h_gasLimit := 3141592, h_difficulty := 131072, h_author := 9\<rparr>"

lemma demo_header_ok: "header_ok demo_header []"
proof -
  have n: "length (toCompactBigEndian m 0) \<le> 256" if "m < 256 ^ 32" for m
    using length_compact_le [OF that] by simp
  have "\<forall>x\<in>set (headerItems demo_header []). \<exists>bs. x = Data bs \<and> length bs \<le> 256"
    by (auto simp: headerItems_def demo_header_def BlockHeader_new_def n)
  moreover have "readable (Data bs) \<and> length (enc (Data bs)) \<le> 265" if "length bs \<le> 256" for bs
    using length_enc_bytes [of bs] that by (simp add: max_field_def del: enc.simps)
  ultimately have "list_all readable (headerItems demo_header [])" "\<forall>x\<in>set (headerItems demo_header []). length (enc x) \<le> 265"
    unfolding list_all_iff by metis+
  then have "sum_list (map (length \<circ> enc) (headerItems demo_header [])) \<le> length (map (length \<circ> enc) (headerItems demo_header [])) * 265"
    by (intro sum_list_bound) auto
  then have "length (concat (map enc (headerItems demo_header []))) < max_field"
    by (simp add: length_encs length_headerItems max_field_def del: enc.simps)
  then show ?thesis
    using \<open>list_all readable (headerItems demo_header [])\<close>
    by (simp add: header_ok_def demo_header_def BlockHeader_new_def del: enc.simps)
qed

theorem block_header_roundtrip_witness:
  "\<forall>K. \<exists>bs h. BlockHeader_of K bs HeaderData 0 = Inr h \<and> h_number h = 7 \<and> h_timestamp h = 5 \<and> h_author h = 9"
proof
  fix K
  from block_header_roundtrip [OF demo_header_ok, of K] obtain bs where
    "BlockHeader_of K bs HeaderData 0 = Inr (demo_header\<lparr>h_number := ucast (ucast (h_number demo_header) :: u32),
       h_timestamp := ucast (ucast (h_timestamp demo_header) :: u32), h_hash := K bs, h_hashWithout := 0\<rparr>)" by blast
  then show "\<exists>bs h. BlockHeader_of K bs HeaderData 0 = Inr h \<and> h_number h = 7 \<and> h_timestamp h = 5 \<and> h_author h = 9"
    by (intro exI conjI, assumption) (simp_all add: demo_header_def BlockHeader_new_def)
qed

end
