(* ===== verification/Ethash.thy ===== *)
theory Ethash
  imports BlockHeader ChainParams "HOL-Library.Signed_Division"
begin

text \<open>
  The proof-of-work engine \<^verbatim>\<open>libaecashseal/Ethash.h\<close>, \<^verbatim>\<open>Ethash.cpp\<close> and the default engine of
  \<^verbatim>\<open>libaeccore/SealEngine.cpp\<close>: what a header must satisfy, how difficulty and gas limit follow from the
  parent, and the header \<^verbatim>\<open>Block::resetCurrent\<close> starts a new block with.

  A mixed operation on an \<^verbatim>\<open>int64_t\<close> and a \<^verbatim>\<open>u256\<close> extends the sign (\<open>scast\<close>); an \<^verbatim>\<open>u256\<close> wraps around; a
  \<^verbatim>\<open>bigint\<close> is an integer, and its division rounds towards zero (\<open>sdiv\<close>). Dividing by zero throws.

  The hashing library that checks a proof of work is outside the repository: the record \<open>pow\<close> stands for
  \<^verbatim>\<open>verify\<close> (with the epoch of the block number) and \<^verbatim>\<open>verify_final_hash\<close>.
\<close>

record pow =
  pow_verify :: "u64 \<Rightarrow> h256 \<Rightarrow> h256 \<Rightarrow> u64 \<Rightarrow> h256 \<Rightarrow> bool"
  pow_verify_final :: "h256 \<Rightarrow> h256 \<Rightarrow> u64 \<Rightarrow> h256 \<Rightarrow> bool"

section \<open>The seal\<close>

definition seedHash :: "keccak \<Rightarrow> nat \<Rightarrow> BlockHeader \<Rightarrow> h256" where
  "seedHash K epochLength h = ((\<lambda>seed. K (h256_bytes seed)) ^^ (unat (ucast (h_number h) :: u32) div epochLength)) 0"

definition nonce_of :: "BlockHeader \<Rightarrow> rlp_error + u64" where
  "nonce_of h = sum_bind (seal_field 8 1 h) (\<lambda>b. Inr (fromBigEndian b))"

definition mixHash :: "BlockHeader \<Rightarrow> rlp_error + h256" where
  "mixHash h = sum_bind (seal_field 32 0 h) (\<lambda>b. Inr (fromBigEndian b))"

definition boundary :: "BlockHeader \<Rightarrow> h256" where
  "boundary h = (if h_difficulty h \<noteq> 0 then word_of_nat (2 ^ 256 div unat (h_difficulty h)) else 0)"

definition setNonce_seal :: "bytes \<Rightarrow> BlockHeader \<Rightarrow> BlockHeader" where
  "setNonce_seal v h = setSeal 1 v h"

definition setMixHash :: "bytes \<Rightarrow> BlockHeader \<Rightarrow> BlockHeader" where
  "setMixHash v h = setSeal 0 v h"

definition quickVerifySeal :: "keccak \<Rightarrow> pow \<Rightarrow> BlockHeader \<Rightarrow> rlp_error + bool" where
  "quickVerifySeal K w h =
     sum_bind (header_hash K WithoutSeal h) (\<lambda>(x, h).
     sum_bind (nonce_of h) (\<lambda>n. sum_bind (mixHash h) (\<lambda>m. Inr (pow_verify_final w x m n (boundary h)))))"

definition verifySeal :: "keccak \<Rightarrow> pow \<Rightarrow> BlockHeader \<Rightarrow> rlp_error + bool" where
  "verifySeal K w h =
     sum_bind (header_hash K WithoutSeal h) (\<lambda>(x, h).
     sum_bind (nonce_of h) (\<lambda>n. sum_bind (mixHash h) (\<lambda>m. Inr (pow_verify w (h_number h) x m n (boundary h)))))"

section \<open>Difficulty and gas limit\<close>

definition frontierTarget :: "ChainOperationParams \<Rightarrow> BlockHeader \<Rightarrow> BlockHeader \<Rightarrow> header_error + int" where
  "frontierTarget p bi parent =
     (let d = h_difficulty parent; dv = p_difficultyBoundDivisor p
      in if dv = 0 then Inl DivisionByZero
         else Inr (uint (if scast (h_timestamp bi) \<ge> scast (h_timestamp parent) + p_durationLimit p then d - d div dv else d + d div dv)))"

definition adjFactor :: "keccak \<Rightarrow> ChainOperationParams \<Rightarrow> BlockHeader \<Rightarrow> BlockHeader \<Rightarrow> int" where
  "adjFactor K p bi parent =
     (let timestampDiff = sint (h_timestamp bi) - sint (h_timestamp parent)
      in if scast (h_number bi) < p_byzantiumForkBlock p then max (1 - timestampDiff sdiv 10) (- 99)
         else max ((if hasUncles K parent then 2 else 1) - timestampDiff sdiv 9) (- 99))"

definition iceAge :: "ChainOperationParams \<Rightarrow> BlockHeader \<Rightarrow> BlockHeader \<Rightarrow> int" where
  "iceAge p bi parent =
     (let n = unat (ucast (h_number parent + 1) :: u32);
          n = (if scast (h_number bi) \<ge> p_byzantiumForkBlock p then (if n \<ge> 3000000 then n - 3000000 else 0) else n);
          periodCount = n div 100000
      in if periodCount > 1 then 2 ^ (periodCount - 2) else 0)"

definition calculateDifficulty :: "keccak \<Rightarrow> ChainOperationParams \<Rightarrow> BlockHeader \<Rightarrow> BlockHeader \<Rightarrow> header_error + u256" where
  "calculateDifficulty K p bi parent =
     (if h_number bi = 0 then Inl GenesisBlockCannotBeCalculated
      else
        sum_bind (if scast (h_number bi) < p_homesteadForkBlock p then frontierTarget p bi parent
                  else Inr (uint (h_difficulty parent) + uint (h_difficulty parent div 2048) * adjFactor K p bi parent)) (\<lambda>target.
          Inr (word_of_int (min (max (uint (p_minimumDifficulty p)) (target + iceAge p bi parent)) (2 ^ 256 - 1)))))"

definition childGasLimit :: "ChainOperationParams \<Rightarrow> BlockHeader \<Rightarrow> u256 \<Rightarrow> header_error + u256" where
  "childGasLimit p bi gasFloorTarget =
     (let gasFloorTarget = (if gasFloorTarget = Invalid256 then 3141562 else gasFloorTarget);
          gasLimit = h_gasLimit bi; boundDivisor = p_gasLimitBoundDivisor p
      in if boundDivisor = 0 then Inl DivisionByZero
         else if gasLimit < gasFloorTarget then Inr (min gasFloorTarget (gasLimit + gasLimit div boundDivisor - 1))
         else Inr (max gasFloorTarget
                (gasLimit - gasLimit div boundDivisor + 1 + (h_gasUsed bi * 6 div 5) div boundDivisor)))"

section \<open>Headers\<close>

definition Ethash_populateFromParent :: "keccak \<Rightarrow> ChainOperationParams \<Rightarrow> BlockHeader \<Rightarrow> BlockHeader \<Rightarrow> header_error + BlockHeader" where
  "Ethash_populateFromParent K p bi parent =
     (let bi = populateFromParent bi parent
      in sum_bind (calculateDifficulty K p bi parent) (\<lambda>d.
         sum_bind (childGasLimit p parent Invalid256) (\<lambda>g. Inr (setGasLimit g (setDifficulty d bi)))))"

text \<open>The extra data of the blocks after the fork: \<^verbatim>\<open>dao-hard-fork\<close>.\<close>

definition daoExtraData :: bytes where
  "daoExtraData = [0x64, 0x61, 0x6f, 0x2d, 0x68, 0x61, 0x72, 0x64, 0x2d, 0x66, 0x6f, 0x72, 0x6b]"

definition inDaoWindow :: "ChainOperationParams \<Rightarrow> BlockHeader \<Rightarrow> bool" where
  "inDaoWindow p bi = (let dao = p_daoHardforkBlock p; n = scast (h_number bi)
     in dao \<noteq> 0 \<and> dao + 9 \<ge> dao \<and> n \<ge> dao \<and> n \<le> dao + 9)"

definition checkFields :: "ChainOperationParams \<Rightarrow> BlockHeader \<Rightarrow> header_error + unit" where
  "checkFields p bi =
     (if h_difficulty bi < p_minimumDifficulty p then Inl InvalidDifficulty
      else if h_gasLimit bi < p_minGasLimit p then Inl InvalidGasLimit
      else if h_gasLimit bi > p_maxGasLimit p then Inl InvalidGasLimit
      else if h_number bi \<noteq> 0 \<and> word_of_nat (length (h_extraData bi)) > p_maximumExtraDataSize p then Inl ExtraDataTooBig
      else if inDaoWindow p bi \<and> h_extraData bi \<noteq> daoExtraData then Inl ExtraDataIncorrect
      else Inr ())"

definition checkParent :: "keccak \<Rightarrow> ChainOperationParams \<Rightarrow> BlockHeader \<Rightarrow> BlockHeader \<Rightarrow> header_error + unit" where
  "checkParent K p bi parent =
     sum_bind (calculateDifficulty K p bi parent) (\<lambda>expected.
     if h_difficulty bi \<noteq> expected then Inl InvalidDifficulty
     else
       (let gasLimit = h_gasLimit bi; parentGasLimit = h_gasLimit parent; dv = p_gasLimitBoundDivisor p
        in if gasLimit < p_minGasLimit p \<or> gasLimit > p_maxGasLimit p then Inl InvalidGasLimit
           else if dv = 0 then Inl DivisionByZero
           else if gasLimit \<le> parentGasLimit - parentGasLimit div dv \<or> gasLimit \<ge> parentGasLimit + parentGasLimit div dv
           then Inl InvalidGasLimit else Inr ()))"

definition Ethash_verify :: "keccak \<Rightarrow> pow \<Rightarrow> ChainOperationParams \<Rightarrow> Strictness \<Rightarrow> BlockHeader \<Rightarrow> BlockHeader \<Rightarrow> bytes option \<Rightarrow>
    header_error + unit" where
  "Ethash_verify K w p st bi parent block =
     sum_bind (verify_header K st bi parent block) (\<lambda>_.
     sum_bind (if st \<noteq> CheckNothingNew then checkFields p bi else Inr ()) (\<lambda>_.
     sum_bind (if header_bool parent then checkParent K p bi parent else Inr ()) (\<lambda>_.
     if st = Strict_CheckEverything \<and> h_parentHash bi \<noteq> 0
     then sum_bind (map_err HeaderRLP (verifySeal K w bi)) (\<lambda>ok. if ok then Inr () else Inl InvalidBlockNonce)
     else if st = QuickNonce \<and> h_parentHash bi \<noteq> 0
     then sum_bind (map_err HeaderRLP (quickVerifySeal K w bi)) (\<lambda>ok. if ok then Inr () else Inl InvalidBlockNonce)
     else Inr ())))"

text \<open>The engines: the default one only looks at the header.\<close>

definition se_verify :: "keccak \<Rightarrow> pow \<Rightarrow> SealEngine \<Rightarrow> Strictness \<Rightarrow> BlockHeader \<Rightarrow> BlockHeader \<Rightarrow> bytes option \<Rightarrow> header_error + unit" where
  "se_verify K w E st bi parent block = (case se_kind E of
     NoProof \<Rightarrow> verify_header K st bi parent block
   | Ethash \<Rightarrow> Ethash_verify K w (se_params E) st bi parent block)"

definition se_populateFromParent :: "keccak \<Rightarrow> SealEngine \<Rightarrow> BlockHeader \<Rightarrow> BlockHeader \<Rightarrow> header_error + BlockHeader" where
  "se_populateFromParent K E bi parent = (case se_kind E of
     NoProof \<Rightarrow> Inr (populateFromParent bi parent)
   | Ethash \<Rightarrow> Ethash_populateFromParent K (se_params E) bi parent)"

text \<open>The header part of \<^verbatim>\<open>Block::resetCurrent\<close>; \<^verbatim>\<open>max\<close> compares signed numbers.\<close>

definition resetHeader :: "keccak \<Rightarrow> SealEngine \<Rightarrow> address \<Rightarrow> BlockHeader \<Rightarrow> u64 \<Rightarrow> header_error + BlockHeader" where
  "resetHeader K E author previous timestamp =
     (let t = h_timestamp previous + 1
      in se_populateFromParent K E (setTimestamp (if t <s timestamp then timestamp else t) (setAuthor author BlockHeader_new)) previous)"

section \<open>A new header is accepted\<close>

lemma gas_arith:
  fixes L u d :: nat
  assumes "0 < d" "3 \<le> L div d" "u \<le> L"
  shows "1 + (u * 6 div 5) div d < 2 * (L div d)"
proof -
  let ?q = "L div d"
  define x where "x = ?q * d"
  have "L < d + x" using dividend_less_div_times [OF assms(1), of L] by (simp add: x_def)
  moreover have "11 * d \<le> 4 * x"
  proof -
    have "11 * d \<le> (4 * ?q) * d" by (intro mult_le_mono1) (use assms(2) in linarith)
    then show ?thesis by (simp only: x_def mult.assoc)
  qed
  ultimately have "u * 6 < (2 * x - d) * 5" using assms(3) by linarith
  then have "u * 6 div 5 < 2 * x - d" by (rule less_mult_imp_div_less)
  also have "2 * x - d = (2 * ?q - 1) * d" by (simp add: x_def diff_mult_distrib)
  finally have "(u * 6 div 5) div d < 2 * ?q - 1" by (simp add: less_mult_imp_div_less)
  then show ?thesis by linarith
qed

text \<open>The gas limit a child may have.\<close>

definition gas_params :: "ChainOperationParams \<Rightarrow> BlockHeader \<Rightarrow> bool" where
  "gas_params p h \<longleftrightarrow> (let L = unat (h_gasLimit h); d = unat (p_gasLimitBoundDivisor p)
     in 0 < d \<and> 3 \<le> L div d \<and> h_gasUsed h \<le> h_gasLimit h \<and> L < 2 ^ 252 \<and> p_minGasLimit p \<le> 3141562 \<and>
        p_minGasLimit p \<le> h_gasLimit h \<and> L + L div d \<le> unat (p_maxGasLimit p))"

lemma childGasLimit_ok:
  assumes "gas_params p h"
  shows "\<exists>g. childGasLimit p h Invalid256 = Inr g \<and> p_minGasLimit p \<le> g \<and> g \<le> p_maxGasLimit p \<and>
    h_gasLimit h - h_gasLimit h div p_gasLimitBoundDivisor p < g \<and> g < h_gasLimit h + h_gasLimit h div p_gasLimitBoundDivisor p"
proof -
  let ?l = "h_gasLimit h" and ?b = "p_gasLimitBoundDivisor p"
  let ?q = "?l div ?b" and ?f = "3141562 :: u256"
  define L d u where "L = unat ?l" and "d = unat ?b" and "u = unat (h_gasUsed h)"
  have a: "0 < d" "3 \<le> L div d" "u \<le> L" "L < 2 ^ 252" "unat (p_minGasLimit p) \<le> 3141562" "unat (p_minGasLimit p) \<le> L"
    "L + L div d \<le> unat (p_maxGasLimit p)"
    using assms by (simp_all add: gas_params_def L_def d_def u_def Let_def word_le_nat_alt)
  have b: "?b \<noteq> 0" using a(1) by (auto simp: d_def)
  have q: "unat ?q = L div d" by (simp add: unat_div_distrib L_def d_def)
  have ql: "L div d \<le> L" by simp
  have "L + L div d < 2 ^ 256"
  proof -
    have "L + L div d < 2 ^ 252 + 2 ^ 252" using a(4) ql by linarith
    then show ?thesis by simp
  qed
  then have sum: "unat (?l + ?q) = L + L div d"
    using q by (subst unat_add_lem [THEN iffD1]) (simp_all add: L_def)
  have low: "unat (?l - ?q) = L - L div d"
    using q ql by (simp add: unat_sub word_le_nat_alt L_def)
  have up: "unat (?l + ?q - 1) = L + L div d - 1"
    using sum a(2) by (subst unat_sub) (simp_all add: word_le_nat_alt)
  define e where "e = (u * 6 div 5) div d"
  have arith: "1 + e < 2 * (L div d)" unfolding e_def by (rule gas_arith [OF a(1-3)])
  have used: "unat ((h_gasUsed h * 6 div 5) div ?b) = e"
    using a(3,4) by (simp add: unat_div_distrib unat_word_ariths e_def u_def d_def)
  have dec: "unat (?l - ?q + 1 + (h_gasUsed h * 6 div 5) div ?b) = L - L div d + 1 + e"
  proof -
    have "L - L div d + 1 + e < 2 ^ 252 + 2 ^ 252" using a(4) arith ql by linarith
    then have "L - L div d + 1 + e < 2 ^ 256" by simp
    then show ?thesis using low used by (simp add: unat_word_ariths)
  qed
  show ?thesis
  proof (cases "?l < ?f")
    case True
    then have "childGasLimit p h Invalid256 = Inr (min ?f (?l + ?q - 1))" using b by (simp add: childGasLimit_def Let_def)
    moreover have "L < 3141562" using True by (simp add: word_less_nat_alt L_def)
    ultimately show ?thesis
      using a sum low up by (auto simp: min_def word_le_nat_alt word_less_nat_alt)
  next
    case False
    then have "childGasLimit p h Invalid256 = Inr (max ?f (?l - ?q + 1 + (h_gasUsed h * 6 div 5) div ?b))"
      using b by (simp add: childGasLimit_def Let_def)
    moreover have "3141562 \<le> L" using False by (simp add: word_less_nat_alt L_def)
    ultimately show ?thesis
      using a sum low dec arith by (auto simp: max_def word_le_nat_alt word_less_nat_alt)
  qed
qed

lemma calculateDifficulty_cong:
  "h_number a = h_number b \<Longrightarrow> h_timestamp a = h_timestamp b \<Longrightarrow> calculateDifficulty K p a parent = calculateDifficulty K p b parent"
  unfolding calculateDifficulty_def frontierTarget_def adjFactor_def iceAge_def by (simp only:)

lemma calculateDifficulty_ok:
  assumes "h_number bi \<noteq> 0" "p_difficultyBoundDivisor p \<noteq> 0"
  shows "\<exists>d. calculateDifficulty K p bi parent = Inr d \<and> p_minimumDifficulty p \<le> d"
proof -
  have "p_minimumDifficulty p \<le> word_of_int (min (max (uint (p_minimumDifficulty p)) t) (2 ^ 256 - 1))" for t
  proof -
    let ?m = "min (max (uint (p_minimumDifficulty p)) t) (2 ^ 256 - 1)"
    have "?m < 2 ^ 256" "uint (p_minimumDifficulty p) \<le> ?m"
      using uint_lt2p [of "p_minimumDifficulty p"] by (auto simp: min_def max_def)
    moreover have "0 \<le> ?m" using calculation(2) uint_ge_0 [of "p_minimumDifficulty p"] by linarith
    ultimately have "0 \<le> ?m" "?m < 2 ^ 256" "uint (p_minimumDifficulty p) \<le> ?m" by blast+
    then show ?thesis by (simp add: word_le_def uint_word_of_int_eq take_bit_int_eq_self)
  qed
  with assms show ?thesis by (auto simp: calculateDifficulty_def frontierTarget_def Let_def)
qed

lemmas header_updates = setTimestamp_def setAuthor_def setGasLimit_def setDifficulty_def setExtraData_def noteDirty_def
  populateFromParent_def

lemma next_timestamp_less:
  assumes "sint (h_timestamp parent) < 2 ^ 63 - 1"
  shows "h_timestamp parent <s (if h_timestamp parent + 1 <s ts then ts else h_timestamp parent + 1)"
proof -
  have "sint (h_timestamp parent + 1) = sint (h_timestamp parent) + 1"
  proof -
    have "- (2 ^ 63) \<le> sint (h_timestamp parent)" using sint_ge [of "h_timestamp parent"] by simp
    then show ?thesis using assms by (simp add: sint_word_ariths signed_take_bit_int_eq_self)
  qed
  then show ?thesis by (simp add: word_sless_alt)
qed



end
