(* ===== verification/TransactionQueue.thy ===== *)
theory TransactionQueue
  imports Receipt Transaction "HOL-Library.AList"
begin

text \<open>
  The transaction queue \<^verbatim>\<open>libaecereum/TransactionQueue.h\<close>, \<^verbatim>\<open>TransactionQueue.cpp\<close>: the transactions that wait to
  be put into a block, by priority, by hash and by sender and nonce, and those whose nonce lies ahead.

  An iterator into \<^verbatim>\<open>m_current\<close> is the number of its node; \<open>None\<close> is an iterator that points nowhere. A
  \<^verbatim>\<open>std::map\<close> is a list sorted by its keys. A call that throws leaves the state it had reached, so operations
  return a result and a state. \<open>TqUndefined\<close> is undefined behaviour (the end of a container or a singular
  iterator is dereferenced), \<open>TqDiverges\<close> a loop that never ends.

  What the standard library leaves open is an argument: the shape of the tree behind \<^verbatim>\<open>m_current\<close> (which node of
  a range is compared first) and the key an unordered map begins with. Every operation holds the lock while it
  runs, so the threads interleave whole operations. A transaction in the queue has been hashed on its way in.
\<close>

section \<open>Ordered maps\<close>

fun ord_put :: "'k::linorder \<Rightarrow> 'v \<Rightarrow> ('k \<times> 'v) list \<Rightarrow> ('k \<times> 'v) list" where
  "ord_put k v [] = [(k, v)]"
| "ord_put k v ((k', v') # m) =
     (if k < k' then (k, v) # (k', v') # m else if k = k' then (k, v) # m else (k', v') # ord_put k v m)"

text \<open>\<^verbatim>\<open>insert\<close> and \<^verbatim>\<open>emplace\<close> keep an entry that is there.\<close>

definition ord_insert :: "'k::linorder \<Rightarrow> 'v \<Rightarrow> ('k \<times> 'v) list \<Rightarrow> ('k \<times> 'v) list" where
  "ord_insert k v m = (if map_of m k = None then ord_put k v m else m)"

section \<open>The state\<close>

datatype ImportResult = Success | UnknownParent | FutureTimeKnown | FutureTimeUnknown | AlreadyInChain | AlreadyKnown
  | Malformed | OverbidGasPrice | BadChain | ZeroSignature

datatype IfDropped = Ignore | Retry

type_synonym h512 = "512 word"

datatype signal = OnReady | OnReplaced h256 | OnImport ImportResult h256 h512

datatype tq_error = TqTx tx_error | TqRLP rlp_error | TqUndefined | TqDiverges

record TransactionQueue =
  m_known :: "h256 set"
  m_dropped :: "h256 set"
  m_current :: "(nat \<times> Transaction) list"
  m_currentByHash :: "h256 \<rightharpoonup> nat"
  m_currentByAddressAndNonce :: "address \<rightharpoonup> (u256 \<times> nat option) list"
  m_future :: "(address \<times> (u256 \<times> Transaction) list) list"
  m_limit :: u32
  m_futureLimit :: u32
  m_futureSize :: u32
  m_unverified :: "(bytes \<times> h512) list"
  m_signals :: "signal list"
  m_node :: nat

record tq_env =
  tq_hash :: keccak
  tq_recover :: "SignatureStruct \<Rightarrow> h256 \<Rightarrow> bytes option"
  tq_shape :: "nat list \<Rightarrow> nat \<Rightarrow> nat \<Rightarrow> nat"
  tq_begin :: "address list \<Rightarrow> address"

definition TransactionQueue_new :: "u32 \<Rightarrow> u32 \<Rightarrow> TransactionQueue" where
  "TransactionQueue_new limit futureLimit = \<lparr>m_known = {}, m_dropped = {}, m_current = [], m_currentByHash = Map.empty,
     m_currentByAddressAndNonce = Map.empty, m_future = [], m_limit = limit, m_futureLimit = futureLimit,
     m_futureSize = 0, m_unverified = [], m_signals = [], m_node = 0\<rparr>"

definition emit :: "signal \<Rightarrow> TransactionQueue \<Rightarrow> TransactionQueue" where
  "emit s q = q\<lparr>m_signals := m_signals q @ [s]\<rparr>"

definition from_tx :: "tq_env \<Rightarrow> Transaction \<Rightarrow> address" where
  "from_tx E t = fst (safeSender (tq_hash E) (tq_recover E) t)"

definition hash_tx :: "tq_env \<Rightarrow> Transaction \<Rightarrow> h256" where
  "hash_tx E t = (case sha3_tx (tq_hash E) t True of Inr (h, _) \<Rightarrow> h | Inl _ \<Rightarrow> 0)"

section \<open>The priority queue\<close>

definition height :: "tq_env \<Rightarrow> TransactionQueue \<Rightarrow> Transaction \<Rightarrow> tq_error + u256" where
  "height E q t = sum_bind (map_err TqTx (sender_tx (tq_hash E) (tq_recover E) t)) (\<lambda>(a, _).
     case m_currentByAddressAndNonce q a of Some ((n, _) # _) \<Rightarrow> Inr (t_nonce t - n) | _ \<Rightarrow> Inl TqUndefined)"

definition PriorityCompare :: "tq_env \<Rightarrow> TransactionQueue \<Rightarrow> Transaction \<Rightarrow> Transaction \<Rightarrow> tq_error + bool" where
  "PriorityCompare E q x y = sum_bind (height E q x) (\<lambda>h1. sum_bind (height E q y) (\<lambda>h2.
     Inr (h1 < h2 \<or> h1 = h2 \<and> t_gasPrice x > t_gasPrice y)))"

text \<open>The way down the tree: left of a node the new element precedes, right of any other.\<close>

function emplacePos :: "tq_env \<Rightarrow> TransactionQueue \<Rightarrow> Transaction \<Rightarrow> nat \<Rightarrow> nat \<Rightarrow> tq_error + nat" where
  "emplacePos E q t lo hi =
     (if lo < hi
      then let m = lo + tq_shape E (map fst (m_current q)) lo hi mod (hi - lo)
           in sum_bind (PriorityCompare E q t (snd (m_current q ! m)))
                (\<lambda>b. if b then emplacePos E q t lo m else emplacePos E q t (m + 1) hi)
      else Inr lo)"
  by pat_completeness auto
termination
proof (relation "measure (\<lambda>(E, q, t, lo, hi). hi - lo)", goal_cases)
  case (2 E q t lo hi m b)
  have "tq_shape E (map fst (m_current q)) lo hi mod (hi - lo) < hi - lo" using 2(1) by simp
  then show ?case using 2(1,2) by simp
next
  case (3 E q t lo hi m b)
  then show ?case by simp
qed simp

declare emplacePos.simps [simp del]

definition emplace :: "tq_env \<Rightarrow> Transaction \<Rightarrow> TransactionQueue \<Rightarrow> (tq_error + nat) \<times> TransactionQueue" where
  "emplace E t q = (let c = m_current q in
     case emplacePos E q t 0 (length c) of
       Inl e \<Rightarrow> (Inl e, q)
     | Inr p \<Rightarrow> (Inr (m_node q), q\<lparr>m_current := take p c @ (m_node q, t) # drop p c, m_node := m_node q + 1\<rparr>))"

text \<open>
  What \<^verbatim>\<open>insertCurrent_WITH_LOCK\<close> and \<^verbatim>\<open>makeCurrent_WITH_LOCK\<close> both do with a transaction: an entry for its nonce, which points
  nowhere until the transaction is in \<^verbatim>\<open>m_current\<close>, then the iterator there and at the hash.
\<close>

definition enterCurrent :: "tq_env \<Rightarrow> address \<Rightarrow> h256 \<Rightarrow> Transaction \<Rightarrow> TransactionQueue \<Rightarrow> (tq_error + unit) \<times> TransactionQueue" where
  "enterCurrent E a h t q =
     (let m = (case m_currentByAddressAndNonce q a of Some m \<Rightarrow> m | None \<Rightarrow> []);
          m = ord_insert (t_nonce t) None m
      in case emplace E t (q\<lparr>m_currentByAddressAndNonce := (m_currentByAddressAndNonce q)(a \<mapsto> m)\<rparr>) of
           (Inl e, q) \<Rightarrow> (Inl e, q)
         | (Inr i, q) \<Rightarrow> (Inr (), q\<lparr>m_currentByAddressAndNonce := (m_currentByAddressAndNonce q)(a \<mapsto> ord_put (t_nonce t) (Some i) m),
                                   m_currentByHash := (m_currentByHash q)(h \<mapsto> i)\<rparr>))"

section \<open>Operations under the lock\<close>

definition check_WITH_LOCK :: "h256 \<Rightarrow> IfDropped \<Rightarrow> TransactionQueue \<Rightarrow> ImportResult" where
  "check_WITH_LOCK h ik q =
     (if h \<in> m_known q then AlreadyKnown
      else if h \<in> m_dropped q \<and> ik = Ignore then AlreadyInChain
      else Success)"

definition remove_WITH_LOCK :: "tq_env \<Rightarrow> h256 \<Rightarrow> TransactionQueue \<Rightarrow> tq_error + bool \<times> TransactionQueue" where
  "remove_WITH_LOCK E h q = (case m_currentByHash q h of
     None \<Rightarrow> Inr (False, q)
   | Some i \<Rightarrow> (case map_of (m_current q) i of
       None \<Rightarrow> Inl TqUndefined
     | Some t \<Rightarrow> (case m_currentByAddressAndNonce q (from_tx E t) of
         None \<Rightarrow> Inl TqUndefined
       | Some m \<Rightarrow>
           let m = AList.delete (t_nonce t) m
           in Inr (True, q\<lparr>m_current := AList.delete i (m_current q),
                m_currentByHash := (m_currentByHash q)(h := None),
                m_currentByAddressAndNonce := (m_currentByAddressAndNonce q)(from_tx E t := if m = [] then None else Some m),
                m_known := m_known q - {h}\<rparr>))))"

text \<open>The maps of \<^verbatim>\<open>m_future\<close> are erased when they are empty.\<close>

definition putFuture :: "address \<Rightarrow> (u256 \<times> Transaction) list \<Rightarrow> TransactionQueue \<Rightarrow> TransactionQueue" where
  "putFuture a m q = q\<lparr>m_future := if m = [] then AList.delete a (m_future q) else AList.update a m (m_future q)\<rparr>"

text \<open>
  The loop that moves transactions with consecutive nonces; it counts them. A transaction that is moved loses its
  data, which matters when an exception ends the loop and nothing is erased.
\<close>

fun moveLoop :: "tq_env \<Rightarrow> address \<Rightarrow> u256 \<Rightarrow> (u256 \<times> Transaction) list \<Rightarrow> TransactionQueue \<Rightarrow> nat \<times> (tq_error + unit) \<times> TransactionQueue" where
  "moveLoop E a nonce [] q = (0, Inr (), q)"
| "moveLoop E a nonce ((n, t) # ft) q =
     (if t_nonce t = nonce
      then (case enterCurrent E a (hash_tx E t) t q of
              (Inl e, q) \<Rightarrow> (1, Inl e, q)
            | (Inr _, q) \<Rightarrow>
                let (k, r, q) = moveLoop E a (nonce + 1) ft (q\<lparr>m_futureSize := m_futureSize q - 1\<rparr>) in (k + 1, r, q))
      else (0, Inr (), q))"

definition moved :: "(u256 \<times> Transaction) \<Rightarrow> u256 \<times> Transaction" where
  "moved x = (fst x, (snd x)\<lparr>t_data := []\<rparr>)"

definition moveFuture :: "tq_env \<Rightarrow> Transaction \<Rightarrow> TransactionQueue \<Rightarrow> (tq_error + bool) \<times> TransactionQueue" where
  "moveFuture E t q = (case map_of (m_future q) (from_tx E t) of
     None \<Rightarrow> (Inr False, q)
   | Some fs \<Rightarrow>
       (let a = from_tx E t; nonce = t_nonce t + 1
        in if map_of fs nonce = None then (Inr False, q)
           else
             let before = takeWhile (\<lambda>x. fst x \<noteq> nonce) fs; fb = dropWhile (\<lambda>x. fst x \<noteq> nonce) fs
             in case moveLoop E a nonce fb q of
                  (k, Inl e, q) \<Rightarrow> (Inl e, putFuture a (before @ map moved (take k fb) @ drop k fb) q)
                | (k, Inr _, q) \<Rightarrow> (Inr (k > 0), putFuture a (before @ drop k fb) q)))"

function dropFuture :: "tq_env \<Rightarrow> TransactionQueue \<Rightarrow> tq_error + TransactionQueue" where
  "dropFuture E q =
     (if m_futureSize q > m_futureLimit q
      then (let a = tq_begin E (map fst (m_future q))
            in case map_of (m_future q) a of
                 None \<Rightarrow> Inl TqUndefined
               | Some m \<Rightarrow> if m = [] then Inl TqUndefined
                   else dropFuture E (putFuture a (butlast m) (q\<lparr>m_futureSize := m_futureSize q - 1\<rparr>)))
      else Inr q)"
  by pat_completeness auto
termination
proof (relation "measure (\<lambda>(E, q). unat (m_futureSize q))", goal_cases)
  case (2 E q a m)
  then have "m_futureSize q \<noteq> 0" by auto
  then show ?case by (simp add: putFuture_def unat_minus_one unat_gt_0)
qed simp

declare dropFuture.simps [simp del]

definition makeCurrent_WITH_LOCK :: "tq_env \<Rightarrow> Transaction \<Rightarrow> TransactionQueue \<Rightarrow> (tq_error + unit) \<times> TransactionQueue" where
  "makeCurrent_WITH_LOCK E t q = (case moveFuture E t q of
     (Inl e, q) \<Rightarrow> (Inl e, q)
   | (Inr newCurrent, q) \<Rightarrow> (case dropFuture E q of
       Inl e \<Rightarrow> (Inl e, q)
     | Inr q \<Rightarrow> (Inr (), if newCurrent then emit OnReady q else q)))"

definition insertCurrent_WITH_LOCK :: "tq_env \<Rightarrow> h256 \<Rightarrow> Transaction \<Rightarrow> TransactionQueue \<Rightarrow> (tq_error + unit) \<times> TransactionQueue" where
  "insertCurrent_WITH_LOCK E h t q =
     (if m_currentByHash q h \<noteq> None then (Inr (), q)
      else case enterCurrent E (from_tx E t) h t q of
        (Inl e, q) \<Rightarrow> (Inl e, q)
      | (Inr _, q) \<Rightarrow> (case makeCurrent_WITH_LOCK E t q of
          (Inl e, q) \<Rightarrow> (Inl e, q)
        | (Inr _, q) \<Rightarrow> (Inr (), q\<lparr>m_known := insert h (m_known q)\<rparr>)))"

lemma delete_shortens: "map_of m i = Some t \<Longrightarrow> length (AList.delete i m) < length m"
  by (induction m) (auto simp: AList.length_delete_le less_Suc_eq_le)

lemma remove_shortens: "remove_WITH_LOCK E h q = Inr (True, q') \<Longrightarrow> length (m_current q') < length (m_current q)"
  by (auto simp: remove_WITH_LOCK_def Let_def delete_shortens split: option.splits)

text \<open>The loop that keeps \<^verbatim>\<open>m_current\<close> within its limit; where nothing can be removed it never ends.\<close>

function trimCurrent :: "tq_env \<Rightarrow> TransactionQueue \<Rightarrow> tq_error + TransactionQueue" where
  "trimCurrent E q =
     (if length (m_current q) > unat (m_limit q)
      then (case remove_WITH_LOCK E (hash_tx E (snd (last (m_current q)))) q of
              Inl e \<Rightarrow> Inl e
            | Inr (b, q') \<Rightarrow> if b then trimCurrent E q' else Inl TqDiverges)
      else Inr q)"
  by pat_completeness auto
termination by (relation "measure (\<lambda>(E, q). length (m_current q))") (auto dest: remove_shortens)

declare trimCurrent.simps [simp del]

section \<open>Operations\<close>

text \<open>
  \<^verbatim>\<open>manageImport_WITH_LOCK\<close>: an older transaction with the same sender and nonce gives way unless it pays more. Exceptions
  are caught and give \<open>Malformed\<close>, with the state they left.
\<close>

definition replaceCurrent :: "tq_env \<Rightarrow> Transaction \<Rightarrow> TransactionQueue \<Rightarrow> tq_error + bool \<times> TransactionQueue" where
  "replaceCurrent E t q =
     (case m_currentByAddressAndNonce q (from_tx E t) of None \<Rightarrow> Inr (False, q)
      | Some cs \<Rightarrow> (case map_of cs (t_nonce t) of None \<Rightarrow> Inr (False, q)
        | Some None \<Rightarrow> Inl TqUndefined
        | Some (Some i) \<Rightarrow> (case map_of (m_current q) i of None \<Rightarrow> Inl TqUndefined
          | Some old \<Rightarrow>
              if t_gasPrice t < t_gasPrice old then Inr (True, q)
              else sum_bind (remove_WITH_LOCK E (hash_tx E old) q) (\<lambda>(_, q). Inr (False, emit (OnReplaced (hash_tx E old)) q)))))"

definition replaceFuture :: "tq_env \<Rightarrow> Transaction \<Rightarrow> TransactionQueue \<Rightarrow> bool \<times> TransactionQueue" where
  "replaceFuture E t q =
     (case map_of (m_future q) (from_tx E t) of None \<Rightarrow> (False, q)
      | Some fs \<Rightarrow> (case map_of fs (t_nonce t) of None \<Rightarrow> (False, q)
        | Some old \<Rightarrow>
            if t_gasPrice t < t_gasPrice old then (True, q)
            else (False, putFuture (from_tx E t) (AList.delete (t_nonce t) fs) (q\<lparr>m_futureSize := m_futureSize q - 1\<rparr>))))"

definition manageImport_WITH_LOCK :: "tq_env \<Rightarrow> h256 \<Rightarrow> Transaction \<Rightarrow> TransactionQueue \<Rightarrow> tq_error + ImportResult \<times> TransactionQueue" where
  "manageImport_WITH_LOCK E h t q =
     sum_bind (replaceCurrent E t q) (\<lambda>(overbid, q).
     if overbid then Inr (OverbidGasPrice, q)
     else (case replaceFuture E t q of (overbid, q) \<Rightarrow>
       if overbid then Inr (OverbidGasPrice, q)
       else (case insertCurrent_WITH_LOCK E h t q of
               (Inl (TqTx _), q) \<Rightarrow> Inr (Malformed, q)
             | (Inl e, _) \<Rightarrow> Inl e
             | (Inr _, q) \<Rightarrow> sum_bind (trimCurrent E q) (\<lambda>q. Inr (Success, emit OnReady q)))))"

text \<open>\<^verbatim>\<open>import\<close> of a transaction, which is stored with its hash and its sender cached.\<close>

definition import_tx :: "tq_env \<Rightarrow> Transaction \<Rightarrow> IfDropped \<Rightarrow> TransactionQueue \<Rightarrow> tq_error + ImportResult \<times> TransactionQueue" where
  "import_tx E t ik q =
     (if hasZeroSignature t then Inr (ZeroSignature, q)
      else sum_bind (map_err TqTx (sha3_tx (tq_hash E) t True)) (\<lambda>(h, t).
        case check_WITH_LOCK h ik q of
          Success \<Rightarrow> (case safeSender (tq_hash E) (tq_recover E) t of (_, t) \<Rightarrow> manageImport_WITH_LOCK E h t q)
        | ir \<Rightarrow> Inr (ir, q)))"

definition import_bytes :: "tq_env \<Rightarrow> bytes \<Rightarrow> IfDropped \<Rightarrow> TransactionQueue \<Rightarrow> tq_error + ImportResult \<times> TransactionQueue" where
  "import_bytes E d ik q = (case TransactionBase (tq_hash E) (tq_recover E) CheckEverything d of
     Inl _ \<Rightarrow> Inr (Malformed, q)
   | Inr t \<Rightarrow> (case import_tx E t ik q of
       Inl (TqTx _) \<Rightarrow> Inr (Malformed, q)
     | r \<Rightarrow> r))"

definition drop_tx :: "tq_env \<Rightarrow> h256 \<Rightarrow> TransactionQueue \<Rightarrow> tq_error + TransactionQueue" where
  "drop_tx E h q =
     (if h \<notin> m_known q then Inr q
      else sum_bind (remove_WITH_LOCK E h (q\<lparr>m_dropped := insert h (m_dropped q)\<rparr>)) (\<lambda>(_, q). Inr q))"

definition dropGood :: "tq_env \<Rightarrow> Transaction \<Rightarrow> TransactionQueue \<Rightarrow> (tq_error + unit) \<times> TransactionQueue" where
  "dropGood E t q = (case makeCurrent_WITH_LOCK E t q of
     (Inl e, q) \<Rightarrow> (Inl e, q)
   | (Inr _, q) \<Rightarrow> (case sha3_tx (tq_hash E) t True of
       Inl e \<Rightarrow> (Inl (TqTx e), q)
     | Inr (h, _) \<Rightarrow>
         if h \<notin> m_known q then (Inr (), q)
         else case remove_WITH_LOCK E h q of Inl e \<Rightarrow> (Inl e, q) | Inr (_, q) \<Rightarrow> (Inr (), q)))"

text \<open>The loop of \<^verbatim>\<open>setFuture\<close> over the entries from the nonce on, with the map the transactions go to.\<close>

fun futureLoop :: "tq_env \<Rightarrow> (u256 \<times> nat option) list \<Rightarrow> (u256 \<times> Transaction) list \<Rightarrow> TransactionQueue \<Rightarrow>
    tq_error + (u256 \<times> Transaction) list \<times> TransactionQueue" where
  "futureLoop E [] target q = Inr (target, q)"
| "futureLoop E ((_, None) # m) target q = Inl TqUndefined"
| "futureLoop E ((_, Some i) # m) target q = (case map_of (m_current q) i of
     None \<Rightarrow> Inl TqUndefined
   | Some t \<Rightarrow> futureLoop E m (ord_insert (t_nonce t) t target)
       (q\<lparr>m_currentByHash := (m_currentByHash q)(hash_tx E t := None), m_current := AList.delete i (m_current q),
          m_futureSize := m_futureSize q + 1\<rparr>))"

definition setFuture :: "tq_env \<Rightarrow> h256 \<Rightarrow> TransactionQueue \<Rightarrow> tq_error + TransactionQueue" where
  "setFuture E h q = (case m_currentByHash q h of None \<Rightarrow> Inr q
   | Some i \<Rightarrow> (case map_of (m_current q) i of None \<Rightarrow> Inl TqUndefined
     | Some st \<Rightarrow>
         (let from = from_tx E st;
              queue = (case m_currentByAddressAndNonce q from of Some m \<Rightarrow> m | None \<Rightarrow> []);
              target = (case map_of (m_future q) from of Some m \<Rightarrow> m | None \<Rightarrow> []);
              kept = takeWhile (\<lambda>x. fst x < t_nonce st) queue; cutoff = dropWhile (\<lambda>x. fst x < t_nonce st) queue
          in sum_bind (futureLoop E cutoff target q) (\<lambda>(target, q).
               Inr (q\<lparr>m_future := AList.update from target (m_future q),
                      m_currentByAddressAndNonce := (m_currentByAddressAndNonce q)(from := if kept = [] then None else Some kept)\<rparr>)))))"

definition clear_queue :: "TransactionQueue \<Rightarrow> TransactionQueue" where
  "clear_queue q = q\<lparr>m_known := {}, m_current := [], m_dropped := {}, m_currentByAddressAndNonce := Map.empty,
     m_currentByHash := Map.empty, m_future := [], m_futureSize := 0\<rparr>"

fun topLoop :: "tq_env \<Rightarrow> nat \<Rightarrow> h256 set \<Rightarrow> (nat \<times> Transaction) list \<Rightarrow> Transaction list \<Rightarrow> Transaction list" where
  "topLoop E limit avoid [] r = r"
| "topLoop E limit avoid ((_, t) # c) r =
     (if length r < limit then topLoop E limit avoid c (if hash_tx E t \<in> avoid then r else r @ [t]) else r)"

definition topTransactions :: "tq_env \<Rightarrow> u32 \<Rightarrow> h256 set \<Rightarrow> TransactionQueue \<Rightarrow> Transaction list" where
  "topTransactions E limit avoid q = topLoop E (unat limit) avoid (m_current q) []"

definition maxNonce :: "address \<Rightarrow> TransactionQueue \<Rightarrow> u256" where
  "maxNonce a q =
     (let r = (case m_currentByAddressAndNonce q a of None \<Rightarrow> 0 | Some m \<Rightarrow> if m = [] then 0 else fst (last m) + 1)
      in case map_of (m_future q) a of None \<Rightarrow> r | Some m \<Rightarrow> if m = [] then r else max r (fst (last m) + 1))"

definition waiting :: "address \<Rightarrow> TransactionQueue \<Rightarrow> u32" where
  "waiting a q = word_of_nat (case m_currentByAddressAndNonce q a of None \<Rightarrow> 0 | Some m \<Rightarrow> length m) +
     word_of_nat (case map_of (m_future q) a of None \<Rightarrow> 0 | Some m \<Rightarrow> length m)"

record Status = st_current :: nat st_future :: nat st_unverified :: nat st_dropped :: nat

definition status_queue :: "TransactionQueue \<Rightarrow> Status" where
  "status_queue q = \<lparr>st_current = card (dom (m_currentByHash q)), st_future = length (m_future q),
     st_unverified = length (m_unverified q), st_dropped = card (m_dropped q)\<rparr>"

section \<open>Verification in the background\<close>

definition c_maxVerificationQueueSize :: nat where
  "c_maxVerificationQueueSize = 8192"

text \<open>An item that cannot be read ends \<^verbatim>\<open>enqueue\<close> with an exception and leaves the items before it queued.\<close>

fun enqueueLoop :: "nat list \<Rightarrow> h512 \<Rightarrow> rlp_obj \<Rightarrow> TransactionQueue \<Rightarrow> (tq_error + unit) \<times> TransactionQueue" where
  "enqueueLoop [] node r q = (Inr (), q)"
| "enqueueLoop (i # is) node r q =
     (if length (m_unverified q) \<ge> c_maxVerificationQueueSize then (Inr (), q)
      else case index r i of
        Inl e \<Rightarrow> (Inl (TqRLP e), q)
      | Inr (d, r) \<Rightarrow> enqueueLoop is node r (q\<lparr>m_unverified := m_unverified q @ [(d, node)]\<rparr>))"

definition enqueue :: "bytes \<Rightarrow> h512 \<Rightarrow> TransactionQueue \<Rightarrow> (tq_error + unit) \<times> TransactionQueue" where
  "enqueue d node q = (case itemCount d of
     Inl e \<Rightarrow> (Inl (TqRLP e), q)
   | Inr n \<Rightarrow> enqueueLoop [0..<unat (word_of_nat n :: u32)] node (rlp_obj_of d) q)"

text \<open>One round of \<^verbatim>\<open>verifierBody\<close>: taking the work, and verifying it; all exceptions are caught.\<close>

definition takeWork :: "TransactionQueue \<Rightarrow> ((bytes \<times> h512) \<times> TransactionQueue) option" where
  "takeWork q = (case m_unverified q of [] \<Rightarrow> None | w # ws \<Rightarrow> Some (w, q\<lparr>m_unverified := ws\<rparr>))"

definition verifyWork :: "tq_env \<Rightarrow> bytes \<times> h512 \<Rightarrow> TransactionQueue \<Rightarrow> tq_error + TransactionQueue" where
  "verifyWork E w q = (case TransactionBase (tq_hash E) (tq_recover E) CheckCheap (fst w) of
     Inl _ \<Rightarrow> Inr q
   | Inr t \<Rightarrow> (case import_tx E t Ignore q of
       Inl (TqTx _) \<Rightarrow> Inr q
     | Inl e \<Rightarrow> Inl e
     | Inr (ir, q) \<Rightarrow> (case sha3_tx (tq_hash E) t True of
         Inl _ \<Rightarrow> Inr q
       | Inr (h, _) \<Rightarrow> Inr (emit (OnImport ir h (snd w)) q))))"

end
