(* ===== verification/TransactionQueue_Inv.thy ===== *)
theory TransactionQueue_Inv
  imports TransactionQueue
begin

text \<open>
  The transaction queue stays consistent: its contents are two sets of transactions, the current and the future
  ones, and every index describes them.
\<close>

section \<open>Ordered maps\<close>

lemma map_of_ord_put [simp]: "map_of (ord_put k v m) = (map_of m)(k \<mapsto> v)"
  by (induction k v m rule: ord_put.induct) auto

lemma keys_ord_put [simp]: "fst ` set (ord_put k v m) = insert k (fst ` set m)"
  by (induction k v m rule: ord_put.induct) auto

lemma ord_put_not_Nil [simp]: "ord_put k v m \<noteq> []"
  by (cases m) (auto split: if_splits)

lemma sorted_ord_put: "sorted_wrt (<) (map fst m) \<Longrightarrow> sorted_wrt (<) (map fst (ord_put k v m))"
proof (induction k v m rule: ord_put.induct)
  case (2 k v k' v' m)
  have "\<forall>x\<in>fst ` set (ord_put k v m). x = k \<or> x \<in> fst ` set m" by simp
  with 2 show ?case by (auto simp: not_less_iff_gr_or_eq)
qed simp

lemma set_ord_put: "map_of m k = None \<Longrightarrow> set (ord_put k v m) = insert (k, v) (set m)"
  by (induction k v m rule: ord_put.induct) (auto split: if_splits)

lemma length_ord_put: "map_of m k = None \<Longrightarrow> length (ord_put k v m) = Suc (length m)"
  by (induction k v m rule: ord_put.induct) (auto split: if_splits)

lemma distinct_sorted_keys: "sorted_wrt (<) (map fst m) \<Longrightarrow> distinct (map fst (m :: ('k::linorder \<times> 'v) list))"
  by (simp add: strict_sorted_iff)

lemma sorted_keys_sub: "sorted_wrt (<) (map fst m) \<Longrightarrow> sorted_wrt (<) (map fst (AList.delete k m))"
  by (simp add: AList.delete_eq sorted_wrt_map sorted_wrt_filter)

section \<open>Contents and invariants\<close>

definition cur :: "TransactionQueue \<Rightarrow> Transaction set" where
  "cur q = snd ` set (m_current q)"

definition futl :: "TransactionQueue \<Rightarrow> (u256 \<times> Transaction) list" where
  "futl q = concat (map snd (m_future q))"

definition fut :: "TransactionQueue \<Rightarrow> Transaction set" where
  "fut q = snd ` set (futl q)"

definition slot :: "TransactionQueue \<Rightarrow> address \<Rightarrow> u256 \<Rightarrow> nat option option" where
  "slot q a n = (case m_currentByAddressAndNonce q a of None \<Rightarrow> None | Some m \<Rightarrow> map_of m n)"

definition key :: "tq_env \<Rightarrow> Transaction \<Rightarrow> address \<times> u256" where
  "key E t = (from_tx E t, t_nonce t)"

definition sender_ok :: "tq_env \<Rightarrow> Transaction \<Rightarrow> bool" where
  "sender_ok E t \<longleftrightarrow> (\<exists>a t'. sender_tx (tq_hash E) (tq_recover E) t = Inr (a, t'))"

text \<open>The indices of the current transactions.\<close>

definition core :: "tq_env \<Rightarrow> TransactionQueue \<Rightarrow> bool" where
  "core E q \<longleftrightarrow>
     distinct (map fst (m_current q)) \<and> (\<forall>i\<in>fst ` set (m_current q). i < m_node q) \<and>
     (\<forall>h i. m_currentByHash q h = Some i \<longleftrightarrow> (\<exists>t. (i, t) \<in> set (m_current q) \<and> hash_tx E t = h)) \<and>
     (\<forall>a m. m_currentByAddressAndNonce q a = Some m \<longrightarrow> m \<noteq> [] \<and> sorted_wrt (<) (map fst m)) \<and>
     (\<forall>a n v. slot q a n = Some v \<longleftrightarrow> (\<exists>i t. v = Some i \<and> (i, t) \<in> set (m_current q) \<and> key E t = (a, n))) \<and>
     (\<forall>t\<in>cur q. sender_ok E t)"

text \<open>The future transactions and their number.\<close>

definition futs :: "tq_env \<Rightarrow> TransactionQueue \<Rightarrow> bool" where
  "futs E q \<longleftrightarrow> distinct (map fst (m_future q)) \<and> m_futureSize q = word_of_nat (length (futl q)) \<and>
     (\<forall>(a, m)\<in>set (m_future q). m \<noteq> [] \<and> sorted_wrt (<) (map fst m) \<and>
        (\<forall>(n, t)\<in>set m. key E t = (a, n) \<and> sender_ok E t))"

definition tq_inv :: "tq_env \<Rightarrow> TransactionQueue \<Rightarrow> bool" where
  "tq_inv E q \<longleftrightarrow> core E q \<and> futs E q \<and> cur q \<inter> fut q = {} \<and>
     inj_on (hash_tx E) (cur q \<union> fut q) \<and> inj_on (key E) (cur q \<union> fut q)"

definition consistent :: "tq_env \<Rightarrow> TransactionQueue \<Rightarrow> bool" where
  "consistent E q \<longleftrightarrow> tq_inv E q \<and> hash_tx E ` (cur q \<union> fut q) \<subseteq> m_known q"

text \<open>What most operations leave alone.\<close>

definition frame :: "TransactionQueue \<Rightarrow> _" where
  "frame q = (m_known q, m_future q, m_limit q, m_futureLimit q)"

lemma coreD:
  assumes "core E q"
  shows core_distinct: "distinct (map fst (m_current q))"
    and core_node: "(i, t) \<in> set (m_current q) \<Longrightarrow> i < m_node q"
    and core_hash: "m_currentByHash q h = Some i \<longleftrightarrow> (\<exists>t. (i, t) \<in> set (m_current q) \<and> hash_tx E t = h)"
    and core_map: "m_currentByAddressAndNonce q a = Some m \<Longrightarrow> m \<noteq> [] \<and> sorted_wrt (<) (map fst m)"
    and core_slot: "slot q a n = Some v \<longleftrightarrow> (\<exists>i t. v = Some i \<and> (i, t) \<in> set (m_current q) \<and> key E t = (a, n))"
    and core_sender: "(i, t) \<in> set (m_current q) \<Longrightarrow> sender_ok E t"
proof -
  show "(i, t) \<in> set (m_current q) \<Longrightarrow> i < m_node q" using assms by (force simp: core_def)
  show "(i, t) \<in> set (m_current q) \<Longrightarrow> sender_ok E t" using assms by (force simp: core_def cur_def)
qed (use assms in \<open>simp_all add: core_def\<close>)

lemma core_lookup: "core E q \<Longrightarrow> (i, t) \<in> set (m_current q) \<Longrightarrow> map_of (m_current q) i = Some t"
  by (simp add: core_distinct)

lemma core_inj:
  assumes "core E q" "(i, t) \<in> set (m_current q)" "(j, u) \<in> set (m_current q)"
  shows "hash_tx E t = hash_tx E u \<Longrightarrow> (i, t) = (j, u)" "key E t = key E u \<Longrightarrow> (i, t) = (j, u)"
proof -
  have same: "i = j \<Longrightarrow> t = u" using core_lookup [OF assms(1,2)] core_lookup [OF assms(1,3)] by simp
  show "(i, t) = (j, u)" if h: "hash_tx E t = hash_tx E u"
  proof -
    have "m_currentByHash q (hash_tx E u) = Some i" "m_currentByHash q (hash_tx E u) = Some j"
      using core_hash [OF assms(1)] assms(2,3) h by blast+
    with same show ?thesis by simp
  qed
  show "(i, t) = (j, u)" if h: "key E t = key E u"
  proof -
    obtain a n where k: "key E u = (a, n)" by (cases "key E u")
    have "slot q a n = Some (Some i)" "slot q a n = Some (Some j)"
      using core_slot [OF assms(1)] assms(2,3) h k by metis+
    with same show ?thesis by simp
  qed
qed

lemma cur_iff: "t \<in> cur q \<longleftrightarrow> (\<exists>i. (i, t) \<in> set (m_current q))"
  by (force simp: cur_def)

lemma curI: "(i, t) \<in> set (m_current q) \<Longrightarrow> t \<in> cur q"
  by (auto simp: cur_iff)

lemma core_free:
  assumes "core E q"
  shows "m_currentByHash q h = None \<longleftrightarrow> h \<notin> hash_tx E ` cur q" "slot q a n = None \<longleftrightarrow> (a, n) \<notin> key E ` cur q"
proof -
  have "m_currentByHash q h \<noteq> None \<longleftrightarrow> (\<exists>i t. (i, t) \<in> set (m_current q) \<and> hash_tx E t = h)"
    by (simp only: not_None_eq core_hash [OF assms])
  then show "m_currentByHash q h = None \<longleftrightarrow> h \<notin> hash_tx E ` cur q" unfolding image_iff Bex_def cur_iff by blast
  have "slot q a n \<noteq> None \<longleftrightarrow> (\<exists>v i t. v = Some i \<and> (i, t) \<in> set (m_current q) \<and> key E t = (a, n))"
    by (simp only: not_None_eq core_slot [OF assms])
  then show "slot q a n = None \<longleftrightarrow> (a, n) \<notin> key E ` cur q" unfolding image_iff Bex_def cur_iff by metis
qed

section \<open>Entering and removing\<close>

lemma sender_ok_from: "sender_ok E t \<Longrightarrow> \<exists>t'. sender_tx (tq_hash E) (tq_recover E) t = Inr (from_tx E t, t')"
  by (auto simp: sender_ok_def from_tx_def safeSender_def)

definition listed :: "tq_env \<Rightarrow> TransactionQueue \<Rightarrow> Transaction \<Rightarrow> bool" where
  "listed E q t \<longleftrightarrow> sender_ok E t \<and> (\<exists>x m. m_currentByAddressAndNonce q (from_tx E t) = Some (x # m))"

lemma compare_ok: "listed E q x \<Longrightarrow> listed E q y \<Longrightarrow> \<exists>b. PriorityCompare E q x y = Inr b"
  using sender_ok_from [of E x] sender_ok_from [of E y] by (auto simp: listed_def PriorityCompare_def height_def)

lemma emplacePos_ok:
  assumes "\<forall>x\<in>cur q. listed E q x" "listed E q t" "lo \<le> hi" "hi \<le> length (m_current q)"
  shows "\<exists>p\<le>length (m_current q). emplacePos E q t lo hi = Inr p"
  using assms
proof (induction E q t lo hi rule: emplacePos.induct)
  case (1 E q t lo hi)
  show ?case
  proof (cases "lo < hi")
    case True
    define m where "m = lo + tq_shape E (map fst (m_current q)) lo hi mod (hi - lo)"
    have m: "lo \<le> m" "m < hi"
    proof -
      have "tq_shape E (map fst (m_current q)) lo hi mod (hi - lo) < hi - lo" using True by simp
      then show "m < hi" unfolding m_def using True by linarith
    qed (simp add: m_def)
    have "snd (m_current q ! m) \<in> cur q" using m 1(6) by (simp add: cur_def)
    then obtain b where b: "PriorityCompare E q t (snd (m_current q ! m)) = Inr b"
      using compare_ok 1(3,4) by blast
    have step: "emplacePos E q t lo hi = (if b then emplacePos E q t lo m else emplacePos E q t (m + 1) hi)"
      using True b by (subst emplacePos.simps) (simp add: m_def Let_def)
    show ?thesis unfolding step using 1(1) [OF True m_def b] 1(2) [OF True m_def b] 1(3-) m by (cases b) auto
  next
    case False
    then show ?thesis using 1(5,6) by (simp add: emplacePos.simps)
  qed
qed


lemma slot_update:
  "slot (q\<lparr>m_currentByAddressAndNonce := (m_currentByAddressAndNonce q)(a := m)\<rparr>) b n =
     (if b = a then (case m of None \<Rightarrow> None | Some m \<Rightarrow> map_of m n) else slot q b n)"
  by (simp add: slot_def)

lemma slot_cong: "m_currentByAddressAndNonce q = m_currentByAddressAndNonce q' \<Longrightarrow> slot q = slot q'"
  by (simp add: slot_def fun_eq_iff)

lemma set_insert_at: "set (take p xs @ x # drop p xs) = insert x (set xs)"
proof -
  have "set xs = set (take p xs) \<union> set (drop p xs)" by (simp flip: set_append)
  then show ?thesis by auto
qed

lemma distinct_insert_at:
  assumes "distinct (map fst xs)" "fst x \<notin> fst ` set xs"
  shows "distinct (map fst (take p xs @ x # drop p xs))"
proof -
  have "distinct (map fst (take p xs @ drop p xs))" using assms(1) by simp
  then have "distinct (map fst (take p xs))" "distinct (map fst (drop p xs))"
    "fst ` set (take p xs) \<inter> fst ` set (drop p xs) = {}"
    unfolding map_append distinct_append by simp_all
  then show ?thesis using assms(2) by (auto dest: in_set_takeD in_set_dropD)
qed

lemma enterCurrent_ok:
  assumes c: "core E q" and t: "sender_ok E t" "hash_tx E t \<notin> hash_tx E ` cur q" "key E t \<notin> key E ` cur q"
  shows "\<exists>q'. enterCurrent E (from_tx E t) (hash_tx E t) t q = (Inr (), q') \<and> core E q' \<and> cur q' = insert t (cur q) \<and>
    frame q' = frame q \<and> m_futureSize q' = m_futureSize q"
proof -
  let ?a = "from_tx E t" and ?n = "t_nonce t" and ?i = "m_node q"
  define m where "m = (case m_currentByAddressAndNonce q ?a of Some m \<Rightarrow> m | None \<Rightarrow> [])"
  have free: "map_of m ?n = None"
    using core_free(2) [OF c, of ?a ?n] t(3) by (auto simp: m_def slot_def key_def split: option.splits)
  have sm: "sorted_wrt (<) (map fst m)" using core_map [OF c, of ?a] by (auto simp: m_def split: option.splits)
  define q1 where "q1 = q\<lparr>m_currentByAddressAndNonce := (m_currentByAddressAndNonce q)(?a \<mapsto> ord_put ?n None m)\<rparr>"
  have l: "listed E q1 x" if "x = t \<or> x \<in> cur q" for x
  proof -
    obtain y ys where "ord_put ?n (None :: nat option) m = y # ys" by (cases "ord_put ?n (None :: nat option) m") auto
    moreover have "\<exists>y ys. m_currentByAddressAndNonce q (from_tx E x) = Some (y # ys)" if "x \<in> cur q"
    proof -
      have "slot q (from_tx E x) (t_nonce x) \<noteq> None"
        using that core_free(2) [OF c, of "from_tx E x" "t_nonce x"] by (force simp: key_def)
      then obtain m' where "m_currentByAddressAndNonce q (from_tx E x) = Some m'" by (auto simp: slot_def split: option.splits)
      with core_map [OF c this] show ?thesis by (cases m') simp_all
    qed
    moreover have "sender_ok E x" using that t(1) core_sender [OF c] by (auto simp: cur_iff)
    ultimately show ?thesis using that by (auto simp: listed_def q1_def)
  qed
  have cur1: "m_current q1 = m_current q" "m_node q1 = m_node q" "cur q1 = cur q" by (simp_all add: q1_def cur_def)
  obtain p where p: "emplacePos E q1 t 0 (length (m_current q)) = Inr p"
    using emplacePos_ok [of q1 E t 0 "length (m_current q)"] l cur1 by auto
  define q' where "q' = q\<lparr>m_current := take p (m_current q) @ (?i, t) # drop p (m_current q), m_node := ?i + 1,
    m_currentByAddressAndNonce := (m_currentByAddressAndNonce q)(?a \<mapsto> ord_put ?n (Some ?i) (ord_put ?n None m)),
    m_currentByHash := (m_currentByHash q)(hash_tx E t \<mapsto> ?i)\<rparr>"
  have e: "enterCurrent E ?a (hash_tx E t) t q = (Inr (), q')"
    using p free by (simp add: enterCurrent_def emplace_def m_def [symmetric] ord_insert_def q1_def [symmetric] cur1 Let_def)
      (simp add: q1_def q'_def)
  have set': "set (m_current q') = insert (?i, t) (set (m_current q))"
    using set_insert_at [of p "m_current q" "(?i, t)"] by (simp add: q'_def)
  have new: "?i \<notin> fst ` set (m_current q)" using core_node [OF c] by force
  have "core E q'"
    unfolding core_def
  proof (intro conjI allI ballI impI)
    show "distinct (map fst (m_current q'))"
      using distinct_insert_at [OF core_distinct [OF c], of "(?i, t)" p] new by (simp add: q'_def)
    have "m_node q' = m_node q + 1" by (simp add: q'_def)
    then show "i < m_node q'" if "i \<in> fst ` set (m_current q')" for i
      using that by (auto simp: set' less_Suc_eq dest: core_node [OF c])
    show "m_currentByHash q' h = Some i \<longleftrightarrow> (\<exists>u. (i, u) \<in> set (m_current q') \<and> hash_tx E u = h)" for h i
    proof -
      have "m_currentByHash q' h = (if h = hash_tx E t then Some ?i else m_currentByHash q h)" by (simp add: q'_def)
      moreover have "hash_tx E u \<noteq> hash_tx E t" if "(i, u) \<in> set (m_current q)" for i u
        using imageI [OF curI [OF that], of "hash_tx E"] t(2) by auto
      ultimately show ?thesis using core_hash [OF c, of h i] unfolding set' by (cases "h = hash_tx E t") auto
    qed
    show "m \<noteq> []" "sorted_wrt (<) (map fst m)" if "m_currentByAddressAndNonce q' a = Some m" for a m
      using that core_map [OF c, of a m] sorted_ord_put [OF sorted_ord_put [OF sm]] by (auto simp: q'_def split: if_splits)
    show "slot q' a n = Some v \<longleftrightarrow> (\<exists>i u. v = Some i \<and> (i, u) \<in> set (m_current q') \<and> key E u = (a, n))" for a n v
    proof -
      have "slot q' a n = (if (a, n) = key E t then Some (Some ?i) else slot q a n)"
        by (auto simp: q'_def slot_def key_def m_def split: option.splits)
      moreover have "key E u \<noteq> key E t" if "(i, u) \<in> set (m_current q)" for i u
        using imageI [OF curI [OF that], of "key E"] t(3) by auto
      ultimately show ?thesis using core_slot [OF c, of a n v] unfolding set' by (cases "(a, n) = key E t") auto
    qed
    show "sender_ok E u" if "u \<in> cur q'" for u
      using that t(1) core_sender [OF c] by (auto simp: cur_iff set')
  qed
  moreover have "cur q' = insert t (cur q)" by (simp add: cur_def set')
  moreover have "frame q' = frame q" "m_futureSize q' = m_futureSize q" by (simp_all add: frame_def q'_def)
  ultimately show ?thesis using e by blast
qed

lemma set_delete: "distinct (map fst m) \<Longrightarrow> (k, v) \<in> set (AList.delete i m) \<longleftrightarrow> (k, v) \<in> set m \<and> k \<noteq> i"
  by (auto simp: AList.delete_eq)

lemma remove_ok:
  assumes c: "core E q"
  shows "\<exists>b q'. remove_WITH_LOCK E h q = Inr (b, q') \<and> core E q' \<and> cur q' = {t \<in> cur q. hash_tx E t \<noteq> h} \<and>
    (b \<longleftrightarrow> h \<in> hash_tx E ` cur q) \<and> frame q' = frame (q\<lparr>m_known := if b then m_known q - {h} else m_known q\<rparr>) \<and>
    m_futureSize q' = m_futureSize q"
proof (cases "m_currentByHash q h")
  case None
  then have "h \<notin> hash_tx E ` cur q" using core_free(1) [OF c] by simp
  with None c show ?thesis by (auto simp: remove_WITH_LOCK_def)
next
  case (Some i)
  then obtain t where t: "(i, t) \<in> set (m_current q)" "hash_tx E t = h" using core_hash [OF c] by blast
  let ?a = "from_tx E t" and ?n = "t_nonce t"
  have "slot q ?a ?n = Some (Some i)" using core_slot [OF c] t(1) by (auto simp: key_def)
  then obtain m where m: "m_currentByAddressAndNonce q ?a = Some m" by (auto simp: slot_def split: option.splits)
  define d where "d = AList.delete ?n m"
  define q' where "q' = q\<lparr>m_current := AList.delete i (m_current q), m_currentByHash := (m_currentByHash q)(h := None),
    m_currentByAddressAndNonce := (m_currentByAddressAndNonce q)(?a := if d = [] then None else Some d),
    m_known := m_known q - {h}\<rparr>"
  have r: "remove_WITH_LOCK E h q = Inr (True, q')"
    using Some core_lookup [OF c t(1)] m by (simp add: remove_WITH_LOCK_def Let_def d_def q'_def)
  have set': "(j, u) \<in> set (m_current q') \<longleftrightarrow> (j, u) \<in> set (m_current q) \<and> (j, u) \<noteq> (i, t)" for j u
    using core_lookup [OF c, of i u] core_lookup [OF c t(1)] set_delete [OF core_distinct [OF c], of j u i]
    by (auto simp: q'_def)
  have hash': "(j, u) \<in> set (m_current q') \<longleftrightarrow> (j, u) \<in> set (m_current q) \<and> hash_tx E u \<noteq> h" for j u
    using core_inj(1) [OF c t(1), of j u] t(2) unfolding set' by auto
  have byHash': "m_currentByHash q' h' = (if h' = h then None else m_currentByHash q h')" for h'
    by (simp add: q'_def)
  have slot': "slot q' a n = (if (a, n) = key E t then None else slot q a n)" for a n
  proof -
    have dm: "map_of d n = (if n = ?n then None else map_of m n)" by (simp add: d_def AList.delete_conv')
    show ?thesis using m dm by (cases "d = []") (auto simp: q'_def slot_def key_def split: if_splits)
  qed
  have "core E q'"
    unfolding core_def
  proof (intro conjI allI ballI impI)
    show "distinct (map fst (m_current q'))" using core_distinct [OF c] by (simp add: q'_def AList.distinct_delete)
    show "j < m_node q'" if "j \<in> fst ` set (m_current q')" for j
    proof -
      have "m_node q' = m_node q" by (simp add: q'_def)
      then show ?thesis using that by (auto simp: set' dest: core_node [OF c])
    qed
    show "m_currentByHash q' h' = Some j \<longleftrightarrow> (\<exists>u. (j, u) \<in> set (m_current q') \<and> hash_tx E u = h')" for h' j
      using core_hash [OF c, of h' j] by (auto simp: hash' byHash')
    show "m' \<noteq> []" "sorted_wrt (<) (map fst m')" if "m_currentByAddressAndNonce q' a = Some m'" for a m'
      using that core_map [OF c, of a m'] core_map [OF c m] sorted_keys_sub [of m ?n]
      by (auto simp: q'_def d_def split: if_splits)
    show "slot q' a n = Some v \<longleftrightarrow> (\<exists>j u. v = Some j \<and> (j, u) \<in> set (m_current q') \<and> key E u = (a, n))" for a n v
    proof -
      have *: "(j, u) \<noteq> (i, t) \<longleftrightarrow> key E u \<noteq> key E t" if "(j, u) \<in> set (m_current q)" for j u
        using core_inj(2) [OF c t(1) that] by auto
      then have "(j, u) \<in> set (m_current q') \<longleftrightarrow> (j, u) \<in> set (m_current q) \<and> key E u \<noteq> key E t" for j u
        unfolding set' by blast
      then show ?thesis using core_slot [OF c, of a n v] unfolding slot' by (cases "(a, n) = key E t") (simp_all, metis)
    qed
    show "sender_ok E u" if "u \<in> cur q'" for u
      using that core_sender [OF c] by (auto simp: cur_iff set')
  qed
  moreover have "cur q' = {u \<in> cur q. hash_tx E u \<noteq> h}"
    by (auto simp: cur_iff hash')
  moreover have "h \<in> hash_tx E ` cur q" using imageI [OF curI [OF t(1)], of "hash_tx E"] t(2) by simp
  ultimately show ?thesis using r by (auto simp: frame_def q'_def)
qed

section \<open>Future transactions\<close>

definition futureOf :: "address \<Rightarrow> TransactionQueue \<Rightarrow> (u256 \<times> Transaction) list" where
  "futureOf a q = (case map_of (m_future q) a of None \<Rightarrow> [] | Some m \<Rightarrow> m)"

lemma length_update_concat:
  "distinct (map fst F) \<Longrightarrow>
     length (concat (map snd (AList.update a m F))) + length (case map_of F a of None \<Rightarrow> [] | Some m \<Rightarrow> m) =
     length (concat (map snd F)) + length m"
  by (induction F) (auto split: option.splits)

lemma length_delete_concat:
  "distinct (map fst F) \<Longrightarrow>
     length (concat (map snd (AList.delete a F))) + length (case map_of F a of None \<Rightarrow> [] | Some m \<Rightarrow> m) = length (concat (map snd F))"
proof (induction F)
  case (Cons x F)
  have "AList.delete (fst x) F = F" using Cons(2) by (simp add: AList.delete_notin_dom) 
  with Cons show ?case by (cases x) auto
qed simp

lemma set_update:
  "distinct (map fst F) \<Longrightarrow> (b, m) \<in> set (AList.update a m' F) \<longleftrightarrow> (if b = a then m = m' else (b, m) \<in> set F)"
proof (induction F)
  case (Cons x F)
  then show ?case by (cases x) force
qed auto

lemma fut_iff: "t \<in> fut q \<longleftrightarrow> (\<exists>a m n. (a, m) \<in> set (m_future q) \<and> (n, t) \<in> set m)"
  by (force simp: fut_def futl_def)

lemma futsD:
  assumes "futs E q" "(a, m) \<in> set (m_future q)"
  shows "m \<noteq> []" "sorted_wrt (<) (map fst m)" "(n, t) \<in> set m \<Longrightarrow> key E t = (a, n)" "(n, t) \<in> set m \<Longrightarrow> sender_ok E t"
    "futureOf a q = m"
proof -
  have "distinct (map fst (m_future q))" using assms(1) by (simp add: futs_def)
  then show "futureOf a q = m" using assms(2) by (simp add: futureOf_def)
qed (use assms in \<open>auto simp: futs_def\<close>)

lemma futs_lookup: "futs E q \<Longrightarrow> map_of (m_future q) a = Some m \<Longrightarrow> (a, m) \<in> set (m_future q)"
  by (rule map_of_SomeD)

lemma fut_futureOf:
  assumes "futs E q"
  shows "(n, t) \<in> set (futureOf a q) \<longleftrightarrow> t \<in> fut q \<and> key E t = (a, n)"
proof
  show "t \<in> fut q \<and> key E t = (a, n)" if nt: "(n, t) \<in> set (futureOf a q)"
  proof -
    obtain m where m: "map_of (m_future q) a = Some m" "(n, t) \<in> set m"
      using nt by (cases "map_of (m_future q) a") (auto simp: futureOf_def)
    from futs_lookup [OF assms m(1)] show ?thesis using m(2) futsD(3) [OF assms] by (auto simp: fut_iff)
  qed
  show "(n, t) \<in> set (futureOf a q)" if h: "t \<in> fut q \<and> key E t = (a, n)"
  proof -
    obtain b m n' where m: "(b, m) \<in> set (m_future q)" "(n', t) \<in> set m" using h by (auto simp: fut_iff)
    then show ?thesis using futsD(3) [OF assms m] futsD(5) [OF assms m(1)] h by auto
  qed
qed

lemma sorted_futureOf: "futs E q \<Longrightarrow> sorted_wrt (<) (map fst (futureOf a q))"
  by (auto simp: futureOf_def dest: futs_lookup futsD(2) split: option.splits)

lemma futs_put:
  assumes f: "futs E q" and q1: "m_future q1 = m_future q"
    and size: "m_futureSize q1 + word_of_nat (length (futureOf a q)) = m_futureSize q + word_of_nat (length m)"
    and m: "sorted_wrt (<) (map fst m)" "\<And>n t. (n, t) \<in> set m \<Longrightarrow> key E t = (a, n) \<and> sender_ok E t"
  shows "futs E (putFuture a m q1)" "fut (putFuture a m q1) = {t \<in> fut q. from_tx E t \<noteq> a} \<union> snd ` set m"
proof -
  let ?q = "putFuture a m q1" and ?F = "m_future q"
  have d: "distinct (map fst ?F)" using f by (simp add: futs_def)
  have mem: "(b, m') \<in> set (m_future ?q) \<longleftrightarrow> (if b = a then m' = m \<and> m \<noteq> [] else (b, m') \<in> set ?F)" for b m'
    using set_update [OF d, of b m' a m] set_delete [OF d, of b m' a] q1 by (auto simp: putFuture_def)
  have "length (futl ?q) + length (futureOf a q) = length (futl q) + length m"
    using length_update_concat [OF d, of a m] length_delete_concat [OF d, of a] q1
    by (auto simp: futl_def putFuture_def futureOf_def)
  then have "(word_of_nat (length (futl ?q)) :: u32) + word_of_nat (length (futureOf a q)) =
      word_of_nat (length (futl q)) + word_of_nat (length m)"
    by (metis of_nat_add)
  moreover have "m_futureSize q = word_of_nat (length (futl q))" using f by (simp add: futs_def)
  ultimately have s: "m_futureSize q1 = word_of_nat (length (futl ?q))" using size by (metis add_right_cancel)
  have "distinct (map fst (m_future ?q))"
    using d q1 by (simp add: putFuture_def AList.distinct_delete AList.distinct_update)
  moreover have "(\<forall>(a, m)\<in>set (m_future ?q). m \<noteq> [] \<and> sorted_wrt (<) (map fst m) \<and> (\<forall>(n, t)\<in>set m. key E t = (a, n) \<and> sender_ok E t))"
  proof clarify
    fix b m' assume "(b, m') \<in> set (m_future ?q)"
    then show "m' \<noteq> [] \<and> sorted_wrt (<) (map fst m') \<and> (\<forall>(n, t)\<in>set m'. key E t = (b, n) \<and> sender_ok E t)"
      using m futsD [OF f, of b m'] unfolding mem by (auto split: if_splits)
  qed
  ultimately show "futs E ?q" using s unfolding futs_def by (simp add: putFuture_def)
  have fr: "from_tx E t = b" if "(b, m') \<in> set ?F" "(n, t) \<in> set m'" for b m' n t
    using futsD(3) [OF f that] by (simp add: key_def)
  show "fut ?q = {t \<in> fut q. from_tx E t \<noteq> a} \<union> snd ` set m"
  proof (rule set_eqI)
    fix t
    have "t \<in> fut ?q \<longleftrightarrow> (\<exists>b m' n. b \<noteq> a \<and> (b, m') \<in> set ?F \<and> (n, t) \<in> set m') \<or> (\<exists>n. (n, t) \<in> set m)"
    proof -
      have memd: "(b, m') \<in> set (m_future ?q) \<longleftrightarrow> b = a \<and> m' = m \<and> m \<noteq> [] \<or> b \<noteq> a \<and> (b, m') \<in> set ?F" for b m'
        using mem by simp
      show ?thesis unfolding fut_iff memd by (cases "m = []") auto
    qed
    moreover have "(\<exists>b m' n. b \<noteq> a \<and> (b, m') \<in> set ?F \<and> (n, t) \<in> set m') \<longleftrightarrow> t \<in> fut q \<and> from_tx E t \<noteq> a"
      unfolding fut_iff using fr by blast
    ultimately show "t \<in> fut ?q \<longleftrightarrow> t \<in> {t \<in> fut q. from_tx E t \<noteq> a} \<union> snd ` set m"
      by force
  qed
qed

definition begin_ok :: "tq_env \<Rightarrow> bool" where
  "begin_ok E \<longleftrightarrow> (\<forall>ks. ks \<noteq> [] \<longrightarrow> tq_begin E ks \<in> set ks)"

definition others :: "TransactionQueue \<Rightarrow> _" where
  "others q = (m_known q, m_current q, m_currentByHash q, m_currentByAddressAndNonce q, m_node q, m_limit q, m_futureLimit q)"

lemma core_others: "others q = others q' \<Longrightarrow> core E q = core E q' \<and> cur q = cur q'"
  by (simp add: others_def core_def cur_def slot_def)

lemma others_putFuture [simp]: "others (putFuture a m q) = others q" "others (q\<lparr>m_futureSize := n\<rparr>) = others q"
  by (simp_all add: others_def putFuture_def)

lemma dropFuture_ok:
  assumes "futs E q" "begin_ok E"
  shows "\<exists>q'. dropFuture E q = Inr q' \<and> futs E q' \<and> fut q' \<subseteq> fut q \<and> others q' = others q \<and> m_futureSize q' \<le> m_futureLimit q'"
  using assms
proof (induction E q rule: dropFuture.induct)
  case (1 E q)
  show ?case
  proof (cases "m_futureSize q > m_futureLimit q")
    case True
    have "m_futureSize q = word_of_nat (length (futl q))" using 1(2) by (simp add: futs_def)
    with True have "m_future q \<noteq> []" by (auto simp: futl_def)
    define a where "a = tq_begin E (map fst (m_future q))"
    have "a \<in> fst ` set (m_future q)" using 1(3) \<open>m_future q \<noteq> []\<close> by (force simp: begin_ok_def a_def)
    then obtain m where m: "map_of (m_future q) a = Some m"
      by (metis imageE map_of_eq_None_iff not_None_eq)
    note am = futs_lookup [OF 1(2) m]
    have ne: "m \<noteq> []" using futsD(1) [OF 1(2) am] .
    let ?q1 = "q\<lparr>m_futureSize := m_futureSize q - 1\<rparr>"
    let ?q = "putFuture a (butlast m) ?q1"
    have sub: "(n, t) \<in> set (butlast m) \<Longrightarrow> key E t = (a, n) \<and> sender_ok E t" for n t
      using futsD(3,4) [OF 1(2) am] in_set_butlastD [of "(n, t)" m] by blast
    have so: "sorted_wrt (<) (map fst (butlast m))"
      using futsD(2) [OF 1(2) am] by (metis butlast_conv_take map_butlast sorted_wrt_take)
    have si: "m_futureSize ?q1 + word_of_nat (length (futureOf a q)) = m_futureSize q + word_of_nat (length (butlast m))"
      using ne futsD(5) [OF 1(2) am] by (cases m) simp_all
    note put = futs_put [OF 1(2) _ si so sub]
    have "snd ` set (butlast m) \<subseteq> fut q"
      using am in_set_butlastD by (fastforce simp: fut_iff)
    then have "fut ?q \<subseteq> fut q" using put(2) by auto
    moreover have "dropFuture E q = dropFuture E ?q"
      using True m ne by (subst dropFuture.simps) (simp add: a_def Let_def)
    moreover have "\<exists>q'. dropFuture E ?q = Inr q' \<and> futs E q' \<and> fut q' \<subseteq> fut ?q \<and> others q' = others ?q \<and> m_futureSize q' \<le> m_futureLimit q'"
      by (rule 1(1) [OF True a_def m ne]) (use put(1) 1(3) in simp_all)
    ultimately show ?thesis by auto
  next
    case False
    then show ?thesis using 1(2) by (simp add: dropFuture.simps)
  qed
qed

lemma moveLoop_ok:
  assumes "core E q" "\<And>n t. (n, t) \<in> set fb \<Longrightarrow> key E t = (a, n) \<and> sender_ok E t" "sorted_wrt (<) (map fst fb)"
    "inj_on (hash_tx E) (cur q \<union> snd ` set fb)" "inj_on (key E) (cur q \<union> snd ` set fb)" "cur q \<inter> snd ` set fb = {}"
  shows "\<exists>k q'. moveLoop E a nonce fb q = (k, Inr (), q') \<and> k \<le> length fb \<and> core E q' \<and>
    cur q' = cur q \<union> snd ` set (take k fb) \<and> frame q' = frame q \<and> m_futureSize q' = m_futureSize q - word_of_nat k"
  using assms
proof (induction fb arbitrary: nonce q)
  case Nil
  then show ?case by (intro exI [of _ 0] exI [of _ q]) simp
next
  case (Cons x fb)
  obtain n t where x: "x = (n, t)" by (cases x)
  show ?case
  proof (cases "t_nonce t = nonce")
    case False
    then show ?thesis using Cons(2) by (intro exI [of _ 0] exI [of _ q]) (simp add: x)
  next
    case True
    have t: "key E t = (a, n)" "sender_ok E t" using Cons(3) [of n t] by (simp_all add: x)
    have a: "from_tx E t = a" using t(1) by (simp add: key_def)
    have tn: "t \<notin> cur q" using Cons(7) by (auto simp: x)
    have tfb: "t \<notin> snd ` set fb"
    proof
      assume "t \<in> snd ` set fb"
      then obtain n' where "(n', t) \<in> set fb" by auto
      then show False using Cons(3) [of n' t] Cons(4) t(1) by (force simp: x)
    qed
    have "hash_tx E t \<notin> hash_tx E ` cur q" "key E t \<notin> key E ` cur q"
      using Cons(5,6) tn by (auto simp: x inj_on_def)
    then obtain q1 where q1: "enterCurrent E a (hash_tx E t) t q = (Inr (), q1)" "core E q1" "cur q1 = insert t (cur q)"
        "frame q1 = frame q" "m_futureSize q1 = m_futureSize q"
      using enterCurrent_ok [OF Cons(2) t(2)] a by auto
    let ?q = "q1\<lparr>m_futureSize := m_futureSize q1 - 1\<rparr>"
    have same: "core E ?q" "cur ?q = insert t (cur q)" "frame ?q = frame q"
      using q1 core_others [of ?q q1 E] by (simp_all add: frame_def)
    have un: "cur ?q \<union> snd ` set fb = cur q \<union> snd ` set (x # fb)" by (auto simp: same x)
    obtain k q' where k: "moveLoop E a (nonce + 1) fb ?q = (k, Inr (), q')" "k \<le> length fb" "core E q'"
        "cur q' = cur ?q \<union> snd ` set (take k fb)" "frame q' = frame ?q" "m_futureSize q' = m_futureSize ?q - word_of_nat k"
      using Cons(1) [OF same(1), of "nonce + 1"] Cons(3,4) Cons(5-7) tfb unfolding un same(2) by (force simp: x)
    show ?thesis
      using k q1 True same by (intro exI [of _ "k + 1"] exI [of _ q']) (simp add: x a)
  qed
qed

end
