(* ===== verification/TransactionQueue_Props.thy ===== *)
theory TransactionQueue_Props
  imports TransactionQueue_Inv
begin

text \<open>
  Every operation of the transaction queue is defined on a consistent queue and keeps it consistent.
\<close>

section \<open>Making future transactions current\<close>

lemma invI:
  assumes "core E q'" "futs E q'" "cur q' \<inter> fut q' = {}" "cur q' \<union> fut q' \<subseteq> S"
    "inj_on (hash_tx E) S" "inj_on (key E) S"
  shows "tq_inv E q'"
  using assms by (simp add: tq_inv_def inj_on_subset)

lemma invD:
  assumes "tq_inv E q"
  shows "core E q" "futs E q" "cur q \<inter> fut q = {}" "inj_on (hash_tx E) (cur q \<union> fut q)" "inj_on (key E) (cur q \<union> fut q)"
  using assms by (simp_all add: tq_inv_def)

lemma frame_known: "frame q = frame q' \<Longrightarrow> m_known q = m_known q' \<and> m_future q = m_future q' \<and> m_limit q = m_limit q' \<and> m_futureLimit q = m_futureLimit q'"
  by (simp add: frame_def)

definition bounds :: "TransactionQueue \<Rightarrow> _" where
  "bounds q = (m_known q, m_limit q, m_futureLimit q)"

lemma bounds_frame: "frame q = frame q' \<Longrightarrow> bounds q = bounds q'" "others q = others q' \<Longrightarrow> bounds q = bounds q'"
  by (simp_all add: frame_def others_def bounds_def)

lemma snd_futureOf: "futs E q \<Longrightarrow> snd ` set (futureOf a q) = {t \<in> fut q. from_tx E t = a}"
proof (rule set_eqI)
  fix t assume f: "futs E q"
  have "t \<in> snd ` set (futureOf a q) \<longleftrightarrow> (\<exists>n. (n, t) \<in> set (futureOf a q))" by force
  then show "t \<in> snd ` set (futureOf a q) \<longleftrightarrow> t \<in> {t \<in> fut q. from_tx E t = a}"
    unfolding fut_futureOf [OF f] by (simp add: key_def)
qed

lemma fut_sender: "futs E q \<Longrightarrow> t \<in> fut q \<Longrightarrow> sender_ok E t"
  using futsD(4) by (fastforce simp: fut_iff)

lemma snd_imageE: "u \<in> snd ` S \<Longrightarrow> \<exists>n. (n, u) \<in> S"
  by force

lemma moveFuture_ok:
  assumes i: "tq_inv E q"
  shows "\<exists>b q'. moveFuture E t q = (Inr b, q') \<and> tq_inv E q' \<and> cur q \<subseteq> cur q' \<and> cur q' \<union> fut q' = cur q \<union> fut q \<and> bounds q' = bounds q"
proof -
  let ?a = "from_tx E t" and ?n = "t_nonce t + 1"
  show ?thesis
  proof (cases "map_of (m_future q) ?a = None \<or> map_of (futureOf ?a q) ?n = None")
    case True
    then have "moveFuture E t q = (Inr False, q)"
      by (auto simp: moveFuture_def futureOf_def Let_def split: option.splits)
    with i show ?thesis by auto
  next
    case False
    let ?fs = "futureOf ?a q"
    define before where "before = takeWhile (\<lambda>x. fst x \<noteq> ?n) ?fs"
    define fb where "fb = dropWhile (\<lambda>x. fst x \<noteq> ?n) ?fs"
    have fs: "?fs = before @ fb" by (simp add: before_def fb_def)
    note c = invD [OF i]
    have ent: "key E u = (?a, n) \<and> sender_ok E u" if "(n, u) \<in> set ?fs" for n u
      using that fut_sender [OF c(2), of u] by (simp add: fut_futureOf [OF c(2)])
    have so: "sorted_wrt (<) (map fst (before @ fb))" using sorted_futureOf [OF c(2), of ?a] fs by simp
    have sub: "snd ` set fb \<subseteq> fut q" using snd_futureOf [OF c(2), of ?a] fs by auto
    have dist: "distinct (map fst (before @ fb))" using so by (rule distinct_sorted_keys)
    obtain k q1 where k: "moveLoop E ?a ?n fb q = (k, Inr (), q1)" "k \<le> length fb" "core E q1"
        "cur q1 = cur q \<union> snd ` set (take k fb)" "frame q1 = frame q" "m_futureSize q1 = m_futureSize q - word_of_nat k"
    proof -
      have I: "inj_on (hash_tx E) (cur q \<union> snd ` set fb)" "inj_on (key E) (cur q \<union> snd ` set fb)" "cur q \<inter> snd ` set fb = {}"
        using c(3-5) sub by (auto intro: inj_on_subset)
      have S: "sorted_wrt (<) (map fst fb)" using so by (simp add: sorted_wrt_append)
      have N: "key E u = (?a, n) \<and> sender_ok E u" if "(n, u) \<in> set fb" for n u using ent [of n u] that fs by simp
      show ?thesis using that moveLoop_ok [OF c(1) N S I, of ?n] by blast
    qed
    let ?m = "before @ drop k fb"
    have fb: "fb = take k fb @ drop k fb" by simp
    have so': "sorted_wrt (<) (map fst ?m)" and disj: "fst ` set (take k fb) \<inter> fst ` set ?m = {}"
    proof -
      have "sorted_wrt (<) (map fst (before @ take k fb @ drop k fb))" using so by simp
      then show "sorted_wrt (<) (map fst ?m)" unfolding map_append sorted_wrt_append by auto
      have "distinct (map fst (before @ take k fb @ drop k fb))" using dist by simp
      then show "fst ` set (take k fb) \<inter> fst ` set ?m = {}" unfolding map_append distinct_append by auto
    qed
    have size: "m_futureSize q1 + word_of_nat (length ?fs) = m_futureSize q + word_of_nat (length ?m)"
    proof -
      have "length ?fs = k + length ?m" using fs k(2) by simp
      then show ?thesis by (simp only: k(6) of_nat_add) simp
    qed
    have setm: "set ?m \<subseteq> set ?fs" using fs set_drop_subset [of k fb] by auto
    have "m_future q1 = m_future q" using frame_known [OF k(5)] by simp
    note put = futs_put [OF c(2) this size so']
    have e: "key E u = (?a, n) \<and> sender_ok E u" if "(n, u) \<in> set ?m" for n u using ent setm that by blast
    let ?q = "putFuture ?a ?m q1"
    have m: "moveFuture E t q = (Inr (k > 0), ?q)"
      using False k(1) by (auto simp: moveFuture_def futureOf_def Let_def before_def fb_def split: option.splits)
    have o: "core E ?q" "cur ?q = cur q \<union> snd ` set (take k fb)" using k(3,4) core_others [of ?q q1 E] by simp_all
    have fsplit: "snd ` set ?fs = snd ` set (take k fb) \<union> snd ` set ?m"
      using fs arg_cong [OF fb, of set] by (auto simp del: append_take_drop_id)
    have f: "fut ?q = {u \<in> fut q. from_tx E u \<noteq> ?a} \<union> snd ` set ?m" using put(2) e by blast
    have un: "cur ?q \<union> fut ?q = cur q \<union> fut q"
      using snd_futureOf [OF c(2), of ?a] fsplit unfolding o f by auto
    have "cur ?q \<inter> fut ?q = {}"
    proof -
      have "u \<notin> snd ` set ?m" if "u \<in> snd ` set (take k fb)" for u
      proof
        assume "u \<in> snd ` set ?m"
        from snd_imageE [OF this] obtain n where n: "(n, u) \<in> set ?m" ..
        from snd_imageE [OF that] obtain n' where n': "(n', u) \<in> set (take k fb)" ..
        have "n = n'" using ent [of n' u] e [OF n] n' fs by (auto dest: in_set_takeD)
        then show False using n n' disj by force
      qed
      moreover have "snd ` set (take k fb) \<subseteq> {u \<in> fut q. from_tx E u = ?a}"
        using snd_futureOf [OF c(2), of ?a] fsplit by auto
      moreover have "snd ` set ?m \<subseteq> fut q" using snd_futureOf [OF c(2), of ?a] fsplit by auto
      ultimately show ?thesis unfolding o f using c(3) by blast
    qed
    then have "tq_inv E ?q" using invI [OF o(1) put(1), of "cur q \<union> fut q"] e un c(4,5) by auto
    moreover have "bounds ?q = bounds q" using bounds_frame(1) [OF k(5)] by (simp add: bounds_def putFuture_def)
    ultimately show ?thesis using m un o(2) by blast
  qed
qed

lemma makeCurrent_ok:
  assumes i: "tq_inv E q" "begin_ok E"
  shows "\<exists>q'. makeCurrent_WITH_LOCK E t q = (Inr (), q') \<and> tq_inv E q' \<and> cur q \<subseteq> cur q' \<and> cur q' \<union> fut q' \<subseteq> cur q \<union> fut q \<and>
    bounds q' = bounds q \<and> m_futureSize q' \<le> m_futureLimit q'"
proof -
  obtain b q1 where q1: "moveFuture E t q = (Inr b, q1)" "tq_inv E q1" "cur q \<subseteq> cur q1" "cur q1 \<union> fut q1 = cur q \<union> fut q" "bounds q1 = bounds q"
    using moveFuture_ok [OF i(1)] by blast
  note c = invD [OF q1(2)]
  obtain q2 where q2: "dropFuture E q1 = Inr q2" "futs E q2" "fut q2 \<subseteq> fut q1" "others q2 = others q1" "m_futureSize q2 \<le> m_futureLimit q2"
    using dropFuture_ok [OF c(2) i(2)] by blast
  have "core E q2" "cur q2 = cur q1" using core_others [OF q2(4)] c(1) by simp_all
  then have "tq_inv E q2" using invI [OF _ q2(2), of "cur q1 \<union> fut q1"] c q2(3) by auto
  moreover have "tq_inv E (emit s q2) = tq_inv E q2" "cur (emit s q2) = cur q2" "fut (emit s q2) = fut q2" "bounds (emit s q2) = bounds q2"
    "m_futureSize (emit s q2) = m_futureSize q2" "m_futureLimit (emit s q2) = m_futureLimit q2" for s
    by (simp_all add: tq_inv_def core_def futs_def cur_def fut_def futl_def slot_def emit_def bounds_def)
  moreover have "bounds q2 = bounds q" using bounds_frame(2) [OF q2(4)] q1(5) by simp
  ultimately show ?thesis
    using q1 q2 \<open>cur q2 = cur q1\<close> by (cases b) (auto simp: makeCurrent_WITH_LOCK_def)
qed

section \<open>Importing\<close>

definition limits :: "TransactionQueue \<Rightarrow> u32 \<times> u32" where
  "limits q = (m_limit q, m_futureLimit q)"

lemma limits_bounds: "bounds q = bounds q' \<Longrightarrow> limits q = limits q' \<and> m_known q = m_known q'"
  by (simp add: bounds_def limits_def)

lemma consistentD: "consistent E q \<Longrightarrow> tq_inv E q" "consistent E q \<Longrightarrow> t \<in> cur q \<union> fut q \<Longrightarrow> hash_tx E t \<in> m_known q"
  by (auto simp: consistent_def)

lemma remove_consistent:
  assumes c: "consistent E q"
  shows "\<exists>b q'. remove_WITH_LOCK E h q = Inr (b, q') \<and> consistent E q' \<and> cur q' = {t \<in> cur q. hash_tx E t \<noteq> h} \<and> fut q' = fut q \<and>
    (b \<longleftrightarrow> h \<in> hash_tx E ` cur q) \<and> m_known q' \<subseteq> m_known q \<and> limits q' = limits q"
proof -
  note i = invD [OF consistentD(1) [OF c]]
  obtain b q' where r: "remove_WITH_LOCK E h q = Inr (b, q')" "core E q'" "cur q' = {t \<in> cur q. hash_tx E t \<noteq> h}"
      "b \<longleftrightarrow> h \<in> hash_tx E ` cur q" "frame q' = frame (q\<lparr>m_known := if b then m_known q - {h} else m_known q\<rparr>)" "m_futureSize q' = m_futureSize q"
    using remove_ok [OF i(1)] by blast
  have f: "m_future q' = m_future q" "limits q' = limits q" "m_known q' = (if b then m_known q - {h} else m_known q)"
    using r(5) by (simp_all add: frame_def limits_def)
  have fut: "fut q' = fut q" "futs E q'" using f(1) r(6) i(2) by (simp_all add: fut_def futl_def futs_def)
  have "tq_inv E q'" by (rule invI [OF r(2) fut(2), of "cur q \<union> fut q"]) (use r(3) fut i in auto)
  moreover have "hash_tx E t \<noteq> h" if tb: "t \<in> fut q" "b" for t
  proof
    assume "hash_tx E t = h"
    moreover obtain u where "u \<in> cur q" "h = hash_tx E u" using tb(2) r(4) by blast
    ultimately show False using inj_onD [OF i(4), of t u] tb(1) i(3) by auto
  qed
  ultimately have "consistent E q'"
    using c r(3) fut(1) f(3) by (auto simp: consistent_def)
  then show ?thesis using r f fut(1) by auto
qed

lemma insertCurrent_ok:
  assumes c: "consistent E q" "begin_ok E" and t: "sender_ok E t" "hash_tx E t \<notin> m_known q" "key E t \<notin> key E ` (cur q \<union> fut q)"
  shows "\<exists>q'. insertCurrent_WITH_LOCK E (hash_tx E t) t q = (Inr (), q') \<and> consistent E q' \<and> limits q' = limits q"
proof -
  note i = invD [OF consistentD(1) [OF c(1)]]
  have h: "hash_tx E t \<notin> hash_tx E ` (cur q \<union> fut q)" using t(2) c(1) by (auto simp: consistent_def)
  obtain q1 where q1: "enterCurrent E (from_tx E t) (hash_tx E t) t q = (Inr (), q1)" "core E q1" "cur q1 = insert t (cur q)"
      "frame q1 = frame q" "m_futureSize q1 = m_futureSize q"
    using enterCurrent_ok [OF i(1) t(1)] h t(3) by auto
  have f: "m_future q1 = m_future q" "bounds q1 = bounds q" using bounds_frame(1) [OF q1(4)] frame_known [OF q1(4)] by simp_all
  have fut: "fut q1 = fut q" "futs E q1" using f(1) q1(5) i(2) by (simp_all add: fut_def futl_def futs_def)
  have "tq_inv E q1"
  proof (rule invI [OF q1(2) fut(2), of "insert t (cur q \<union> fut q)"])
    show "inj_on (hash_tx E) (insert t (cur q \<union> fut q))" "inj_on (key E) (insert t (cur q \<union> fut q))"
      using h t(3) i(4,5) by (auto simp: inj_on_insert)
    show "cur q1 \<inter> fut q1 = {}" using h i(3) q1(3) fut(1) by auto
  qed (use q1(3) fut(1) in auto)
  then obtain q2 where q2: "makeCurrent_WITH_LOCK E t q1 = (Inr (), q2)" "tq_inv E q2" "cur q2 \<union> fut q2 \<subseteq> cur q1 \<union> fut q1" "bounds q2 = bounds q1"
    using makeCurrent_ok c(2) by blast
  let ?q = "q2\<lparr>m_known := insert (hash_tx E t) (m_known q2)\<rparr>"
  have same: "tq_inv E ?q = tq_inv E q2" "cur ?q = cur q2" "fut ?q = fut q2" "limits ?q = limits q2" for s
    by (simp_all add: tq_inv_def core_def futs_def cur_def fut_def futl_def slot_def limits_def)
  have "m_known q2 = m_known q" "limits q2 = limits q" using limits_bounds q2(4) f(2) by metis+
  moreover have "hash_tx E ` (cur q1 \<union> fut q1) \<subseteq> insert (hash_tx E t) (m_known q)"
    using c(1) q1(3) fut(1) by (auto simp: consistent_def)
  ultimately have "consistent E ?q"
    using q2(2) order_trans [OF image_mono [OF q2(3), of "hash_tx E"]] unfolding consistent_def same by simp
  moreover have "m_currentByHash q (hash_tx E t) = None" using core_free(1) [OF i(1)] h by auto
  ultimately show ?thesis using q1(1) q2(1) same(4) \<open>limits q2 = limits q\<close> by (simp add: insertCurrent_WITH_LOCK_def)
qed

lemma trimCurrent_ok:
  assumes "consistent E q"
  shows "\<exists>q'. trimCurrent E q = Inr q' \<and> consistent E q' \<and> length (m_current q') \<le> unat (m_limit q') \<and> limits q' = limits q"
  using assms
proof (induction E q rule: trimCurrent.induct)
  case (1 E q)
  show ?case
  proof (cases "length (m_current q) > unat (m_limit q)")
    case True
    let ?t = "snd (last (m_current q))"
    have "m_current q \<noteq> []" using True by auto
    then have "?t \<in> cur q" by (simp add: cur_def)
    then obtain q' where q': "remove_WITH_LOCK E (hash_tx E ?t) q = Inr (True, q')" "consistent E q'" "limits q' = limits q"
      using remove_consistent [OF 1(2), of "hash_tx E ?t"] by auto
    have "trimCurrent E q = trimCurrent E q'" using True q'(1) by (subst trimCurrent.simps) simp
    with 1(1) [OF True q'(1) refl _ q'(2)] q'(3) show ?thesis by simp
  next
    case False
    then show ?thesis using 1(2) by (simp add: trimCurrent.simps)
  qed
qed

lemma emit_same [simp]:
  "consistent E (emit s q) = consistent E q" "cur (emit s q) = cur q" "fut (emit s q) = fut q" "limits (emit s q) = limits q"
  "m_known (emit s q) = m_known q" "m_current (emit s q) = m_current q" "m_limit (emit s q) = m_limit q"
  by (simp_all add: consistent_def tq_inv_def core_def futs_def cur_def fut_def futl_def slot_def emit_def limits_def)

lemma replaceCurrent_ok:
  assumes c: "consistent E q"
  shows "\<exists>b q'. replaceCurrent E t q = Inr (b, q') \<and> consistent E q' \<and> (\<not> b \<longrightarrow> key E t \<notin> key E ` cur q') \<and> limits q' = limits q \<and>
    m_known q' \<subseteq> m_known q"
proof (cases "slot q (from_tx E t) (t_nonce t)")
  case None
  then have "replaceCurrent E t q = Inr (False, q)" by (auto simp: replaceCurrent_def slot_def split: option.splits)
  moreover have "key E t \<notin> key E ` cur q"
    using None core_free(2) [OF invD(1) [OF consistentD(1) [OF c]], of "from_tx E t" "t_nonce t"] by (simp add: key_def)
  ultimately show ?thesis using c by auto
next
  case (Some v)
  note i = invD [OF consistentD(1) [OF c]]
  obtain i old where o: "v = Some i" "(i, old) \<in> set (m_current q)" "key E old = key E t"
    using core_slot [OF i(1)] Some by (auto simp: key_def)
  have l: "map_of (m_current q) i = Some old" by (rule core_lookup [OF i(1) o(2)])
  obtain b q' where r: "remove_WITH_LOCK E (hash_tx E old) q = Inr (b, q')" "consistent E q'" "cur q' = {u \<in> cur q. hash_tx E u \<noteq> hash_tx E old}"
      "m_known q' \<subseteq> m_known q" "limits q' = limits q"
    using remove_consistent [OF c] by blast
  have "key E t \<notin> key E ` cur q'"
  proof
    assume "key E t \<in> key E ` cur q'"
    then obtain u where u: "u \<in> cur q" "hash_tx E u \<noteq> hash_tx E old" "key E u = key E old" using r(3) o(3) by auto
    then show False using inj_onD [OF i(5), of u old] curI [OF o(2)] by auto
  qed
  moreover have "replaceCurrent E t q = (if t_gasPrice t < t_gasPrice old then Inr (True, q) else Inr (False, emit (OnReplaced (hash_tx E old)) q'))"
    using Some o(1) l r(1) by (auto simp: replaceCurrent_def slot_def split: option.splits)
  ultimately show ?thesis using c r by auto
qed

lemma length_delete_one: "distinct (map fst m) \<Longrightarrow> map_of m k = Some v \<Longrightarrow> Suc (length (AList.delete k m)) = length m"
proof (induction m)
  case (Cons x m)
  have "AList.delete (fst x) m = m" using Cons(2) by (simp add: AList.delete_notin_dom)
  with Cons show ?case by (cases x) (auto split: if_splits)
qed simp

lemma replaceFuture_ok:
  assumes c: "consistent E q" "key E t \<notin> key E ` cur q"
  shows "\<exists>b q'. replaceFuture E t q = (b, q') \<and> consistent E q' \<and> (\<not> b \<longrightarrow> key E t \<notin> key E ` (cur q' \<union> fut q')) \<and>
    limits q' = limits q \<and> m_known q' = m_known q"
proof (cases "map_of (futureOf (from_tx E t) q) (t_nonce t)")
  case None
  note i = invD [OF consistentD(1) [OF c(1)]]
  have "key E t \<notin> key E ` fut q"
  proof
    assume "key E t \<in> key E ` fut q"
    then obtain u where "u \<in> fut q" "key E u = (from_tx E t, t_nonce t)" by (auto simp: key_def)
    then have "(t_nonce t, u) \<in> set (futureOf (from_tx E t) q)" using fut_futureOf [OF i(2)] by blast
    then show False using None by (force simp: map_of_eq_None_iff)
  qed
  moreover have "replaceFuture E t q = (False, q)"
    using None by (auto simp: replaceFuture_def futureOf_def split: option.splits)
  ultimately show ?thesis using c by auto
next
  case (Some old)
  note i = invD [OF consistentD(1) [OF c(1)]]
  let ?a = "from_tx E t" and ?fs = "futureOf (from_tx E t) q"
  let ?m = "AList.delete (t_nonce t) ?fs" and ?q1 = "q\<lparr>m_futureSize := m_futureSize q - 1\<rparr>"
  let ?q = "putFuture ?a ?m ?q1"
  have d: "distinct (map fst ?fs)" by (rule distinct_sorted_keys [OF sorted_futureOf [OF i(2)]])
  have m: "(n, u) \<in> set ?m \<longleftrightarrow> u \<in> fut q \<and> key E u = (?a, n) \<and> n \<noteq> t_nonce t" for n u
    using set_delete [OF d] fut_futureOf [OF i(2)] by blast
  have si: "m_futureSize ?q1 + word_of_nat (length ?fs) = m_futureSize q + word_of_nat (length ?m)"
  proof -
    have "Suc (length ?m) = length ?fs" using length_delete_one [OF d Some] .
    then have "word_of_nat (length ?fs) = (1 :: u32) + word_of_nat (length ?m)" by (metis of_nat_Suc)
    then show ?thesis by simp
  qed
  have so: "sorted_wrt (<) (map fst ?m)" by (rule sorted_keys_sub [OF sorted_futureOf [OF i(2)]])
  have f: "futs E ?q" "fut ?q = {u \<in> fut q. from_tx E u \<noteq> ?a} \<union> snd ` set ?m"
    using futs_put [OF i(2) _ si so] m fut_sender [OF i(2)] by auto
  have sub: "fut ?q \<subseteq> {u \<in> fut q. key E u \<noteq> key E t}"
    unfolding f(2) using m by (auto simp: key_def)
  have o: "core E ?q" "cur ?q = cur q" using i(1) core_others [of ?q q E] by simp_all
  have "tq_inv E ?q" by (rule invI [OF o(1) f(1), of "cur q \<union> fut q"]) (use o(2) sub i in auto)
  moreover have "m_known ?q = m_known q" "limits ?q = limits q" by (simp_all add: putFuture_def limits_def)
  moreover have "hash_tx E ` (cur ?q \<union> fut ?q) \<subseteq> m_known q"
    unfolding o(2) using consistentD(2) [OF c(1)] sub by blast
  ultimately have "consistent E ?q" by (simp add: consistent_def)
  moreover have "key E t \<notin> key E ` (cur ?q \<union> fut ?q)" unfolding o(2) image_Un using c(2) sub by fastforce
  moreover have "replaceFuture E t q = (if t_gasPrice t < t_gasPrice old then (True, q) else (False, ?q))"
    using Some by (auto simp: replaceFuture_def futureOf_def split: option.splits)
  ultimately show ?thesis using c(1) \<open>m_known ?q = m_known q\<close> \<open>limits ?q = limits q\<close> by auto
qed

lemma manageImport_ok:
  assumes c: "consistent E q" "begin_ok E" and t: "sender_ok E t" "hash_tx E t \<notin> m_known q"
  shows "\<exists>r q'. manageImport_WITH_LOCK E (hash_tx E t) t q = Inr (r, q') \<and> consistent E q' \<and> r \<in> {Success, OverbidGasPrice} \<and>
    (r = Success \<longrightarrow> length (m_current q') \<le> unat (m_limit q')) \<and> limits q' = limits q"
proof -
  obtain b1 q1 where q1: "replaceCurrent E t q = Inr (b1, q1)" "consistent E q1" "\<not> b1 \<longrightarrow> key E t \<notin> key E ` cur q1" "limits q1 = limits q"
      "m_known q1 \<subseteq> m_known q"
    using replaceCurrent_ok [OF c(1)] by blast
  show ?thesis
  proof (cases b1)
    case True
    then show ?thesis using q1 by (simp add: manageImport_WITH_LOCK_def)
  next
    case False
    then obtain b2 q2 where q2: "replaceFuture E t q1 = (b2, q2)" "consistent E q2" "\<not> b2 \<longrightarrow> key E t \<notin> key E ` (cur q2 \<union> fut q2)"
        "limits q2 = limits q1" "m_known q2 = m_known q1"
      using replaceFuture_ok [OF q1(2)] q1(3) by blast
    show ?thesis
    proof (cases b2)
      case True
      then show ?thesis using False q1 q2 by (simp add: manageImport_WITH_LOCK_def)
    next
      case False2: False
      obtain q3 where q3: "insertCurrent_WITH_LOCK E (hash_tx E t) t q2 = (Inr (), q3)" "consistent E q3" "limits q3 = limits q2"
        using insertCurrent_ok [OF q2(2) c(2) t(1)] t(2) q1(5) q2(3,5) False2 by blast
      obtain q4 where "trimCurrent E q3 = Inr q4" "consistent E q4" "length (m_current q4) \<le> unat (m_limit q4)" "limits q4 = limits q3"
        using trimCurrent_ok [OF q3(2)] by blast
      then show ?thesis using False False2 q1 q2 q3 by (simp add: manageImport_WITH_LOCK_def)
    qed
  qed
qed

section \<open>Cached hashes and senders\<close>

lemma rlp_tx_caches [simp]: "rlp_tx (t\<lparr>t_hashWith := x\<rparr>) s f = rlp_tx t s f" "rlp_tx (t\<lparr>t_sender := a\<rparr>) s f = rlp_tx t s f"
  by (simp_all add: rlp_tx_def streamRLP_def hasZeroSignature_def cong: if_cong option.case_cong)

lemma sha3_tx_cached:
  assumes "sha3_tx K t True = Inr (h, t1)"
  shows "\<exists>t2. sha3_tx K t1 True = Inr (h, t2)"
proof (cases "t_hashWith t = 0")
  case True
  then obtain bs where bs: "rlp_tx t True (t_chainId t > 0 \<and> \<not> True) = Inr bs" "h = K bs" "t1 = t\<lparr>t_hashWith := K bs\<rparr>"
    using assms by (auto simp: sha3_tx_def)
  then show ?thesis by (simp add: sha3_tx_def)
next
  case False
  then show ?thesis using assms by (auto simp: sha3_tx_def)
qed

lemma sha3_tx_False: "sha3_tx K t False = sum_bind (rlp_tx t False (t_chainId t > 0)) (\<lambda>bs. Inr (K bs, t))"
  by (simp add: sha3_tx_def)

lemma sender_tx_hash: "sender_tx K R (t\<lparr>t_hashWith := x\<rparr>) = (case sender_tx K R t of Inl e \<Rightarrow> Inl e | Inr (a, u) \<Rightarrow> Inr (a, u\<lparr>t_hashWith := x\<rparr>))"
  by (cases "rlp_tx t False (t_chainId t > 0)")
    (auto simp: sender_tx_def sha3_tx_False hasZeroSignature_def split: option.splits)

lemma sender_tx_cached:
  assumes "sender_tx K R t = Inr (a, t1)"
  shows "t1 = t \<or> t1 = t\<lparr>t_sender := a\<rparr>" "\<exists>t2. sender_tx K R t1 = Inr (a, t2)"
proof -
  show t1: "t1 = t \<or> t1 = t\<lparr>t_sender := a\<rparr>"
    using assms by (auto simp: sender_tx_def sha3_tx_False split: if_splits option.splits)
  show "\<exists>t2. sender_tx K R t1 = Inr (a, t2)"
  proof (cases "t1 = t")
    case True
    then show ?thesis using assms by blast
  next
    case False
    then have eq: "t1 = t\<lparr>t_sender := a\<rparr>" using t1 by simp
    have z: "t_sender t = 0"
    proof (rule ccontr)
      assume "t_sender t \<noteq> 0"
      then have "t1 = t" using assms by (simp add: sender_tx_def)
      with False show False by simp
    qed
    have "a \<noteq> 0" using False eq z by (cases t) auto
    then show ?thesis by (simp add: eq sender_tx_def)
  qed
qed

lemma sender_ok_sha3: "sha3_tx (tq_hash E) t True = Inr (h, t1) \<Longrightarrow> sender_ok E t \<Longrightarrow> sender_ok E t1"
  by (auto simp: sha3_tx_def sender_ok_def sender_tx_hash split: if_splits)

lemma import_tx_ok:
  assumes c: "consistent E q" "begin_ok E" and t: "sender_ok E t"
  shows "case import_tx E t ik q of Inl e \<Rightarrow> \<exists>x. e = TqTx x
    | Inr (r, q') \<Rightarrow> consistent E q' \<and> limits q' = limits q \<and> (r = Success \<longrightarrow> length (m_current q') \<le> unat (m_limit q'))"
proof (cases "hasZeroSignature t")
  case True
  then show ?thesis using c by (simp add: import_tx_def)
next
  case nz: False
  show ?thesis
  proof (cases "sha3_tx (tq_hash E) t True")
    case (Inl e)
    then show ?thesis using nz by (simp add: import_tx_def)
  next
    case (Inr ht)
    then obtain h t1 where h: "sha3_tx (tq_hash E) t True = Inr (h, t1)" by (cases ht) auto
    show ?thesis
    proof (cases "check_WITH_LOCK h ik q = Success")
      case False
      then show ?thesis using nz h c by (cases "check_WITH_LOCK h ik q") (simp_all add: import_tx_def)
    next
      case True
      obtain a t2 where a: "sender_tx (tq_hash E) (tq_recover E) t1 = Inr (a, t2)"
        using sender_ok_sha3 [OF h t] by (auto simp: sender_ok_def)
      have "\<exists>t3. sha3_tx (tq_hash E) t2 True = Inr (h, t3)"
        using sha3_tx_cached [OF h] sender_tx_cached(1) [OF a] by (auto simp: sha3_tx_def split: if_splits)
      then have h2: "hash_tx E t2 = h" by (auto simp: hash_tx_def)
      have "sender_ok E t2" using sender_tx_cached(2) [OF a] by (auto simp: sender_ok_def)
      moreover have "h \<notin> m_known q" using True by (auto simp: check_WITH_LOCK_def split: if_splits)
      ultimately obtain r q' where r: "manageImport_WITH_LOCK E h t2 q = Inr (r, q')" "consistent E q'" "limits q' = limits q"
          "r = Success \<longrightarrow> length (m_current q') \<le> unat (m_limit q')"
        using manageImport_ok [OF c, of t2] h2 by blast
      have "import_tx E t ik q = Inr (r, q')"
        using nz h True a r(1) by (simp add: import_tx_def safeSender_def)
      then show ?thesis using r by simp
    qed
  qed
qed

section \<open>Dropping\<close>

lemma drop_tx_ok: "consistent E q \<Longrightarrow> \<exists>q'. drop_tx E h q = Inr q' \<and> consistent E q' \<and> limits q' = limits q"
proof -
  assume c: "consistent E q"
  let ?q = "q\<lparr>m_dropped := insert h (m_dropped q)\<rparr>"
  have "consistent E ?q" "limits ?q = limits q"
    using c by (simp_all add: consistent_def tq_inv_def core_def futs_def cur_def fut_def futl_def slot_def limits_def)
  then show ?thesis using c remove_consistent [of E ?q h] by (auto simp: drop_tx_def)
qed

lemma dropGood_ok:
  assumes c: "consistent E q" "begin_ok E"
  shows "\<exists>r q'. dropGood E t q = (r, q') \<and> consistent E q' \<and> limits q' = limits q \<and> (r = Inr () \<or> (\<exists>e. r = Inl (TqTx e)))"
proof -
  obtain q1 where q1: "makeCurrent_WITH_LOCK E t q = (Inr (), q1)" "tq_inv E q1" "cur q1 \<union> fut q1 \<subseteq> cur q \<union> fut q" "bounds q1 = bounds q"
    using makeCurrent_ok [OF consistentD(1) [OF c(1)] c(2)] by blast
  have k: "m_known q1 = m_known q" "limits q1 = limits q" using limits_bounds [OF q1(4)] by simp_all
  have c1: "consistent E q1" unfolding consistent_def k(1) using q1(2,3) consistentD(2) [OF c(1)] by blast
  show ?thesis
  proof (cases "sha3_tx (tq_hash E) t True")
    case (Inl e)
    then show ?thesis using q1(1) c1 k(2) by (simp add: dropGood_def)
  next
    case (Inr ht)
    then obtain h t' where h: "sha3_tx (tq_hash E) t True = Inr (h, t')" by (cases ht) auto
    obtain b q2 where "remove_WITH_LOCK E h q1 = Inr (b, q2)" "consistent E q2" "limits q2 = limits q1"
      using remove_consistent [OF c1, of h] by blast
    then show ?thesis using q1(1) c1 k(2) h by (simp add: dropGood_def)
  qed
qed

section \<open>Putting off\<close>

text \<open>The transactions of \<open>a\<close> with nonces in \<open>N\<close> have gone from the current ones of \<open>q\<close> to the map \<open>target\<close>.\<close>

definition putOff :: "tq_env \<Rightarrow> address \<Rightarrow> u256 set \<Rightarrow> (u256 \<times> Transaction) list \<Rightarrow> TransactionQueue \<Rightarrow> (u256 \<times> Transaction) list \<Rightarrow>
    TransactionQueue \<Rightarrow> bool" where
  "putOff E a N target q tg q' \<longleftrightarrow>
     (\<forall>n u. (n, u) \<in> set tg \<longleftrightarrow> (n, u) \<in> set target \<or> n \<in> N \<and> u \<in> cur q \<and> key E u = (a, n)) \<and>
     (\<forall>j u. (j, u) \<in> set (m_current q') \<longleftrightarrow> (j, u) \<in> set (m_current q) \<and> key E u \<notin> {a} \<times> N) \<and>
     (\<forall>h. m_currentByHash q' h = (if \<exists>u\<in>cur q. key E u \<in> {a} \<times> N \<and> hash_tx E u = h then None else m_currentByHash q h)) \<and>
     sorted_wrt (<) (map fst tg) \<and> distinct (map fst (m_current q')) \<and>
     m_currentByAddressAndNonce q' = m_currentByAddressAndNonce q \<and> m_node q' = m_node q \<and> frame q' = frame q"

lemma putOffD:
  assumes "putOff E a N target q tg q'"
  shows "(n, u) \<in> set tg \<longleftrightarrow> (n, u) \<in> set target \<or> n \<in> N \<and> u \<in> cur q \<and> key E u = (a, n)"
    "(j, u) \<in> set (m_current q') \<longleftrightarrow> (j, u) \<in> set (m_current q) \<and> key E u \<notin> {a} \<times> N"
    "m_currentByHash q' h = (if \<exists>u\<in>cur q. key E u \<in> {a} \<times> N \<and> hash_tx E u = h then None else m_currentByHash q h)"
    "sorted_wrt (<) (map fst tg)" "distinct (map fst (m_current q'))"
    "m_currentByAddressAndNonce q' = m_currentByAddressAndNonce q" "m_node q' = m_node q" "frame q' = frame q"
  using assms unfolding putOff_def by simp_all

lemma putOff_step:
  assumes t: "t \<in> cur q" "key E t = (a, n)" and inj: "inj_on (key E) (cur q)" and n: "map_of target n = None" "n \<notin> N"
    and cur1: "\<And>j u. (j, u) \<in> set (m_current q1) \<longleftrightarrow> (j, u) \<in> set (m_current q) \<and> key E u \<noteq> (a, n)"
    and q1: "m_currentByHash q1 = (m_currentByHash q)(hash_tx E t := None)" "frame q1 = frame q" "m_node q1 = m_node q"
      "m_currentByAddressAndNonce q1 = m_currentByAddressAndNonce q"
    and r: "putOff E a N (ord_put n t target) q1 tg q'"
  shows "putOff E a (insert n N) target q tg q'"
proof -
  note d = putOffD [OF r]
  have only: "u \<in> cur q \<and> key E u = (a, n) \<longleftrightarrow> u = t" for u
    using t inj_onD [OF inj, of u t] by auto
  have c1: "u \<in> cur q1 \<longleftrightarrow> u \<in> cur q \<and> key E u \<noteq> (a, n)" for u by (simp add: cur_iff cur1)
  have tg: "(m, u) \<in> set tg \<longleftrightarrow> (m, u) \<in> set target \<or> m \<in> insert n N \<and> u \<in> cur q \<and> key E u = (a, m)" for m u
    using only [of u] n(2) unfolding d(1) c1 set_ord_put [OF n(1)] by (cases "m = n") auto
  have cur': "(j, u) \<in> set (m_current q') \<longleftrightarrow> (j, u) \<in> set (m_current q) \<and> key E u \<notin> {a} \<times> insert n N" for j u
    unfolding d(2) cur1 by auto
  have ex: "(\<exists>u\<in>cur q. key E u \<in> {a} \<times> insert n N \<and> hash_tx E u = h) \<longleftrightarrow>
      hash_tx E t = h \<or> (\<exists>u\<in>cur q1. key E u \<in> {a} \<times> N \<and> hash_tx E u = h)" for h
  proof -
    have sp: "u \<in> cur q \<and> key E u \<in> {a} \<times> insert n N \<longleftrightarrow> u = t \<or> u \<in> cur q1 \<and> key E u \<in> {a} \<times> N" for u
    proof (cases "key E u = (a, n)")
      case True
      then show ?thesis using only [of u] c1 [of u] by simp
    next
      case False
      then have "u \<noteq> t" "key E u \<in> {a} \<times> insert n N \<longleftrightarrow> key E u \<in> {a} \<times> N" using only [of u] by auto
      then show ?thesis using c1 [of u] False by simp
    qed
    show ?thesis
      unfolding Bex_def conj_assoc [symmetric] sp conj_disj_distribR ex_disj_distrib by simp
  qed
  have "m_currentByHash q' h = (if \<exists>u\<in>cur q. key E u \<in> {a} \<times> insert n N \<and> hash_tx E u = h then None else m_currentByHash q h)" for h
    unfolding d(3) ex by (auto simp: q1(1))
  then show ?thesis using tg cur' d(4-8) q1(2-4) by (simp add: putOff_def)
qed

lemma futureLoop_ok:
  assumes "distinct (map fst (m_current q))" "inj_on (key E \<circ> snd) (set (m_current q))"
    "\<And>n v. (n, v) \<in> set xs \<Longrightarrow> \<exists>i t. v = Some i \<and> (i, t) \<in> set (m_current q) \<and> key E t = (a, n)"
    "distinct (map fst xs)" "sorted_wrt (<) (map fst target)" "fst ` set xs \<inter> fst ` set target = {}"
  shows "\<exists>tg q'. futureLoop E xs target q = Inr (tg, q') \<and> putOff E a (fst ` set xs) target q tg q' \<and>
    length tg = length target + length xs \<and> m_futureSize q' = m_futureSize q + word_of_nat (length xs)"
  using assms
proof (induction xs arbitrary: target q)
  case Nil
  then show ?case by (simp add: putOff_def)
next
  case (Cons x xs)
  obtain n v where x: "x = (n, v)" by (cases x)
  obtain i t where t: "v = Some i" "(i, t) \<in> set (m_current q)" "key E t = (a, n)" using Cons(4) [of n v] x by auto
  have l: "map_of (m_current q) i = Some t" using Cons(2) t(2) by simp
  have nt: "t_nonce t = n" using t(3) by (simp add: key_def)
  have free: "map_of target n = None" using Cons(7) x by (auto simp: map_of_eq_None_iff)
  have nxs: "n \<notin> fst ` set xs" using Cons(5) by (simp add: x)
  define q1 where "q1 = q\<lparr>m_currentByHash := (m_currentByHash q)(hash_tx E t := None), m_current := AList.delete i (m_current q),
    m_futureSize := m_futureSize q + 1\<rparr>"
  have step: "futureLoop E (x # xs) target q = futureLoop E xs (ord_put n t target) q1"
    by (simp add: x t(1) l nt q1_def ord_insert_def free)
  have cur1: "(j, u) \<in> set (m_current q1) \<longleftrightarrow> (j, u) \<in> set (m_current q) \<and> key E u \<noteq> (a, n)" for j u
  proof -
    have "(j, u) \<in> set (m_current q) \<Longrightarrow> j = i \<longleftrightarrow> key E u = (a, n)"
      using eq_key_imp_eq_value [OF Cons(2), of i u t] t(2,3) inj_onD [OF Cons(3), of "(j, u)" "(i, t)"] by auto
    then show ?thesis using set_delete [OF Cons(2), of j u i] by (auto simp: q1_def)
  qed
  have "\<exists>tg q'. futureLoop E xs (ord_put n t target) q1 = Inr (tg, q') \<and> putOff E a (fst ` set xs) (ord_put n t target) q1 tg q' \<and>
    length tg = length (ord_put n t target) + length xs \<and> m_futureSize q' = m_futureSize q1 + word_of_nat (length xs)"
  proof (rule Cons(1))
    show "distinct (map fst (m_current q1))" using Cons(2) by (simp add: q1_def AList.distinct_delete)
    show "inj_on (key E \<circ> snd) (set (m_current q1))" by (rule inj_on_subset [OF Cons(3)]) (auto simp: cur1)
    show "\<exists>i t. v = Some i \<and> (i, t) \<in> set (m_current q1) \<and> key E t = (a, m)" if "(m, v) \<in> set xs" for m v
    proof -
      have "m \<noteq> n" using that nxs by force
      then show ?thesis using Cons(4) [of m v] that unfolding cur1 by fastforce
    qed
    show "sorted_wrt (<) (map fst (ord_put n t target))" by (rule sorted_ord_put [OF Cons(6)])
    show "fst ` set xs \<inter> fst ` set (ord_put n t target) = {}" using Cons(7) nxs by (simp add: x)
  qed (use Cons(5) in simp)
  then obtain tg q' where r: "futureLoop E xs (ord_put n t target) q1 = Inr (tg, q')" "putOff E a (fst ` set xs) (ord_put n t target) q1 tg q'"
    "length tg = length (ord_put n t target) + length xs" "m_futureSize q' = m_futureSize q1 + word_of_nat (length xs)" by blast
  have "putOff E a (fst ` set (x # xs)) target q tg q'"
    using putOff_step [OF curI [OF t(2)] t(3) inj_on_imageI [OF Cons(3), folded cur_def] free nxs cur1 _ _ _ _ r(2)] by (simp add: x q1_def frame_def)
  then show ?case using r length_ord_put [OF free, of t] by (simp add: step q1_def)
qed

lemma core_putOff:
  assumes c: "core E q" and p: "putOff E a N target q tg q1" and m: "m_currentByAddressAndNonce q a = Some m"
    and kept: "sorted_wrt (<) (map fst kept)" "\<And>n. map_of kept n = (if n \<in> N then None else map_of m n)"
    and q': "q' = q1\<lparr>m_future := F, m_currentByAddressAndNonce := (m_currentByAddressAndNonce q1)(a := if kept = [] then None else Some kept)\<rparr>"
  shows "core E q'" "cur q' = {u \<in> cur q. key E u \<notin> {a} \<times> N}"
proof -
  note d = putOffD [OF p]
  have cur': "(j, u) \<in> set (m_current q') \<longleftrightarrow> (j, u) \<in> set (m_current q) \<and> key E u \<notin> {a} \<times> N" for j u
    using d(2) by (simp add: q')
  then show cur: "cur q' = {u \<in> cur q. key E u \<notin> {a} \<times> N}" by (auto simp: cur_iff)
  have slot': "slot q' b n = (if b = a \<and> n \<in> N then None else slot q b n)" for b n
    using m kept(2) [of n] d(6) by (cases "kept = []") (auto simp: q' slot_def split: if_splits)
  show "core E q'"
    unfolding core_def
  proof (intro conjI allI ballI impI)
    show "distinct (map fst (m_current q'))" using d(5) by (simp add: q')
    have "m_node q' = m_node q" using d(7) by (simp add: q')
    then show "i < m_node q'" if "i \<in> fst ` set (m_current q')" for i
      using that by (auto simp: cur' dest: core_node [OF c])
    show "m_currentByHash q' h = Some i \<longleftrightarrow> (\<exists>t. (i, t) \<in> set (m_current q') \<and> hash_tx E t = h)" for h i
    proof (cases "\<exists>u\<in>cur q. key E u \<in> {a} \<times> N \<and> hash_tx E u = h")
      case True
      then obtain j u where u: "(j, u) \<in> set (m_current q)" "key E u \<in> {a} \<times> N" "hash_tx E u = h" by (auto simp: cur_iff)
      then have "\<not> (\<exists>t. (i, t) \<in> set (m_current q') \<and> hash_tx E t = h)"
        using core_inj(1) [OF c u(1)] unfolding cur' by fastforce
      moreover have "m_currentByHash q' h = None" using d(3) [of h] True by (simp add: q')
      ultimately show ?thesis by simp
    next
      case False
      then have "m_currentByHash q' h = m_currentByHash q h" using d(3) [of h] unfolding q' if_not_P [OF False] by simp
      moreover have "key E t \<notin> {a} \<times> N" if "(i, t) \<in> set (m_current q)" "hash_tx E t = h" for t
      proof
        assume "key E t \<in> {a} \<times> N"
        with False show False using bexI [of _ t "cur q"] curI [OF that(1)] that(2) by simp
      qed
      ultimately show ?thesis using core_hash [OF c, of h i] unfolding cur' by auto
    qed
    show "m' \<noteq> []" "sorted_wrt (<) (map fst m')" if "m_currentByAddressAndNonce q' b = Some m'" for b m'
      using that core_map [OF c, of b m'] kept(1) d(6) by (auto simp: q' split: if_splits)
    show "slot q' b n = Some v \<longleftrightarrow> (\<exists>i t. v = Some i \<and> (i, t) \<in> set (m_current q') \<and> key E t = (b, n))" for b n v
    proof -
      have "key E t \<notin> {a} \<times> N \<and> key E t = (b, n) \<longleftrightarrow> \<not> (b = a \<and> n \<in> N) \<and> key E t = (b, n)" for t by auto
      then show ?thesis using core_slot [OF c, of b n v] unfolding slot' cur' conj_assoc by (cases "b = a \<and> n \<in> N") auto
    qed
    show "sender_ok E u" if "u \<in> cur q'" for u
      using that core_sender [OF c] by (auto simp: cur_iff cur')
  qed
qed

lemma takeWhile_keys:
  fixes m :: "('k::linorder \<times> 'v) list" and n :: 'k
  assumes "sorted_wrt (<) (map fst m)"
  defines "kept \<equiv> takeWhile (\<lambda>x. fst x < n) m" and "cutoff \<equiv> dropWhile (\<lambda>x. fst x < n) m"
  shows "sorted_wrt (<) (map fst kept)" "distinct (map fst cutoff)"
    "map_of kept k = (if k \<in> fst ` set cutoff then None else map_of m k)" "n \<in> fst ` set m \<Longrightarrow> n \<in> fst ` set cutoff"
proof -
  have m: "m = kept @ cutoff" by (simp add: kept_def cutoff_def)
  have d: "distinct (map fst kept @ map fst cutoff)" using distinct_sorted_keys [OF assms(1)] m by (metis map_append)
  show "sorted_wrt (<) (map fst kept)" using assms(1) m by (metis map_append sorted_wrt_append)
  show "distinct (map fst cutoff)" using d by simp
  have "map_of m k = (map_of cutoff ++ map_of kept) k" using m by (metis map_of_append)
  moreover have "k \<in> fst ` set cutoff \<Longrightarrow> k \<notin> fst ` set kept" using d by auto
  ultimately show "map_of kept k = (if k \<in> fst ` set cutoff then None else map_of m k)"
    using map_of_eq_None_iff [of kept k] map_of_eq_None_iff [of cutoff k] by (auto simp: map_add_def split: option.splits)
  have "x \<in> set kept \<Longrightarrow> fst x < n" for x by (auto simp: kept_def dest: set_takeWhileD)
  then have "n \<notin> fst ` set kept" by force
  then show "n \<in> fst ` set cutoff" if "n \<in> fst ` set m"
    using that unfolding m set_append image_Un by simp
qed

lemma setFuture_ok:
  assumes c: "consistent E q"
  shows "\<exists>q'. setFuture E h q = Inr q' \<and> consistent E q' \<and> limits q' = limits q"
proof (cases "m_currentByHash q h")
  case None
  then show ?thesis using c by (simp add: setFuture_def)
next
  case (Some i)
  note v = invD [OF consistentD(1) [OF c]]
  obtain st where st: "(i, st) \<in> set (m_current q)" using Some core_hash [OF v(1)] by blast
  let ?a = "from_tx E st" and ?n = "t_nonce st"
  have "slot q ?a ?n = Some (Some i)" using core_slot [OF v(1)] st by (auto simp: key_def)
  then obtain m where m: "m_currentByAddressAndNonce q ?a = Some m" "map_of m ?n = Some (Some i)"
    by (auto simp: slot_def split: option.splits)
  have so: "sorted_wrt (<) (map fst m)" using core_map [OF v(1) m(1)] by simp
  define kept cutoff where "kept = takeWhile (\<lambda>x. fst x < ?n) m" and "cutoff = dropWhile (\<lambda>x. fst x < ?n) m"
  define N where "N = fst ` set cutoff"
  note tw = takeWhile_keys [OF so, of ?n, folded kept_def cutoff_def]
  have ent: "\<exists>i t. w = Some i \<and> (i, t) \<in> set (m_current q) \<and> key E t = (?a, n)" if "(n, w) \<in> set cutoff" for n w
  proof -
    have "(n, w) \<in> set m" using that by (auto simp: cutoff_def dest: set_dropWhileD)
    then have "slot q ?a n = Some w" using m(1) distinct_sorted_keys [OF so] by (simp add: slot_def)
    then show ?thesis using core_slot [OF v(1)] by blast
  qed
  have disj: "fst ` set cutoff \<inter> fst ` set (futureOf ?a q) = {}"
  proof (rule ccontr)
    assume "\<not> ?thesis"
    then obtain n w u where "(n, w) \<in> set cutoff" "(n, u) \<in> set (futureOf ?a q)" by force
    then obtain j t where "(j, t) \<in> set (m_current q)" "key E t = key E u" "u \<in> fut q" using ent fut_futureOf [OF v(2)] by fastforce
    then show False using inj_onD [OF v(5), of t u] curI v(3) by blast
  qed
  have inj: "inj_on (key E \<circ> snd) (set (m_current q))"
    using core_inj(2) [OF v(1)] by (auto simp: inj_on_def)
  obtain tg q1 where r: "futureLoop E cutoff (futureOf ?a q) q = Inr (tg, q1)" "putOff E ?a N (futureOf ?a q) q tg q1"
      "length tg = length (futureOf ?a q) + length cutoff" "m_futureSize q1 = m_futureSize q + word_of_nat (length cutoff)"
    using futureLoop_ok [OF core_distinct [OF v(1)] inj ent tw(2) sorted_futureOf [OF v(2)] disj] unfolding N_def by blast
  define q' where "q' = q1\<lparr>m_future := AList.update ?a tg (m_future q1),
    m_currentByAddressAndNonce := (m_currentByAddressAndNonce q1)(?a := if kept = [] then None else Some kept)\<rparr>"
  have set: "setFuture E h q = Inr q'"
    using Some core_lookup [OF v(1) st] m(1) r(1)
    by (simp add: setFuture_def kept_def cutoff_def q'_def futureOf_def Let_def)
  note d = putOffD [OF r(2)]
  have co: "core E q'" "cur q' = {u \<in> cur q. key E u \<notin> {?a} \<times> N}"
    using core_putOff [OF v(1) r(2) m(1) tw(1)] tw(3) by (auto simp: N_def q'_def)
  have "?n \<in> N" using tw(4) m(2) by (force simp: N_def dest: map_of_SomeD)
  then have "tg \<noteq> []" using d(1) [of ?n st] curI [OF st] by (auto simp: key_def)
  have mf: "m_future q1 = m_future q" using frame_known [OF d(8)] by simp
  have tge: "key E u = (?a, n) \<and> sender_ok E u" if "(n, u) \<in> set tg" for n u
    using that core_sender [OF v(1)] fut_sender [OF v(2)] unfolding d(1) fut_futureOf [OF v(2)] by (auto simp: cur_iff)
  have "m_futureSize q1 + word_of_nat (length (futureOf ?a q)) = m_futureSize q + word_of_nat (length tg)"
    by (simp add: r(3,4))
  from futs_put [OF v(2) mf this d(4) tge] have pf: "futs E (putFuture ?a tg q1)"
    "fut (putFuture ?a tg q1) = {u \<in> fut q. from_tx E u \<noteq> ?a} \<union> snd ` set tg" by blast+
  have fu: "futs E q'" "fut q' = {u \<in> fut q. from_tx E u \<noteq> ?a} \<union> snd ` set tg"
    using pf \<open>tg \<noteq> []\<close> by (simp_all add: futs_def fut_def futl_def q'_def putFuture_def)
  have "u \<in> snd ` set tg \<longleftrightarrow> (u \<in> fut q \<and> from_tx E u = ?a) \<or> (u \<in> cur q \<and> key E u \<in> {?a} \<times> N)" for u
  proof -
    have "u \<in> snd ` set tg \<longleftrightarrow> (\<exists>n. (n, u) \<in> set tg)" by force
    then show ?thesis unfolding d(1) fut_futureOf [OF v(2)] by (auto simp: key_def)
  qed
  then have f: "u \<in> fut q' \<longleftrightarrow> u \<in> fut q \<or> u \<in> cur q \<and> key E u \<in> {?a} \<times> N" for u unfolding fu(2) by auto
  have un: "cur q' \<union> fut q' = cur q \<union> fut q" using f co(2) by auto
  have "tq_inv E q'" by (rule invI [OF co(1) fu(1), of "cur q \<union> fut q"]) (use un f co(2) v in auto)
  moreover have "m_known q' = m_known q" "limits q' = limits q" using frame_known [OF d(8)] by (simp_all add: q'_def limits_def)
  ultimately show ?thesis using set c un by (simp add: consistent_def)
qed

end
