(* ===== verification/TransactionQueue_Reach.thy ===== *)
theory TransactionQueue_Reach
  imports TransactionQueue_Props
begin

text \<open>
  The states of the transaction queue that can be reached, by any sequence of operations under any behaviour of the
  containers, and what holds in all of them.
\<close>

section \<open>Reachable queues\<close>

definition env :: "keccak \<Rightarrow> (SignatureStruct \<Rightarrow> h256 \<Rightarrow> bytes option) \<Rightarrow> tq_env \<Rightarrow> bool" where
  "env K R E \<longleftrightarrow> tq_hash E = K \<and> tq_recover E = R \<and> begin_ok E"

inductive reachable :: "keccak \<Rightarrow> (SignatureStruct \<Rightarrow> h256 \<Rightarrow> bytes option) \<Rightarrow> u32 \<Rightarrow> u32 \<Rightarrow> TransactionQueue \<Rightarrow> bool"
  for K R l f where
  new: "reachable K R l f (TransactionQueue_new l f)"
| import_one: "reachable K R l f q \<Longrightarrow> env K R E \<Longrightarrow> sender_ok E t \<Longrightarrow> import_tx E t ik q = Inr (r, q') \<Longrightarrow> reachable K R l f q'"
| import_rlp: "reachable K R l f q \<Longrightarrow> env K R E \<Longrightarrow> import_bytes E d ik q = Inr (r, q') \<Longrightarrow> reachable K R l f q'"
| drop: "reachable K R l f q \<Longrightarrow> env K R E \<Longrightarrow> drop_tx E h q = Inr q' \<Longrightarrow> reachable K R l f q'"
| drop_good: "reachable K R l f q \<Longrightarrow> env K R E \<Longrightarrow> dropGood E t q = (x, q') \<Longrightarrow> reachable K R l f q'"
| set_future: "reachable K R l f q \<Longrightarrow> env K R E \<Longrightarrow> setFuture E h q = Inr q' \<Longrightarrow> reachable K R l f q'"
| clear: "reachable K R l f q \<Longrightarrow> reachable K R l f (clear_queue q)"
| enqueue: "reachable K R l f q \<Longrightarrow> enqueue d node q = (x, q') \<Longrightarrow> reachable K R l f q'"
| take_work: "reachable K R l f q \<Longrightarrow> takeWork q = Some (w, q') \<Longrightarrow> reachable K R l f q'"
| verify_work: "reachable K R l f q \<Longrightarrow> env K R E \<Longrightarrow> (\<And>t. TransactionBase K R CheckCheap (fst w) = Inr t \<Longrightarrow> sender_ok E t) \<Longrightarrow>
    verifyWork E w q = Inr q' \<Longrightarrow> reachable K R l f q'"

lemma consistent_env: "env K R E \<Longrightarrow> env K R E' \<Longrightarrow> consistent E = consistent E' \<and> sender_ok E = sender_ok E'"
proof -
  assume e: "env K R E" "env K R E'"
  have eq: "tq_hash E = tq_hash E'" "tq_recover E = tq_recover E'" using e by (simp_all add: env_def)
  have same: "hash_tx E = hash_tx E'" "key E = key E'" "sender_ok E = sender_ok E'"
    unfolding hash_tx_def key_def from_tx_def sender_ok_def eq by (rule refl)+
  then have "consistent E = consistent E'" by (intro ext) (simp only: consistent_def tq_inv_def core_def futs_def)
  with same show ?thesis by simp
qed

lemma checked_sender_ok:
  assumes "TransactionBase (tq_hash E) (tq_recover E) CheckEverything d = Inr t"
  shows "sender_ok E t"
proof -
  have "\<exists>u a u'. sender_tx (tq_hash E) (tq_recover E) u = Inr (a, u') \<and> t = u'\<lparr>t_sender := a\<rparr>"
    using assms by (auto simp: TransactionBase_def Let_def split: if_splits)
  then obtain u a u' where u: "sender_tx (tq_hash E) (tq_recover E) u = Inr (a, u')" "t = u'\<lparr>t_sender := a\<rparr>" by blast
  show ?thesis
  proof (cases "a = 0")
    case False
    then show ?thesis by (simp add: u(2) sender_ok_def sender_tx_def)
  next
    case True
    have "t_sender u' = 0 \<or> t_sender u' = a" using u(1) by (auto simp: sender_tx_def sha3_tx_False split: if_splits option.splits)
    then have "t = u'" using True u(2) by (cases u') auto
    then show ?thesis using sender_tx_cached(2) [OF u(1)] by (auto simp: sender_ok_def)
  qed
qed

definition contents :: "TransactionQueue \<Rightarrow> _" where
  "contents q = (m_known q, m_current q, m_currentByHash q, m_currentByAddressAndNonce q, m_node q, m_future q, m_futureSize q, m_limit q, m_futureLimit q)"

lemma consistent_contents: "contents q = contents q' \<Longrightarrow> consistent E q = consistent E q' \<and> limits q = limits q'"
  by (simp add: contents_def limits_def consistent_def tq_inv_def core_def futs_def cur_def fut_def futl_def slot_def)

lemma enqueue_contents: "contents (snd (enqueue d node q)) = contents q"
proof -
  have "contents (snd (enqueueLoop is node r q)) = contents q" for "is" r
    by (induction "is" node r q rule: enqueueLoop.induct) (auto simp: contents_def split: sum.splits)
  then show ?thesis by (simp add: enqueue_def split: sum.splits)
qed

lemma empty_consistent: "consistent E (TransactionQueue_new l f)" "consistent E (clear_queue q)"
  by (simp_all add: TransactionQueue_new_def clear_queue_def consistent_def tq_inv_def core_def futs_def cur_def fut_def futl_def slot_def)

lemma reachable_consistent:
  assumes "reachable K R l f q" "env K R E"
  shows "consistent E q \<and> limits q = (l, f)"
  using assms
proof (induction arbitrary: E rule: reachable.induct)
  case new
  show ?case using empty_consistent(1) by (simp add: TransactionQueue_new_def limits_def)
next
  case (import_one q E' t ik r q')
  then show ?case using import_tx_ok [of E' q t ik] consistent_env [of K R E' E] by (simp add: env_def)
next
  case (import_rlp q E' d ik r q')
  have c: "consistent E' q" "limits q = (l, f)" "begin_ok E'" using import_rlp by (auto simp: env_def)
  have "consistent E' q' \<and> limits q' = (l, f)"
  proof (cases "TransactionBase (tq_hash E') (tq_recover E') CheckEverything d")
    case (Inl e)
    then show ?thesis using import_rlp c by (simp add: import_bytes_def)
  next
    case (Inr t)
    note i = import_tx_ok [OF c(1,3) checked_sender_ok [OF Inr], of ik]
    show ?thesis
      using import_rlp.hyps(3) i c(1,2) Inr by (auto simp: import_bytes_def split: sum.splits tq_error.splits)
  qed
  then show ?case using consistent_env [OF import_rlp.hyps(2) import_rlp.prems] by simp
next
  case (drop q E' h q')
  then show ?case using drop_tx_ok [of E' q h] consistent_env [of K R E' E] by auto
next
  case (drop_good q E' t x q')
  then show ?case using dropGood_ok [of E' q t] consistent_env [of K R E' E] by (auto simp: env_def)
next
  case (set_future q E' h q')
  then show ?case using setFuture_ok [of E' q h] consistent_env [of K R E' E] by auto
next
  case (clear q)
  then show ?case using empty_consistent(2) by (auto simp: clear_queue_def limits_def)
next
  case (enqueue q d node x q')
  then show ?case using consistent_contents [OF enqueue_contents [of d node q], of E] by auto
next
  case (take_work q w q')
  then have "contents q' = contents q" by (auto simp: takeWork_def contents_def split: list.splits)
  then show ?case using take_work consistent_contents [of q' q E] by auto
next
  case (verify_work q E' w q')
  have c: "consistent E' q" "limits q = (l, f)" "begin_ok E'" using verify_work by (auto simp: env_def)
  have "consistent E' q' \<and> limits q' = (l, f)"
  proof (cases "TransactionBase (tq_hash E') (tq_recover E') CheckCheap (fst w)")
    case (Inl e)
    then show ?thesis using verify_work c by (simp add: verifyWork_def)
  next
    case (Inr t)
    have "sender_ok E' t" using verify_work.hyps(3) Inr verify_work.hyps(2) by (simp add: env_def)
    note i = import_tx_ok [OF c(1,3) this, of Ignore]
    show ?thesis
      using verify_work.hyps(4) i c(1,2) Inr by (auto simp: verifyWork_def split: sum.splits tq_error.splits)
  qed
  then show ?case using consistent_env [OF verify_work.hyps(2) verify_work.prems] by simp
qed

text \<open>
  C4. However transactions with a valid signature were imported, dropped, put off and taken, by however many threads, every
  index of the queue agrees with its contents: each hash and each sender and nonce stands for one transaction, current or
  future, all hashes are known, and the number of future transactions is right. No operation on such a queue reaches
  undefined behaviour or runs forever, and a successful import leaves no more current transactions than the limit.
\<close>

theorem transaction_queue_consistent:
  assumes "reachable K R l f q" "env K R E"
  shows "consistent E q \<and>
    (\<forall>t ik r q'. sender_ok E t \<longrightarrow> import_tx E t ik q = Inr (r, q') \<longrightarrow> r = Success \<longrightarrow> length (m_current q') \<le> unat l) \<and>
    (\<forall>t ik e. sender_ok E t \<longrightarrow> import_tx E t ik q = Inl e \<longrightarrow> (\<exists>x. e = TqTx x)) \<and>
    (\<forall>h. \<exists>q'. drop_tx E h q = Inr q') \<and> (\<forall>h. \<exists>q'. setFuture E h q = Inr q') \<and>
    (\<forall>t. fst (dropGood E t q) = Inr () \<or> (\<exists>e. fst (dropGood E t q) = Inl (TqTx e)))"
proof -
  have c: "consistent E q" "limits q = (l, f)" using reachable_consistent [OF assms] by simp_all
  have b: "begin_ok E" using assms(2) by (simp add: env_def)
  have size: "length (m_current q') \<le> unat l" if "sender_ok E t" "import_tx E t ik q = Inr (r, q')" "r = Success" for t ik r q'
    using import_tx_ok [OF c(1) b that(1), of ik] that(2,3) c(2) by (auto simp: limits_def)
  have err: "\<exists>x. e = TqTx x" if "sender_ok E t" "import_tx E t ik q = Inl e" for t ik e
    using import_tx_ok [OF c(1) b that(1), of ik] that(2) by simp
  have good: "fst (dropGood E t q) = Inr () \<or> (\<exists>e. fst (dropGood E t q) = Inl (TqTx e))" for t
    using dropGood_ok [OF c(1) b, of t] by auto
  have ops: "\<exists>q'. drop_tx E h q = Inr q'" "\<exists>q'. setFuture E h q = Inr q'" for h
    using drop_tx_ok [OF c(1), of h] setFuture_ok [OF c(1), of h] by blast+
  show ?thesis by (intro conjI allI impI c(1) ops good) (fact size err)+
qed

section \<open>A small queue\<close>

definition demo_env :: "keccak \<Rightarrow> tq_env" where
  "demo_env K = \<lparr>tq_hash = K, tq_recover = \<lambda>_ _. None, tq_shape = \<lambda>_ _ _. 0, tq_begin = hd\<rparr>"

definition queued :: "u256 \<Rightarrow> h256 \<Rightarrow> address \<Rightarrow> Transaction" where
  "queued n h a = Transaction_null\<lparr>t_type := MessageCall, t_nonce := n, t_vrs := Some \<lparr>sig_r = 1, sig_s = 1, sig_v = 0\<rparr>,
     t_hashWith := h, t_sender := a\<rparr>"

definition demo_queue :: TransactionQueue where
  "demo_queue = (TransactionQueue_new 1 1)\<lparr>m_known := {5}, m_current := [(0, queued 3 5 7)], m_currentByHash := [5 \<mapsto> 0],
     m_currentByAddressAndNonce := [7 \<mapsto> [(3, Some 0)]], m_node := 1, m_signals := [OnReady]\<rparr>"

lemma queued_simps [simp]:
  "\<not> hasZeroSignature (queued n h a)" "h \<noteq> 0 \<Longrightarrow> sha3_tx K (queued n h a) True = Inr (h, queued n h a)"
  "a \<noteq> 0 \<Longrightarrow> sender_tx K R (queued n h a) = Inr (a, queued n h a)" "t_nonce (queued n h a) = n" "t_gasPrice (queued n h a) = 0"
  by (simp_all add: queued_def hasZeroSignature_def isZeroSignature_def sha3_tx_def sender_tx_def Transaction_null_def)

lemma queued_more [simp]: "h \<noteq> 0 \<Longrightarrow> hash_tx E (queued n h a) = h" "a \<noteq> 0 \<Longrightarrow> from_tx E (queued n h a) = a"
  by (simp_all add: hash_tx_def from_tx_def safeSender_def)

lemmas import_eval = import_tx_def check_WITH_LOCK_def safeSender_def manageImport_WITH_LOCK_def replaceCurrent_def replaceFuture_def
  insertCurrent_WITH_LOCK_def enterCurrent_def emplace_def emplacePos.simps ord_insert_def makeCurrent_WITH_LOCK_def moveFuture_def
  dropFuture.simps trimCurrent.simps emit_def

lemma demo_import: "import_tx (demo_env K) (queued 3 5 7) Ignore (TransactionQueue_new 1 1) = Inr (Success, demo_queue)"
  by (simp add: import_eval TransactionQueue_new_def demo_queue_def)

lemma demo_env: "env K (\<lambda>_ _. None) (demo_env K)"
  by (simp add: env_def begin_ok_def demo_env_def)

theorem transaction_queue_consistent_witness:
  "\<forall>K. consistent (demo_env K) demo_queue \<and> (\<exists>q'. setFuture (demo_env K) 5 demo_queue = Inr q') \<and>
     (\<forall>r q'. import_tx (demo_env K) (queued 4 6 7) Ignore demo_queue = Inr (r, q') \<longrightarrow> r = Success \<longrightarrow> length (m_current q') \<le> 1)"
proof
  fix K
  have "sender_ok (demo_env K) (queued 3 5 7)" "sender_ok (demo_env K) (queued 4 6 7)" by (simp_all add: sender_ok_def)
  moreover from this(1) have "reachable K (\<lambda>_ _. None) 1 1 demo_queue"
    using import_one [OF new demo_env _ demo_import] by blast
  ultimately show "consistent (demo_env K) demo_queue \<and> (\<exists>q'. setFuture (demo_env K) 5 demo_queue = Inr q') \<and>
     (\<forall>r q'. import_tx (demo_env K) (queued 4 6 7) Ignore demo_queue = Inr (r, q') \<longrightarrow> r = Success \<longrightarrow> length (m_current q') \<le> 1)"
    using transaction_queue_consistent [OF _ demo_env, of K 1 1 demo_queue] by auto
qed

text \<open>
  A transaction whose sender cannot be recovered is not refused: comparing it throws after its nonce has been entered
  for the null address, and the next such transaction with the nonce reads the iterator that points nowhere.
\<close>

theorem unrecoverable_sender_breaks_queue:
  "\<exists>q. import_tx (demo_env K) (queued 0 8 0) Ignore demo_queue = Inr (Malformed, q) \<and>
     import_tx (demo_env K) (queued 0 9 0) Ignore q = Inl TqUndefined"
proof -
  have s: "\<exists>e. sender_tx K' (\<lambda>_ _. None) (queued n h 0) = Inl e" for K' n h
    by (cases "sha3_tx K' (queued n h 0) False") (auto simp: sender_tx_def queued_def Transaction_null_def hasZeroSignature_def isZeroSignature_def)
  obtain e where e: "sender_tx K (\<lambda>_ _. None) (queued 0 8 0) = Inl e" using s by blast
  obtain e' where e': "sender_tx K (\<lambda>_ _. None) (queued 0 9 0) = Inl e'" using s by blast
  show ?thesis
    by (simp add: import_eval demo_queue_def TransactionQueue_new_def e e' from_tx_def demo_env_def PriorityCompare_def height_def)
qed

end
