(* ===== verification/Spec2Isabelle.thy ===== *)
theory Spec2Isabelle
  imports RLP_Codec LegacyVM_Props State_Props Executive_Props LogSearch BlockHeader_Props Ethash TransactionQueue_Reach
begin

text \<open>
  \<^bold>\<open>The program.\<close> The repository is an Ethereum client in C++. A transaction arrives as a byte string in recursive
  length prefix (RLP) form, is decoded, checked and queued, and is executed on the world state: a message call
  runs the code of a contract in the virtual machine, which reads and changes accounts, calls other contracts and
  leaves logs. The receipts, the transactions and the accounts of a block are committed to by the roots of Merkle
  Patricia tries in the header, which follows the rules of the seal engine; the logs are found again through an
  index of blooms. The development models this path, one group of theories per part, in the order of the calls.

  \<^bold>\<open>Conventions.\<close> A C++ integer of a fixed width is a word, \<^verbatim>\<open>bigint\<close> is \<open>int\<close>, a byte string is a list of bytes,
  a hash of 32 bytes is a word of 256 bits and any other \<^verbatim>\<open>FixedHash\<close> a list of bytes. An exception is the left side of a
  sum type (\<open>Prelude\<close>: \<open>sum_bind\<close>); reading outside an array, dereferencing a null pointer or an iterator that
  points nowhere is a value of its own, so that its absence is a theorem. Objects that change are passed as
  records and returned; a \<^verbatim>\<open>mutable\<close> cache is a field of the record and the theorems say that it does not show.
  The hash function, the recovery of public keys, precompiled contracts, the proof-of-work library, and what the
  standard library leaves open (the element an eviction picks, the order of a hash table, the shape of a search
  tree) are arguments of the definitions. A hash function is assumed to be injective nowhere but in the theorem on
  trie roots, and there on the encodings that occur only.

  \<^bold>\<open>RLP\<close> (\<^verbatim>\<open>libdevcore/RLP.h\<close>, \<^verbatim>\<open>RLP.cpp\<close>, \<^verbatim>\<open>CommonData\<close>, \<^verbatim>\<open>vector_ref.h\<close>). \<open>CommonData\<close> has hex and big-endian
  conversions; \<open>RLP_Stream\<close> the writer \<^verbatim>\<open>RLPStream\<close> with its stack of open lists closed in place; \<open>RLP_Reader\<close> the reader with
  its strictness flags, the index cache and the iterator. \<open>RLP_Codec\<close> proves that the writer produces the encoding of
  a tree of strings and lists, that the strict reader accepts exactly these encodings, that the cache is
  invisible, when iteration ends, and that the reader stays inside its slice (with the one exception that it
  states). \<open>RLP_Fields\<close> reads records field by field. The bound on lengths is the one of the reader, just below
  $2^{64}$; the round trips of records ask for data below $2^{60}$ bytes.

  \<^bold>\<open>The virtual machine\<close> (\<^verbatim>\<open>libevm/LegacyVM*.cpp\<close>, \<^verbatim>\<open>Instruction\<close>, \<^verbatim>\<open>EVMSchedule.h\<close>). \<open>EVM_Instruction\<close> holds the opcodes, their
  table and the gas schedules; \<open>LegacyVM_State\<close> the machine with its stack pointers, memory and gas and the
  interface of the outside world; \<open>LegacyVM\<close> one definition per case of the switch and the trampoline of \<^verbatim>\<open>exec\<close>.
  \<open>LegacyVM_Logic\<close> is a calculus of weakest preconditions, \<open>LegacyVM_Safety\<close>, \<open>LegacyVM_Cases\<close>, \<open>LegacyVM_Calls\<close> and
  \<open>LegacyVM_Exec\<close> prove with it that every instruction keeps the pointers inside their arrays and pays gas, on
  any host that keeps the contract of the locale \<open>vm_host\<close>. The loop is a partial function, with \<open>None\<close> for a run without
  end; that it always returns is proved from the gas, which every round lowers. \<open>LegacyVM_Code\<close> is about jump destinations, \<open>LegacyVM_Arith\<close> about the
  arithmetic, \<open>LegacyVM_Refine\<close> refines an abstract stack machine, \<open>LegacyVM_Props\<close> has memory, copies and static calls.

  \<^bold>\<open>The world state\<close> (\<^verbatim>\<open>libaecereum/Account\<close>, \<^verbatim>\<open>State\<close>, \<^verbatim>\<open>CodeSizeCache.h\<close>). \<open>Account\<close> and \<open>State\<close> model accounts, the
  caches with their random eviction, and the change log; the tries are the maps they store. \<open>State_Spec\<close> is the abstract
  state, a plain map of accounts; \<open>State_Refine\<close> proves that every operation refines the one on the map;
  \<open>State_Journal\<close> states the change log as an undo log (the locale \<open>undo_log\<close>, interpreted on the change log of \<^verbatim>\<open>State\<close>) and proves
  that rollback restores every account; \<open>State_Size\<close> bounds the codes; \<open>State_Commit\<close> writes to the tries;
  \<open>State_Props\<close> has the properties.

  \<^bold>\<open>Execution\<close> (\<^verbatim>\<open>libaeccore/TransactionBase\<close>, \<^verbatim>\<open>ChainOperationParams\<close>, \<^verbatim>\<open>SealEngine\<close>, \<^verbatim>\<open>libaecereum/Executive\<close>, \<^verbatim>\<open>ExtVM\<close>). \<open>Transaction\<close>
  has transactions and their RLP form, \<open>ChainParams\<close> forks and the checks of the engine, \<open>Executive\<close> the execution
  of messages and transactions, tied to the interpreter through \<^verbatim>\<open>ExtVM\<close>. \<open>Executive_Safety\<close> interprets \<open>vm_host\<close> on
  it, by induction on the call depth; \<open>Executive_Fees\<close> accounts for every balance and nonce; \<open>Executive_Props\<close> puts the parts
  together: runs end, no execution of a transaction has undefined behaviour, and what a transfer does.
  The recursion between interpreter and executive takes the number of levels it may go down as fuel. The code makes
  no call at depth 1024, so 1025 levels are enough: \<open>Executive_Levels\<close> shows, by interpreting the locale \<open>vm_twin\<close> of
  \<open>LegacyVM_Twin\<close> (two hosts that agree where the interpreter asks them), that more levels never change a result.
  Only \<^verbatim>\<open>BLOCKHASH\<close> after the Constantinople fork is outside this bound: it starts a transaction at depth 0.

  \<^bold>\<open>The transaction queue\<close> (\<^verbatim>\<open>libaecereum/TransactionQueue\<close>). \<open>TransactionQueue\<close> models every operation, exceptions with the
  state they leave included; an iterator is the number of a node. \<open>TransactionQueue_Inv\<close> has the invariant of the indices,
  \<open>TransactionQueue_Props\<close> that the operations keep it, and \<open>TransactionQueue_Reach\<close> the reachable states as an inductive
  predicate over all interleavings, with the theorem for all of them and the transaction that shows why it
  asks for recoverable senders.

  \<^bold>\<open>Blocks\<close> (\<^verbatim>\<open>libdevcore/TrieCommon\<close>, \<^verbatim>\<open>TrieHash\<close>, \<^verbatim>\<open>libaeccore/BlockHeader\<close>, \<^verbatim>\<open>libaecashseal/Ethash\<close>). \<open>TrieCommon\<close> has
  nibbles and the hex-prefix notation with its round trip; \<open>TrieHash\<close> the root of a map, refined to a tree of nodes in
  \<open>TrieHash_Spec\<close>, so that \<open>TrieHash_Props\<close> can show that the root commits to the map; \<open>BlockHeader\<close> and \<open>BlockHeader_Props\<close>
  headers and their round trip; \<open>Ethash\<close> the rules of the proof-of-work engine, and that the header made for the
  next block obeys them.

  \<^bold>\<open>Logs\<close> (\<^verbatim>\<open>libdevcore/FixedHash.h\<close>, \<^verbatim>\<open>libaeccore/LogEntry\<close>, \<^verbatim>\<open>libaecereum/TransactionReceipt\<close>, \<^verbatim>\<open>LogFilter\<close>, \<^verbatim>\<open>BlockChain\<close>). \<open>FixedHash\<close>
  has byte arrays and blooms, \<open>Receipt\<close> receipts, \<open>LogFilter\<close> the filter, \<open>BloomIndex\<close> the two-level index of
  block blooms, \<open>LogSearch\<close> that a search through the index misses no block.

  \<^bold>\<open>Not modelled.\<close> The trie database and the stores below it (the state takes a trie for its map); the
  second interpreter \<^verbatim>\<open>VM.cpp\<close>, which sits behind the EVMC library; the cryptography and the precompiled contracts, which
  call libraries; the block chain database, the block and block queue beyond what is named above, and the client,
  which are threads, clocks and databases around the modelled parts; the network, RPC and command line code,
  which is input and output; the genesis data, which is constants. Log output and tracing are left out everywhere.
\<close>

end
